(* ===== verification/Prelude.thy ===== *)
theory Prelude
  imports Complex_Main "HOL-Library.Multiset" "HOL-Library.List_Lexorder" "HOL-Library.Char_ord"
begin

text \<open>
  Shared material of the development: the JavaScript library functions the backend calls on
  arrays and strings (a stable \<open>Array.prototype.sort\<close> driven by a comparator,
  \<open>localeCompare\<close>, \<open>findIndex\<close>), the interface a comparator has to satisfy, and the
  collections that the component theories add their hints to.
\<close>

named_theorems battle_simps \<open>frame equations of the combat simulation store\<close>
named_theorems handler_simps \<open>evaluation of the guards and calls of the service handlers\<close>

subsection \<open>Comparators and the stable sort\<close>

text \<open>
  \<open>Array.prototype.sort\<close> is stable: elements the comparator does not separate keep their
  order. For a consistent comparator the stable sorted permutation is unique, so any stable
  algorithm models it; this one is insertion sort.
\<close>

fun js_insert :: "('a \<Rightarrow> 'a \<Rightarrow> int) \<Rightarrow> 'a \<Rightarrow> 'a list \<Rightarrow> 'a list" where
  "js_insert cmp x [] = [x]"
| "js_insert cmp x (y # ys) = (if cmp x y \<le> 0 then x # y # ys else y # js_insert cmp x ys)"

definition js_sort :: "('a \<Rightarrow> 'a \<Rightarrow> int) \<Rightarrow> 'a list \<Rightarrow> 'a list" where
  "js_sort cmp xs = foldr (js_insert cmp) xs []"

lemma js_sort_Nil [simp]: "js_sort cmp [] = []"
  by (simp add: js_sort_def)

lemma js_sort_Cons [simp]: "js_sort cmp (x # xs) = js_insert cmp x (js_sort cmp xs)"
  by (simp add: js_sort_def)

lemma mset_js_insert [simp]: "mset (js_insert cmp x xs) = add_mset x (mset xs)"
  by (induction xs) auto

lemma mset_js_sort [simp]: "mset (js_sort cmp xs) = mset xs"
  by (induction xs) auto

lemma set_js_sort [simp]: "set (js_sort cmp xs) = set xs"
  using mset_js_sort by (metis set_mset_mset)

lemma length_js_sort [simp]: "length (js_sort cmp xs) = length xs"
  using mset_js_sort by (metis size_mset)

lemma js_sort_empty_iff [simp]: "js_sort cmp xs = [] \<longleftrightarrow> xs = []"
  by (metis length_0_conv length_js_sort)

text \<open>
  What a caller of \<open>sort\<close> needs from its comparator: it decides every pair and is
  transitive. The laws follow for every client at once.
\<close>

locale comparator =
  fixes cmp :: "'a \<Rightarrow> 'a \<Rightarrow> int"
  assumes total: "cmp a b \<le> 0 \<or> cmp b a \<le> 0"
    and trans: "cmp a b \<le> 0 \<Longrightarrow> cmp b c \<le> 0 \<Longrightarrow> cmp a c \<le> 0"
begin

lemma sorted_insert:
  "sorted_wrt (\<lambda>a b. cmp a b \<le> 0) xs \<Longrightarrow>
   sorted_wrt (\<lambda>a b. cmp a b \<le> 0) (js_insert cmp x xs)"
proof (induction xs)
  case Nil
  then show ?case by simp
next
  case (Cons y ys)
  have mem: "set (js_insert cmp x ys) = insert x (set ys)"
    by (metis mset_js_insert set_mset_add_mset_insert set_mset_mset)
  show ?case
  proof (cases "cmp x y \<le> 0")
    case True
    with Cons.prems show ?thesis by (auto intro: trans)
  next
    case False
    with total have "cmp y x \<le> 0" by blast
    with Cons False show ?thesis by (auto simp: mem)
  qed
qed

lemma sorted_sort: "sorted_wrt (\<lambda>a b. cmp a b \<le> 0) (js_sort cmp xs)"
  by (induction xs) (auto intro: sorted_insert)

lemma first_least: "y \<in> set xs \<Longrightarrow> cmp (hd (js_sort cmp xs)) y \<le> 0"
proof -
  assume y: "y \<in> set xs"
  have refl: "cmp y y \<le> 0" using total [of y y] by simp
  have "y \<in> set (js_sort cmp xs)" using y by simp
  with sorted_sort [of xs] refl show ?thesis
    by (cases "js_sort cmp xs") auto
qed

lemma sorted_unique:
  assumes "sorted_wrt (\<lambda>a b. cmp a b \<le> 0) xs" and "sorted_wrt (\<lambda>a b. cmp a b \<le> 0) ys"
    and "mset xs = mset ys"
    and "\<And>a b. a \<in> set xs \<Longrightarrow> b \<in> set xs \<Longrightarrow> cmp a b \<le> 0 \<Longrightarrow> cmp b a \<le> 0 \<Longrightarrow> a = b"
  shows "xs = ys"
  using assms
proof (induction xs arbitrary: ys)
  case Nil
  then show ?case by simp
next
  case (Cons x xs)
  from Cons.prems(3) obtain y ys' where ys: "ys = y # ys'"
    by (cases ys) auto
  have sets: "set (x # xs) = set (y # ys')"
    using Cons.prems(3) ys by (metis set_mset_mset)
  have refl: "cmp z z \<le> 0" for z using total [of z z] by simp
  have "x \<in> set (y # ys')" and "y \<in> set (x # xs)"
    using sets by auto
  with Cons.prems(1,2) ys refl have "cmp x y \<le> 0" and "cmp y x \<le> 0"
    by auto
  with Cons.prems(4) [of x y] sets have xy: "x = y" by auto
  have "xs = ys'"
    using Cons.prems xy ys by (intro Cons.IH) auto
  with xy ys show ?case by simp
qed

lemma sort_permutation_invariant:
  assumes "mset xs = mset ys"
    and "\<And>a b. a \<in> set xs \<Longrightarrow> b \<in> set xs \<Longrightarrow> cmp a b \<le> 0 \<Longrightarrow> cmp b a \<le> 0 \<Longrightarrow> a = b"
  shows "js_sort cmp xs = js_sort cmp ys"
  by (rule sorted_unique) (use assms sorted_sort in auto)

end

text \<open>A comparator that compares images under a key function of any linear order.\<close>

definition cmp_key :: "('a \<Rightarrow> 'k :: linorder) \<Rightarrow> 'a \<Rightarrow> 'a \<Rightarrow> int" where
  "cmp_key f a b = (if f a < f b then -1 else if f a = f b then 0 else 1)"

lemma cmp_key_le [simp]: "cmp_key f a b \<le> 0 \<longleftrightarrow> f a \<le> f b"
  by (auto simp: cmp_key_def)

interpretation key_order: comparator "cmp_key f"
  by unfold_locales auto

subsection \<open>Strings\<close>

text \<open>
  \<open>String.prototype.localeCompare\<close> on the identifiers of the program: \<open>randomUUID()\<close>
  strings (lower-case hexadecimal digits and hyphens) and the \<open>p1-3\<close> style fallbacks of
  \<open>unitsFromBoard\<close>. On that alphabet the root collation orders hyphen, digits, letters, as
  the code units do.
\<close>

definition localeCompare :: "string \<Rightarrow> string \<Rightarrow> int" where
  "localeCompare = cmp_key id"

lemma localeCompare_le [simp]: "localeCompare a b \<le> 0 \<longleftrightarrow> a \<le> b"
  by (simp add: localeCompare_def)

lemma localeCompare_less [simp]: "localeCompare a b < 0 \<longleftrightarrow> a < b"
  by (auto simp: localeCompare_def cmp_key_def)

lemma localeCompare_eq [simp]: "localeCompare a b = 0 \<longleftrightarrow> a = b"
  by (auto simp: localeCompare_def cmp_key_def)

subsection \<open>Array helpers\<close>

text \<open>\<open>Array.prototype.findIndex\<close>, with \<open>None\<close> for \<open>-1\<close>.\<close>

fun findIndex :: "('a \<Rightarrow> bool) \<Rightarrow> 'a list \<Rightarrow> nat option" where
  "findIndex p [] = None"
| "findIndex p (x # xs) = (if p x then Some 0 else map_option Suc (findIndex p xs))"

lemma findIndex_SomeD:
  "findIndex p xs = Some i \<Longrightarrow> i < length xs \<and> p (xs ! i) \<and> (\<forall>j<i. \<not> p (xs ! j))"
proof (induction xs arbitrary: i)
  case Nil
  then show ?case by simp
next
  case (Cons x xs)
  then show ?case
    by (auto split: if_splits simp: less_Suc_eq_0_disj nth_Cons')
qed

lemma findIndex_NoneD: "findIndex p xs = None \<Longrightarrow> x \<in> set xs \<Longrightarrow> \<not> p x"
  by (induction xs) (auto split: if_splits)

lemma findIndex_None_iff: "findIndex p xs = None \<longleftrightarrow> (\<forall>x \<in> set xs. \<not> p x)"
  by (induction xs) auto

text \<open>\<open>xs[i]\<close> of a JavaScript array: \<open>undefined\<close> (here \<open>None\<close>) out of range.\<close>

definition js_nth :: "'a list \<Rightarrow> nat \<Rightarrow> 'a option" where
  "js_nth xs i = (if i < length xs then Some (xs ! i) else None)"

lemma js_nth_Some [simp]: "js_nth xs i = Some x \<longleftrightarrow> i < length xs \<and> xs ! i = x"
  by (auto simp: js_nth_def)

lemma js_nth_None [simp]: "js_nth xs i = None \<longleftrightarrow> length xs \<le> i"
  by (auto simp: js_nth_def)

lemma filter_Nil_iff: "filter p xs = [] \<longleftrightarrow> (\<forall>x \<in> set xs. \<not> p x)"
  by (induction xs) auto

lemma find_SomeD: "List.find p xs = Some x \<Longrightarrow> x \<in> set xs \<and> p x"
  by (induction xs) (auto split: if_splits)

lemma find_None_iff': "List.find p xs = None \<longleftrightarrow> (\<forall>x \<in> set xs. \<not> p x)"
  by (induction xs) auto

lemma sum_list_update_int:
  fixes f :: "'a \<Rightarrow> int"
  assumes "i < length xs"
  shows "sum_list (map f (xs[i := x])) = sum_list (map f xs) - f (xs ! i) + f x"
  using assms
proof (induction xs arbitrary: i)
  case Nil
  then show ?case by simp
next
  case (Cons y ys)
  then show ?case by (cases i) auto
qed

lemma fold_invariant:
  assumes "P s" and "\<And>x s. x \<in> set xs \<Longrightarrow> P s \<Longrightarrow> P (f x s)"
  shows "P (fold f xs s)"
  using assms by (induction xs arbitrary: s) auto

end
