(* ===== verification/Seeded_Rng.thy ===== *)
theory Seeded_Rng
  imports Prelude "HOL-Library.Word"
begin

text \<open>
  The two seeded generators of the backend: \<open>makeRng\<close> / \<open>rngInt\<close> of
  \<open>game/seeded-rng.ts\<close> (the tie-tick coin of the combat engine) and \<open>mulberry32\<close> of
  \<open>shop/shop.service.ts\<close> (the shop offers). Both are written over JavaScript numbers with
  the 32-bit operators; the first keeps an unsigned state (\<open>>>> 0\<close>), the second a signed one
  (\<open>| 0\<close>). They are modelled with exactly those conversions on \<open>int\<close> and then refined
  against one function on 32-bit words.
\<close>

unbundle bit_operations_syntax

subsection \<open>JavaScript's 32-bit operators on numbers\<close>

definition toUint32 :: "int \<Rightarrow> int" where
  "toUint32 x = take_bit 32 x"

definition toInt32 :: "int \<Rightarrow> int" where
  "toInt32 x = signed_take_bit 31 x"

definition js_xor :: "int \<Rightarrow> int \<Rightarrow> int" where
  "js_xor a b = toInt32 a XOR toInt32 b"

definition js_or :: "int \<Rightarrow> int \<Rightarrow> int" where
  "js_or a b = toInt32 a OR toInt32 b"

text \<open>\<open>a >>> n\<close>: unsigned shift right.\<close>

definition js_ushr :: "int \<Rightarrow> nat \<Rightarrow> int" where
  "js_ushr a n = drop_bit n (toUint32 a)"

definition imul :: "int \<Rightarrow> int \<Rightarrow> int" where
  "imul a b = toInt32 (toInt32 a * toInt32 b)"

lemma woi_toUint32 [simp]: "(word_of_int (toUint32 x) :: 32 word) = word_of_int x"
  by (simp add: toUint32_def word_of_int_eq_iff)

lemma woi_toInt32 [simp]: "(word_of_int (toInt32 x) :: 32 word) = word_of_int x"
  by (simp add: toInt32_def word_of_int_eq_iff take_bit_signed_take_bit)

lemma woi_xor: "(word_of_int (a XOR b) :: 32 word) = word_of_int a XOR word_of_int b"
  by (simp add: word_of_int_eq_iff bit_eq_iff bit_simps) 

lemma woi_or: "(word_of_int (a OR b) :: 32 word) = word_of_int a OR word_of_int b"
  by (simp add: bit_eq_iff bit_simps)

lemma woi_js_xor [simp]:
  "(word_of_int (js_xor a b) :: 32 word) = word_of_int a XOR word_of_int b"
  by (simp add: js_xor_def woi_xor)

lemma woi_js_or [simp]:
  "(word_of_int (js_or a b) :: 32 word) = word_of_int a OR word_of_int b"
  by (simp add: js_or_def woi_or)

lemma woi_js_ushr [simp]:
  "(word_of_int (js_ushr a n) :: 32 word) = drop_bit n (word_of_int a)"
  by (rule bit_word_eqI) (simp add: js_ushr_def toUint32_def bit_simps)

lemma woi_imul [simp]:
  "(word_of_int (imul a b) :: 32 word) = word_of_int a * word_of_int b"
  by (simp add: imul_def)

lemma toUint32_uint: "toUint32 x = uint (word_of_int x :: 32 word)"
  by (simp add: toUint32_def uint_word_of_int take_bit_eq_mod)

lemma toUint32_bounds: "0 \<le> toUint32 x \<and> toUint32 x < 2 ^ 32"
  using take_bit_int_less_exp [of 32 x] by (simp add: toUint32_def)

subsection \<open>\<open>makeRng\<close>: the combat engine's generator\<close>

text \<open>
  The closure's \<open>state\<close> variable is passed explicitly. A draw returns the numerator of the
  fraction the code returns: \<open>n\<close> stands for \<open>n / 4294967296\<close>, which a double holds exactly.
\<close>

definition makeRng :: "int \<Rightarrow> int" where
  "makeRng seed = toUint32 seed"

definition rngNext :: "int \<Rightarrow> int \<times> int" where
  "rngNext state =
     (let state' = toUint32 (state + 0x6d2b79f5);
          t0 = state';
          t1 = imul (js_xor t0 (js_ushr t0 15)) (js_or t0 1);
          t2 = js_xor t1 (t1 + imul (js_xor t1 (js_ushr t1 7)) (js_or t1 61))
      in (toUint32 (js_xor t2 (js_ushr t2 14)), state'))"

text \<open>\<open>Math.floor(rng() * (max - min + 1)) + min\<close>, on one draw \<open>n\<close>.\<close>

definition rngInt :: "int \<Rightarrow> int \<Rightarrow> int \<Rightarrow> int" where
  "rngInt n lo hi = (n * (hi - lo + 1)) div 4294967296 + lo"

subsection \<open>\<open>mulberry32\<close>: the shop's generator\<close>

definition mulberry32 :: "int \<Rightarrow> int \<times> int" where
  "mulberry32 seed =
     (let seed0 = toInt32 seed;
          seed' = toInt32 (seed0 + 0x6D2B79F5);
          v1 = imul (js_xor seed' (js_ushr seed' 15)) (js_or 1 seed');
          v2 = js_xor (v1 + imul (js_xor v1 (js_ushr v1 7)) (js_or 61 v1)) v1
      in (toUint32 (js_xor v2 (js_ushr v2 14)), seed'))"

subsection \<open>The common abstraction on 32-bit words\<close>

definition mulberry_mix :: "32 word \<Rightarrow> 32 word" where
  "mulberry_mix s =
     (let t = (s XOR drop_bit 15 s) * (s OR 1);
          t' = t XOR (t + (t XOR drop_bit 7 t) * (t OR 61))
      in t' XOR drop_bit 14 t')"

definition mulberry_step :: "32 word \<Rightarrow> 32 word \<times> 32 word" where
  "mulberry_step s = (mulberry_mix (s + 0x6D2B79F5), s + 0x6D2B79F5)"

text \<open>The first \<open>k\<close> draws of a generator given by its step function.\<close>

fun draws :: "('s \<Rightarrow> 'v \<times> 's) \<Rightarrow> nat \<Rightarrow> 's \<Rightarrow> 'v list" where
  "draws step 0 s = []"
| "draws step (Suc k) s = (case step s of (v, s') \<Rightarrow> v # draws step k s')"

lemma length_draws [simp]: "length (draws step k s) = k"
  by (induction k arbitrary: s) (auto split: prod.splits)

text \<open>
  A number-level generator that simulates the word-level one: its state denotes a word
  (\<open>den\<close>) and its step commutes with \<open>mulberry_step\<close>.
\<close>

locale mulberry_simulation =
  fixes step :: "int \<Rightarrow> int \<times> int"
  assumes out: "fst (step s) = uint (fst (mulberry_step (word_of_int s)))"
    and state: "word_of_int (snd (step s)) = snd (mulberry_step (word_of_int s))"
begin

lemma draws_refine: "draws step k s = map uint (draws mulberry_step k (word_of_int s))"
proof (induction k arbitrary: s)
  case 0
  then show ?case by simp
next
  case (Suc k)
  obtain v s' where st: "step s = (v, s')" by fastforce
  obtain w u where ms: "mulberry_step (word_of_int s) = (w, u)" by fastforce
  from out [of s] state [of s] st ms have "v = uint w" and "word_of_int s' = u" by auto
  with Suc.IH [of s'] st ms show ?case by simp
qed

lemma step_bounds: "0 \<le> fst (step s) \<and> fst (step s) < 4294967296"
  using uint_lt2p [of "fst (mulberry_step (word_of_int s))"] by (simp add: out)

lemma draw_bounds: "v \<in> set (draws step k s) \<Longrightarrow> 0 \<le> v \<and> v < 4294967296"
  by (auto simp: draws_refine intro: order_less_le_trans [OF uint_lt2p])

end

interpretation engine_rng: mulberry_simulation rngNext
proof
  fix s :: int
  show "fst (rngNext s) = uint (fst (mulberry_step (word_of_int s)))"
    by (simp add: rngNext_def mulberry_step_def mulberry_mix_def Let_def toUint32_uint)
  show "word_of_int (snd (rngNext s)) = snd (mulberry_step (word_of_int s))"
    by (simp add: rngNext_def mulberry_step_def Let_def)
qed

interpretation shop_rng: mulberry_simulation mulberry32
proof
  fix s :: int
  show "fst (mulberry32 s) = uint (fst (mulberry_step (word_of_int s)))"
    by (simp add: mulberry32_def mulberry_step_def mulberry_mix_def Let_def toUint32_uint
        ac_simps)
  show "word_of_int (snd (mulberry32 s)) = snd (mulberry_step (word_of_int s))"
    by (simp add: mulberry32_def mulberry_step_def Let_def)
qed

subsection \<open>Properties\<close>

text \<open>
  The combat engine's \<open>makeRng\<close> (unsigned state) and the shop's \<open>mulberry32\<close> (signed
  state, operands swapped) are the same generator: from the same seed they draw the same
  fractions, for any number of draws.
\<close>

theorem makeRng_equals_mulberry32:
  "draws rngNext k (makeRng seed) = draws mulberry32 k seed"
  by (simp add: engine_rng.draws_refine shop_rng.draws_refine makeRng_def)

text \<open>Every draw of either generator is a fraction in \<open>[0, 1)\<close>.\<close>

lemma rngNext_bounds: "0 \<le> fst (rngNext s) \<and> fst (rngNext s) < 4294967296"
  by (rule engine_rng.step_bounds)

lemma mulberry32_bounds: "0 \<le> fst (mulberry32 s) \<and> fst (mulberry32 s) < 4294967296"
  by (rule shop_rng.step_bounds)

text \<open>The state is a counter: after \<open>k\<close> draws it is \<open>seed + k * 0x6d2b79f5\<close> modulo \<open>2^32\<close>.\<close>

definition stateAfter :: "nat \<Rightarrow> int \<Rightarrow> int" where
  "stateAfter k s = ((\<lambda>x. snd (rngNext x)) ^^ k) s"

lemma toUint32_add_left: "toUint32 (toUint32 x + y) = toUint32 (x + y)"
  by (simp add: toUint32_def take_bit_eq_mod mod_add_left_eq)

lemma toUint32_idem [simp]: "toUint32 (toUint32 x) = toUint32 x"
  by (simp add: toUint32_def)

lemma stateAfter_counter:
  "stateAfter k (makeRng seed) = toUint32 (seed + int k * 0x6d2b79f5)"
proof (induction k)
  case 0
  show ?case by (simp add: stateAfter_def makeRng_def)
next
  case (Suc k)
  have "stateAfter (Suc k) (makeRng seed) = toUint32 (stateAfter k (makeRng seed) + 0x6d2b79f5)"
    by (simp add: stateAfter_def rngNext_def Let_def)
  also have "\<dots> = toUint32 (seed + int k * 0x6d2b79f5 + 0x6d2b79f5)"
    by (simp only: Suc.IH toUint32_add_left)
  finally show ?case by (simp add: algebra_simps)
qed

lemma odd_step_injective:
  fixes c :: int
  assumes "toUint32 (s + int i * c) = toUint32 (s + int j * c)" and "coprime c (2 ^ 32)"
    and "i < 2 ^ 32" and "j < 2 ^ 32"
  shows "i = j"
proof -
  have "2 ^ 32 dvd ((s + int i * c) - (s + int j * c))"
    using assms(1) unfolding toUint32_def take_bit_eq_mod by (rule mod_eq_dvd_iff [THEN iffD1])
  then have "2 ^ 32 dvd (int i - int j) * c" by (simp add: algebra_simps)
  with assms(2) have "2 ^ 32 dvd (int i - int j)"
    by (simp add: coprime_commute coprime_dvd_mult_left_iff)
  moreover have "\<bar>int i - int j\<bar> < 2 ^ 32" using assms(3,4) by simp
  ultimately have "int i - int j = 0"
    using dvd_imp_le_int [of "int i - int j" "2 ^ 32"] by linarith
  then show ?thesis by simp
qed

lemma odd_increment: "coprime (0x6d2b79f5 :: int) (2 ^ 32)"
  unfolding coprime_power_right_iff by simp

text \<open>
  The engine's generator has full period: the states it passes through in its first
  \<open>2^32\<close> draws are pairwise different, whatever the seed.
\<close>

theorem makeRng_full_period:
  assumes "i < 2 ^ 32" and "j < 2 ^ 32"
    and "stateAfter i (makeRng seed) = stateAfter j (makeRng seed)"
  shows "i = j"
  using odd_step_injective [OF _ odd_increment] assms by (simp add: stateAfter_counter)

theorem makeRng_full_period_witness:
  "stateAfter 0 (makeRng 7) \<noteq> stateAfter 1 (makeRng 7)"
  using makeRng_full_period [of 0 1 7] by auto

lemma rngInt_range:
  assumes "0 \<le> n" "n < 4294967296" "lo \<le> hi"
  shows "lo \<le> rngInt n lo hi \<and> rngInt n lo hi \<le> hi"
proof -
  have "0 \<le> (n * (hi - lo + 1)) div 4294967296"
    using assms by (simp add: pos_imp_zdiv_nonneg_iff)
  moreover have "n * (hi - lo + 1) < 4294967296 * (hi - lo + 1)"
    using assms by (intro mult_strict_right_mono) auto
  then have "(n * (hi - lo + 1)) div 4294967296 < hi - lo + 1"
    by (simp add: div_less_iff_less_mult mult.commute)
  ultimately show ?thesis by (simp add: rngInt_def)
qed

lemma rngInt_hits:
  assumes "lo \<le> x" "x \<le> hi" "hi - lo < 4294967296"
  shows "\<exists>n. 0 \<le> n \<and> n < 4294967296 \<and> rngInt n lo hi = x"
proof -
  define r where "r = hi - lo + 1"
  define d where "d = x - lo"
  define n where "n = (d * 4294967296 + r - 1) div r"
  have r: "0 < r" "r \<le> 4294967296" and d: "0 \<le> d" "d \<le> r - 1"
    using assms by (auto simp: r_def d_def)
  define q where "q = (d * 4294967296 + r - 1) mod r"
  have q: "0 \<le> q" "q < r" using r by (auto simp: q_def)
  have nr: "n * r = d * 4294967296 + r - 1 - q"
    unfolding n_def q_def by (simp add: minus_mod_eq_div_mult [symmetric])
  have "(n * r) div 4294967296 = d"
    using nr q r by (intro int_div_pos_eq [of _ _ _ "r - 1 - q"]) auto
  moreover have "0 \<le> n" using d r by (simp add: n_def pos_imp_zdiv_nonneg_iff)
  moreover have "n * r < 4294967296 * r"
    using nr q r d by linarith
  then have "n < 4294967296" using r by simp
  ultimately show ?thesis
    unfolding rngInt_def r_def [symmetric] using d_def by auto
qed

text \<open>
  \<open>rngInt\<close> maps a draw of the generator into the inclusive range \<open>[min, max]\<close>, and while the
  range has at most \<open>2^32\<close> members no member is unreachable: each is the image of a fraction the
  generator's output type allows.
\<close>

theorem rngInt_correct:
  assumes "lo \<le> hi" and "hi - lo < 4294967296"
  shows "rngInt (fst (rngNext s)) lo hi \<in> {lo..hi} \<and>
    (\<lambda>n. rngInt n lo hi) ` {0..<4294967296} = {lo..hi}"
proof -
  have "(\<lambda>n. rngInt n lo hi) ` {0..<4294967296} = {lo..hi}"
    using rngInt_range assms(1) rngInt_hits [OF _ _ assms(2)] by fastforce
  then show ?thesis using rngInt_range [OF _ _ assms(1)] rngNext_bounds by auto
qed

theorem rngInt_correct_witness:
  "rngInt (fst (rngNext 5)) 1 6 \<in> {1..6} \<and>
   (\<lambda>n. rngInt n 1 6) ` {0..<4294967296} = {1..6}"
  using rngInt_correct [of 1 6 5] by simp

end
