(* ===== verification/Combat_Types.thy ===== *)
theory Combat_Types
  imports Prelude
begin

text \<open>
  The data of the combat engine: \<open>game/types.ts\<close> and \<open>game/constants.ts\<close>. JavaScript shares the
  mutable \<open>UnitInstance\<close> objects between the side arrays, the per-tick list of acting units and
  the ability helpers. Here the two side arrays are the store and a unit object is referred to by
  its position in them (\<open>uref\<close>), which is its object identity: the code never inserts or removes
  units during a battle.
\<close>

subsection \<open>Units and their base stats\<close>

datatype UnitId = Fighter | Healer | Ranger | Tank

datatype Side = P1 | P2

text \<open>Star levels are JavaScript numbers; the type \<open>0 | 1 | 2\<close> is the guard \<open>isStar\<close>.\<close>

type_synonym Star = nat

record UnitBaseStats =
  base_hp :: int
  base_atk :: int
  base_spd :: int

fun UNIT_BASE_STATS :: "UnitId \<Rightarrow> UnitBaseStats" where
  "UNIT_BASE_STATS Fighter = \<lparr>base_hp = 100, base_atk = 15, base_spd = 20\<rparr>"
| "UNIT_BASE_STATS Healer = \<lparr>base_hp = 70, base_atk = 6, base_spd = 50\<rparr>"
| "UNIT_BASE_STATS Ranger = \<lparr>base_hp = 60, base_atk = 12, base_spd = 67\<rparr>"
| "UNIT_BASE_STATS Tank = \<lparr>base_hp = 150, base_atk = 8, base_spd = 0\<rparr>"

definition MAX_CYCLES :: nat where "MAX_CYCLES = 30"

definition TICKS_PER_CYCLE :: int where "TICKS_PER_CYCLE = 100"

text \<open>\<open>Math.round(spd * SLOW_MULTIPLIER)\<close> with multiplier 0.7: round half up, in tenths.\<close>

definition slowedSpd :: "int \<Rightarrow> int" where
  "slowedSpd spd = max 0 ((7 * spd + 5) div 10)"

text \<open>\<open>LIFESTEAL_RATE\<close> in percent: 0, 5 and 10 for the three stars.\<close>

definition LIFESTEAL_RATE :: "Star \<Rightarrow> int" where
  "LIFESTEAL_RATE s = (if s = 1 then 5 else if s = 2 then 10 else 0)"

definition pierceDamage :: "int \<Rightarrow> int" where
  "pierceDamage primary = primary div 10"

definition HEAL_AMOUNT :: int where "HEAL_AMOUNT = 10"

text \<open>\<open>Math.floor(maxHp * REVIVE_HP_FRACTION)\<close> with fraction one half.\<close>

definition reviveHp :: "int \<Rightarrow> int" where
  "reviveHp mx = mx div 2"

text \<open>\<open>Math.floor(atk * mult)\<close> with multipliers 1, 1.5 and 2.\<close>

definition atkFor :: "UnitId \<Rightarrow> Star \<Rightarrow> int" where
  "atkFor u s =
     (base_atk (UNIT_BASE_STATS u) * (if s = 2 then 4 else if s = 1 then 3 else 2)) div 2"

definition spdFor :: "UnitId \<Rightarrow> int" where
  "spdFor u = base_spd (UNIT_BASE_STATS u)"

definition actsOnTick :: "int \<Rightarrow> int \<Rightarrow> bool" where
  "actsOnTick spd tick =
     (let cooldown = TICKS_PER_CYCLE - spd
      in if cooldown \<le> 0 then tick = TICKS_PER_CYCLE else tick mod cooldown = 0)"

lemma atkFor_pos: "0 < atkFor u s"
  by (cases u) (auto simp: atkFor_def)

lemma spdFor_range: "0 \<le> spdFor u \<and> spdFor u \<le> 67"
  by (cases u) (auto simp: spdFor_def)

lemma slowedSpd_range: "0 \<le> spd \<Longrightarrow> 0 \<le> slowedSpd spd \<and> slowedSpd spd \<le> spd"
  by (auto simp: slowedSpd_def)

subsection \<open>Unit instances, the board store and object references\<close>

record UnitInstance =
  u_instanceId :: string
  u_unitId :: UnitId
  u_star :: Star
  u_hp :: int
  u_maxHp :: int
  u_slot :: nat
  u_side :: Side
  u_alive :: bool
  u_revivedThisRound :: "bool option"
  u_slowActive :: "bool option"
  u_slowUntilHealerAct :: "string option"
  u_effectiveSpd :: "int option"

record Position =
  pos_row :: nat
  pos_col :: nat

definition slotToPosition :: "nat \<Rightarrow> Position" where
  "slotToPosition s = \<lparr>pos_row = s div 3, pos_col = s mod 3\<rparr>"

record BattleSim =
  p1Units :: "UnitInstance list"
  p2Units :: "UnitInstance list"

text \<open>
  \<open>bs_rng\<close> is the optional injected generator, reduced to what a battle asks of it: its first draw,
  as the numerator of a fraction over \<open>2^32\<close>. \<open>matchSeed\<close> is carried along and read by nothing.
\<close>

record BattleState =
  bs_p1Units :: "UnitInstance list"
  bs_p2Units :: "UnitInstance list"
  bs_roundSeed :: int
  bs_matchSeed :: string
  bs_rng :: "int option"

fun enemySideOf :: "Side \<Rightarrow> Side" where
  "enemySideOf P1 = P2"
| "enemySideOf P2 = P1"

fun unitsOf :: "BattleSim \<Rightarrow> Side \<Rightarrow> UnitInstance list" where
  "unitsOf sim P1 = p1Units sim"
| "unitsOf sim P2 = p2Units sim"

type_synonym uref = "Side \<times> nat"

definition unitAt :: "BattleSim \<Rightarrow> uref \<Rightarrow> UnitInstance" where
  "unitAt sim r = unitsOf sim (fst r) ! snd r"

definition validRef :: "BattleSim \<Rightarrow> uref \<Rightarrow> bool" where
  "validRef sim r \<longleftrightarrow> snd r < length (unitsOf sim (fst r))"

fun setUnit :: "BattleSim \<Rightarrow> uref \<Rightarrow> UnitInstance \<Rightarrow> BattleSim" where
  "setUnit sim (P1, i) u = sim\<lparr>p1Units := (p1Units sim)[i := u]\<rparr>"
| "setUnit sim (P2, i) u = sim\<lparr>p2Units := (p2Units sim)[i := u]\<rparr>"

definition refsOf :: "BattleSim \<Rightarrow> Side \<Rightarrow> uref list" where
  "refsOf sim s = map (Pair s) [0..<length (unitsOf sim s)]"

text \<open>The spread \<open>[...sim.p1Units, ...sim.p2Units]\<close>.\<close>

definition allRefs :: "BattleSim \<Rightarrow> uref list" where
  "allRefs sim = refsOf sim P1 @ refsOf sim P2"

lemma enemySideOf_neq [simp]: "enemySideOf s \<noteq> s" "s \<noteq> enemySideOf s"
  by (cases s; simp)+

lemma enemySideOf_twice [simp]: "enemySideOf (enemySideOf s) = s"
  by (cases s) auto

lemma unitsOf_setUnit [battle_simps]:
  "unitsOf (setUnit sim r u) s = (if s = fst r then (unitsOf sim s)[snd r := u] else unitsOf sim s)"
  by (cases r; cases s; cases "fst r") auto

lemma length_setUnit [simp, battle_simps]:
  "length (unitsOf (setUnit sim r u) s) = length (unitsOf sim s)"
  by (simp add: unitsOf_setUnit)

lemma validRef_setUnit [simp, battle_simps]: "validRef (setUnit sim r u) q = validRef sim q"
  by (simp add: validRef_def)

lemma unitAt_setUnit [battle_simps]:
  "validRef sim r \<Longrightarrow> unitAt (setUnit sim r u) q = (if q = r then u else unitAt sim q)"
  by (cases q; cases r) (auto simp: unitAt_def unitsOf_setUnit validRef_def)

lemma refsOf_setUnit [simp, battle_simps]: "refsOf (setUnit sim r u) s = refsOf sim s"
  by (simp add: refsOf_def)

lemma allRefs_setUnit [simp, battle_simps]: "allRefs (setUnit sim r u) = allRefs sim"
  by (simp add: allRefs_def)

lemma set_refsOf [simp]: "r \<in> set (refsOf sim s) \<longleftrightarrow> fst r = s \<and> validRef sim r"
  by (cases r) (auto simp: refsOf_def validRef_def)

lemma set_allRefs [simp]: "r \<in> set (allRefs sim) \<longleftrightarrow> validRef sim r"
  by (cases "fst r") (auto simp: allRefs_def)

lemma distinct_refsOf [simp]: "distinct (refsOf sim s)"
  by (simp add: refsOf_def distinct_map inj_on_def)

lemma distinct_allRefs [simp]: "distinct (allRefs sim)"
  by (auto simp: allRefs_def)

lemma unitAt_in_unitsOf: "validRef sim r \<Longrightarrow> unitAt sim r \<in> set (unitsOf sim (fst r))"
  by (auto simp: validRef_def unitAt_def)

lemma unitsOf_ref: "u \<in> set (unitsOf sim s) \<Longrightarrow> \<exists>r. fst r = s \<and> validRef sim r \<and> unitAt sim r = u"
  by (metis fst_conv in_set_conv_nth snd_conv unitAt_def validRef_def)

subsection \<open>Snapshots and events\<close>

record UnitSnapshot =
  sn_instanceId :: string
  sn_unitId :: UnitId
  sn_star :: Star
  sn_hp :: int
  sn_maxHp :: int
  sn_slot :: nat
  sn_side :: Side
  sn_alive :: bool

definition snapshotUnit :: "UnitInstance \<Rightarrow> UnitSnapshot" where
  "snapshotUnit u =
     \<lparr>sn_instanceId = u_instanceId u, sn_unitId = u_unitId u, sn_star = u_star u, sn_hp = u_hp u,
      sn_maxHp = u_maxHp u, sn_slot = u_slot u, sn_side = u_side u, sn_alive = u_alive u\<rparr>"

definition snapshotAllUnits :: "BattleSim \<Rightarrow> UnitSnapshot list" where
  "snapshotAllUnits sim = map snapshotUnit (p1Units sim @ p2Units sim)"

text \<open>
  The positional fields every event repeats for each unit it names (\<open>attackerSide\<close>,
  \<open>attackerSlot\<close>, \<open>attackerUnitId\<close>, \<open>attackerStar\<close> and so on), bundled per unit.
\<close>

record ActorFields =
  af_side :: Side
  af_slot :: nat
  af_unitId :: UnitId
  af_star :: Star

definition actorFields :: "UnitInstance \<Rightarrow> ActorFields" where
  "actorFields u =
     \<lparr>af_side = u_side u, af_slot = u_slot u, af_unitId = u_unitId u, af_star = u_star u\<rparr>"

text \<open>
  Arguments in the source's field order: cycle, tick, the instance ids, the amounts, then the
  actor fields of the units named.
\<close>

datatype CombatEvent =
    AttackEv nat int string string int int ActorFields ActorFields
  | DeathEv nat int string ActorFields
  | ReviveEv nat int string int ActorFields
  | HealEv nat int string string int int ActorFields ActorFields
  | LifestealEv nat int string int int ActorFields
  | PierceEv nat int string string int ActorFields ActorFields
  | SlowEv nat int string string ActorFields ActorFields
  | CycleEndEv nat
  | BattleEndEv nat "Side option"

text \<open>An event with its \<open>unitStates\<close> snapshot attached.\<close>

type_synonym SnapEvent = "CombatEvent \<times> UnitSnapshot list"

definition attachSnapshot :: "BattleSim \<Rightarrow> CombatEvent \<Rightarrow> SnapEvent" where
  "attachSnapshot sim e = (e, snapshotAllUnits sim)"

text \<open>What the ability helpers thread through: the shared unit objects and the event array.\<close>

type_synonym act_state = "BattleSim \<times> CombatEvent list"

end
