(* ===== verification/Targeting.thy ===== *)
theory Targeting
  imports Combat_Types
begin

text \<open>
  \<open>pickTarget\<close> of \<open>game/targeting.ts\<close>: which enemy a unit attacks. Units are named by reference;
  the filters, the row search and the comparator read them in the store.
\<close>

definition colOf :: "BattleSim \<Rightarrow> uref \<Rightarrow> nat" where
  "colOf sim r = u_slot (unitAt sim r) mod 3"

definition rowOf :: "BattleSim \<Rightarrow> uref \<Rightarrow> nat" where
  "rowOf sim r = u_slot (unitAt sim r) div 3"

text \<open>The front row of the given units if any, else the middle, else the back.\<close>

fun firstNonEmptyOf :: "(nat \<Rightarrow> uref list) \<Rightarrow> nat list \<Rightarrow> uref list" where
  "firstNonEmptyOf f [] = []"
| "firstNonEmptyOf f (k # ks) = (if f k \<noteq> [] then f k else firstNonEmptyOf f ks)"

definition firstNonEmptyRow :: "BattleSim \<Rightarrow> uref list \<Rightarrow> uref list" where
  "firstNonEmptyRow sim laneUnits =
     firstNonEmptyOf (\<lambda>row. filter (\<lambda>u. rowOf sim u = row) laneUnits) [0, 1, 2]"

definition positionCmp :: "BattleSim \<Rightarrow> uref \<Rightarrow> uref \<Rightarrow> int" where
  "positionCmp sim a b =
     (if colOf sim a \<noteq> colOf sim b then int (colOf sim a) - int (colOf sim b)
      else if rowOf sim a \<noteq> rowOf sim b then int (rowOf sim a) - int (rowOf sim b)
      else localeCompare (u_instanceId (unitAt sim a)) (u_instanceId (unitAt sim b)))"

definition byPositionThenId :: "BattleSim \<Rightarrow> uref list \<Rightarrow> uref list" where
  "byPositionThenId sim us = js_sort (positionCmp sim) us"

text \<open>\<open>reduce\<close> without an initial value, on the non-empty sorted copy.\<close>

definition lowestHp :: "BattleSim \<Rightarrow> uref list \<Rightarrow> uref" where
  "lowestHp sim us =
     (let s = byPositionThenId sim us
      in foldl (\<lambda>a b. if u_hp (unitAt sim b) < u_hp (unitAt sim a) then b else a) (hd s) (tl s))"

definition aliveEnemies :: "BattleSim \<Rightarrow> UnitInstance \<Rightarrow> uref list" where
  "aliveEnemies sim attacker =
     filter (\<lambda>r. u_alive (unitAt sim r)) (refsOf sim (enemySideOf (u_side attacker)))"

text \<open>The lane rules: same lane first, then lanes 0, 1, 2, each front row first.\<close>

definition laneCandidates :: "BattleSim \<Rightarrow> UnitInstance \<Rightarrow> uref list \<Rightarrow> uref list" where
  "laneCandidates sim attacker enemies =
     (let sameLane = filter (\<lambda>e. colOf sim e = u_slot attacker mod 3) enemies;
          candidates = firstNonEmptyRow sim sameLane
      in if candidates = []
         then firstNonEmptyOf
                (\<lambda>col. firstNonEmptyRow sim (filter (\<lambda>e. colOf sim e = col) enemies)) [0, 1, 2]
         else candidates)"

definition pickTarget :: "UnitInstance \<Rightarrow> BattleSim \<Rightarrow> uref option" where
  "pickTarget attacker sim =
     (let enemies = aliveEnemies sim attacker in
      if enemies = [] then None
      else if u_unitId attacker = Ranger \<and> u_star attacker = 2 then Some (lowestHp sim enemies)
      else
        case (if u_unitId attacker = Fighter \<or> u_unitId attacker = Tank \<or> u_unitId attacker = Healer
              then List.find (\<lambda>e. u_unitId (unitAt sim e) = Tank \<and> u_star (unitAt sim e) = 2) enemies
              else None) of
          Some tank2 \<Rightarrow> Some tank2
        | None \<Rightarrow>
            (let candidates = laneCandidates sim attacker enemies in
             if candidates = [] then None
             else if u_unitId attacker = Ranger then Some (lowestHp sim candidates)
             else Some (hd (byPositionThenId sim candidates))))"

subsection \<open>Lemmas\<close>

text \<open>The comparator is the lexicographic order on (column, row, instance id).\<close>

interpretation position_order: comparator "positionCmp sim"
  by unfold_locales (auto simp: positionCmp_def split: if_splits)

lemma set_byPositionThenId [simp]: "set (byPositionThenId sim us) = set us"
  by (simp add: byPositionThenId_def)

lemma byPositionThenId_Nil [simp]: "byPositionThenId sim us = [] \<longleftrightarrow> us = []"
  by (simp add: byPositionThenId_def)

lemma hd_byPositionThenId: "us \<noteq> [] \<Longrightarrow> hd (byPositionThenId sim us) \<in> set us"
  by (metis byPositionThenId_Nil hd_in_set set_byPositionThenId)

lemma foldl_min_in:
  "foldl (\<lambda>a b. if f b < f a then b else a) x xs \<in> insert x (set xs)"
proof (induction xs arbitrary: x)
  case Nil
  then show ?case by simp
next
  case (Cons z zs)
  from Cons.IH [of "if f z < f x then z else x"] show ?case
    by (auto split: if_splits)
qed

lemma foldl_min_le:
  fixes f :: "'a \<Rightarrow> int"
  shows "y \<in> insert x (set xs) \<Longrightarrow> f (foldl (\<lambda>a b. if f b < f a then b else a) x xs) \<le> f y"
proof (induction xs arbitrary: x y)
  case Nil
  then show ?case by simp
next
  case (Cons z zs)
  let ?x = "if f z < f x then z else x"
  have step: "f (foldl (\<lambda>a b. if f b < f a then b else a) ?x zs) \<le> f ?x"
    by (rule Cons.IH [of ?x ?x]) simp
  show ?case
  proof (cases "y \<in> set zs")
    case True
    then show ?thesis using Cons.IH [of y ?x] by simp
  next
    case False
    with Cons.prems have "y = x \<or> y = z" by auto
    with step show ?thesis by (auto split: if_splits)
  qed
qed

lemma lowestHp_in: "us \<noteq> [] \<Longrightarrow> lowestHp sim us \<in> set us"
proof -
  assume ne: "us \<noteq> []"
  let ?s = "byPositionThenId sim us"
  have "?s \<noteq> []" using ne by simp
  then have "insert (hd ?s) (set (tl ?s)) = set us"
    by (metis list.collapse list.simps(15) set_byPositionThenId)
  then show ?thesis
    using foldl_min_in [of "\<lambda>r. u_hp (unitAt sim r)" "hd ?s" "tl ?s"]
    by (simp add: lowestHp_def Let_def)
qed

lemma lowestHp_le: "r \<in> set us \<Longrightarrow> u_hp (unitAt sim (lowestHp sim us)) \<le> u_hp (unitAt sim r)"
proof -
  assume r: "r \<in> set us"
  let ?s = "byPositionThenId sim us"
  have "?s \<noteq> []" using r by auto
  then have "insert (hd ?s) (set (tl ?s)) = set us"
    by (metis list.collapse list.simps(15) set_byPositionThenId)
  then show ?thesis
    using r foldl_min_le [of r "hd ?s" "tl ?s" "\<lambda>r. u_hp (unitAt sim r)"]
    by (simp add: lowestHp_def Let_def)
qed

lemma firstNonEmptyOf_set: "set (firstNonEmptyOf f ks) \<subseteq> (\<Union>k \<in> set ks. set (f k))"
  by (induction ks) auto

lemma firstNonEmptyOf_Nil: "firstNonEmptyOf f ks = [] \<longleftrightarrow> (\<forall>k \<in> set ks. f k = [])"
  by (induction ks) auto

lemma firstNonEmptyRow_sub: "set (firstNonEmptyRow sim us) \<subseteq> set us"
  using firstNonEmptyOf_set [of "\<lambda>row. filter (\<lambda>u. rowOf sim u = row) us" "[0, 1, 2]"]
  by (auto simp: firstNonEmptyRow_def)

lemma firstNonEmptyRow_Nil:
  assumes "\<And>r. r \<in> set us \<Longrightarrow> rowOf sim r < 3"
  shows "firstNonEmptyRow sim us = [] \<longleftrightarrow> us = []"
proof -
  have "rowOf sim r \<in> set [0, 1, 2]" if "r \<in> set us" for r
    using assms [OF that] by auto
  then show ?thesis
    unfolding firstNonEmptyRow_def firstNonEmptyOf_Nil filter_Nil_iff
    by (metis list.set_intros(1) list.set(1) empty_iff neq_Nil_conv)
qed

lemma firstNonEmptyOf_sub: "(\<And>k. set (f k) \<subseteq> S) \<Longrightarrow> set (firstNonEmptyOf f ks) \<subseteq> S"
  by (induction ks) auto

lemma laneCandidates_sub: "set (laneCandidates sim a es) \<subseteq> set es"
proof -
  have "set (firstNonEmptyRow sim (filter p es)) \<subseteq> set es" for p
    using firstNonEmptyRow_sub [of sim "filter p es"] by auto
  then show ?thesis
    by (simp add: laneCandidates_def Let_def firstNonEmptyOf_sub)
qed

text \<open>A slot below 9 puts the unit in one of the three rows, so a lane never comes back empty.\<close>

definition slotsOk :: "BattleSim \<Rightarrow> bool" where
  "slotsOk sim \<longleftrightarrow> (\<forall>r. validRef sim r \<longrightarrow> u_slot (unitAt sim r) < 9)"

lemma slotsOkD: "slotsOk sim \<Longrightarrow> validRef sim r \<Longrightarrow> u_slot (unitAt sim r) < 9"
  by (cases r) (simp add: slotsOk_def)

lemma laneCandidates_nonempty:
  assumes "slotsOk sim" and "\<And>r. r \<in> set es \<Longrightarrow> validRef sim r" and "es \<noteq> []"
  shows "laneCandidates sim a es \<noteq> []"
proof -
  have row: "rowOf sim r < 3" if "r \<in> set es" for r
    using slotsOkD [OF assms(1) assms(2) [OF that]] unfolding rowOf_def
    by (intro less_mult_imp_div_less) auto
  obtain e where e: "e \<in> set es" using assms(3) by (cases es) auto
  have "colOf sim e \<in> set [0, 1, 2]" by (auto simp: colOf_def)
  moreover have "firstNonEmptyRow sim (filter (\<lambda>x. colOf sim x = colOf sim e) es) \<noteq> []"
    using e row by (subst firstNonEmptyRow_Nil) (auto simp: filter_Nil_iff)
  ultimately have "firstNonEmptyOf
      (\<lambda>col. firstNonEmptyRow sim (filter (\<lambda>x. colOf sim x = col) es)) [0, 1, 2] \<noteq> []"
    unfolding firstNonEmptyOf_Nil by blast
  then show ?thesis by (simp add: laneCandidates_def Let_def)
qed

lemma aliveEnemies_iff [simp]:
  "r \<in> set (aliveEnemies sim a) \<longleftrightarrow>
   fst r = enemySideOf (u_side a) \<and> validRef sim r \<and> u_alive (unitAt sim r)"
  by (auto simp: aliveEnemies_def)

text \<open>The four ways a target can be chosen.\<close>

lemma pickTarget_cases:
  assumes "pickTarget a sim = Some t"
  obtains (global_lowest) "u_unitId a = Ranger" "u_star a = 2" "aliveEnemies sim a \<noteq> []"
      "t = lowestHp sim (aliveEnemies sim a)"
  | (prioritized) "u_unitId a \<noteq> Ranger" "u_unitId (unitAt sim t) = Tank" "u_star (unitAt sim t) = 2"
      "t \<in> set (aliveEnemies sim a)"
  | (lane_lowest) "u_unitId a = Ranger" "laneCandidates sim a (aliveEnemies sim a) \<noteq> []"
      "t = lowestHp sim (laneCandidates sim a (aliveEnemies sim a))"
  | (lane_first) "u_unitId a \<noteq> Ranger" "laneCandidates sim a (aliveEnemies sim a) \<noteq> []"
      "t = hd (byPositionThenId sim (laneCandidates sim a (aliveEnemies sim a)))"
proof (cases "List.find (\<lambda>e. u_unitId (unitAt sim e) = Tank \<and> u_star (unitAt sim e) = 2)
    (aliveEnemies sim a)")
  case None
  with assms that show ?thesis
    by (simp add: pickTarget_def Let_def split: if_splits)
next
  case (Some t2)
  note t2 = find_SomeD [OF Some]
  show ?thesis
  proof (cases "u_unitId a")
    case Ranger
    with assms that show ?thesis by (simp add: pickTarget_def Let_def split: if_splits)
  qed (use assms that Some t2 in \<open>simp_all add: pickTarget_def Let_def split: if_splits\<close>)
qed

lemma pickTarget_in: "pickTarget a sim = Some t \<Longrightarrow> t \<in> set (aliveEnemies sim a)"
proof (erule pickTarget_cases)
  assume "aliveEnemies sim a \<noteq> []" "t = lowestHp sim (aliveEnemies sim a)"
  then show ?thesis using lowestHp_in by blast
next
  assume "laneCandidates sim a (aliveEnemies sim a) \<noteq> []"
    "t = lowestHp sim (laneCandidates sim a (aliveEnemies sim a))"
  then show ?thesis using lowestHp_in laneCandidates_sub by blast
next
  assume "laneCandidates sim a (aliveEnemies sim a) \<noteq> []"
    "t = hd (byPositionThenId sim (laneCandidates sim a (aliveEnemies sim a)))"
  then show ?thesis using hd_byPositionThenId laneCandidates_sub by blast
qed

lemma pickTarget_SomeD:
  "pickTarget a sim = Some t \<Longrightarrow>
   fst t = enemySideOf (u_side a) \<and> validRef sim t \<and> u_alive (unitAt sim t)"
  using pickTarget_in by fastforce

lemma pickTarget_None_iff:
  assumes "slotsOk sim"
  shows "pickTarget a sim = None \<longleftrightarrow> aliveEnemies sim a = []"
proof
  assume none: "pickTarget a sim = None"
  show "aliveEnemies sim a = []"
  proof (rule ccontr)
    assume ne: "aliveEnemies sim a \<noteq> []"
    have "laneCandidates sim a (aliveEnemies sim a) \<noteq> []"
      by (rule laneCandidates_nonempty [OF assms _ ne]) simp
    with none ne show False
      by (auto simp: pickTarget_def Let_def split: if_splits option.splits)
  qed
qed (simp add: pickTarget_def)

subsection \<open>The lane rule as an abstract specification\<close>

text \<open>
  Independently of the scan order of the code: the lane attacked is the attacker's own column if
  an enemy stands there, else the lowest occupied column; within it the frontmost enemies are the
  candidates.
\<close>

definition targetLane :: "BattleSim \<Rightarrow> UnitInstance \<Rightarrow> uref set \<Rightarrow> nat" where
  "targetLane sim a es =
     (if \<exists>e \<in> es. colOf sim e = u_slot a mod 3 then u_slot a mod 3 else Min (colOf sim ` es))"

definition frontmost :: "BattleSim \<Rightarrow> UnitInstance \<Rightarrow> uref set \<Rightarrow> uref set" where
  "frontmost sim a es =
     {e \<in> es. colOf sim e = targetLane sim a es \<and>
        (\<forall>e' \<in> es. colOf sim e' = targetLane sim a es \<longrightarrow> rowOf sim e \<le> rowOf sim e')}"

lemma firstNonEmptyOf_least:
  assumes "sorted_wrt (<) ks" and "firstNonEmptyOf f ks \<noteq> []"
  shows "\<exists>k \<in> set ks. firstNonEmptyOf f ks = f k \<and> f k \<noteq> [] \<and> (\<forall>j \<in> set ks. j < k \<longrightarrow> f j = [])"
  using assms by (induction ks) (auto split: if_splits)

lemma firstNonEmptyRow_set:
  assumes "\<And>r. r \<in> set us \<Longrightarrow> rowOf sim r < 3"
  shows "set (firstNonEmptyRow sim us) =
    {u \<in> set us. \<forall>v \<in> set us. rowOf sim u \<le> rowOf sim v}"
proof (cases "us = []")
  case True
  then show ?thesis by (simp add: firstNonEmptyRow_def)
next
  case False
  let ?f = "\<lambda>row. filter (\<lambda>u. rowOf sim u = row) us"
  have rows: "rowOf sim r \<in> set [0, 1, 2]" if "r \<in> set us" for r
    using assms [OF that] by auto
  have "firstNonEmptyOf ?f [0, 1, 2] \<noteq> []"
    using False firstNonEmptyRow_Nil [OF assms] by (simp add: firstNonEmptyRow_def)
  from firstNonEmptyOf_least [OF _ this] obtain k where
    k: "firstNonEmptyOf ?f [0, 1, 2] = ?f k" "?f k \<noteq> []"
    and least: "\<And>j. j \<in> set [0, 1, 2] \<Longrightarrow> j < k \<Longrightarrow> ?f j = []"
    by auto
  from k(2) obtain w where w: "w \<in> set us" "rowOf sim w = k" by (auto simp: filter_Nil_iff)
  have "k \<le> rowOf sim v" if "v \<in> set us" for v
  proof (rule ccontr)
    assume "\<not> k \<le> rowOf sim v"
    with least [OF rows [OF that]] have "?f (rowOf sim v) = []" by simp
    with that show False by (auto simp: filter_Nil_iff)
  qed
  with w k(1) show ?thesis by (fastforce simp: firstNonEmptyRow_def)
qed

lemma laneCandidates_frontmost:
  assumes "\<And>r. r \<in> set es \<Longrightarrow> rowOf sim r < 3"
  shows "set (laneCandidates sim a es) = frontmost sim a (set es)"
proof -
  let ?lane = "\<lambda>c. filter (\<lambda>e. colOf sim e = c) es"
  let ?f = "\<lambda>c. firstNonEmptyRow sim (?lane c)"
  have fset: "set (?f c) = {u \<in> set (?lane c). \<forall>v \<in> set (?lane c). rowOf sim u \<le> rowOf sim v}" for c
    by (rule firstNonEmptyRow_set) (use assms in auto)
  have fnil: "?f c = [] \<longleftrightarrow> ?lane c = []" for c
    by (rule firstNonEmptyRow_Nil) (use assms in auto)
  show ?thesis
  proof (cases "\<exists>e \<in> set es. colOf sim e = u_slot a mod 3")
    case True
    then have "?f (u_slot a mod 3) \<noteq> []" unfolding fnil by (auto simp: filter_Nil_iff)
    then have "laneCandidates sim a es = ?f (u_slot a mod 3)"
      by (simp add: laneCandidates_def Let_def)
    then have "set (laneCandidates sim a es) =
        {u \<in> set (?lane (u_slot a mod 3)). \<forall>v \<in> set (?lane (u_slot a mod 3)). rowOf sim u \<le> rowOf sim v}"
      by (simp only: fset)
    moreover have "targetLane sim a (set es) = u_slot a mod 3"
      using True by (simp add: targetLane_def)
    ultimately show ?thesis by (auto simp: frontmost_def)
  next
    case False
    then have own: "?f (u_slot a mod 3) = []" unfolding fnil by (auto simp: filter_Nil_iff)
    then have lc: "laneCandidates sim a es = firstNonEmptyOf ?f [0, 1, 2]"
      by (simp add: laneCandidates_def Let_def)
    show ?thesis
    proof (cases "es = []")
      case True
      with lc fnil show ?thesis by (simp add: frontmost_def)
    next
      case ne: False
      have cols: "colOf sim e \<in> set [0, 1, 2]" for e by (auto simp: colOf_def)
      have "firstNonEmptyOf ?f [0, 1, 2] \<noteq> []"
        unfolding firstNonEmptyOf_Nil fnil using ne cols
        by (metis (mono_tags, lifting) filter_empty_conv last_in_set)
      from firstNonEmptyOf_least [OF _ this] obtain k where
        k: "firstNonEmptyOf ?f [0, 1, 2] = ?f k" "?f k \<noteq> []"
        and least: "\<And>j. j \<in> set [0, 1, 2] \<Longrightarrow> j < k \<Longrightarrow> ?f j = []"
        by auto
      from k(2) obtain w where w: "w \<in> set es" "colOf sim w = k"
        unfolding fnil by (auto simp: filter_Nil_iff)
      have "k \<le> colOf sim e" if "e \<in> set es" for e
      proof (rule ccontr)
        assume "\<not> k \<le> colOf sim e"
        with least [OF cols] have "?lane (colOf sim e) = []" unfolding fnil by simp
        with that show False by (auto simp: filter_Nil_iff)
      qed
      with w have "Min (colOf sim ` set es) = k" by (intro Min_eqI) auto
      with False have "targetLane sim a (set es) = k" by (simp add: targetLane_def)
      moreover have "set (laneCandidates sim a es) =
          {u \<in> set (?lane k). \<forall>v \<in> set (?lane k). rowOf sim u \<le> rowOf sim v}"
        by (simp only: lc k(1) fset)
      ultimately show ?thesis by (auto simp: frontmost_def)
    qed
  qed
qed

subsection \<open>Properties\<close>

text \<open>
  On a board whose slots are the nine of the grid, \<open>pickTarget\<close> returns nothing exactly when no
  enemy is alive (the lane search never comes back empty-handed), and otherwise it returns an
  enemy that is alive.
\<close>

theorem pickTarget_total:
  assumes "slotsOk sim"
  shows "(pickTarget a sim = None \<longleftrightarrow>
            (\<forall>u \<in> set (unitsOf sim (enemySideOf (u_side a))). \<not> u_alive u)) \<and>
         (\<forall>t. pickTarget a sim = Some t \<longrightarrow>
            validRef sim t \<and> fst t = enemySideOf (u_side a) \<and> u_alive (unitAt sim t))"
proof -
  have "aliveEnemies sim a = [] \<longleftrightarrow>
      (\<forall>u \<in> set (unitsOf sim (enemySideOf (u_side a))). \<not> u_alive u)"
  proof -
    have "aliveEnemies sim a = [] \<longleftrightarrow> (\<forall>r. r \<notin> set (aliveEnemies sim a))"
      by (metis empty_iff empty_set ex_in_conv set_empty)
    also have "\<dots> \<longleftrightarrow> (\<forall>u \<in> set (unitsOf sim (enemySideOf (u_side a))). \<not> u_alive u)"
      using unitAt_in_unitsOf unitsOf_ref by (metis aliveEnemies_iff)
    finally show ?thesis .
  qed
  then show ?thesis using pickTarget_None_iff [OF assms] pickTarget_SomeD by auto
qed

text \<open>
  The global rules. A two-star ranger attacks an enemy of minimal current HP among all alive
  enemies; a fighter, tank or healer facing an alive two-star tank attacks such a tank.
\<close>

theorem pickTarget_global_rules:
  assumes "pickTarget a sim = Some t"
  shows "(u_unitId a = Ranger \<and> u_star a = 2 \<longrightarrow>
            (\<forall>r \<in> set (aliveEnemies sim a). u_hp (unitAt sim t) \<le> u_hp (unitAt sim r))) \<and>
         (u_unitId a \<noteq> Ranger \<and>
            (\<exists>r \<in> set (aliveEnemies sim a). u_unitId (unitAt sim r) = Tank \<and> u_star (unitAt sim r) = 2) \<longrightarrow>
            u_unitId (unitAt sim t) = Tank \<and> u_star (unitAt sim t) = 2)"
proof (intro conjI impI)
  assume r: "u_unitId a = Ranger \<and> u_star a = 2"
  with assms have "t = lowestHp sim (aliveEnemies sim a)"
    by (auto simp: pickTarget_def Let_def split: if_splits)
  then show "\<forall>r \<in> set (aliveEnemies sim a). u_hp (unitAt sim t) \<le> u_hp (unitAt sim r)"
    using lowestHp_le by blast
next
  assume h: "u_unitId a \<noteq> Ranger \<and> (\<exists>r \<in> set (aliveEnemies sim a).
      u_unitId (unitAt sim r) = Tank \<and> u_star (unitAt sim r) = 2)"
  then obtain t2 where t2: "List.find (\<lambda>e. u_unitId (unitAt sim e) = Tank \<and> u_star (unitAt sim e) = 2)
      (aliveEnemies sim a) = Some t2"
    using find_None_iff' [of _ "aliveEnemies sim a"] by (metis (mono_tags, lifting) not_Some_eq)
  from h have "u_unitId a = Fighter \<or> u_unitId a = Tank \<or> u_unitId a = Healer"
    by (cases "u_unitId a") auto
  with assms t2 h have "t = t2" by (auto simp: pickTarget_def Let_def split: if_splits)
  with find_SomeD [OF t2] show "u_unitId (unitAt sim t) = Tank" "u_star (unitAt sim t) = 2" by auto
qed

text \<open>
  The lane rule. When no global rule applies, the target is one of the frontmost enemies of
  the lane the specification names: the attacker's own column if occupied, else the lowest
  occupied column. A ranger takes one of minimal HP among them.
\<close>

theorem pickTarget_lane_rule:
  assumes "slotsOk sim" and "pickTarget a sim = Some t"
    and "u_unitId a = Ranger \<longrightarrow> u_star a \<noteq> 2"
    and "u_unitId a \<noteq> Ranger \<longrightarrow> (\<forall>r \<in> set (aliveEnemies sim a).
           \<not> (u_unitId (unitAt sim r) = Tank \<and> u_star (unitAt sim r) = 2))"
  shows "t \<in> frontmost sim a (set (aliveEnemies sim a)) \<and>
    (u_unitId a = Ranger \<longrightarrow> (\<forall>r \<in> frontmost sim a (set (aliveEnemies sim a)).
       u_hp (unitAt sim t) \<le> u_hp (unitAt sim r)))"
proof -
  let ?c = "laneCandidates sim a (aliveEnemies sim a)"
  have rows: "rowOf sim r < 3" if "r \<in> set (aliveEnemies sim a)" for r
    using slotsOkD [OF assms(1), of r] that unfolding rowOf_def
    by (intro less_mult_imp_div_less) auto
  have front: "set ?c = frontmost sim a (set (aliveEnemies sim a))"
    by (rule laneCandidates_frontmost) (rule rows)
  from assms(2) show ?thesis
  proof (cases rule: pickTarget_cases)
    case global_lowest
    with assms(3) show ?thesis by simp
  next
    case prioritized
    with assms(4) show ?thesis by auto
  next
    case lane_lowest
    have "t \<in> set ?c" unfolding lane_lowest(3) by (rule lowestHp_in [OF lane_lowest(2)])
    moreover have "u_hp (unitAt sim t) \<le> u_hp (unitAt sim r)" if "r \<in> set ?c" for r
      unfolding lane_lowest(3) by (rule lowestHp_le [OF that])
    ultimately show ?thesis by (simp only: front) blast
  next
    case lane_first
    have "t \<in> set ?c" unfolding lane_first(3) by (rule hd_byPositionThenId [OF lane_first(2)])
    with lane_first(1) show ?thesis by (simp add: front)
  qed
qed

subsection \<open>Witnesses\<close>

definition demoUnit :: "UnitId \<Rightarrow> Star \<Rightarrow> string \<Rightarrow> int \<Rightarrow> nat \<Rightarrow> Side \<Rightarrow> UnitInstance" where
  "demoUnit u s i h sl sd =
     \<lparr>u_instanceId = i, u_unitId = u, u_star = s, u_hp = h, u_maxHp = base_hp (UNIT_BASE_STATS u),
      u_slot = sl, u_side = sd, u_alive = True, u_revivedThisRound = None, u_slowActive = None,
      u_slowUntilHealerAct = None, u_effectiveSpd = None\<rparr>"

definition demoSim :: BattleSim where
  "demoSim = \<lparr>p1Units = [demoUnit Fighter 1 ''a1'' 100 0 P1, demoUnit Healer 1 ''a2'' 40 3 P1],
     p2Units = [demoUnit Ranger 1 ''b1'' 60 1 P2, demoUnit Tank 1 ''b2'' 20 0 P2]\<rparr>"

lemma validRef_demoSim: "validRef demoSim r \<longleftrightarrow> snd r < 2"
  by (cases r; cases "fst r") (auto simp: validRef_def demoSim_def)

lemma demoSim_slotsOk: "slotsOk demoSim"
proof -
  have "u_slot (unitAt demoSim r) < 9" if "validRef demoSim r" for r
  proof -
    have "unitAt demoSim r \<in> set (unitsOf demoSim (fst r))"
      using that by (rule unitAt_in_unitsOf)
    then show ?thesis by (cases "fst r") (auto simp: demoSim_def demoUnit_def)
  qed
  then show ?thesis by (simp add: slotsOk_def)
qed

lemma demoSim_pick: "pickTarget (demoUnit Fighter 1 ''a1'' 100 0 P1) demoSim = Some (P2, 1)"
  by code_simp

theorem pickTarget_total_witness:
  "pickTarget (demoUnit Fighter 1 ''a1'' 100 0 P1) demoSim \<noteq> None"
  using pickTarget_total [OF demoSim_slotsOk, of "demoUnit Fighter 1 ''a1'' 100 0 P1"]
  by (auto simp: demoSim_def demoUnit_def)

theorem pickTarget_global_rules_witness:
  "list_all (\<lambda>r. 20 \<le> u_hp (unitAt demoSim r))
     (aliveEnemies demoSim (demoUnit Ranger 2 ''a1'' 60 0 P1))"
proof -
  have "pickTarget (demoUnit Ranger 2 ''a1'' 60 0 P1) demoSim = Some (P2, 1)" by code_simp
  from pickTarget_global_rules [OF this] show ?thesis
    unfolding list_all_iff by (simp add: demoUnit_def demoSim_def unitAt_def)
qed

theorem pickTarget_lane_rule_witness:
  "(P2, 1) \<in> frontmost demoSim (demoUnit Fighter 1 ''a1'' 100 0 P1)
     (set (aliveEnemies demoSim (demoUnit Fighter 1 ''a1'' 100 0 P1)))"
proof -
  have "aliveEnemies demoSim (demoUnit Fighter 1 ''a1'' 100 0 P1) = [(P2, 0), (P2, 1)]"
    by code_simp
  then have "\<forall>r \<in> set (aliveEnemies demoSim (demoUnit Fighter 1 ''a1'' 100 0 P1)).
      \<not> (u_unitId (unitAt demoSim r) = Tank \<and> u_star (unitAt demoSim r) = 2)"
    by (simp add: demoSim_def demoUnit_def unitAt_def)
  then show ?thesis
    using pickTarget_lane_rule [OF demoSim_slotsOk demoSim_pick] by (simp add: demoUnit_def)
qed

end
