(* ===== verification/Abilities.thy ===== *)
theory Abilities
  imports Targeting
begin

text \<open>
  \<open>applyDamage\<close> of \<open>game/damage.ts\<close> and the ability effects of \<open>game/abilities.ts\<close>, each as a
  transformer of the shared unit objects and the event array. A contract, \<open>evolves\<close>, says what
  every effect keeps: the board invariant, the identity of the units, permanence of death, and
  two ledgers that tie the death and revive events to the units' flags.
\<close>

subsection \<open>Damage and revive\<close>

fun applyDamage :: "uref \<Rightarrow> int \<Rightarrow> uref \<Rightarrow> nat \<Rightarrow> int \<Rightarrow> act_state \<Rightarrow> act_state" where
  "applyDamage tr dmg sr cycle tick (sim, events) =
     (let target = unitAt sim tr; source = unitAt sim sr;
          lethal = (dmg \<ge> u_hp target)
      in if lethal \<and> u_unitId target = Tank \<and> u_star target \<ge> 1
            \<and> u_revivedThisRound target \<noteq> Some True
         then let target' = target\<lparr>u_hp := reviveHp (u_maxHp target), u_revivedThisRound := Some True\<rparr>
              in (setUnit sim tr target',
                  events @ [ReviveEv cycle tick (u_instanceId target') (u_hp target') (actorFields target')])
         else let hurt = target\<lparr>u_hp := u_hp target - dmg\<rparr>;
                  target' = (if u_hp hurt \<le> 0 then hurt\<lparr>u_hp := 0, u_alive := False\<rparr> else hurt);
                  death = (if u_hp hurt \<le> 0
                           then [DeathEv cycle tick (u_instanceId target') (actorFields target')] else [])
              in (setUnit sim tr target',
                  events @ death @
                  [AttackEv cycle tick (u_instanceId source) (u_instanceId target') dmg (u_hp target')
                     (actorFields source) (actorFields target')]))"

subsection \<open>Fighter and ranger\<close>

fun applyLifesteal :: "uref \<Rightarrow> int \<Rightarrow> nat \<Rightarrow> int \<Rightarrow> act_state \<Rightarrow> act_state" where
  "applyLifesteal fr dmg cycle tick (sim, events) =
     (let fighter = unitAt sim fr;
          raw = (dmg * LIFESTEAL_RATE (u_star fighter)) div 100;
          heal = max 0 (min raw (u_maxHp fighter - u_hp fighter));
          fighter' = fighter\<lparr>u_hp := u_hp fighter + heal\<rparr>
      in (setUnit sim fr fighter',
          events @ [LifestealEv cycle tick (u_instanceId fighter') heal (u_hp fighter')
                      (actorFields fighter')]))"

text \<open>The alive enemy in the same column exactly one row behind the primary target.\<close>

definition findBehind :: "BattleSim \<Rightarrow> UnitInstance \<Rightarrow> UnitInstance \<Rightarrow> uref option" where
  "findBehind sim ranger primary =
     (let behindRow = u_slot primary div 3 + 1; col = u_slot primary mod 3
      in if behindRow > 2 then None
         else List.find (\<lambda>r. u_alive (unitAt sim r) \<and> colOf sim r = col \<and> rowOf sim r = behindRow)
                (refsOf sim (enemySideOf (u_side ranger))))"

fun applyPierce :: "uref \<Rightarrow> uref \<Rightarrow> int \<Rightarrow> nat \<Rightarrow> int \<Rightarrow> act_state \<Rightarrow> act_state" where
  "applyPierce rr tr primaryDamage cycle tick (sim, events) =
     (let ranger = unitAt sim rr
      in case findBehind sim ranger (unitAt sim tr) of
           None \<Rightarrow> (sim, events)
         | Some br \<Rightarrow>
             (let dmg = pierceDamage primaryDamage;
                  behind = (unitAt sim br)\<lparr>u_hp := max 0 (u_hp (unitAt sim br) - dmg)\<rparr>;
                  pierce = PierceEv cycle tick (u_instanceId ranger) (u_instanceId behind) dmg
                             (actorFields ranger) (actorFields behind);
                  dies = (u_hp behind = 0 \<and> u_alive behind);
                  behind' = (if dies then behind\<lparr>u_alive := False\<rparr> else behind);
                  death = (if dies then [DeathEv cycle tick (u_instanceId behind') (actorFields behind')]
                           else [])
              in (setUnit sim br behind', events @ [pierce] @ death)))"

subsection \<open>Healer\<close>

text \<open>The reducer: the lower HP wins, on equal HP the lower instance id.\<close>

definition weakerAlly :: "BattleSim \<Rightarrow> uref \<Rightarrow> uref \<Rightarrow> uref" where
  "weakerAlly sim a b =
     (if u_hp (unitAt sim b) \<noteq> u_hp (unitAt sim a)
      then (if u_hp (unitAt sim b) < u_hp (unitAt sim a) then b else a)
      else if localeCompare (u_instanceId (unitAt sim b)) (u_instanceId (unitAt sim a)) < 0
      then b else a)"

definition lowestHpAlly :: "BattleSim \<Rightarrow> uref list \<Rightarrow> uref option \<Rightarrow> uref option" where
  "lowestHpAlly sim allies exclude =
     (let pool = filter (\<lambda>r. u_alive (unitAt sim r) \<and> Some r \<noteq> exclude) allies
      in if pool = [] then None
         else Some (foldl (weakerAlly sim) (hd pool) (tl pool)))"

fun healOne :: "uref \<Rightarrow> uref \<Rightarrow> nat \<Rightarrow> int \<Rightarrow> act_state \<Rightarrow> act_state" where
  "healOne tr hr cycle tick (sim, events) =
     (let target = unitAt sim tr; healer = unitAt sim hr;
          amount = min HEAL_AMOUNT (u_maxHp target - u_hp target)
      in if amount \<le> 0 then (sim, events)
         else let target' = target\<lparr>u_hp := u_hp target + amount\<rparr>
              in (setUnit sim tr target',
                  events @ [HealEv cycle tick (u_instanceId target') (u_instanceId healer) amount
                              (u_hp target') (actorFields target') (actorFields healer)]))"

fun applyHealerSupport :: "uref \<Rightarrow> nat \<Rightarrow> int \<Rightarrow> act_state \<Rightarrow> act_state" where
  "applyHealerSupport hr cycle tick (sim, events) =
     (let allies = refsOf sim (u_side (unitAt sim hr));
          first = lowestHpAlly sim allies None;
          st1 = (case first of Some f \<Rightarrow> healOne f hr cycle tick (sim, events) | None \<Rightarrow> (sim, events))
      in if u_star (unitAt sim hr) = 2
         then (case lowestHpAlly (fst st1) allies first of
                 Some s \<Rightarrow> healOne s hr cycle tick st1
               | None \<Rightarrow> st1)
         else st1)"

fun applySlow :: "uref \<Rightarrow> uref \<Rightarrow> nat \<Rightarrow> int \<Rightarrow> act_state \<Rightarrow> act_state" where
  "applySlow hr tr cycle tick (sim, events) =
     (let healer = unitAt sim hr; target = unitAt sim tr;
          target' = target\<lparr>u_effectiveSpd := Some (slowedSpd (spdFor (u_unitId target))),
                           u_slowActive := Some True,
                           u_slowUntilHealerAct := Some (u_instanceId healer)\<rparr>
      in (setUnit sim tr target',
          events @ [SlowEv cycle tick (u_instanceId target') (u_instanceId healer)
                      (actorFields target') (actorFields healer)]))"

definition clearSlow :: "string \<Rightarrow> UnitInstance \<Rightarrow> UnitInstance" where
  "clearSlow hid u =
     (if u_slowUntilHealerAct u = Some hid
      then u\<lparr>u_effectiveSpd := Some (spdFor (u_unitId u)), u_slowActive := Some False,
             u_slowUntilHealerAct := None\<rparr>
      else u)"

fun clearHealerSlows :: "uref \<Rightarrow> act_state \<Rightarrow> act_state" where
  "clearHealerSlows hr (sim, events) =
     (let hid = u_instanceId (unitAt sim hr)
      in (sim\<lparr>p1Units := map (clearSlow hid) (p1Units sim),
              p2Units := map (clearSlow hid) (p2Units sim)\<rparr>, events))"

subsection \<open>The board invariant\<close>

text \<open>
  \<open>alive\<close> and HP agree and HP stays in range; the three slow fields agree with one another; a tank
  needs at least two maximal HP for a revive to leave it standing (every tank the shop sells has
  150).
\<close>

definition slow_ok :: "UnitInstance \<Rightarrow> bool" where
  "slow_ok u \<longleftrightarrow>
     (case u_slowUntilHealerAct u of
        None \<Rightarrow> u_slowActive u \<noteq> Some True \<and>
                (u_effectiveSpd u = None \<or> u_effectiveSpd u = Some (spdFor (u_unitId u)))
      | Some _ \<Rightarrow> u_slowActive u = Some True \<and>
                  u_effectiveSpd u = Some (slowedSpd (spdFor (u_unitId u))))"

definition unit_ok :: "UnitInstance \<Rightarrow> bool" where
  "unit_ok u \<longleftrightarrow> 0 \<le> u_hp u \<and> u_hp u \<le> u_maxHp u \<and> (u_alive u \<longleftrightarrow> 0 < u_hp u) \<and>
     (u_unitId u = Tank \<longrightarrow> 2 \<le> u_maxHp u) \<and> u_slot u < 9 \<and> slow_ok u"

definition sim_ok :: "BattleSim \<Rightarrow> bool" where
  "sim_ok sim \<longleftrightarrow> (\<forall>s. \<forall>u \<in> set (unitsOf sim s). unit_ok u \<and> u_side u = s)"

lemma sim_okD:
  assumes "sim_ok sim" and "validRef sim r"
  shows "unit_ok (unitAt sim r)" and "u_side (unitAt sim r) = fst r"
  using unitAt_in_unitsOf [OF assms(2)] assms(1) by (auto simp: sim_ok_def)

lemma sim_okI:
  "(\<And>r. validRef sim r \<Longrightarrow> unit_ok (unitAt sim r) \<and> u_side (unitAt sim r) = fst r) \<Longrightarrow> sim_ok sim"
  unfolding sim_ok_def using unitsOf_ref by metis

lemma sim_ok_slots: "sim_ok sim \<Longrightarrow> slotsOk sim"
  using sim_okD(1) by (auto simp: slotsOk_def unit_ok_def)

subsection \<open>Ledgers and frames\<close>

definition sumUnits :: "(UnitInstance \<Rightarrow> int) \<Rightarrow> BattleSim \<Rightarrow> int" where
  "sumUnits f sim = sum_list (map f (p1Units sim)) + sum_list (map f (p2Units sim))"

lemma sumUnits_setUnit [battle_simps]:
  "validRef sim r \<Longrightarrow> sumUnits f (setUnit sim r u) = sumUnits f sim - f (unitAt sim r) + f u"
  by (cases r; cases "fst r")
    (auto simp: sumUnits_def validRef_def unitAt_def sum_list_update_int)

definition aliveCount :: "BattleSim \<Rightarrow> int" where
  "aliveCount = sumUnits (\<lambda>u. of_bool (u_alive u))"

definition revivable :: "UnitInstance \<Rightarrow> bool" where
  "revivable u \<longleftrightarrow> u_unitId u = Tank \<and> u_star u \<ge> 1 \<and> u_revivedThisRound u \<noteq> Some True"

definition revivableCount :: "BattleSim \<Rightarrow> int" where
  "revivableCount = sumUnits (\<lambda>u. of_bool (revivable u))"

fun is_death :: "CombatEvent \<Rightarrow> bool" where
  "is_death (DeathEv _ _ _ _) = True"
| "is_death _ = False"

fun is_revive :: "CombatEvent \<Rightarrow> bool" where
  "is_revive (ReviveEv _ _ _ _ _) = True"
| "is_revive _ = False"

definition deaths :: "CombatEvent list \<Rightarrow> int" where
  "deaths es = int (length (filter is_death es))"

definition revives :: "CombatEvent list \<Rightarrow> int" where
  "revives es = int (length (filter is_revive es))"

lemma deaths_append [simp]: "deaths (xs @ ys) = deaths xs + deaths ys"
  by (simp add: deaths_def)

lemma revives_append [simp]: "revives (xs @ ys) = revives xs + revives ys"
  by (simp add: revives_def)

lemma deaths_simps [simp]:
  "deaths [] = 0" "deaths (e # es) = of_bool (is_death e) + deaths es"
  by (simp_all add: deaths_def)

lemma revives_simps [simp]:
  "revives [] = 0" "revives (e # es) = of_bool (is_revive e) + revives es"
  by (simp_all add: revives_def)

text \<open>What never changes about a unit object, and what only changes one way.\<close>

definition same_unit :: "UnitInstance \<Rightarrow> UnitInstance \<Rightarrow> bool" where
  "same_unit u v \<longleftrightarrow> u_instanceId v = u_instanceId u \<and> u_unitId v = u_unitId u \<and>
     u_star v = u_star u \<and> u_maxHp v = u_maxHp u \<and> u_slot v = u_slot u \<and> u_side v = u_side u"

definition ages :: "UnitInstance \<Rightarrow> UnitInstance \<Rightarrow> bool" where
  "ages u v \<longleftrightarrow> same_unit u v \<and> (u_alive v \<longrightarrow> u_alive u) \<and>
     (u_revivedThisRound u = Some True \<longrightarrow> u_revivedThisRound v = Some True)"

lemma ages_refl [simp]: "ages u u"
  by (simp add: ages_def same_unit_def)

lemma ages_trans: "ages u v \<Longrightarrow> ages v w \<Longrightarrow> ages u w"
  by (auto simp: ages_def same_unit_def)

lemma units_age_trans: "list_all2 ages us vs \<Longrightarrow> list_all2 ages vs ws \<Longrightarrow> list_all2 ages us ws"
  using ages_trans by (rule list_all2_trans)

definition board_ages :: "BattleSim \<Rightarrow> BattleSim \<Rightarrow> bool" where
  "board_ages sim sim' \<longleftrightarrow> (\<forall>s. list_all2 ages (unitsOf sim s) (unitsOf sim' s))"

lemma board_ages_refl [simp]: "board_ages sim sim"
  by (simp add: board_ages_def list_all2_refl)

lemma board_ages_trans: "board_ages a b \<Longrightarrow> board_ages b c \<Longrightarrow> board_ages a c"
  unfolding board_ages_def by (meson units_age_trans)

lemma board_ages_length: "board_ages sim sim' \<Longrightarrow> length (unitsOf sim' s) = length (unitsOf sim s)"
  unfolding board_ages_def using list_all2_lengthD by metis

lemma board_ages_valid: "board_ages sim sim' \<Longrightarrow> validRef sim' r \<longleftrightarrow> validRef sim r"
  by (simp add: board_ages_length validRef_def)

lemma board_agesD: "board_ages sim sim' \<Longrightarrow> validRef sim r \<Longrightarrow> ages (unitAt sim r) (unitAt sim' r)"
  by (auto simp: board_ages_def validRef_def unitAt_def list_all2_nthD)

lemma board_ages_setUnit:
  "validRef sim r \<Longrightarrow> ages (unitAt sim r) u \<Longrightarrow> board_ages sim (setUnit sim r u)"
  by (auto simp: board_ages_def unitsOf_setUnit list_all2_conv_all_nth nth_list_update
      unitAt_def validRef_def)

lemma board_ages_refs [simp]: "board_ages sim sim' \<Longrightarrow> refsOf sim' s = refsOf sim s"
  by (simp add: board_ages_length refsOf_def)

subsection \<open>The contract of every effect\<close>

text \<open>
  From a well-formed board an effect reaches a well-formed board, ages its units, only appends
  events, and books one death event per unit that stops being alive and one revive event per
  revive that is used up.
\<close>

definition evolves :: "act_state \<Rightarrow> act_state \<Rightarrow> bool" where
  "evolves st st' \<longleftrightarrow> (sim_ok (fst st) \<longrightarrow>
     sim_ok (fst st') \<and> board_ages (fst st) (fst st') \<and>
     (\<exists>new. snd st' = snd st @ new) \<and>
     deaths (snd st') + aliveCount (fst st') = deaths (snd st) + aliveCount (fst st) \<and>
     revives (snd st') + revivableCount (fst st') = revives (snd st) + revivableCount (fst st))"

lemma evolves_refl [simp]: "evolves st st"
  by (simp add: evolves_def)

lemma evolves_trans: "evolves a b \<Longrightarrow> evolves b c \<Longrightarrow> evolves a c"
  unfolding evolves_def using board_ages_trans by fastforce

lemma evolves_stable:
  "evolves st st' \<Longrightarrow> sim_ok (fst st) \<Longrightarrow> validRef (fst st') r \<longleftrightarrow> validRef (fst st) r"
  unfolding evolves_def using board_ages_valid by blast

text \<open>An effect that rewrites one unit and appends events meets the contract if the unit does.\<close>

lemma evolves_setUnit:
  assumes "validRef sim r"
    and "sim_ok sim \<Longrightarrow> unit_ok (unitAt sim r) \<Longrightarrow> unit_ok u \<and> ages (unitAt sim r) u"
    and "deaths new = of_bool (u_alive (unitAt sim r)) - of_bool (u_alive u)"
    and "revives new = of_bool (revivable (unitAt sim r)) - of_bool (revivable u)"
  shows "evolves (sim, es) (setUnit sim r u, es @ new)"
proof -
  have "sim_ok (setUnit sim r u)" if ok: "sim_ok sim"
  proof (rule sim_okI)
    fix q assume "validRef (setUnit sim r u) q"
    then have "validRef sim q" by simp
    with ok assms(1,2) sim_okD [OF ok]
    show "unit_ok (unitAt (setUnit sim r u) q) \<and> u_side (unitAt (setUnit sim r u) q) = fst q"
      by (auto simp: unitAt_setUnit ages_def same_unit_def)
  qed
  moreover have "board_ages sim (setUnit sim r u)" if ok: "sim_ok sim"
    using board_ages_setUnit [OF assms(1)] assms(2) [OF ok] sim_okD(1) [OF ok assms(1)] by blast
  ultimately show ?thesis
    using assms(1,3,4)
    by (simp add: evolves_def aliveCount_def revivableCount_def sumUnits_setUnit)
qed

text \<open>Effects indexed by what they act on (a unit, a tick, a cycle), and their iteration.\<close>

locale effect_family =
  fixes view :: "'s \<Rightarrow> act_state"
    and act :: "'i \<Rightarrow> 's \<Rightarrow> 's"
    and valid :: "'i \<Rightarrow> BattleSim \<Rightarrow> bool"
  assumes step:
      "sim_ok (fst (view st)) \<Longrightarrow> valid i (fst (view st)) \<Longrightarrow> evolves (view st) (view (act i st))"
    and stable: "board_ages sim sim' \<Longrightarrow> valid i sim \<Longrightarrow> valid i sim'"
begin

lemma then_evolves:
  assumes "evolves s0 (view st)" and "sim_ok (fst s0)" and "valid i (fst s0)"
  shows "evolves s0 (view (act i st))"
proof -
  from assms(1,2) have "sim_ok (fst (view st))" and "board_ages (fst s0) (fst (view st))"
    by (auto simp: evolves_def)
  with assms(3) stable have "evolves (view st) (view (act i st))" by (intro step) blast+
  with assms(1) show ?thesis by (rule evolves_trans)
qed

lemma fold_evolves:
  "sim_ok (fst (view st)) \<Longrightarrow> (\<And>i. i \<in> set is \<Longrightarrow> valid i (fst (view st))) \<Longrightarrow>
   evolves (view st) (view (fold act is st))"
proof (induction "is" rule: rev_induct)
  case Nil
  then show ?case by simp
next
  case (snoc i js)
  then show ?case using then_evolves [of "view st" "fold act js st" i] by simp
qed

end

end
