(* ===== verification/Ability_Contracts.thy ===== *)
theory Ability_Contracts
  imports Abilities
begin

text \<open>
  Every effect of \<open>Abilities\<close> meets the contract \<open>evolves\<close>, with the guard under which the engine
  calls it, and the properties of the single effects.
\<close>

lemma unit_okD:
  assumes "unit_ok u"
  shows "0 \<le> u_hp u" "u_hp u \<le> u_maxHp u" "u_alive u \<longleftrightarrow> 0 < u_hp u"
    "u_unitId u = Tank \<Longrightarrow> 2 \<le> u_maxHp u" "u_slot u < 9" "slow_ok u"
  using assms by (auto simp: unit_ok_def)

lemma slow_ok_frame [simp]:
  "slow_ok (u\<lparr>u_hp := h\<rparr>) = slow_ok u" "slow_ok (u\<lparr>u_alive := b\<rparr>) = slow_ok u"
  "slow_ok (u\<lparr>u_revivedThisRound := v\<rparr>) = slow_ok u"
  by (simp_all add: slow_ok_def split: option.splits)

text \<open>The unit-level obligations of \<open>evolves_setUnit\<close> unfold with these.\<close>

lemmas unit_effect_defs = unit_ok_def ages_def same_unit_def revivable_def

lemma applyDamage_evolves:
  assumes "validRef sim tr" and "u_alive (unitAt sim tr)" and "0 \<le> dmg"
  shows "evolves (sim, es) (applyDamage tr dmg sr c k (sim, es))"
proof (cases "dmg \<ge> u_hp (unitAt sim tr) \<and> revivable (unitAt sim tr)")
  case True
  let ?t = "unitAt sim tr"
  let ?u = "?t\<lparr>u_hp := reviveHp (u_maxHp ?t), u_revivedThisRound := Some True\<rparr>"
  have "applyDamage tr dmg sr c k (sim, es) =
      (setUnit sim tr ?u, es @ [ReviveEv c k (u_instanceId ?u) (u_hp ?u) (actorFields ?u)])"
    using True by (simp add: revivable_def Let_def)
  moreover have "evolves (sim, es)
      (setUnit sim tr ?u, es @ [ReviveEv c k (u_instanceId ?u) (u_hp ?u) (actorFields ?u)])"
    using True assms(2)
    by (intro evolves_setUnit assms(1))
      (auto simp: unit_effect_defs reviveHp_def)
  ultimately show ?thesis by simp
next
  case False
  let ?t = "unitAt sim tr"
  let ?dead = "u_hp ?t \<le> dmg"
  let ?u = "if ?dead then ?t\<lparr>u_hp := 0, u_alive := False\<rparr> else ?t\<lparr>u_hp := u_hp ?t - dmg\<rparr>"
  let ?new = "(if ?dead then [DeathEv c k (u_instanceId ?u) (actorFields ?u)] else []) @
    [AttackEv c k (u_instanceId (unitAt sim sr)) (u_instanceId ?u) dmg (u_hp ?u)
       (actorFields (unitAt sim sr)) (actorFields ?u)]"
  have "applyDamage tr dmg sr c k (sim, es) = (setUnit sim tr ?u, es @ ?new)"
    using False by (auto simp: revivable_def Let_def)
  moreover have "evolves (sim, es) (setUnit sim tr ?u, es @ ?new)"
    using False assms(2,3)
    by (intro evolves_setUnit assms(1))
      (auto simp: unit_effect_defs)
  ultimately show ?thesis by simp
qed

lemma applyLifesteal_evolves:
  assumes "validRef sim fr" and "u_alive (unitAt sim fr)"
  shows "evolves (sim, es) (applyLifesteal fr dmg c k (sim, es))"
  unfolding applyLifesteal.simps Let_def using assms(2)
  by (intro evolves_setUnit assms(1))
    (auto simp: unit_effect_defs)

lemma findBehind_SomeD:
  assumes "findBehind sim ranger primary = Some b"
  shows "validRef sim b" "fst b = enemySideOf (u_side ranger)" "u_alive (unitAt sim b)"
    "colOf sim b = u_slot primary mod 3" "rowOf sim b = u_slot primary div 3 + 1"
  using assms by (auto simp: findBehind_def Let_def split: if_splits dest!: find_SomeD)

lemma applyPierce_evolves:
  assumes "0 \<le> dmg"
  shows "evolves (sim, es) (applyPierce rr tr dmg c k (sim, es))"
proof (cases "findBehind sim (unitAt sim rr) (unitAt sim tr)")
  case None
  then show ?thesis by (simp add: Let_def)
next
  case (Some br)
  note b = findBehind_SomeD [OF Some]
  have dmg: "0 \<le> pierceDamage dmg" using assms by (simp add: pierceDamage_def)
  let ?t = "unitAt sim br"
  let ?hp = "max 0 (u_hp ?t - pierceDamage dmg)"
  let ?u = "if ?hp = 0 then ?t\<lparr>u_hp := ?hp, u_alive := False\<rparr> else ?t\<lparr>u_hp := ?hp\<rparr>"
  let ?new = "[PierceEv c k (u_instanceId (unitAt sim rr)) (u_instanceId ?u) (pierceDamage dmg)
      (actorFields (unitAt sim rr)) (actorFields ?u)] @
    (if ?hp = 0 then [DeathEv c k (u_instanceId ?u) (actorFields ?u)] else [])"
  have "applyPierce rr tr dmg c k (sim, es) = (setUnit sim br ?u, es @ ?new)"
    using Some b(3) by (simp add: Let_def actorFields_def)
  moreover have "evolves (sim, es) (setUnit sim br ?u, es @ ?new)"
    using b dmg by (intro evolves_setUnit) (auto simp: unit_effect_defs)
  ultimately show ?thesis by simp
qed

lemma healOne_evolves:
  assumes "validRef sim tr" and "u_alive (unitAt sim tr)"
  shows "evolves (sim, es) (healOne tr hr c k (sim, es))"
proof (cases "min HEAL_AMOUNT (u_maxHp (unitAt sim tr) - u_hp (unitAt sim tr)) \<le> 0")
  case True
  then show ?thesis by (simp add: Let_def)
next
  case False
  then show ?thesis
    unfolding healOne.simps Let_def using assms(2)
    by (simp only: if_False, intro evolves_setUnit assms(1))
      (auto simp: unit_effect_defs)
qed

lemma foldl_weakerAlly_in: "foldl (weakerAlly sim) x xs \<in> insert x (set xs)"
proof (induction xs arbitrary: x)
  case (Cons z zs)
  from Cons.IH [of "weakerAlly sim x z"] show ?case
    by (auto simp: weakerAlly_def split: if_splits)
qed simp

lemma lowestHpAlly_SomeD:
  assumes "lowestHpAlly sim allies ex = Some r"
  shows "r \<in> set allies" "u_alive (unitAt sim r)" "Some r \<noteq> ex"
proof -
  let ?pool = "filter (\<lambda>r. u_alive (unitAt sim r) \<and> Some r \<noteq> ex) allies"
  from assms obtain x xs where pool: "?pool = x # xs"
    by (cases ?pool) (auto simp: lowestHpAlly_def)
  from assms have "r = foldl (weakerAlly sim) x xs"
    unfolding lowestHpAlly_def Let_def pool by simp
  then have "r \<in> insert x (set xs)" by (simp only: foldl_weakerAlly_in)
  then have "r \<in> set ?pool" by (simp only: pool list.set)
  then show "r \<in> set allies" "u_alive (unitAt sim r)" "Some r \<noteq> ex" by auto
qed

lemma applySlow_evolves:
  assumes "validRef sim tr"
  shows "evolves (sim, es) (applySlow hr tr c k (sim, es))"
  unfolding applySlow.simps Let_def
  by (intro evolves_setUnit assms)
    (auto simp: unit_effect_defs slow_ok_def)

lemma clearSlow_frame:
  "ages u (clearSlow h u)" "unit_ok u \<Longrightarrow> unit_ok (clearSlow h u)" "u_side (clearSlow h u) = u_side u"
  "u_alive (clearSlow h u) = u_alive u" "revivable (clearSlow h u) = revivable u"
  by (auto simp: clearSlow_def ages_def same_unit_def unit_ok_def slow_ok_def revivable_def
      split: option.splits)

lemma clearHealerSlows_evolves: "evolves (sim, es) (clearHealerSlows hr (sim, es))"
proof -
  let ?h = "u_instanceId (unitAt sim hr)"
  let ?sim = "fst (clearHealerSlows hr (sim, es))"
  have units: "unitsOf ?sim s = map (clearSlow ?h) (unitsOf sim s)" for s
    by (cases s) (auto simp: Let_def)
  have sums: "sumUnits f ?sim = sumUnits f sim" if "\<And>u. f (clearSlow ?h u) = f u" for f
    using that by (simp add: sumUnits_def Let_def comp_def)
  have "sim_ok sim \<Longrightarrow> sim_ok ?sim"
    unfolding sim_ok_def units by (auto simp: clearSlow_frame)
  moreover have "board_ages sim ?sim"
    unfolding board_ages_def units by (simp add: list_all2_conv_all_nth clearSlow_frame)
  moreover have "aliveCount ?sim = aliveCount sim" "revivableCount ?sim = revivableCount sim"
    unfolding aliveCount_def revivableCount_def by (rule sums, simp add: clearSlow_frame)+
  moreover have "snd (clearHealerSlows hr (sim, es)) = es" by (simp add: Let_def)
  ultimately show ?thesis by (simp add: evolves_def)
qed

text \<open>The healer's support heals alive allies only.\<close>

lemma applyHealerSupport_evolves:
  assumes ok: "sim_ok sim"
  shows "evolves (sim, es) (applyHealerSupport hr c k (sim, es))"
proof -
  let ?allies = "refsOf sim (u_side (unitAt sim hr))"
  let ?st1 = "case lowestHpAlly sim ?allies None of
      Some f \<Rightarrow> healOne f hr c k (sim, es) | None \<Rightarrow> (sim, es)"
  obtain sim1 es1 where st1: "?st1 = (sim1, es1)" by fastforce
  have one: "evolves (sim, es) (sim1, es1)"
  proof (cases "lowestHpAlly sim ?allies None")
    case None
    with st1 show ?thesis by simp
  next
    case (Some f)
    from lowestHpAlly_SomeD(1,2) [OF this] have "evolves (sim, es) (healOne f hr c k (sim, es))"
      by (intro healOne_evolves) auto
    with Some st1 show ?thesis by simp
  qed
  then have ages: "board_ages sim sim1" using ok by (auto simp: evolves_def)
  show ?thesis
  proof (cases "u_star (unitAt sim hr) = 2")
    case False
    with one st1 show ?thesis by (simp add: Let_def del: healOne.simps)
  next
    case True
    show ?thesis
    proof (cases "lowestHpAlly sim1 ?allies (lowestHpAlly sim ?allies None)")
      case None
      with True one st1 show ?thesis by (simp add: Let_def del: healOne.simps)
    next
      case (Some s)
      have "validRef sim1 s"
        using lowestHpAlly_SomeD(1) [OF Some] board_ages_valid [OF ages] by simp
      with lowestHpAlly_SomeD(2) [OF Some]
      have "evolves (sim1, es1) (healOne s hr c k (sim1, es1))" by (intro healOne_evolves)
      with one have "evolves (sim, es) (healOne s hr c k (sim1, es1))" by (rule evolves_trans)
      with True Some st1 show ?thesis by (simp add: Let_def del: healOne.simps)
    qed
  qed
qed

end
