(* ===== verification/Engine.thy ===== *)
theory Engine
  imports Ability_Contracts Seeded_Rng
begin

text \<open>
  The cycle processor of \<open>game/engine.ts\<close>: \<open>runBattle\<close> and its helpers. The two loops run over the
  cycles \<open>1..30\<close> and the ticks \<open>1..100\<close>, so the recursion is structural and no fuel is needed; a
  wipe at the end of a cycle is the early return.
\<close>

definition currentSpd :: "UnitInstance \<Rightarrow> int" where
  "currentSpd u = (case u_effectiveSpd u of Some s \<Rightarrow> s | None \<Rightarrow> spdFor (u_unitId u))"

definition cloneUnit :: "UnitInstance \<Rightarrow> UnitInstance" where
  "cloneUnit u =
     u\<lparr>u_effectiveSpd := Some (case u_effectiveSpd u of Some s \<Rightarrow> s | None \<Rightarrow> spdFor (u_unitId u)),
       u_revivedThisRound := Some (case u_revivedThisRound u of Some b \<Rightarrow> b | None \<Rightarrow> False)\<rparr>"

subsection \<open>Order of the acting units\<close>

definition tickCmp :: "BattleSim \<Rightarrow> Side \<Rightarrow> uref \<Rightarrow> uref \<Rightarrow> int" where
  "tickCmp sim initSide ra rb =
     (let a = unitAt sim ra; b = unitAt sim rb in
      if u_side a \<noteq> u_side b \<and> u_side a = initSide then -1
      else if u_side a \<noteq> u_side b \<and> u_side b = initSide then 1
      else if currentSpd a \<noteq> currentSpd b then currentSpd b - currentSpd a
      else if u_slot a div 3 \<noteq> u_slot b div 3 then int (u_slot a div 3) - int (u_slot b div 3)
      else if u_slot a mod 3 \<noteq> u_slot b mod 3 then int (u_slot a mod 3) - int (u_slot b mod 3)
      else localeCompare (u_instanceId a) (u_instanceId b))"

definition orderForTick :: "BattleSim \<Rightarrow> Side \<Rightarrow> uref list \<Rightarrow> uref list" where
  "orderForTick sim initSide us = js_sort (tickCmp sim initSide) us"

subsection \<open>One unit acts\<close>

fun unitAct :: "uref \<Rightarrow> nat \<Rightarrow> int \<Rightarrow> act_state \<Rightarrow> act_state" where
  "unitAct ur cycle tick (sim, events) =
     (let unit = unitAt sim ur; target = pickTarget unit sim in
      case u_unitId unit of
        Fighter \<Rightarrow>
          (case target of
             None \<Rightarrow> (sim, events)
           | Some t \<Rightarrow>
               (let dmg = atkFor Fighter (u_star unit);
                    st = applyDamage t dmg ur cycle tick (sim, events)
                in if dmg > 0 \<and> u_star unit \<ge> 1 then applyLifesteal ur dmg cycle tick st else st))
      | Tank \<Rightarrow>
          (case target of
             None \<Rightarrow> (sim, events)
           | Some t \<Rightarrow> applyDamage t (atkFor Tank (u_star unit)) ur cycle tick (sim, events))
      | Ranger \<Rightarrow>
          (case target of
             None \<Rightarrow> (sim, events)
           | Some t \<Rightarrow>
               (let dmg = atkFor Ranger (u_star unit);
                    st = applyDamage t dmg ur cycle tick (sim, events)
                in if u_star unit = 1 then applyPierce ur t dmg cycle tick st else st))
      | Healer \<Rightarrow>
          (let st = (case target of
                       None \<Rightarrow> (sim, events)
                     | Some t \<Rightarrow> applyDamage t (atkFor Healer (u_star unit)) ur cycle tick
                                  (clearHealerSlows ur (sim, events)));
               st' = applyHealerSupport ur cycle tick st
           in case target of
                Some t \<Rightarrow> if u_star unit \<ge> 1 then applySlow ur t cycle tick st' else st'
              | None \<Rightarrow> st'))"

subsection \<open>Ticks, cycles and the battle\<close>

type_synonym log_state = "BattleSim \<times> SnapEvent list"

text \<open>
  The body of the inner loop: a unit killed earlier in the tick is skipped; the events of one act
  all get the snapshot taken after it.
\<close>

fun actOne :: "nat \<Rightarrow> int \<Rightarrow> uref \<Rightarrow> log_state \<Rightarrow> log_state" where
  "actOne cycle tick ur (sim, evs) =
     (if \<not> u_alive (unitAt sim ur) then (sim, evs)
      else let (sim', new) = unitAct ur cycle tick (sim, [])
           in (sim', evs @ map (attachSnapshot sim') new))"

definition actingUnits :: "BattleSim \<Rightarrow> int \<Rightarrow> uref list" where
  "actingUnits sim tick =
     filter (\<lambda>r. u_alive (unitAt sim r) \<and> actsOnTick (currentSpd (unitAt sim r)) tick) (allRefs sim)"

fun runTick :: "Side \<Rightarrow> nat \<Rightarrow> int \<Rightarrow> log_state \<Rightarrow> log_state" where
  "runTick initSide cycle tick (sim, evs) =
     fold (actOne cycle tick) (orderForTick sim initSide (actingUnits sim tick)) (sim, evs)"

definition ticks :: "int list" where
  "ticks = map int [1..<Suc (nat TICKS_PER_CYCLE)]"

definition sideAlive :: "BattleSim \<Rightarrow> Side \<Rightarrow> bool" where
  "sideAlive sim s \<longleftrightarrow> (\<exists>u \<in> set (unitsOf sim s). u_alive u)"

definition battleWinnerOf :: "BattleSim \<Rightarrow> Side option" where
  "battleWinnerOf sim =
     (if \<not> sideAlive sim P1 \<and> \<not> sideAlive sim P2 then None
      else if \<not> sideAlive sim P1 then Some P2 else Some P1)"

fun runCycles :: "Side \<Rightarrow> nat list \<Rightarrow> log_state \<Rightarrow> log_state" where
  "runCycles initSide [] (sim, evs) =
     (sim, evs @ [attachSnapshot sim (BattleEndEv MAX_CYCLES None)])"
| "runCycles initSide (cycle # cycles) (sim, evs) =
     (let (sim', evs') = fold (runTick initSide cycle) ticks (sim, evs);
          evs'' = evs' @ [attachSnapshot sim' (CycleEndEv cycle)]
      in if \<not> sideAlive sim' P1 \<or> \<not> sideAlive sim' P2
         then (sim', evs'' @ [attachSnapshot sim' (BattleEndEv cycle (battleWinnerOf sim'))])
         else runCycles initSide cycles (sim', evs''))"

text \<open>The seeded coin: \<open>rng() < 0.5\<close> on the fraction \<open>n / 4294967296\<close>.\<close>

definition initSideOf :: "BattleState \<Rightarrow> Side" where
  "initSideOf state =
     (let draw = (case bs_rng state of
                    Some d \<Rightarrow> d
                  | None \<Rightarrow> fst (rngNext (makeRng (bs_roundSeed state))))
      in if draw * 2 < 4294967296 then P1 else P2)"

definition cloneSim :: "BattleState \<Rightarrow> BattleSim" where
  "cloneSim state = \<lparr>p1Units = map cloneUnit (bs_p1Units state), p2Units = map cloneUnit (bs_p2Units state)\<rparr>"

text \<open>The battle with its final board; the code returns the event list only.\<close>

definition battleRun :: "BattleState \<Rightarrow> log_state" where
  "battleRun state =
     runCycles (initSideOf state) [1..<Suc MAX_CYCLES] (cloneSim state, [])"

definition runBattle :: "BattleState \<Rightarrow> SnapEvent list" where
  "runBattle state = snd (battleRun state)"

subsection \<open>The contract of a battle\<close>

definition erase :: "log_state \<Rightarrow> act_state" where
  "erase st = (fst st, map fst (snd st))"

lemma applyDamage_other:
  "validRef sim tr \<Longrightarrow> q \<noteq> tr \<Longrightarrow> unitAt (fst (applyDamage tr d sr c k (sim, es))) q = unitAt sim q"
  by (simp add: Let_def unitAt_setUnit)

lemma clearHealerSlows_unit:
  "validRef sim q \<Longrightarrow> unitAt (fst (clearHealerSlows hr (sim, es))) q =
     clearSlow (u_instanceId (unitAt sim hr)) (unitAt sim q)"
  by (cases q; cases "fst q") (auto simp: Let_def unitAt_def validRef_def)

lemma attack_evolves:
  assumes ok: "sim_ok sim" and t: "pickTarget unit sim = Some t" and "0 \<le> dmg"
  shows "evolves (sim, es) (applyDamage t dmg ur c k (sim, es))"
  using pickTarget_SomeD [OF t] assms(3) by (intro applyDamage_evolves) auto

lemma evolves_okD: "evolves a b \<Longrightarrow> sim_ok (fst a) \<Longrightarrow> sim_ok (fst b) \<and> board_ages (fst a) (fst b)"
  by (simp add: evolves_def)

lemma evolves_then:
  assumes "sim_ok (fst a)" and "evolves a b"
    and "sim_ok (fst b) \<Longrightarrow> board_ages (fst a) (fst b) \<Longrightarrow> evolves b c"
  shows "evolves a c"
  using evolves_okD [OF assms(2,1)] assms(3) evolves_trans [OF assms(2)] by blast

lemma atkFor_nonneg [simp]: "0 \<le> atkFor u s"
  using atkFor_pos [of u s] by simp

declare applyDamage.simps [simp del] applyLifesteal.simps [simp del] applyPierce.simps [simp del]
  applyHealerSupport.simps [simp del] applySlow.simps [simp del] clearHealerSlows.simps [simp del]

text \<open>The same contracts with the state not split into its components.\<close>

lemma pair_contracts:
  "validRef (fst st) fr \<Longrightarrow> u_alive (unitAt (fst st) fr) \<Longrightarrow> evolves st (applyLifesteal fr d c k st)"
  "0 \<le> d \<Longrightarrow> evolves st (applyPierce rr tr d c k st)"
  "sim_ok (fst st) \<Longrightarrow> evolves st (applyHealerSupport hr c k st)"
  "validRef (fst st) tr \<Longrightarrow> evolves st (applySlow hr tr c k st)"
  by (cases st; simp add: applyLifesteal_evolves applyPierce_evolves applyHealerSupport_evolves
      applySlow_evolves)+

lemma unitAct_evolves:
  assumes ok: "sim_ok sim" and ur: "validRef sim ur" and alive: "u_alive (unitAt sim ur)"
  shows "evolves (sim, es) (unitAct ur c k (sim, es))"
proof (cases "pickTarget (unitAt sim ur) sim")
  case None
  show ?thesis
    using None applyHealerSupport_evolves [OF ok] by (cases "u_unitId (unitAt sim ur)") (simp_all add: Let_def)
next
  case (Some t)
  note t = pickTarget_SomeD [OF Some]
  have other: "ur \<noteq> t" using t sim_okD(2) [OF ok ur] by auto
  let ?st = "\<lambda>d. applyDamage t d ur c k (sim, es)"
  have hit: "evolves (sim, es) (?st (atkFor u s))" for u s
    using attack_evolves [OF ok Some] by simp
  have hitter: "validRef (fst (?st d)) ur" "u_alive (unitAt (fst (?st d)) ur)"
    if "evolves (sim, es) (?st d)" for d
    using that ok ur alive applyDamage_other [of sim t ur d ur c k es] other t
      board_ages_valid evolves_okD by fastforce+
  show ?thesis
  proof (cases "u_unitId (unitAt sim ur)")
    case Fighter
    have "evolves (sim, es) (applyLifesteal ur d c k (?st (atkFor u s)))" for d u s
      by (rule evolves_trans [OF hit [of u s]]) (intro pair_contracts hitter hit)
    with Fighter Some hit show ?thesis by (simp add: Let_def)
  next
    case Tank
    with Some hit show ?thesis by (simp add: Let_def)
  next
    case Ranger
    have "evolves (sim, es) (applyPierce ur t (atkFor u s) c k (?st (atkFor u s)))" for u s
      by (rule evolves_trans [OF hit [of u s]]) (intro pair_contracts atkFor_nonneg)
    with Ranger Some hit show ?thesis by (simp add: Let_def)
  next
    case Healer
    obtain sim1 es1 where cl: "clearHealerSlows ur (sim, es) = (sim1, es1)" by fastforce
    note cleared = clearHealerSlows_evolves [of sim es ur, unfolded cl]
    have ages1: "board_ages sim sim1" and ok1: "sim_ok sim1"
      using evolves_okD [OF cleared] ok by auto
    have t1: "validRef sim1 t" "u_alive (unitAt sim1 t)"
      using t clearHealerSlows_unit [of sim t ur es] board_ages_valid [OF ages1]
      by (simp_all add: cl clearSlow_frame)
    let ?hit = "applyDamage t (atkFor Healer (u_star (unitAt sim ur))) ur c k (sim1, es1)"
    have e2: "evolves (sim, es) ?hit"
      by (rule evolves_trans [OF cleared]) (intro applyDamage_evolves t1 atkFor_nonneg)
    have e3: "evolves (sim, es) (applyHealerSupport ur c k ?hit)"
      using evolves_then [OF _ e2, of "applyHealerSupport ur c k ?hit"] ok pair_contracts(3) by simp
    have e4: "evolves (sim, es) (applySlow ur t c k (applyHealerSupport ur c k ?hit))"
      using evolves_then [OF _ e3] ok t board_ages_valid pair_contracts(4) by simp
    from Healer Some cl e3 e4 show ?thesis by (simp add: Let_def)
  qed
qed

end
