(* ===== verification/Battle.thy ===== *)
theory Battle
  imports Engine
begin

text \<open>
  The properties of a whole battle: the contract of one act is lifted through the tick loop and
  the cycle loop, and the event list is described (its end, its snapshots, its ledgers).
\<close>

subsection \<open>Lifting the contract through the loops\<close>

declare unitAct.simps [simp del]

lemma fst_attachSnapshot [simp]: "fst \<circ> attachSnapshot sim = id"
  by (auto simp: attachSnapshot_def)

lemma evolves_prefix:
  "evolves (sim, []) (sim', new) \<Longrightarrow> evolves (sim, es) (sim', es @ new)"
  by (auto simp: evolves_def)

lemma evolves_marker:
  "\<not> is_death e \<Longrightarrow> \<not> is_revive e \<Longrightarrow> evolves (sim, es) (sim, es @ [e])"
  by (auto simp: evolves_def)

lemma erase_actOne:
  "erase (actOne c k r (sim, evs)) =
   (if \<not> u_alive (unitAt sim r) then (sim, map fst evs)
    else (fst (unitAct r c k (sim, [])), map fst evs @ snd (unitAct r c k (sim, []))))"
  by (simp add: erase_def split: prod.splits)

interpretation unit_acts: effect_family erase "actOne c k" "\<lambda>r sim. validRef sim r"
proof
  fix st :: log_state and r
  assume ok: "sim_ok (fst (erase st))" and r: "validRef (fst (erase st)) r"
  obtain sim evs where st: "st = (sim, evs)" by fastforce
  show "evolves (erase st) (erase (actOne c k r st))"
  proof (cases "u_alive (unitAt sim r)")
    case False
    then show ?thesis unfolding st erase_actOne by (simp add: erase_def)
  next
    case True
    have "evolves (sim, []) (unitAct r c k (sim, []))"
      using ok r True by (intro unitAct_evolves) (simp_all add: st erase_def)
    then have "evolves (sim, map fst evs)
        (fst (unitAct r c k (sim, [])), map fst evs @ snd (unitAct r c k (sim, [])))"
      by (intro evolves_prefix) simp
    with True show ?thesis unfolding st erase_actOne by (simp add: erase_def)
  qed
next
  fix sim sim' r
  show "board_ages sim sim' \<Longrightarrow> validRef sim r \<Longrightarrow> validRef sim' r"
    by (simp add: board_ages_valid)
qed

lemma actingUnits_valid: "r \<in> set (orderForTick sim i (actingUnits sim k)) \<Longrightarrow> validRef sim r"
  by (auto simp: orderForTick_def actingUnits_def)

interpretation tick_runs: effect_family erase "runTick i c" "\<lambda>k sim. True"
proof
  fix st :: log_state and k
  assume ok: "sim_ok (fst (erase st))"
  obtain sim evs where st: "st = (sim, evs)" by fastforce
  show "evolves (erase st) (erase (runTick i c k st))"
    unfolding st runTick.simps using ok actingUnits_valid
    by (intro unit_acts.fold_evolves) (auto simp: st erase_def)
qed simp

lemma runCycles_evolves:
  "sim_ok (fst st) \<Longrightarrow> evolves (erase st) (erase (runCycles i cs st))"
proof (induction i cs st rule: runCycles.induct)
  case (1 i sim evs)
  then show ?case
    using evolves_marker [of "BattleEndEv MAX_CYCLES None" sim "map fst evs"]
    by (simp add: erase_def attachSnapshot_def)
next
  case (2 i c cs sim evs)
  obtain sim' evs' where run: "fold (runTick i c) ticks (sim, evs) = (sim', evs')" by fastforce
  have e1: "evolves (sim, map fst evs) (sim', map fst evs')"
    using tick_runs.fold_evolves [of "(sim, evs)" ticks i c] "2.prems" by (simp add: erase_def run)
  then have ok': "sim_ok sim'" using "2.prems" evolves_okD by fastforce
  have e2: "evolves (sim, map fst evs) (sim', map fst evs' @ [CycleEndEv c])"
    by (rule evolves_trans [OF e1 evolves_marker]) simp_all
  have e3: "evolves (sim, map fst evs) (sim', (map fst evs' @ [CycleEndEv c]) @ [BattleEndEv c w])" for w
    by (rule evolves_trans [OF e2 evolves_marker]) simp_all
  show ?case
  proof (cases "\<not> sideAlive sim' P1 \<or> \<not> sideAlive sim' P2")
    case True
    with run e3 show ?thesis by (simp add: erase_def attachSnapshot_def)
  next
    case False
    with run ok' "2.IH" have "evolves (erase (sim', evs' @ [attachSnapshot sim' (CycleEndEv c)]))
        (erase (runCycles i cs (sim', evs' @ [attachSnapshot sim' (CycleEndEv c)])))"
      by (simp add: Let_def)
    then have "evolves (sim, map fst evs)
        (erase (runCycles i cs (sim', evs' @ [attachSnapshot sim' (CycleEndEv c)])))"
      by (intro evolves_trans [OF e2]) (simp add: erase_def attachSnapshot_def)
    with run False show ?thesis by (simp add: erase_def Let_def)
  qed
qed

text \<open>A battle state as the coordinator builds it: fresh units on their own side.\<close>

definition state_ok :: "BattleState \<Rightarrow> bool" where
  "state_ok state \<longleftrightarrow>
     (\<forall>u \<in> set (bs_p1Units state). unit_ok u \<and> u_side u = P1) \<and>
     (\<forall>u \<in> set (bs_p2Units state). unit_ok u \<and> u_side u = P2)"

lemma cloneUnit_ok: "unit_ok u \<Longrightarrow> unit_ok (cloneUnit u) \<and> u_side (cloneUnit u) = u_side u"
  by (auto simp: cloneUnit_def unit_ok_def slow_ok_def split: option.splits)

lemma cloneSim_ok: "state_ok state \<Longrightarrow> sim_ok (cloneSim state)"
  unfolding sim_ok_def
proof
  fix s assume "state_ok state"
  then show "\<forall>u \<in> set (unitsOf (cloneSim state) s). unit_ok u \<and> u_side u = s"
    by (cases s) (auto simp: cloneSim_def state_ok_def cloneUnit_ok)
qed

lemma battleRun_evolves:
  "state_ok state \<Longrightarrow> evolves (cloneSim state, []) (erase (battleRun state))"
  unfolding battleRun_def
  using runCycles_evolves [of "(cloneSim state, [])"] cloneSim_ok by (simp add: erase_def)

subsection \<open>Snapshots\<close>

definition snap_ok :: "UnitSnapshot \<Rightarrow> bool" where
  "snap_ok s \<longleftrightarrow> 0 \<le> sn_hp s \<and> sn_hp s \<le> sn_maxHp s \<and> (sn_alive s \<longleftrightarrow> 0 < sn_hp s) \<and> sn_slot s < 9"

definition snap_ages :: "UnitSnapshot \<Rightarrow> UnitSnapshot \<Rightarrow> bool" where
  "snap_ages a b \<longleftrightarrow> sn_instanceId b = sn_instanceId a \<and> sn_unitId b = sn_unitId a \<and>
     sn_star b = sn_star a \<and> sn_maxHp b = sn_maxHp a \<and> sn_slot b = sn_slot a \<and>
     sn_side b = sn_side a \<and> (sn_alive b \<longrightarrow> sn_alive a)"

lemma snapshot_ok: "sim_ok sim \<Longrightarrow> list_all snap_ok (snapshotAllUnits sim)"
proof -
  assume "sim_ok sim"
  then have "\<forall>s. \<forall>u \<in> set (unitsOf sim s). snap_ok (snapshotUnit u)"
    by (auto simp: sim_ok_def unit_ok_def snap_ok_def snapshotUnit_def)
  from spec [OF this, of P1] spec [OF this, of P2] show ?thesis
    by (auto simp: snapshotAllUnits_def list_all_iff)
qed

lemma snapshot_ages:
  assumes "board_ages sim sim'"
  shows "list_all2 snap_ages (snapshotAllUnits sim) (snapshotAllUnits sim')"
proof -
  have one: "snap_ages (snapshotUnit u) (snapshotUnit v)" if "ages u v" for u v
    using that by (simp add: snap_ages_def snapshotUnit_def ages_def same_unit_def)
  have "list_all2 (\<lambda>u v. snap_ages (snapshotUnit u) (snapshotUnit v)) (unitsOf sim s) (unitsOf sim' s)" for s
    using assms one unfolding board_ages_def by (blast intro: list_all2_mono)
  from this [of P1] this [of P2] show ?thesis
    by (simp add: snapshotAllUnits_def list_all2_appendI list.rel_map)
qed

lemma snaps_age_trans:
  "list_all2 snap_ages xs ys \<Longrightarrow> list_all2 snap_ages ys zs \<Longrightarrow> list_all2 snap_ages xs zs"
  by (rule list_all2_trans [of snap_ages snap_ages snap_ages]) (auto simp: snap_ages_def)

text \<open>
  The event list stays consistent with the board: every attached snapshot is well formed, later
  snapshots age earlier ones, and the current board ages them all.
\<close>

definition log_ok :: "log_state \<Rightarrow> bool" where
  "log_ok st \<longleftrightarrow> list_all (list_all snap_ok) (map snd (snd st)) \<and>
     sorted_wrt (list_all2 snap_ages) (map snd (snd st) @ [snapshotAllUnits (fst st)])"

lemma log_ok_board:
  assumes "log_ok (sim, evs)" and "board_ages sim sim'"
  shows "log_ok (sim', evs)"
  using assms snaps_age_trans [OF _ snapshot_ages [OF assms(2)]]
  by (fastforce simp: log_ok_def sorted_wrt_append)

lemma log_ok_push:
  assumes "log_ok (sim, evs)" and "sim_ok sim"
  shows "log_ok (sim, evs @ map (attachSnapshot sim) new)"
proof (induction new rule: rev_induct)
  case Nil
  with assms show ?case by simp
next
  case (snoc e es)
  have refl: "list_all2 snap_ages (snapshotAllUnits sim) (snapshotAllUnits sim)"
    by (rule snapshot_ages) simp
  with snoc snapshot_ok [OF assms(2)] show ?case
    by (auto simp: log_ok_def attachSnapshot_def sorted_wrt_append)
qed

text \<open>Both invariants together, along a loop.\<close>

definition run_ok :: "log_state \<Rightarrow> bool" where
  "run_ok st \<longleftrightarrow> sim_ok (fst st) \<and> log_ok st"

lemma actOne_run_ok:
  assumes "run_ok st" and "validRef (fst st) r"
  shows "run_ok (actOne c k r st)"
proof -
  obtain sim evs where st: "st = (sim, evs)" by fastforce
  obtain sim' new where act: "unitAct r c k (sim, []) = (sim', new)" by fastforce
  show ?thesis
  proof (cases "u_alive (unitAt sim r)")
    case False
    with assms show ?thesis by (simp add: st)
  next
    case True
    have "evolves (sim, []) (sim', new)"
      using unitAct_evolves [of sim r "[]" c k] assms True by (simp add: st run_ok_def act)
    then have "sim_ok sim'" "board_ages sim sim'"
      using assms(1) evolves_okD by (fastforce simp: st run_ok_def)+
    with True assms(1) act show ?thesis
      by (auto simp: st run_ok_def intro: log_ok_push log_ok_board)
  qed
qed

lemma actOne_valid: "run_ok st \<Longrightarrow> validRef (fst st) r \<Longrightarrow>
    validRef (fst (actOne c k r st)) q \<longleftrightarrow> validRef (fst st) q"
  using unit_acts.step [of st r c k] evolves_stable [of "erase st" "erase (actOne c k r st)"]
  by (simp add: erase_def run_ok_def)

lemma fold_actOne_run_ok:
  "run_ok st \<Longrightarrow> (\<And>r. r \<in> set rs \<Longrightarrow> validRef (fst st) r) \<Longrightarrow> run_ok (fold (actOne c k) rs st)"
proof (induction rs arbitrary: st)
  case Nil
  then show ?case by simp
next
  case (Cons r rs)
  have "run_ok (actOne c k r st)" using Cons.prems by (simp add: actOne_run_ok)
  moreover have "validRef (fst (actOne c k r st)) q" if "q \<in> set rs" for q
    using that Cons.prems actOne_valid by simp
  ultimately show ?case using Cons.IH by simp
qed

lemma runTick_run_ok: "run_ok st \<Longrightarrow> run_ok (runTick i c k st)"
  by (cases st) (auto intro!: fold_actOne_run_ok dest: actingUnits_valid simp del: actOne.simps)

lemma marker_run_ok: "run_ok (sim, evs) \<Longrightarrow> run_ok (sim, evs @ [attachSnapshot sim e])"
  using log_ok_push [of sim evs "[e]"] by (simp add: run_ok_def)

lemma fold_runTick_run_ok: "run_ok st \<Longrightarrow> run_ok (fold (runTick i c) ks st)"
  by (rule fold_invariant) (auto intro: runTick_run_ok)

lemma runCycles_run_ok: "run_ok st \<Longrightarrow> run_ok (runCycles i cs st)"
proof (induction i cs st rule: runCycles.induct)
  case (1 i sim evs)
  then show ?case by (simp add: marker_run_ok)
next
  case (2 i c cs sim evs)
  obtain sim' evs' where run: "fold (runTick i c) ticks (sim, evs) = (sim', evs')" by fastforce
  have "run_ok (sim', evs')"
    using fold_runTick_run_ok [OF "2.prems"] by (metis run)
  then have ok: "run_ok (sim', evs' @ [attachSnapshot sim' (CycleEndEv c)])"
    by (rule marker_run_ok)
  show ?case
  proof (cases "\<not> sideAlive sim' P1 \<or> \<not> sideAlive sim' P2")
    case True
    with run marker_run_ok [OF ok, of "BattleEndEv c (battleWinnerOf sim')"] show ?thesis by simp
  next
    case False
    with run ok "2.IH" [of "(sim', evs')"] show ?thesis by (simp add: Let_def)
  qed
qed

lemma battleRun_run_ok: "state_ok state \<Longrightarrow> run_ok (battleRun state)"
  unfolding battleRun_def
  by (rule runCycles_run_ok) (simp add: run_ok_def log_ok_def cloneSim_ok)

subsection \<open>The shape of the event list\<close>

fun is_battle_end :: "CombatEvent \<Rightarrow> bool" where
  "is_battle_end (BattleEndEv _ _) = True"
| "is_battle_end _ = False"

fun is_cycle_end :: "CombatEvent \<Rightarrow> bool" where
  "is_cycle_end (CycleEndEv _) = True"
| "is_cycle_end _ = False"

definition cycleEnds :: "SnapEvent list \<Rightarrow> nat list" where
  "cycleEnds evs = [c. (CycleEndEv c, sn) \<leftarrow> evs]"

lemma cycleEnds_simps [simp]:
  "cycleEnds [] = []" "cycleEnds (xs @ ys) = cycleEnds xs @ cycleEnds ys"
  "cycleEnds [attachSnapshot sim (CycleEndEv c)] = [c]"
  "cycleEnds [attachSnapshot sim (BattleEndEv c w)] = []" "fst (attachSnapshot sim e) = e"
  by (simp_all add: cycleEnds_def attachSnapshot_def)

definition act_event :: "CombatEvent \<Rightarrow> bool" where
  "act_event e \<longleftrightarrow> \<not> is_battle_end e \<and> \<not> is_cycle_end e"

lemma cycleEnds_acts: "\<forall>e \<in> set evs. act_event (fst e) \<Longrightarrow> cycleEnds evs = []"
  unfolding cycleEnds_def by (induction evs) (auto simp: act_event_def split: CombatEvent.splits)

text \<open>No ability emits a cycle or battle end.\<close>

definition appends_acts :: "act_state \<Rightarrow> act_state \<Rightarrow> bool" where
  "appends_acts st st' \<longleftrightarrow> (\<exists>new. snd st' = snd st @ new \<and> list_all act_event new)"

lemma appends_acts_refl [simp]: "appends_acts st st"
  by (simp add: appends_acts_def)

lemma appends_acts_trans: "appends_acts a b \<Longrightarrow> appends_acts b c \<Longrightarrow> appends_acts a c"
  by (force simp: appends_acts_def)

lemma effects_append:
  "appends_acts st (applyDamage t d s c k st)" "appends_acts st (applyLifesteal t d c k st)"
  "appends_acts st (applyPierce s t d c k st)" "appends_acts st (healOne t s c k st)"
  "appends_acts st (applySlow s t c k st)" "appends_acts st (clearHealerSlows s st)"
  by (cases st; auto simp: appends_acts_def act_event_def Let_def applyDamage.simps
      applyLifesteal.simps applyPierce.simps applySlow.simps clearHealerSlows.simps
      split: option.splits)+

lemma then_appends:
  assumes "appends_acts a st"
  shows "appends_acts a (applyDamage t d s c k st)" "appends_acts a (applyLifesteal t d c k st)"
    "appends_acts a (applyPierce s t d c k st)" "appends_acts a (healOne t s c k st)"
    "appends_acts a (applySlow s t c k st)" "appends_acts a (clearHealerSlows s st)"
  by (rule appends_acts_trans [OF assms], rule effects_append)+

lemma support_appends: "appends_acts a st \<Longrightarrow> appends_acts a (applyHealerSupport h c k st)"
proof -
  assume a: "appends_acts a st"
  obtain sim es where st: "st = (sim, es)" by fastforce
  show ?thesis
    using a unfolding st applyHealerSupport.simps Let_def
    by (simp add: then_appends del: healOne.simps split: option.split)
qed

lemma unitAct_appends: "appends_acts st (unitAct u c k st)"
proof -
  obtain sim es where st: "st = (sim, es)" by fastforce
  show ?thesis
    unfolding st unitAct.simps Let_def
    by (simp add: then_appends support_appends split: option.split UnitId.split)
qed

lemma actOne_log:
  "\<exists>new. snd (actOne c k r (sim, evs)) = evs @ new \<and> (\<forall>e \<in> set new. act_event (fst e))"
  using unitAct_appends [of "(sim, [])" r c k]
  by (force simp: appends_acts_def list_all_iff attachSnapshot_def split: prod.splits)

lemma fold_log:
  assumes "\<And>i st. \<exists>new. snd (f i st) = snd st @ new \<and> (\<forall>e \<in> set new. act_event (fst e))"
  shows "\<exists>new. snd (fold f is st) = snd st @ new \<and> (\<forall>e \<in> set new. act_event (fst e))"
proof (induction "is" arbitrary: st)
  case Nil
  then show ?case by simp
next
  case (Cons i js)
  obtain n1 where n1: "snd (f i st) = snd st @ n1" "\<forall>e \<in> set n1. act_event (fst e)"
    using assms by blast
  obtain n2 where n2: "snd (fold f js (f i st)) = snd (f i st) @ n2" "\<forall>e \<in> set n2. act_event (fst e)"
    using Cons.IH by blast
  from n1 n2 have "snd (fold f (i # js) st) = snd st @ (n1 @ n2) \<and>
      (\<forall>e \<in> set (n1 @ n2). act_event (fst e))"
    by auto
  then show ?case by blast
qed

lemma runTick_log:
  "\<exists>new. snd (runTick i c k st) = snd st @ new \<and> (\<forall>e \<in> set new. act_event (fst e))"
proof -
  have one: "\<exists>new. snd (actOne c k r st) = snd st @ new \<and> (\<forall>e \<in> set new. act_event (fst e))" for r st
    using actOne_log by (cases st) simp
  obtain sim evs where st: "st = (sim, evs)" by fastforce
  show ?thesis unfolding st runTick.simps by (rule fold_log) (rule one)
qed

text \<open>What \<open>runCycles\<close> appends: acts and one cycle end per completed cycle, then one battle end.\<close>

lemma runCycles_shape:
  assumes "cs = [a..<Suc MAX_CYCLES]" and "a \<le> Suc MAX_CYCLES"
  shows "\<exists>pre c w. snd (runCycles i cs (sim, evs)) =
      evs @ pre @ [attachSnapshot (fst (runCycles i cs (sim, evs))) (BattleEndEv c w)] \<and>
    (\<forall>e \<in> set pre. \<not> is_battle_end (fst e)) \<and> c \<le> MAX_CYCLES \<and> a \<le> Suc c \<and>
    (a \<le> MAX_CYCLES \<longrightarrow> a \<le> c) \<and> cycleEnds pre = [a..<Suc c] \<and>
    (let sim' = fst (runCycles i cs (sim, evs)) in
       (w \<noteq> None \<longrightarrow> w = battleWinnerOf sim') \<and>
       (sideAlive sim' P1 \<and> sideAlive sim' P2 \<longrightarrow> c = MAX_CYCLES \<and> w = None) \<and>
       (a \<le> MAX_CYCLES \<and> \<not> (sideAlive sim' P1 \<and> sideAlive sim' P2) \<longrightarrow> w = battleWinnerOf sim'))"
  using assms
proof (induction cs arbitrary: a sim evs)
  case Nil
  have "[a..<Suc MAX_CYCLES] = []" using Nil(1) by (rule sym)
  with Nil(2) have "a = Suc MAX_CYCLES" by (simp del: upt_Suc)
  then show ?case
    by (intro exI [of _ "[]"] exI [of _ MAX_CYCLES] exI [of _ None]) (simp add: Let_def)
next
  case (Cons c cs)
  have lt: "a < Suc MAX_CYCLES"
    using Cons.prems by (cases "a = Suc MAX_CYCLES") (simp_all del: upt_Suc)
  with Cons.prems(1) have c: "c = a" "a \<le> MAX_CYCLES" and cs: "cs = [Suc a..<Suc MAX_CYCLES]"
    by (simp_all add: upt_conv_Cons del: upt_Suc)
  obtain sim' evs' where run: "fold (runTick i c) ticks (sim, evs) = (sim', evs')" by fastforce
  obtain new where new: "evs' = evs @ new" "\<forall>e \<in> set new. act_event (fst e)"
    using fold_log [of "runTick i c" ticks "(sim, evs)"] runTick_log run by (metis snd_conv)
  let ?pre = "new @ [attachSnapshot sim' (CycleEndEv c)]"
  have pre: "\<forall>e \<in> set ?pre. \<not> is_battle_end (fst e)" and pre_cycles: "cycleEnds ?pre = [a]"
    using new(2) c by (auto simp: act_event_def cycleEnds_acts)
  show ?case
  proof (cases "\<not> sideAlive sim' P1 \<or> \<not> sideAlive sim' P2")
    case True
    with run new(1) pre pre_cycles c show ?thesis
      by (intro exI [of _ ?pre] exI [of _ c] exI [of _ "battleWinnerOf sim'"]) auto
  next
    case False
    let ?rest = "runCycles i cs (sim', evs' @ [attachSnapshot sim' (CycleEndEv c)])"
    from Cons.IH [OF cs, of sim' "evs' @ [attachSnapshot sim' (CycleEndEv c)]"] c(2)
    obtain p c' w where ih: "snd ?rest = (evs' @ [attachSnapshot sim' (CycleEndEv c)]) @ p @
          [attachSnapshot (fst ?rest) (BattleEndEv c' w)]"
        "\<forall>e \<in> set p. \<not> is_battle_end (fst e)" "c' \<le> MAX_CYCLES" "Suc a \<le> Suc c'"
        "cycleEnds p = [Suc a..<Suc c']"
        "w \<noteq> None \<longrightarrow> w = battleWinnerOf (fst ?rest)"
        "sideAlive (fst ?rest) P1 \<and> sideAlive (fst ?rest) P2 \<longrightarrow> c' = MAX_CYCLES \<and> w = None"
        "Suc a \<le> MAX_CYCLES \<and> \<not> (sideAlive (fst ?rest) P1 \<and> sideAlive (fst ?rest) P2) \<longrightarrow>
           w = battleWinnerOf (fst ?rest)"
      by (auto simp: Let_def simp del: upt_Suc)
    have whole: "runCycles i (c # cs) (sim, evs) = ?rest"
      using run False by (simp add: Let_def)
    have last: "w = battleWinnerOf (fst ?rest)"
      if "\<not> (sideAlive (fst ?rest) P1 \<and> sideAlive (fst ?rest) P2)"
    proof (cases "Suc a \<le> MAX_CYCLES")
      case True
      with ih(8) that show ?thesis by blast
    next
      case a30: False
      with c(2) cs have "cs = []" by simp
      with False that show ?thesis by simp
    qed
    have "cycleEnds (?pre @ p) = cycleEnds ?pre @ cycleEnds p" by (rule cycleEnds_simps(2))
    also have "\<dots> = [a] @ [Suc a..<Suc c']" by (simp only: pre_cycles ih(5))
    also have "\<dots> = [a..<Suc c']" using ih(4) by (simp add: upt_conv_Cons del: upt_Suc)
    finally have "cycleEnds (?pre @ p) = [a..<Suc c']" .
    with whole ih new(1) pre last show ?thesis
      by (intro exI [of _ "?pre @ p"] exI [of _ c'] exI [of _ w]) (auto simp: Let_def simp del: upt_Suc)
  qed
qed

end
