(* ===== verification/Battle_Props.thy ===== *)
theory Battle_Props
  imports Battle "HOL-Library.Product_Lexorder"
begin

text \<open>
  The properties of the combat engine: the shape of the event list, the declared winner, the
  snapshots, the death and revive ledgers, the tick schedule, and the single effects.
\<close>

subsection \<open>Whole battles\<close>

text \<open>
  C5: Every battle returns, for any input: its event list ends with exactly one \<open>battle_end\<close>, whose
  cycle lies between 1 and 30, and the \<open>cycle_end\<close> events are those of the cycles 1 up to it, in
  order and without gaps.
\<close>

theorem battle_shape:
  "\<exists>pre c w snap. runBattle state = pre @ [(BattleEndEv c w, snap)] \<and>
     list_all (\<lambda>e. \<not> is_battle_end (fst e)) pre \<and> 1 \<le> c \<and> c \<le> MAX_CYCLES \<and>
     cycleEnds pre = [1..<Suc c]"
proof -
  let ?r = "runCycles (initSideOf state) [1..<Suc MAX_CYCLES] (cloneSim state, [])"
  have "1 \<le> Suc MAX_CYCLES" by simp
  from runCycles_shape [OF refl this, of "initSideOf state" "cloneSim state" "[]"]
  obtain pre c w where run: "runBattle state = pre @ [attachSnapshot (fst (battleRun state)) (BattleEndEv c w)]"
    and rest: "\<forall>e \<in> set pre. \<not> is_battle_end (fst e)" "c \<le> MAX_CYCLES" "1 \<le> MAX_CYCLES \<longrightarrow> 1 \<le> c"
      "cycleEnds pre = [1..<Suc c]"
    unfolding runBattle_def battleRun_def append_Nil by blast
  from rest(3) have "1 \<le> c" by (simp add: MAX_CYCLES_def)
  with run rest show ?thesis unfolding attachSnapshot_def list_all_iff by blast
qed

lemma all_sides: "(\<forall>s. p s) \<longleftrightarrow> p P1 \<and> p P2"
proof
  assume "p P1 \<and> p P2"
  then show "\<forall>s. p s" by (auto intro: Side.induct)
qed auto

definition snapAlive :: "UnitSnapshot list \<Rightarrow> Side \<Rightarrow> bool" where
  "snapAlive snap s \<longleftrightarrow> (\<exists>u \<in> set snap. sn_side u = s \<and> sn_alive u)"

lemma snapAlive_sideAlive:
  assumes "sim_ok sim"
  shows "snapAlive (snapshotAllUnits sim) s \<longleftrightarrow> sideAlive sim s"
proof -
  have side: "u_side u = s'" if "u \<in> set (unitsOf sim s')" for u s'
    using assms that by (auto simp: sim_ok_def)
  have "snapAlive (snapshotAllUnits sim) s \<longleftrightarrow>
      (\<exists>u \<in> set (p1Units sim). u_side u = s \<and> u_alive u) \<or> (\<exists>u \<in> set (p2Units sim). u_side u = s \<and> u_alive u)"
    by (simp add: snapAlive_def snapshotAllUnits_def snapshotUnit_def bex_Un)
  with side [of _ P1] side [of _ P2] show ?thesis
    by (cases s) (auto simp: sideAlive_def)
qed

text \<open>
  C6: The winner of a battle can be read off the snapshot its \<open>battle_end\<close> event carries: the winner
  still has a unit standing and the loser none; a tie means that both sides were wiped, or that
  both survived to the end of cycle 30.
\<close>

theorem battle_winner:
  assumes "state_ok state" and "last (runBattle state) = (BattleEndEv c w, snap)"
  shows "(\<forall>s. w = Some s \<longrightarrow> snapAlive snap s \<and> \<not> snapAlive snap (enemySideOf s)) \<and>
    (w = None \<longrightarrow> (\<forall>s. \<not> snapAlive snap s) \<or> ((\<forall>s. snapAlive snap s) \<and> c = MAX_CYCLES))"
proof -
  have one: "1 \<le> Suc MAX_CYCLES" by simp
  let ?sim = "fst (battleRun state)"
  from runCycles_shape [OF refl one, of "initSideOf state" "cloneSim state" "[]"]
  obtain pre c' w' where shape: "runBattle state = pre @ [attachSnapshot ?sim (BattleEndEv c' w')]"
    and w': "w' \<noteq> None \<longrightarrow> w' = battleWinnerOf ?sim"
      "sideAlive ?sim P1 \<and> sideAlive ?sim P2 \<longrightarrow> c' = MAX_CYCLES \<and> w' = None"
      "1 \<le> MAX_CYCLES \<and> \<not> (sideAlive ?sim P1 \<and> sideAlive ?sim P2) \<longrightarrow> w' = battleWinnerOf ?sim"
    unfolding runBattle_def battleRun_def Let_def by auto
  from shape assms(2) have eqs: "c' = c" "w' = w" "snap = snapshotAllUnits ?sim"
    by (auto simp: attachSnapshot_def)
  have "sim_ok ?sim" using battleRun_run_ok [OF assms(1)] by (simp add: run_ok_def)
  then have alive: "snapAlive snap s \<longleftrightarrow> sideAlive ?sim s" for s
    by (simp add: eqs snapAlive_sideAlive)
  from w' have "(w' = Some P1 \<longrightarrow> sideAlive ?sim P1 \<and> \<not> sideAlive ?sim P2) \<and>
      (w' = Some P2 \<longrightarrow> sideAlive ?sim P2 \<and> \<not> sideAlive ?sim P1) \<and>
      (w' = None \<longrightarrow> (\<not> sideAlive ?sim P1 \<and> \<not> sideAlive ?sim P2) \<or>
        (sideAlive ?sim P1 \<and> sideAlive ?sim P2 \<and> c' = MAX_CYCLES))"
    by (cases "sideAlive ?sim P1"; cases "sideAlive ?sim P2")
      (simp_all add: battleWinnerOf_def MAX_CYCLES_def)
  then show ?thesis
    unfolding alive all_sides enemySideOf.simps by (simp add: eqs)
qed

text \<open>
  C19: Every snapshot in the event list is well formed: HP between 0 and the maximum, a unit alive
  exactly while its HP is positive, slots on the grid.
\<close>

theorem battle_snapshots_ok:
  assumes "state_ok state" and "(e, snap) \<in> set (runBattle state)" and "u \<in> set snap"
  shows "0 \<le> sn_hp u \<and> sn_hp u \<le> sn_maxHp u \<and> (sn_alive u \<longleftrightarrow> 0 < sn_hp u) \<and> sn_slot u < 9"
proof -
  have "list_all (list_all snap_ok) (map snd (runBattle state))"
    using battleRun_run_ok [OF assms(1)] by (simp add: run_ok_def log_ok_def runBattle_def)
  with assms(2,3) show ?thesis by (force simp: list_all_iff snap_ok_def)
qed

text \<open>
  C18: Snapshots only age. Between two events of a battle every unit keeps its identity (id, type,
  star, maximal HP, slot, side), and a unit shown dead is never shown alive again.
\<close>

theorem battle_death_is_final:
  assumes "state_ok state" and "i < j" and "j < length (runBattle state)"
  shows "list_all2 snap_ages (snd (runBattle state ! i)) (snd (runBattle state ! j))"
proof -
  have "sorted_wrt (list_all2 snap_ages) (map snd (runBattle state))"
    using battleRun_run_ok [OF assms(1)]
    by (simp add: run_ok_def log_ok_def runBattle_def sorted_wrt_append)
  with assms(2,3) show ?thesis by (auto simp: sorted_wrt_iff_nth_less)
qed

text \<open>
  C17: The event list accounts for every loss: the number of death events is the number of units
  standing at the start minus the number standing at the end, and each revive event uses up one
  of the tanks that still had theirs.
\<close>

theorem battle_ledger:
  assumes "state_ok state"
  shows "deaths (map fst (runBattle state)) = aliveCount (cloneSim state) - aliveCount (fst (battleRun state))
    \<and> revives (map fst (runBattle state)) =
        revivableCount (cloneSim state) - revivableCount (fst (battleRun state))
    \<and> 0 \<le> revivableCount (fst (battleRun state))"
proof -
  have "0 \<le> revivableCount sim" for sim
    by (auto simp: revivableCount_def sumUnits_def intro!: add_nonneg_nonneg sum_list_nonneg)
  with battleRun_evolves [OF assms] cloneSim_ok [OF assms] show ?thesis
    by (simp add: evolves_def erase_def runBattle_def)
qed

subsection \<open>The tick schedule\<close>

lemma multiples_upto:
  fixes c :: int
  assumes "0 < c" "0 \<le> n"
  shows "card {t. 1 \<le> t \<and> t \<le> n \<and> c dvd t} = nat (n div c)"
proof -
  have "{t. 1 \<le> t \<and> t \<le> n \<and> c dvd t} = (\<lambda>k. c * k) ` {1..n div c}"
  proof (intro set_eqI iffI)
    fix t assume "t \<in> {t. 1 \<le> t \<and> t \<le> n \<and> c dvd t}"
    then obtain k where k: "t = c * k" "1 \<le> c * k" "c * k \<le> n" by (auto elim: dvdE)
    then have "0 < c * k" by linarith
    then have "1 \<le> k" using assms(1) by (simp add: zero_less_mult_iff)
    moreover have "k \<le> n div c"
      using zdiv_mono1 [OF k(3) assms(1)] assms(1) by simp
    ultimately show "t \<in> (\<lambda>k. c * k) ` {1..n div c}" using k(1) by auto
  next
    fix t assume "t \<in> (\<lambda>k. c * k) ` {1..n div c}"
    then obtain k where t: "t = c * k" "k \<in> {1..n div c}" by (rule imageE)
    then have k: "t = c * k" "1 \<le> k" "k \<le> n div c" by simp_all
    have "c * k \<le> c * (n div c)" using k(3) assms(1) by simp
    also have "\<dots> \<le> n"
      using mult_div_mod_eq [of c n] pos_mod_sign [OF assms(1), of n] by linarith
    finally have "c * k \<le> n" .
    moreover have "0 < c * k" using k(2) assms(1) by simp
    then have "1 \<le> c * k" by linarith
    ultimately show "t \<in> {t. 1 \<le> t \<and> t \<le> n \<and> c dvd t}" using k(1) by simp
  qed
  moreover have "inj_on (\<lambda>k. c * k) {1..n div c}" using assms(1) by (auto simp: inj_on_def)
  ultimately show ?thesis by (simp add: card_image)
qed

lemma distinct_ticks: "distinct ticks" and set_ticks: "set ticks = {1..TICKS_PER_CYCLE}"
proof -
  show "distinct ticks" by (simp add: ticks_def distinct_map)
  show "set ticks = {1..TICKS_PER_CYCLE}"
  proof (intro set_eqI iffI)
    fix t :: int assume "t \<in> {1..TICKS_PER_CYCLE}"
    then have "t = int (nat t)" "1 \<le> nat t" "nat t < Suc (nat TICKS_PER_CYCLE)" by auto
    then show "t \<in> set ticks" unfolding ticks_def by (metis atLeastLessThan_iff image_eqI list.set_map set_upt)
  qed (auto simp: ticks_def TICKS_PER_CYCLE_def)
qed

text \<open>
  The schedule of \<open>actsOnTick\<close>: in the 100 ticks of a cycle a unit of speed \<open>s\<close> (0 to 99) acts
  exactly \<open>floor(100 / (100 - s))\<close> times, the table of the combat specification, and a unit of the
  forbidden speeds from 100 on acts once.
\<close>

theorem actions_per_cycle:
  "(0 \<le> spd \<and> spd < 100 \<longrightarrow>
      length (filter (actsOnTick spd) ticks) = nat (100 div (100 - spd))) \<and>
   (100 \<le> spd \<longrightarrow> length (filter (actsOnTick spd) ticks) = 1)"
proof (intro conjI impI)
  have len: "length (filter (actsOnTick spd) ticks) = card {t \<in> {1..TICKS_PER_CYCLE}. actsOnTick spd t}"
    by (subst distinct_length_filter [OF distinct_ticks]) (simp add: set_ticks Int_def conj_commute)
  {
    assume s: "0 \<le> spd \<and> spd < 100"
    then have "{t \<in> {1..TICKS_PER_CYCLE}. actsOnTick spd t} =
        {t. 1 \<le> t \<and> t \<le> 100 \<and> (100 - spd) dvd t}"
      by (auto simp: actsOnTick_def TICKS_PER_CYCLE_def Let_def)
    with s len multiples_upto [of "100 - spd" 100]
    show "length (filter (actsOnTick spd) ticks) = nat (100 div (100 - spd))" by simp
  next
    assume s: "100 \<le> spd"
    then have "{t \<in> {1..TICKS_PER_CYCLE}. actsOnTick spd t} = {100}"
      by (auto simp: actsOnTick_def TICKS_PER_CYCLE_def Let_def)
    with len show "length (filter (actsOnTick spd) ticks) = 1" by simp
  }
qed

theorem actions_per_cycle_witness:
  "length (filter (actsOnTick (spdFor Ranger)) ticks) = 3 \<and>
   length (filter (actsOnTick (slowedSpd (spdFor Ranger))) ticks) = 1"
  using actions_per_cycle [of 67] actions_per_cycle [of 47]
  by (simp add: spdFor_def slowedSpd_def)

subsection \<open>Order of the acting units\<close>

definition tickKey :: "BattleSim \<Rightarrow> Side \<Rightarrow> uref \<Rightarrow> nat \<times> int \<times> nat \<times> nat \<times> string" where
  "tickKey sim i r =
     (let u = unitAt sim r in (if u_side u = i then 0 else 1, - currentSpd u, u_slot u div 3,
        u_slot u mod 3, u_instanceId u))"

text \<open>The nested comparator is the lexicographic order of one key.\<close>

lemma tickCmp_key: "tickCmp sim i a b \<le> 0 \<longleftrightarrow> tickKey sim i a \<le> tickKey sim i b"
proof -
  have sides: "u_side a \<noteq> u_side b \<Longrightarrow> u_side a = i \<or> u_side b = i" for a b :: UnitInstance
    by (cases "u_side a"; cases "u_side b"; cases i) auto
  show ?thesis
    unfolding tickCmp_def tickKey_def Let_def
    using sides [of "unitAt sim a" "unitAt sim b"]
    by (cases "u_side (unitAt sim a) = u_side (unitAt sim b)")
      (simp_all add: less_eq_prod_def less_prod_def, auto)
qed

interpretation tick_order: comparator "tickCmp sim i"
  by unfold_locales (auto simp: tickCmp_key)

definition ids_distinct :: "BattleSim \<Rightarrow> bool" where
  "ids_distinct sim \<longleftrightarrow> inj_on (\<lambda>r. u_instanceId (unitAt sim r)) {r. validRef sim r}"

text \<open>
  The order in which the units of a tick act does not depend on the order of the unit arrays:
  any two arrangements of the same acting units are sorted to the same sequence (unit ids being
  distinct), and in it every unit of the drawn side comes before every unit of the other.
\<close>

theorem tick_order_deterministic:
  assumes "ids_distinct sim" and "mset us = mset vs" and "\<forall>r \<in> set us. validRef sim r"
  shows "orderForTick sim i us = orderForTick sim i vs \<and>
    sorted_wrt (\<lambda>a b. u_side (unitAt sim b) = i \<longrightarrow> u_side (unitAt sim a) = i) (orderForTick sim i us)"
proof
  show "orderForTick sim i us = orderForTick sim i vs"
    unfolding orderForTick_def
  proof (rule tick_order.sort_permutation_invariant [OF assms(2)])
    fix a b assume ab: "a \<in> set us" "b \<in> set us" and "tickCmp sim i a b \<le> 0" "tickCmp sim i b a \<le> 0"
    then have "tickKey sim i a = tickKey sim i b" by (simp add: tickCmp_key)
    then have "u_instanceId (unitAt sim a) = u_instanceId (unitAt sim b)"
      by (simp add: tickKey_def Let_def)
    with assms(1,3) ab show "a = b" unfolding ids_distinct_def by (auto elim: inj_onD)
  qed
next
  have "sorted_wrt (\<lambda>a b. tickCmp sim i a b \<le> 0) (orderForTick sim i us)"
    unfolding orderForTick_def by (rule tick_order.sorted_sort)
  then show "sorted_wrt (\<lambda>a b. u_side (unitAt sim b) = i \<longrightarrow> u_side (unitAt sim a) = i)
      (orderForTick sim i us)"
    by (rule sorted_wrt_mono_rel [rotated])
      (auto simp: tickCmp_key tickKey_def Let_def split: if_splits)
qed

subsection \<open>A concrete battle\<close>

definition demoState :: BattleState where
  "demoState = \<lparr>bs_p1Units = [demoUnit Fighter 0 ''a1'' 100 0 P1, demoUnit Ranger 1 ''a2'' 60 3 P1],
     bs_p2Units = [demoUnit Healer 0 ''b1'' 19 1 P2], bs_roundSeed = 7,
     bs_matchSeed = ''42'', bs_rng = None\<rparr>"

text \<open>The snapshot of the three units with the given HP.\<close>

definition demoBoard :: "int \<Rightarrow> int \<Rightarrow> int \<Rightarrow> UnitSnapshot list" where
  "demoBoard f r h =
     [\<lparr>sn_instanceId = ''a1'', sn_unitId = Fighter, sn_star = 0, sn_hp = f, sn_maxHp = 100,
       sn_slot = 0, sn_side = P1, sn_alive = f > 0\<rparr>,
      \<lparr>sn_instanceId = ''a2'', sn_unitId = Ranger, sn_star = 1, sn_hp = r, sn_maxHp = 60,
       sn_slot = 3, sn_side = P1, sn_alive = r > 0\<rparr>,
      \<lparr>sn_instanceId = ''b1'', sn_unitId = Healer, sn_star = 0, sn_hp = h, sn_maxHp = 70,
       sn_slot = 1, sn_side = P2, sn_alive = h > 0\<rparr>]"

lemma demoState_ok: "state_ok demoState"
  by (simp add: state_ok_def demoState_def demoUnit_def unit_ok_def slow_ok_def)

lemma demo_snapshots:
  "map snd (runBattle demoState) = [demoBoard 100 60 1, demoBoard 94 60 11, demoBoard 94 60 11,
     demoBoard 94 60 0, demoBoard 94 60 0, demoBoard 94 60 0, demoBoard 94 60 0]"
  by code_simp

lemma demo_last: "last (runBattle demoState) = (BattleEndEv 1 (Some P1), demoBoard 94 60 0)"
  by code_simp

lemma demo_length: "length (runBattle demoState) = 7"
  using arg_cong [OF demo_snapshots, of length] by simp

lemma demo_nth: "i < 7 \<Longrightarrow> snd (runBattle demoState ! i) = map snd (runBattle demoState) ! i"
  by (simp add: demo_length)

theorem battle_winner_witness:
  "snapAlive (demoBoard 94 60 0) P1 \<and> \<not> snapAlive (demoBoard 94 60 0) P2"
  using battle_winner [OF demoState_ok demo_last] by simp

theorem battle_snapshots_ok_witness: "list_all (\<lambda>u. sn_hp u \<le> sn_maxHp u) (demoBoard 94 60 11)"
proof -
  have "runBattle demoState ! 1 \<in> set (runBattle demoState)" by (simp add: demo_length)
  moreover have "snd (runBattle demoState ! 1) = demoBoard 94 60 11"
    by (simp add: demo_nth demo_snapshots)
  ultimately have "(fst (runBattle demoState ! 1), demoBoard 94 60 11) \<in> set (runBattle demoState)"
    by (metis prod.collapse)
  from battle_snapshots_ok [OF demoState_ok this] show ?thesis unfolding list_all_iff by blast
qed

theorem battle_death_is_final_witness:
  "list_all2 snap_ages (demoBoard 100 60 1) (demoBoard 94 60 0)"
  using battle_death_is_final [OF demoState_ok, of 0 3] by (simp add: demo_length demo_nth demo_snapshots)

theorem battle_ledger_witness:
  "revives (map fst (runBattle demoState)) \<le> revivableCount (cloneSim demoState)"
  using battle_ledger [OF demoState_ok] by simp

theorem tick_order_deterministic_witness:
  "orderForTick demoSim P2 [(P1, 0), (P2, 0)] = orderForTick demoSim P2 [(P2, 0), (P1, 0)]"
proof -
  have "inj_on (\<lambda>r. u_instanceId (unitAt demoSim r)) {(P1, 0), (P1, 1), (P2, 0), (P2, 1)}"
    by (simp add: demoSim_def demoUnit_def unitAt_def)
  moreover have "validRef demoSim r \<longleftrightarrow> r \<in> {(P1, 0), (P1, 1), (P2, 0), (P2, 1)}" for r
    by (cases r; cases "fst r") (auto simp: validRef_demoSim less_2_cases_iff)
  then have "{r. validRef demoSim r} = {(P1, 0), (P1, 1), (P2, 0), (P2, 1)}" by blast
  ultimately have "ids_distinct demoSim" by (simp add: ids_distinct_def)
  from tick_order_deterministic [OF this, of "[(P1, 0), (P2, 0)]" "[(P2, 0), (P1, 0)]"]
  show ?thesis by (simp add: validRef_demoSim)
qed

end
