(* ===== verification/Effect_Props.thy ===== *)
theory Effect_Props
  imports Battle_Props
begin

text \<open>
  Properties of single acts: the tank's one revive, the healer's support and the life cycle of
  her slow.
\<close>

subsection \<open>The tank's revive\<close>

text \<open>
  A tank of star 1 or 2 survives exactly one lethal hit: the first one is turned into a revive
  at half the maximal HP with a \<open>revive\<close> event and no \<open>attack\<close> event, and the next lethal hit kills
  it, with the \<open>death\<close> event before the \<open>attack\<close> event.
\<close>

theorem tank_revives_once:
  assumes "validRef sim t" and "unit_ok (unitAt sim t)" and "revivable (unitAt sim t)"
    and "u_hp (unitAt sim t) \<le> d" and "reviveHp (u_maxHp (unitAt sim t)) \<le> d'" and "s \<noteq> t"
  shows "\<exists>sim1 sim2. applyDamage t d s c k (sim, es) =
        (sim1, es @ [ReviveEv c k (u_instanceId (unitAt sim t)) (reviveHp (u_maxHp (unitAt sim t)))
                       (actorFields (unitAt sim t))]) \<and>
      u_alive (unitAt sim1 t) = u_alive (unitAt sim t) \<and> 0 < u_hp (unitAt sim1 t) \<and>
      applyDamage t d' s c' k' (sim1, es') =
        (sim2, es' @ [DeathEv c' k' (u_instanceId (unitAt sim t)) (actorFields (unitAt sim t)),
                      AttackEv c' k' (u_instanceId (unitAt sim s)) (u_instanceId (unitAt sim t)) d' 0
                        (actorFields (unitAt sim s)) (actorFields (unitAt sim t))]) \<and>
      \<not> u_alive (unitAt sim2 t) \<and> u_hp (unitAt sim2 t) = 0"
proof -
  let ?u = "unitAt sim t"
  have "2 \<le> u_maxHp ?u" using assms(2,3) by (simp add: unit_ok_def revivable_def)
  then have pos: "0 < reviveHp (u_maxHp ?u)" by (simp add: reviveHp_def)
  show ?thesis
    using assms pos
    by (simp add: applyDamage.simps revivable_def unitAt_setUnit actorFields_def Let_def)
qed

subsection \<open>The healer's slow\<close>

text \<open>A field the effects on HP leave alone is unchanged by damage and by support heals.\<close>

definition hp_frame :: "(UnitInstance \<Rightarrow> 'b) \<Rightarrow> bool" where
  "hp_frame f \<longleftrightarrow> (\<forall>u h r. f (u\<lparr>u_hp := h\<rparr>) = f u \<and> f (u\<lparr>u_hp := h, u_alive := False\<rparr>) = f u \<and>
     f (u\<lparr>u_hp := h, u_revivedThisRound := r\<rparr>) = f u)"

lemma hp_frameD:
  "hp_frame f \<Longrightarrow> f (u\<lparr>u_hp := h\<rparr>) = f u"
  "hp_frame f \<Longrightarrow> f (u\<lparr>u_hp := h, u_alive := False\<rparr>) = f u"
  "hp_frame f \<Longrightarrow> f (u\<lparr>u_hp := h, u_revivedThisRound := r\<rparr>) = f u"
  by (simp_all add: hp_frame_def)

lemma damage_frame:
  assumes "hp_frame f" and "validRef (fst st) t"
  shows "f (unitAt (fst (applyDamage t d s c k st)) q) = f (unitAt (fst st) q)"
  using assms(2) by (cases st) (simp add: applyDamage.simps Let_def unitAt_setUnit hp_frameD [OF assms(1)])

lemma heal_frame:
  assumes "hp_frame f" and "validRef (fst st) t"
  shows "f (unitAt (fst (healOne t h c k st)) q) = f (unitAt (fst st) q)"
  using assms(2) by (cases st) (simp add: Let_def unitAt_setUnit hp_frameD [OF assms(1)])

lemma refs_healOne [simp]:
  "validRef (fst (healOne t h c k st)) q = validRef (fst st) q"
  by (cases st) (simp add: Let_def)

lemma refs_damage [simp]:
  "validRef (fst (applyDamage t d s c k st)) q = validRef (fst st) q"
  by (cases st) (simp add: applyDamage.simps Let_def)

lemma refs_support [simp]:
  "validRef (fst (applyHealerSupport h c k st)) q = validRef (fst st) q"
  by (cases st) (simp add: applyHealerSupport.simps Let_def del: healOne.simps split: option.split)

lemma support_frame:
  assumes "hp_frame f"
  shows "f (unitAt (fst (applyHealerSupport h c k st)) q) = f (unitAt (fst st) q)"
proof -
  obtain sim es where st: "st = (sim, es)" by fastforce
  let ?allies = "refsOf sim (u_side (unitAt sim h))"
  let ?first = "lowestHpAlly sim ?allies None"
  let ?st1 = "case ?first of Some x \<Rightarrow> healOne x h c k (sim, es) | None \<Rightarrow> (sim, es)"
  have one: "f (unitAt (fst ?st1) q) = f (unitAt sim q)"
    and refs: "validRef (fst ?st1) x = validRef sim x" for x
    using lowestHpAlly_SomeD(1) [of sim ?allies None]
    by (auto simp: heal_frame [OF assms] simp del: healOne.simps split: option.split)
  have two: "f (unitAt (fst (healOne x h c k ?st1)) q) = f (unitAt sim q)"
    if "lowestHpAlly (fst ?st1) ?allies ?first = Some x" for x
    using lowestHpAlly_SomeD(1) [OF that] one refs by (simp add: heal_frame [OF assms])
  show ?thesis
    unfolding st applyHealerSupport.simps Let_def using one two
    by (simp del: healOne.simps split: option.split)
qed

lemma tag_frame: "hp_frame u_slowUntilHealerAct" and id_frame: "hp_frame u_instanceId"
  and kind_frame: "hp_frame u_unitId"
  by (simp_all add: hp_frame_def)

text \<open>
  One slow per healer. After a healer of star 1 or 2 has attacked, exactly her new target
  carries her slow, at 70 percent of its base speed: the slow of her previous target is gone.
\<close>

theorem healer_slow_moves:
  assumes "sim_ok sim" and "validRef sim h" and "u_unitId (unitAt sim h) = Healer"
    and "1 \<le> u_star (unitAt sim h)" and "pickTarget (unitAt sim h) sim = Some t"
    and "unitAct h c k (sim, es) = (sim', es')" and "validRef sim q"
  shows "(u_slowUntilHealerAct (unitAt sim' q) = Some (u_instanceId (unitAt sim h)) \<longleftrightarrow> q = t) \<and>
    currentSpd (unitAt sim' t) = slowedSpd (spdFor (u_unitId (unitAt sim t)))"
proof -
  let ?hid = "u_instanceId (unitAt sim h)"
  obtain sim1 es1 where cl: "clearHealerSlows h (sim, es) = (sim1, es1)" by fastforce
  have unit1: "unitAt sim1 r = clearSlow ?hid (unitAt sim r)" if "validRef sim r" for r
    using clearHealerSlows_unit [OF that, of h es] by (simp add: cl)
  have "board_ages sim sim1"
    using clearHealerSlows_evolves [of sim es h] evolves_okD assms(1) by (fastforce simp: cl)
  then have ref1: "validRef sim1 r = validRef sim r" for r by (simp add: board_ages_valid)
  have t: "validRef sim t" using pickTarget_SomeD [OF assms(5)] by simp
  define st where "st = applyHealerSupport h c k (applyDamage t (atkFor Healer (u_star (unitAt sim h))) h c k (sim1, es1))"
  have frame: "f (unitAt (fst st) r) = f (clearSlow ?hid (unitAt sim r))"
    if "hp_frame f" "validRef sim r" for f :: "UnitInstance \<Rightarrow> 'b" and r
    using that t by (simp add: st_def support_frame damage_frame ref1 unit1)
  have valid: "validRef (fst st) t" using t by (simp add: st_def ref1)
  have final: "(sim', es') = applySlow h t c k st"
    using assms(3-6) by (simp add: unitAct.simps Let_def cl st_def)
  obtain sim3 es3 where st3: "st = (sim3, es3)" by fastforce
  have tag: "u_slowUntilHealerAct (unitAt sim3 r) \<noteq> Some ?hid"
    and ids: "u_instanceId (unitAt sim3 r) = u_instanceId (unitAt sim r)"
    and kinds: "u_unitId (unitAt sim3 r) = u_unitId (unitAt sim r)" if "validRef sim r" for r
    using frame [OF tag_frame that] frame [OF id_frame that] frame [OF kind_frame that]
    by (auto simp: st3 clearSlow_def)
  have "sim' = setUnit sim3 t ((unitAt sim3 t)\<lparr>u_effectiveSpd := Some (slowedSpd (spdFor (u_unitId (unitAt sim t)))),
      u_slowActive := Some True, u_slowUntilHealerAct := Some ?hid\<rparr>)"
    using final by (simp add: st3 applySlow.simps Let_def ids [OF assms(2)] kinds [OF t])
  with valid tag [OF assms(7)] show ?thesis
    by (simp add: st3 unitAt_setUnit currentSpd_def)
qed

subsection \<open>The healer's support\<close>

definition allyKey :: "BattleSim \<Rightarrow> uref \<Rightarrow> int \<times> string" where
  "allyKey sim r = (u_hp (unitAt sim r), u_instanceId (unitAt sim r))"

definition weakest :: "BattleSim \<Rightarrow> uref set \<Rightarrow> uref \<Rightarrow> bool" where
  "weakest sim R r \<longleftrightarrow> r \<in> R \<and> (\<forall>x \<in> R. allyKey sim r \<le> allyKey sim x)"

definition aliveAllies :: "BattleSim \<Rightarrow> uref \<Rightarrow> uref list" where
  "aliveAllies sim h = filter (\<lambda>r. u_alive (unitAt sim r)) (refsOf sim (u_side (unitAt sim h)))"

lemma weakerAlly_key:
  "allyKey sim (weakerAlly sim a b) \<le> allyKey sim a" "allyKey sim (weakerAlly sim a b) \<le> allyKey sim b"
  by (auto simp: weakerAlly_def allyKey_def less_eq_prod_def)

lemma foldl_weakest:
  "allyKey sim (foldl (weakerAlly sim) x xs) \<le> allyKey sim x \<and>
   (\<forall>y \<in> set xs. allyKey sim (foldl (weakerAlly sim) x xs) \<le> allyKey sim y)"
proof (induction xs arbitrary: x)
  case Nil
  then show ?case by simp
next
  case (Cons z zs)
  from Cons.IH [of "weakerAlly sim x z"] weakerAlly_key [of sim x z] show ?case
    by (auto intro: order_trans)
qed

lemma lowestHpAlly_weakest:
  assumes "lowestHpAlly sim allies ex = Some r"
  shows "weakest sim {x \<in> set allies. u_alive (unitAt sim x) \<and> Some x \<noteq> ex} r"
proof -
  let ?pool = "filter (\<lambda>r. u_alive (unitAt sim r) \<and> Some r \<noteq> ex) allies"
  from assms obtain x xs where pool: "?pool = x # xs"
    by (cases ?pool) (auto simp: lowestHpAlly_def)
  from assms have r: "r = foldl (weakerAlly sim) x xs"
    unfolding lowestHpAlly_def Let_def pool by simp
  have "set ?pool = insert x (set xs)" unfolding pool by simp
  then have set_pool: "{x \<in> set allies. u_alive (unitAt sim x) \<and> Some x \<noteq> ex} = insert x (set xs)"
    by (simp only: set_filter)
  have "r \<in> insert x (set xs)" unfolding r by (simp only: foldl_weakerAlly_in)
  then show ?thesis
    unfolding weakest_def set_pool using foldl_weakest [of sim x xs] unfolding r [symmetric] by blast
qed

lemma lowestHpAlly_None:
  "lowestHpAlly sim allies ex = None \<longleftrightarrow> {x \<in> set allies. u_alive (unitAt sim x) \<and> Some x \<noteq> ex} = {}"
  by (auto simp: lowestHpAlly_def Let_def filter_empty_conv split: if_splits)

definition healedUnit :: "UnitInstance \<Rightarrow> UnitInstance" where
  "healedUnit u = u\<lparr>u_hp := min (u_maxHp u) (u_hp u + HEAL_AMOUNT)\<rparr>"

lemma healOne_unit:
  assumes "validRef sim t" and "u_hp (unitAt sim t) \<le> u_maxHp (unitAt sim t)"
  shows "unitAt (fst (healOne t h c k (sim, es))) q =
    (if q = t then healedUnit (unitAt sim t) else unitAt sim q)"
proof (cases "u_hp (unitAt sim t) = u_maxHp (unitAt sim t)")
  case True
  then show ?thesis by (simp add: Let_def healedUnit_def HEAL_AMOUNT_def)
next
  case False
  with assms have "\<not> min HEAL_AMOUNT (u_maxHp (unitAt sim t) - u_hp (unitAt sim t)) \<le> 0"
    by (simp add: HEAL_AMOUNT_def)
  moreover have "u_hp (unitAt sim t) + min HEAL_AMOUNT (u_maxHp (unitAt sim t) - u_hp (unitAt sim t)) =
      min (u_maxHp (unitAt sim t)) (u_hp (unitAt sim t) + HEAL_AMOUNT)"
    by (simp add: min_def)
  ultimately show ?thesis using assms(1) by (simp add: Let_def healedUnit_def unitAt_setUnit)
qed

declare healOne.simps [simp del]

text \<open>
  The healer's support: the living ally with the lowest HP (lowest id on a tie) is healed by
  10 HP up to its maximum, a star 2 healer also heals the weakest of the other living allies, and
  no other unit changes in any field.
\<close>

theorem healer_support_heals_weakest:
  assumes "sim_ok sim" and "f \<in> set (aliveAllies sim h)"
    and "applyHealerSupport h c k (sim, es) = (sim', es')"
  shows "\<exists>first. weakest sim (set (aliveAllies sim h)) first \<and>
    (\<exists>healed. (if u_star (unitAt sim h) = 2 \<and> set (aliveAllies sim h) \<noteq> {first}
        then \<exists>second. weakest sim (set (aliveAllies sim h) - {first}) second \<and> healed = {first, second}
        else healed = {first}) \<and>
      (\<forall>q. unitAt sim' q = (if q \<in> healed then healedUnit (unitAt sim q) else unitAt sim q)))"
proof -
  let ?allies = "refsOf sim (u_side (unitAt sim h))"
  have pool: "{x \<in> set ?allies. u_alive (unitAt sim x) \<and> Some x \<noteq> None} = set (aliveAllies sim h)"
    by (auto simp: aliveAllies_def)
  obtain first where first: "lowestHpAlly sim ?allies None = Some first"
    using assms(2) lowestHpAlly_None [of sim ?allies None] unfolding pool
    by (cases "lowestHpAlly sim ?allies None") auto
  have w1: "weakest sim (set (aliveAllies sim h)) first"
    using lowestHpAlly_weakest [OF first] unfolding pool .
  have v1: "validRef sim first" and h1: "u_hp (unitAt sim first) \<le> u_maxHp (unitAt sim first)"
    using lowestHpAlly_SomeD(1) [OF first] sim_okD(1) [OF assms(1)] by (auto simp: unit_ok_def)
  let ?st1 = "healOne first h c k (sim, es)"
  have u1: "unitAt (fst ?st1) q = (if q = first then healedUnit (unitAt sim first) else unitAt sim q)" for q
    using healOne_unit [OF v1 h1] .
  have pool2: "{x \<in> set ?allies. u_alive (unitAt (fst ?st1) x) \<and> Some x \<noteq> Some first} =
      set (aliveAllies sim h) - {first}"
    by (auto simp: aliveAllies_def u1)
  show ?thesis
  proof (cases "u_star (unitAt sim h) = 2 \<and> set (aliveAllies sim h) \<noteq> {first}")
    case False
    have "lowestHpAlly (fst ?st1) ?allies (Some first) = None" if "u_star (unitAt sim h) = 2"
      using that False pool2 by (simp add: lowestHpAlly_None)
    then have "sim' = fst ?st1"
      using assms(3) first by (auto simp: applyHealerSupport.simps Let_def split: if_splits)
    with False w1 u1 show ?thesis by (intro exI [of _ first]) auto
  next
    case True
    with w1 have "set (aliveAllies sim h) - {first} \<noteq> {}" by (auto simp: weakest_def)
    then obtain second where second: "lowestHpAlly (fst ?st1) ?allies (Some first) = Some second"
      using lowestHpAlly_None [of "fst ?st1" ?allies "Some first"] unfolding pool2
      by (cases "lowestHpAlly (fst ?st1) ?allies (Some first)") auto
    have "weakest (fst ?st1) (set (aliveAllies sim h) - {first}) second"
      using lowestHpAlly_weakest [OF second] unfolding pool2 .
    then have w2: "weakest sim (set (aliveAllies sim h) - {first}) second"
      by (auto simp: weakest_def allyKey_def u1)
    have ne: "second \<noteq> first" using w2 by (auto simp: weakest_def)
    have v2: "validRef (fst ?st1) second"
      using lowestHpAlly_SomeD(1) [OF second] by simp
    then have h2: "u_hp (unitAt (fst ?st1) second) \<le> u_maxHp (unitAt (fst ?st1) second)"
      using ne sim_okD(1) [OF assms(1), of second] by (simp add: u1 unit_ok_def)
    have "sim' = fst (healOne second h c k ?st1)"
      using assms(3) first second True
      by (auto simp: applyHealerSupport.simps Let_def)
    then have "unitAt sim' q = (if q \<in> {first, second} then healedUnit (unitAt sim q) else unitAt sim q)" for q
      using healOne_unit [OF v2 h2, of h c k "snd ?st1" q] ne
      by (simp add: u1)
    then have all: "\<forall>q. unitAt sim' q = (if q \<in> {first, second} then healedUnit (unitAt sim q) else unitAt sim q)"
      by (rule allI)
    from True w2 have "if u_star (unitAt sim h) = 2 \<and> set (aliveAllies sim h) \<noteq> {first}
        then \<exists>snd. weakest sim (set (aliveAllies sim h) - {first}) snd \<and> {first, second} = {first, snd}
        else {first, second} = {first}"
      by (simp only: if_True simp_thms) blast
    with w1 all show ?thesis by (intro exI [of _ first] exI [of _ "{first, second}"] conjI)
  qed
qed

subsection \<open>Concrete acts\<close>

definition clinicSim :: BattleSim where
  "clinicSim = \<lparr>p1Units = [demoUnit Healer 2 ''a1'' 70 0 P1, demoUnit Tank 1 ''a2'' 5 3 P1,
       demoUnit Fighter 0 ''a3'' 97 6 P1],
     p2Units = [demoUnit Ranger 1 ''b1'' 60 1 P2, demoUnit Tank 1 ''b2'' 20 0 P2]\<rparr>"

lemma clinicSim_ok: "sim_ok clinicSim"
proof -
  have "\<forall>u \<in> set (unitsOf clinicSim s). unit_ok u \<and> u_side u = s" for s
    by (cases s) (simp_all add: clinicSim_def demoUnit_def unit_ok_def slow_ok_def)
  then show ?thesis by (simp add: sim_ok_def)
qed

lemma validRef_clinic: "validRef clinicSim (P1, i) \<longleftrightarrow> i < 3" "validRef clinicSim (P2, i) \<longleftrightarrow> i < 2"
  by (auto simp: validRef_def clinicSim_def)

theorem tank_revives_once_witness:
  "\<exists>sim1. applyDamage (P2, 1) 22 (P1, 2) 1 20 (clinicSim, []) =
     (sim1, [ReviveEv 1 20 ''b2'' 75 (actorFields (unitAt clinicSim (P2, 1)))])"
proof -
  have "revivable (unitAt clinicSim (P2, 1))" "u_hp (unitAt clinicSim (P2, 1)) \<le> 22"
    "reviveHp (u_maxHp (unitAt clinicSim (P2, 1))) \<le> 80"
    "u_instanceId (unitAt clinicSim (P2, 1)) = ''b2''"
    "reviveHp (u_maxHp (unitAt clinicSim (P2, 1))) = 75"
    by (simp_all add: revivable_def clinicSim_def demoUnit_def unitAt_def reviveHp_def)
  moreover have "validRef clinicSim (P2, 1)" by (simp add: validRef_clinic)
  ultimately show ?thesis
    using tank_revives_once [of clinicSim "(P2, 1)" 22 80 "(P1, 2)" 1 20 "[]"] sim_okD(1) [OF clinicSim_ok]
    by fastforce
qed

theorem healer_slow_moves_witness:
  "u_slowUntilHealerAct (unitAt (fst (unitAct (P1, 0) 1 50 (clinicSim, []))) (P2, 1)) = Some ''a1''"
proof -
  have pick: "pickTarget (unitAt clinicSim (P1, 0)) clinicSim = Some (P2, 1)" by code_simp
  have healer: "u_unitId (unitAt clinicSim (P1, 0)) = Healer" "1 \<le> u_star (unitAt clinicSim (P1, 0))"
    "u_instanceId (unitAt clinicSim (P1, 0)) = ''a1''"
    by (simp_all add: clinicSim_def demoUnit_def unitAt_def)
  show ?thesis
    using healer_slow_moves [OF clinicSim_ok _ healer(1,2) pick prod.collapse [symmetric],
        where q = "(P2, 1)" and c = 1 and k = 50 and es = "[]"]
    by (simp add: validRef_clinic healer(3))
qed

lemma first_healed: "(if P then \<exists>x. Q x \<and> H = {f, x} else H = {f}) \<Longrightarrow> f \<in> H"
  by (cases P) auto

theorem healer_support_heals_weakest_witness:
  "\<exists>first. weakest clinicSim (set (aliveAllies clinicSim (P1, 0))) first \<and>
     unitAt (fst (applyHealerSupport (P1, 0) 1 50 (clinicSim, []))) first = healedUnit (unitAt clinicSim first)"
proof -
  have "(P1, 0) \<in> set (aliveAllies clinicSim (P1, 0))" by code_simp
  from healer_support_heals_weakest [OF clinicSim_ok this prod.collapse [symmetric], of 1 50 "[]"]
  obtain first healed where first: "weakest clinicSim (set (aliveAllies clinicSim (P1, 0))) first"
    and cases: "if u_star (unitAt clinicSim (P1, 0)) = 2 \<and> set (aliveAllies clinicSim (P1, 0)) \<noteq> {first}
        then \<exists>second. weakest clinicSim (set (aliveAllies clinicSim (P1, 0)) - {first}) second \<and>
          healed = {first, second}
        else healed = {first}"
    and units: "\<forall>q. unitAt (fst (applyHealerSupport (P1, 0) 1 50 (clinicSim, []))) q =
       (if q \<in> healed then healedUnit (unitAt clinicSim q) else unitAt clinicSim q)"
    by blast
  from cases have "first \<in> healed" by (rule first_healed)
  with spec [OF units, of first]
  have "unitAt (fst (applyHealerSupport (P1, 0) 1 50 (clinicSim, []))) first = healedUnit (unitAt clinicSim first)"
    by simp
  with first show ?thesis by blast
qed

end
