(* ===== verification/Json.thy ===== *)
theory Json
  imports Prelude
begin

text \<open>
  JSON values and the number/string conversions of the JavaScript library that the backend's
  parsers use. Numbers are integers: every number the program writes is one. A Redis hash value
  is a string; \<open>HJson j\<close> is the string \<open>JSON.stringify\<close> makes of \<open>j\<close>, so that \<open>JSON.parse\<close> of it is
  \<open>j\<close>, and \<open>HStr\<close> is any other string, on which \<open>JSON.parse\<close> throws.
\<close>

datatype json = JNull | JBool bool | JNum int | JStr string | JArr "json list"
  | JObj "(string \<times> json) list"

type_synonym jobj = "(string \<times> json) list"

datatype hval = HStr string | HJson json

text \<open>The result of \<open>hgetall\<close>: the empty object when the key is absent.\<close>

type_synonym rhash = "string \<rightharpoonup> hval"

text \<open>\<open>JSON.parse\<close>: \<open>None\<close> is the exception.\<close>

fun jsonParse :: "hval option \<Rightarrow> json option" where
  "jsonParse (Some (HJson j)) = Some j"
| "jsonParse _ = None"

fun asObj :: "json option \<Rightarrow> jobj option" where
  "asObj (Some (JObj kvs)) = Some kvs"
| "asObj _ = None"

definition isRecord :: "json option \<Rightarrow> bool" where
  "isRecord v \<longleftrightarrow> asObj v \<noteq> None"

text \<open>Property access on an object; \<open>None\<close> is \<open>undefined\<close>.\<close>

definition getProp :: "jobj \<Rightarrow> string \<Rightarrow> json option" where
  "getProp kvs k = map_of kvs k"

subsection \<open>Decimal strings\<close>

definition digitChar :: "nat \<Rightarrow> char" where
  "digitChar d = char_of (48 + d)"

fun showNat :: "nat \<Rightarrow> string" where
  "showNat n = (if n < 10 then [digitChar n] else showNat (n div 10) @ [digitChar (n mod 10)])"

declare showNat.simps [simp del]

definition showInt :: "int \<Rightarrow> string" where
  "showInt i = (if i < 0 then CHR ''-'' # showNat (nat (- i)) else showNat (nat i))"

definition isDigit :: "char \<Rightarrow> bool" where
  "isDigit c \<longleftrightarrow> 48 \<le> (of_char c :: nat) \<and> (of_char c :: nat) \<le> 57"

definition readNat :: "string \<Rightarrow> nat" where
  "readNat s = foldl (\<lambda>n c. 10 * n + (of_char c - 48)) 0 s"

text \<open>
  \<open>Number(s)\<close> on a string: the empty string is 0, an optional minus sign and decimal digits are
  their value, and anything else is \<open>NaN\<close> (\<open>None\<close>); \<open>undefined\<close> is \<open>NaN\<close> too. The hexadecimal,
  exponent and fraction forms, which the program never stores, are taken as \<open>NaN\<close>.
\<close>

fun js_Number :: "string \<Rightarrow> int option" where
  "js_Number [] = Some 0"
| "js_Number (c # cs) =
     (if c = CHR ''-'' then (if cs \<noteq> [] \<and> list_all isDigit cs then Some (- int (readNat cs)) else None)
      else if list_all isDigit (c # cs) then Some (int (readNat (c # cs))) else None)"

fun hNumber :: "hval option \<Rightarrow> int option" where
  "hNumber (Some (HStr s)) = js_Number s"
| "hNumber _ = None"

fun positiveInt :: "hval option \<Rightarrow> nat option" where
  "positiveInt v = (case hNumber v of Some n \<Rightarrow> if n > 0 then Some (nat n) else None | None \<Rightarrow> None)"

fun nonNegativeInt :: "hval option \<Rightarrow> nat" where
  "nonNegativeInt v = (case hNumber v of Some n \<Rightarrow> if n \<ge> 0 then nat n else 0 | None \<Rightarrow> 0)"

lemma of_char_digitChar [simp]: "d < 10 \<Longrightarrow> (of_char (digitChar d) :: nat) = 48 + d"
  by (simp add: digitChar_def)

lemma isDigit_digitChar [simp]: "d < 10 \<Longrightarrow> isDigit (digitChar d)"
  by (simp add: isDigit_def)

lemma showNat_not_Nil [simp]: "showNat n \<noteq> []"
  by (simp add: showNat.simps [of n])

lemma showNat_digits: "list_all isDigit (showNat n)"
  by (induction n rule: showNat.induct) (simp add: showNat.simps)

lemma readNat_snoc: "readNat (s @ [c]) = 10 * readNat s + (of_char c - 48)"
  by (simp add: readNat_def)

lemma readNat_showNat [simp]: "readNat (showNat n) = n"
proof (induction n rule: showNat.induct)
  case (1 n)
  show ?case
  proof (cases "n < 10")
    case True
    then show ?thesis by (simp add: showNat.simps [of n] readNat_def)
  next
    case False
    with 1 show ?thesis by (simp add: showNat.simps [of n] readNat_snoc)
  qed
qed

lemma showNat_first: "hd (showNat n) \<noteq> CHR ''-''"
proof
  assume "hd (showNat n) = CHR ''-''"
  with showNat_digits [of n] have "isDigit (CHR ''-'')" by (cases "showNat n") auto
  then show False by (simp add: isDigit_def)
qed

lemma js_Number_showNat [simp]: "js_Number (showNat n) = Some (int n)"
proof -
  obtain c cs where s: "showNat n = c # cs" by (meson neq_Nil_conv showNat_not_Nil)
  have "c \<noteq> CHR ''-''" using showNat_first [of n] s by simp
  with showNat_digits [of n] readNat_showNat [of n] show ?thesis by (simp add: s)
qed

lemma showNat_inject [simp]: "showNat m = showNat n \<longleftrightarrow> m = n"
  by (metis readNat_showNat)

lemma positiveInt_showNat [simp]: "positiveInt (Some (HStr (showNat n))) = (if 0 < n then Some n else None)"
  by simp

lemma nonNegativeInt_showNat [simp]: "nonNegativeInt (Some (HStr (showNat n))) = n"
  by simp

lemma positiveInt_None [simp]: "positiveInt None = None"
  by simp

declare positiveInt.simps [simp del] nonNegativeInt.simps [simp del]

lemma positiveInt_empty [simp]: "positiveInt (Some (HStr [])) = None"
  by (simp add: positiveInt.simps)

end
