(* ===== verification/Redis.thy ===== *)
theory Redis
  imports Json "HOL-Library.AList"
begin

text \<open>
  The Redis keyspace and the commands the backend and its Lua scripts issue
  (\<open>redis/scripts/*.lua\<close>, \<open>redis/redis.service.ts\<close>). A script runs atomically, so it is one function on
  the keyspace. Hashes, strings and sorted sets live in one store each: every key of the program is
  used with one type. \<open>EXPIRE\<close> is recorded; a key running out is the separate step \<open>expireKey\<close>.
\<close>

record redis =
  r_hash :: "string \<Rightarrow> (string \<times> hval) list"
  r_str :: "string \<Rightarrow> hval option"
  r_zset :: "string \<Rightarrow> (string \<times> int) list"
  r_ttl :: "string \<Rightarrow> int option"

definition emptyRedis :: redis where
  "emptyRedis = \<lparr>r_hash = \<lambda>_. [], r_str = \<lambda>_. None, r_zset = \<lambda>_. [], r_ttl = \<lambda>_. None\<rparr>"

subsection \<open>Commands\<close>

definition hget :: "string \<Rightarrow> string \<Rightarrow> redis \<Rightarrow> hval option" where
  "hget k f r = map_of (r_hash r k) f"

definition hgetall :: "string \<Rightarrow> redis \<Rightarrow> rhash" where
  "hgetall k r = map_of (r_hash r k)"

definition hset :: "string \<Rightarrow> string \<Rightarrow> hval \<Rightarrow> redis \<Rightarrow> redis" where
  "hset k f v r = r\<lparr>r_hash := (r_hash r)(k := AList.update f v (r_hash r k))\<rparr>"

text \<open>\<open>HSET\<close> with an object of fields.\<close>

definition hsets :: "string \<Rightarrow> (string \<times> hval) list \<Rightarrow> redis \<Rightarrow> redis" where
  "hsets k fvs r = fold (\<lambda>(f, v). hset k f v) fvs r"

definition hexists :: "string \<Rightarrow> string \<Rightarrow> redis \<Rightarrow> bool" where
  "hexists k f r \<longleftrightarrow> hget k f r \<noteq> None"

definition hlen :: "string \<Rightarrow> redis \<Rightarrow> nat" where
  "hlen k r = length (r_hash r k)"

definition getStr :: "string \<Rightarrow> redis \<Rightarrow> hval option" where
  "getStr k r = r_str r k"

definition setEx :: "string \<Rightarrow> hval \<Rightarrow> int \<Rightarrow> redis \<Rightarrow> redis" where
  "setEx k v ttl r = r\<lparr>r_str := (r_str r)(k := Some v), r_ttl := (r_ttl r)(k := Some ttl)\<rparr>"

text \<open>\<open>SET k v NX EX ttl\<close>: \<open>True\<close> is the reply \<open>OK\<close>.\<close>

definition setNx :: "string \<Rightarrow> hval \<Rightarrow> int \<Rightarrow> redis \<Rightarrow> bool \<times> redis" where
  "setNx k v ttl r = (if r_str r k = None then (True, setEx k v ttl r) else (False, r))"

definition del :: "string \<Rightarrow> redis \<Rightarrow> redis" where
  "del k r = r\<lparr>r_hash := (r_hash r)(k := []), r_str := (r_str r)(k := None),
               r_zset := (r_zset r)(k := []), r_ttl := (r_ttl r)(k := None)\<rparr>"

definition existsKey :: "string \<Rightarrow> redis \<Rightarrow> bool" where
  "existsKey k r \<longleftrightarrow> r_hash r k \<noteq> [] \<or> r_str r k \<noteq> None \<or> r_zset r k \<noteq> []"

definition expire :: "string \<Rightarrow> int \<Rightarrow> redis \<Rightarrow> redis" where
  "expire k ttl r = (if existsKey k r then r\<lparr>r_ttl := (r_ttl r)(k := Some ttl)\<rparr> else r)"

text \<open>The time to live of a key has run out.\<close>

definition expireKey :: "string \<Rightarrow> redis \<Rightarrow> redis" where
  "expireKey k r = (if r_ttl r k = None then r else del k r)"

text \<open>Sorted sets, kept in the order of \<open>ZRANGE\<close>: by score, then by member.\<close>

fun zinsert :: "string \<Rightarrow> int \<Rightarrow> (string \<times> int) list \<Rightarrow> (string \<times> int) list" where
  "zinsert m s [] = [(m, s)]"
| "zinsert m s ((m', s') # zs) =
     (if s < s' \<or> (s = s' \<and> m \<le> m') then (m, s) # (m', s') # zs else (m', s') # zinsert m s zs)"

definition zremList :: "string \<Rightarrow> (string \<times> int) list \<Rightarrow> (string \<times> int) list" where
  "zremList m zs = filter (\<lambda>(m', _). m' \<noteq> m) zs"

definition zadd :: "string \<Rightarrow> int \<Rightarrow> string \<Rightarrow> redis \<Rightarrow> redis" where
  "zadd k s m r = r\<lparr>r_zset := (r_zset r)(k := zinsert m s (zremList m (r_zset r k)))\<rparr>"

text \<open>\<open>ZADD NX\<close>: keeps the score of a present member; the reply is the number added.\<close>

definition zaddNx :: "string \<Rightarrow> int \<Rightarrow> string \<Rightarrow> redis \<Rightarrow> nat \<times> redis" where
  "zaddNx k s m r = (if m \<in> fst ` set (r_zset r k) then (0, r) else (1, zadd k s m r))"

definition zrem :: "string \<Rightarrow> string \<Rightarrow> redis \<Rightarrow> nat \<times> redis" where
  "zrem k m r = (of_bool (m \<in> fst ` set (r_zset r k)),
     r\<lparr>r_zset := (r_zset r)(k := zremList m (r_zset r k))\<rparr>)"

definition zscore :: "string \<Rightarrow> string \<Rightarrow> redis \<Rightarrow> int option" where
  "zscore k m r = map_of (r_zset r k) m"

definition zcard :: "string \<Rightarrow> redis \<Rightarrow> nat" where
  "zcard k r = length (r_zset r k)"

subsection \<open>Laws\<close>

lemma hget_hset [simp]: "hget k f (hset k' f' v r) = (if k = k' \<and> f = f' then Some v else hget k f r)"
  by (simp add: hget_def hset_def update_conv')

lemma hgetall_hset: "hgetall k (hset k' f v r) = (if k = k' then (hgetall k r)(f \<mapsto> v) else hgetall k r)"
  by (simp add: hgetall_def hset_def update_conv')

lemma hgetall_hget: "hgetall k r f = hget k f r"
  by (simp add: hgetall_def hget_def)

lemma hset_frame [simp]:
  "r_str (hset k f v r) = r_str r" "r_zset (hset k f v r) = r_zset r" "r_ttl (hset k f v r) = r_ttl r"
  by (simp_all add: hset_def)

lemma hsets_Nil [simp]: "hsets k [] r = r"
  by (simp add: hsets_def)

lemma hsets_Cons [simp]: "hsets k ((f, v) # fvs) r = hsets k fvs (hset k f v r)"
  by (simp add: hsets_def)

lemma hget_hsets:
  "hget k f (hsets k' fvs r) =
     (if k = k' then (case map_of (rev fvs) f of Some v \<Rightarrow> Some v | None \<Rightarrow> hget k f r) else hget k f r)"
proof (induction fvs arbitrary: r)
  case Nil
  then show ?case by simp
next
  case (Cons a fvs)
  obtain f' v where "a = (f', v)" by fastforce
  then show ?case by (simp add: Cons.IH map_add_def split: option.split)
qed

lemma hgetall_hsets: "hgetall k (hsets k' fvs r) = (if k = k' then hgetall k r ++ map_of (rev fvs) else hgetall k r)"
  by (auto simp: fun_eq_iff hgetall_hget hget_hsets map_add_def split: option.split)

lemma hgetall_fresh:
  assumes "hgetall k r = Map.empty" and "distinct (map fst fvs)"
  shows "hgetall k (hsets k fvs r) = map_of fvs"
  using map_of_inject_set [of "rev fvs" fvs] assms by (simp add: hgetall_hsets rev_map [symmetric])

lemma str_hsets [simp]: "r_str (hsets k fvs r) = r_str r"
  by (induction fvs arbitrary: r) auto

lemma hget_expire [simp]: "hget k f (expire k' t r) = hget k f r"
  by (simp add: hget_def expire_def)

lemma hgetall_expire [simp]: "hgetall k (expire k' t r) = hgetall k r"
  by (simp add: hgetall_def expire_def)

lemma str_expire [simp]: "r_str (expire k t r) = r_str r"
  by (simp add: expire_def)

lemma zset_expire [simp]: "r_zset (expire k t r) = r_zset r"
  by (simp add: expire_def)

lemma hash_expire [simp]: "r_hash (expire k t r) = r_hash r"
  by (simp add: expire_def)

lemma hget_setEx [simp]: "hget k f (setEx k' v t r) = hget k f r"
  by (simp add: hget_def setEx_def)

lemma hgetall_setEx [simp]: "hgetall k (setEx k' v t r) = hgetall k r"
  by (simp add: hgetall_def setEx_def)

lemma str_setEx [simp]: "r_str (setEx k v t r) = (r_str r)(k := Some v)"
  by (simp add: setEx_def)

lemma hget_del [simp]: "hget k f (del k' r) = (if k = k' then None else hget k f r)"
  by (simp add: hget_def del_def)

lemma hgetall_del [simp]: "hgetall k (del k' r) = (if k = k' then Map.empty else hgetall k r)"
  by (simp add: hgetall_def del_def)

lemma str_del [simp]: "r_str (del k r) = (r_str r)(k := None)"
  by (simp add: del_def)

lemma hget_setNx [simp]: "hget k f (snd (setNx k' v t r)) = hget k f r"
  by (simp add: setNx_def)

lemma hgetall_setNx [simp]: "hgetall k (snd (setNx k' v t r)) = hgetall k r"
  by (simp add: setNx_def)

lemma set_zinsert [simp]: "set (zinsert m s zs) = insert (m, s) (set zs)"
  by (induction m s zs rule: zinsert.induct) auto

lemma length_zinsert [simp]: "length (zinsert m s zs) = Suc (length zs)"
  by (induction m s zs rule: zinsert.induct) auto

text \<open>The order \<open>ZRANGE\<close> relies on, and that every command keeps it and one score per member.\<close>

definition zset_ok :: "(string \<times> int) list \<Rightarrow> bool" where
  "zset_ok zs \<longleftrightarrow> sorted_wrt (\<lambda>a b. snd a < snd b \<or> (snd a = snd b \<and> fst a \<le> fst b)) zs \<and>
     distinct (map fst zs)"

lemma sorted_zinsert:
  "sorted_wrt (\<lambda>a b. snd a < snd b \<or> (snd a = snd b \<and> fst a \<le> fst b)) zs \<Longrightarrow>
   sorted_wrt (\<lambda>a b. snd a < snd b \<or> (snd a = snd b \<and> fst a \<le> fst b)) (zinsert m s zs)"
  by (induction m s zs rule: zinsert.induct) fastforce+

lemma distinct_zinsert:
  "distinct (map fst zs) \<Longrightarrow> m \<notin> fst ` set zs \<Longrightarrow> distinct (map fst (zinsert m s zs))"
  by (induction m s zs rule: zinsert.induct) (auto simp: image_iff)

lemma zset_ok_zrem: "zset_ok zs \<Longrightarrow> zset_ok (zremList m zs)"
  by (simp add: zset_ok_def zremList_def sorted_wrt_filter distinct_map_filter)

lemma zset_ok_zadd: "zset_ok zs \<Longrightarrow> zset_ok (zinsert m s (zremList m zs))"
  using zset_ok_zrem [of zs m]
  by (auto simp: zset_ok_def zremList_def intro!: sorted_zinsert distinct_zinsert)

end
