(* ===== verification/Runtime_Data.thy ===== *)
theory Runtime_Data
  imports Json Battle
begin

text \<open>
  The live state of a match as Redis holds it: \<open>runtime/match.runtime-state.ts\<close> and
  \<open>runtime/combat-timing.ts\<close>. The runtime hash maps field names to strings; \<open>parseRuntimeHash\<close>
  reads it into \<open>MatchRuntimeState\<close>, whose player states keep the units as the raw JSON objects
  they are. The index signature of the two interfaces admits further properties of a player
  state; no code reads one, and the model drops them.
\<close>

subsection \<open>Phases\<close>

datatype MatchPhase = ShopPlace | BattlePhase | Resolved | Finished

fun phaseIndex :: "MatchPhase \<Rightarrow> nat" where
  "phaseIndex ShopPlace = 0"
| "phaseIndex BattlePhase = 1"
| "phaseIndex Resolved = 2"
| "phaseIndex Finished = 3"

lemma phaseIndex_inject [simp]: "phaseIndex p = phaseIndex q \<longleftrightarrow> p = q"
  by (cases p; cases q) auto

instantiation MatchPhase :: linorder
begin

definition less_eq_MatchPhase :: "MatchPhase \<Rightarrow> MatchPhase \<Rightarrow> bool" where
  "less_eq_MatchPhase p q \<longleftrightarrow> phaseIndex p \<le> phaseIndex q"

definition less_MatchPhase :: "MatchPhase \<Rightarrow> MatchPhase \<Rightarrow> bool" where
  "less_MatchPhase p q \<longleftrightarrow> phaseIndex p < phaseIndex q"

instance
  by standard (auto simp: less_eq_MatchPhase_def less_MatchPhase_def)

end

fun phaseName :: "MatchPhase \<Rightarrow> string" where
  "phaseName ShopPlace = ''shop_place''"
| "phaseName BattlePhase = ''battle''"
| "phaseName Resolved = ''resolved''"
| "phaseName Finished = ''finished''"

definition isPhase :: "string \<Rightarrow> MatchPhase option" where
  "isPhase s =
     (if s = ''shop_place'' then Some ShopPlace else if s = ''battle'' then Some BattlePhase
      else if s = ''resolved'' then Some Resolved else if s = ''finished'' then Some Finished else None)"

lemma isPhase_phaseName [simp]: "isPhase (phaseName p) = Some p"
  by (cases p) (simp_all add: isPhase_def)

lemma isPhase_Some [simp]: "isPhase s = Some p \<longleftrightarrow> s = phaseName p"
  by (cases p) (auto simp: isPhase_def split: if_splits)

lemma phaseName_inject [simp]: "phaseName p = phaseName q \<longleftrightarrow> p = q"
  by (metis isPhase_phaseName option.inject)

lemma phaseName_not_Nil [simp]: "phaseName p \<noteq> []"
  by (cases p) auto

subsection \<open>Units and player states\<close>

fun unitIdName :: "UnitId \<Rightarrow> string" where
  "unitIdName Fighter = ''fighter''"
| "unitIdName Healer = ''healer''"
| "unitIdName Ranger = ''ranger''"
| "unitIdName Tank = ''tank''"

fun isUnitId :: "json option \<Rightarrow> UnitId option" where
  "isUnitId (Some (JStr s)) =
     (if s = ''fighter'' then Some Fighter else if s = ''healer'' then Some Healer
      else if s = ''ranger'' then Some Ranger else if s = ''tank'' then Some Tank else None)"
| "isUnitId _ = None"

fun isStar :: "json option \<Rightarrow> Star option" where
  "isStar (Some (JNum n)) = (if n = 0 \<or> n = 1 \<or> n = 2 then Some (nat n) else None)"
| "isStar _ = None"

fun finiteNonNegative :: "json option \<Rightarrow> int \<Rightarrow> int" where
  "finiteNonNegative (Some (JNum n)) fallback = (if n \<ge> 0 then n else fallback)"
| "finiteNonNegative _ fallback = fallback"

fun finitePositive :: "json option \<Rightarrow> int \<Rightarrow> int" where
  "finitePositive (Some (JNum n)) fallback = (if n > 0 then n else fallback)"
| "finitePositive _ fallback = fallback"

lemma isUnitId_name [simp]: "isUnitId (Some (JStr (unitIdName u))) = Some u"
  by (cases u) simp_all

record 'u PlayerState =
  p_hp :: int
  p_gold :: int
  p_ready :: bool
  p_board :: "'u option list"
  p_bench :: "'u option list"

fun arrayOf :: "json option \<Rightarrow> json list" where
  "arrayOf (Some (JArr xs)) = xs"
| "arrayOf _ = []"

definition normalizeSlots :: "json option \<Rightarrow> nat \<Rightarrow> jobj option list" where
  "normalizeSlots value len = map (\<lambda>i. asObj (js_nth (arrayOf value) i)) [0..<len]"

definition normalizePlayerState :: "json option \<Rightarrow> jobj PlayerState" where
  "normalizePlayerState value =
     (let source = (case asObj value of Some kvs \<Rightarrow> kvs | None \<Rightarrow> [])
      in \<lparr>p_hp = finiteNonNegative (getProp source ''hp'') 100,
          p_gold = finiteNonNegative (getProp source ''gold'') 5,
          p_ready = (getProp source ''ready'' = Some (JBool True)),
          p_board = normalizeSlots (getProp source ''board'') 9,
          p_bench = normalizeSlots (getProp source ''bench'') 8\<rparr>)"

text \<open>\<open>JSON.stringify\<close> of a player state.\<close>

definition slotJson :: "jobj option \<Rightarrow> json" where
  "slotJson s = (case s of None \<Rightarrow> JNull | Some kvs \<Rightarrow> JObj kvs)"

definition playerJson :: "jobj PlayerState \<Rightarrow> json" where
  "playerJson s = JObj [(''hp'', JNum (p_hp s)), (''gold'', JNum (p_gold s)),
     (''ready'', JBool (p_ready s)), (''board'', JArr (map slotJson (p_board s))),
     (''bench'', JArr (map slotJson (p_bench s)))]"

definition player_ok :: "'u PlayerState \<Rightarrow> bool" where
  "player_ok s \<longleftrightarrow> 0 \<le> p_hp s \<and> 0 \<le> p_gold s \<and> length (p_board s) = 9 \<and> length (p_bench s) = 8"

lemma finiteNonNegative_nonneg: "0 \<le> d \<Longrightarrow> 0 \<le> finiteNonNegative v d"
  by (cases "(v, d)" rule: finiteNonNegative.cases) auto

lemma normalize_ok: "player_ok (normalizePlayerState v)"
  by (simp add: player_ok_def normalizePlayerState_def normalizeSlots_def Let_def finiteNonNegative_nonneg)

lemma asObj_slotJson: "asObj (Some (slotJson s)) = s"
  by (cases s) (simp_all add: slotJson_def)

lemma normalizeSlots_json:
  assumes "length xs = n"
  shows "normalizeSlots (Some (JArr (map slotJson xs))) n = xs"
  using assms
  by (intro nth_equalityI) (auto simp: normalizeSlots_def js_nth_def asObj_slotJson)

lemma normalize_playerJson [simp]:
  "player_ok s \<Longrightarrow> normalizePlayerState (Some (playerJson s)) = s"
  by (cases s) (simp add: normalizePlayerState_def playerJson_def getProp_def player_ok_def normalizeSlots_json)

subsection \<open>Board summaries\<close>

record OpponentBoardUnit =
  o_unitId :: UnitId
  o_star :: Star

type_synonym OpponentBoardSummary = "OpponentBoardUnit option list"

definition summaryEntry :: "jobj \<Rightarrow> OpponentBoardUnit option" where
  "summaryEntry e = (case (isUnitId (getProp e ''unitId''), isStar (getProp e ''star'')) of
      (Some u, Some s) \<Rightarrow> Some \<lparr>o_unitId = u, o_star = s\<rparr> | _ \<Rightarrow> None)"

definition summarizeBoard :: "jobj option list \<Rightarrow> OpponentBoardSummary" where
  "summarizeBoard board =
     map (\<lambda>i. case js_nth board i of Some (Some u) \<Rightarrow> summaryEntry u | _ \<Rightarrow> None) [0..<9]"

definition emptyBoardSummary :: OpponentBoardSummary where
  "emptyBoardSummary = replicate 9 None"

definition normalizeBoardSummary :: "hval option \<Rightarrow> OpponentBoardSummary" where
  "normalizeBoardSummary value =
     (if value = None \<or> value = Some (HStr []) then emptyBoardSummary
      else case jsonParse value of
             Some (JArr input) \<Rightarrow>
               map (\<lambda>i. case asObj (js_nth input i) of Some e \<Rightarrow> summaryEntry e | None \<Rightarrow> None) [0..<9]
           | _ \<Rightarrow> emptyBoardSummary)"

text \<open>\<open>JSON.stringify\<close> of a summary.\<close>

definition summaryJson :: "OpponentBoardSummary \<Rightarrow> json" where
  "summaryJson s = JArr (map (\<lambda>e. case e of None \<Rightarrow> JNull
     | Some u \<Rightarrow> JObj [(''unitId'', JStr (unitIdName (o_unitId u))), (''star'', JNum (int (o_star u)))]) s)"

definition summary_ok :: "OpponentBoardSummary \<Rightarrow> bool" where
  "summary_ok s \<longleftrightarrow> length s = 9 \<and> (\<forall>u. Some u \<in> set s \<longrightarrow> o_star u \<le> 2)"

lemma isStar_le: "isStar v = Some s \<Longrightarrow> s \<le> 2"
  by (cases v rule: isStar.cases) (auto split: if_splits)

lemma isStar_int [simp]: "s \<le> 2 \<Longrightarrow> isStar (Some (JNum (int s))) = Some s"
  by auto

lemma summaryEntry_star: "summaryEntry e = Some u \<Longrightarrow> o_star u \<le> 2"
  by (auto simp: summaryEntry_def dest: isStar_le split: option.splits)

lemma summarizeBoard_ok: "summary_ok (summarizeBoard b)"
  using summaryEntry_star
  by (fastforce simp: summary_ok_def summarizeBoard_def split: option.splits dest: sym)

lemma summaryEntry_json [simp]:
  assumes "o_star u \<le> 2"
  shows "summaryEntry [(''unitId'', JStr (unitIdName (o_unitId u))), (''star'', JNum (int (o_star u)))] = Some u"
proof -
  have "getProp [(''unitId'', JStr (unitIdName (o_unitId u))), (''star'', JNum (int (o_star u)))] ''unitId'' =
      Some (JStr (unitIdName (o_unitId u)))"
    and "getProp [(''unitId'', JStr (unitIdName (o_unitId u))), (''star'', JNum (int (o_star u)))] ''star'' =
      Some (JNum (int (o_star u)))"
    by (simp_all add: getProp_def)
  then show ?thesis
    unfolding summaryEntry_def by (simp only: isUnitId_name isStar_int [OF assms] prod.case option.case) simp
qed

lemma normalizeBoardSummary_json [simp]:
  assumes "summary_ok s"
  shows "normalizeBoardSummary (Some (HJson (summaryJson s))) = s"
proof (intro nth_equalityI)
  show "length (normalizeBoardSummary (Some (HJson (summaryJson s)))) = length s"
    using assms by (simp add: normalizeBoardSummary_def summaryJson_def summary_ok_def)
  fix i assume "i < length (normalizeBoardSummary (Some (HJson (summaryJson s))))"
  then have i: "i < 9" by (simp add: normalizeBoardSummary_def summaryJson_def)
  with assms have "\<forall>u. s ! i = Some u \<longrightarrow> o_star u \<le> 2"
    unfolding summary_ok_def by (metis nth_mem)
  with i assms show "normalizeBoardSummary (Some (HJson (summaryJson s))) ! i = s ! i"
    by (cases "s ! i") (simp_all add: normalizeBoardSummary_def summaryJson_def summary_ok_def js_nth_def)
qed

subsection \<open>The runtime hash\<close>

text \<open>The row of \<open>match/match.entity.ts\<close>; the two state columns are open JSON objects.\<close>

datatype MatchStatus = InProgress | MatchFinished | Forfeited

record Match =
  mt_id :: string
  mt_player1Id :: string
  mt_player2Id :: string
  mt_winnerId :: "string option"
  mt_status :: MatchStatus
  mt_matchSeed :: string
  mt_wipeIndexP1 :: nat
  mt_wipeIndexP2 :: nat
  mt_p1State :: json
  mt_p2State :: json
  mt_createdAt :: int
  mt_finishedAt :: "int option"

record MatchRuntimeState =
  m_matchId :: string
  m_player1Id :: string
  m_player2Id :: string
  m_player1Name :: string
  m_player2Name :: string
  m_matchSeed :: string
  m_phase :: MatchPhase
  m_round :: nat
  m_p1State :: "jobj PlayerState"
  m_p2State :: "jobj PlayerState"
  m_readyP1 :: bool
  m_readyP2 :: bool
  m_wipeIndexP1 :: nat
  m_wipeIndexP2 :: nat
  m_combatRound :: "nat option"
  m_scoutRound :: "nat option"
  m_scoutP1Board :: OpponentBoardSummary
  m_scoutP2Board :: OpponentBoardSummary

definition runtimeKey :: "string \<Rightarrow> string" where
  "runtimeKey m = ''match:'' @ m @ '':runtime''"

definition combatDoneKey :: "string \<Rightarrow> string" where
  "combatDoneKey m = ''match:'' @ m @ '':combat-done''"

definition combatLockKey :: "string \<Rightarrow> string" where
  "combatLockKey m = ''combat-lock:'' @ m"

definition initialRuntimeHash :: "Match \<Rightarrow> string \<times> string \<Rightarrow> (string \<times> hval) list" where
  "initialRuntimeHash mt names =
     (let p1State = (normalizePlayerState (Some (mt_p1State mt)))\<lparr>p_ready := False\<rparr>;
          p2State = (normalizePlayerState (Some (mt_p2State mt)))\<lparr>p_ready := False\<rparr>
      in [(''matchId'', HStr (mt_id mt)),
          (''player1Id'', HStr (mt_player1Id mt)), (''player2Id'', HStr (mt_player2Id mt)),
          (''player1Name'', HStr (fst names)), (''player2Name'', HStr (snd names)),
          (''matchSeed'', HStr (mt_matchSeed mt)),
          (''phase'', HStr ''shop_place''), (''round'', HStr ''1''),
          (''p1State'', HJson (playerJson p1State)), (''p2State'', HJson (playerJson p2State)),
          (''readyP1'', HStr ''0''), (''readyP2'', HStr ''0''),
          (''wipeIndexP1'', HStr (showNat (mt_wipeIndexP1 mt))),
          (''wipeIndexP2'', HStr (showNat (mt_wipeIndexP2 mt))),
          (''combatRound'', HStr []), (''scoutRound'', HStr []),
          (''scoutP1Board'', HJson (summaryJson emptyBoardSummary)),
          (''scoutP2Board'', HJson (summaryJson emptyBoardSummary))])"

text \<open>
  A plain string field; a missing one, which is \<open>undefined\<close> in the code and never happens for a
  hash the program wrote, reads as the empty string.
\<close>

fun hString :: "hval option \<Rightarrow> string" where
  "hString (Some (HStr s)) = s"
| "hString _ = []"

text \<open>The Thai fallback names, as the UTF-8 bytes of the literals.\<close>

definition defaultName :: "string \<Rightarrow> string" where
  "defaultName n = map char_of [0xe0 :: nat, 0xb8, 0x9c, 0xe0, 0xb8, 0xb9, 0xe0, 0xb9, 0x89, 0xe0, 0xb9,
     0x80, 0xe0, 0xb8, 0xa5, 0xe0, 0xb9, 0x88, 0xe0, 0xb8, 0x99, 0x20] @ n"

definition nameOr :: "string \<Rightarrow> string \<Rightarrow> string" where
  "nameOr s fallback = (if s = [] then fallback else s)"

definition parseRuntimeHash :: "string \<Rightarrow> rhash \<Rightarrow> MatchRuntimeState option" where
  "parseRuntimeHash matchId hash =
     (if hString (hash ''phase'') = [] then None
      else case (positiveInt (hash ''round''), isPhase (hString (hash ''phase''))) of
        (Some rnd, Some ph) \<Rightarrow>
          (case (jsonParse (hash ''p1State''), jsonParse (hash ''p2State'')) of
             (Some j1, Some j2) \<Rightarrow>
               Some \<lparr>m_matchId = matchId,
                     m_player1Id = hString (hash ''player1Id''),
                     m_player2Id = hString (hash ''player2Id''),
                     m_player1Name = nameOr (hString (hash ''player1Name'')) (defaultName ''1''),
                     m_player2Name = nameOr (hString (hash ''player2Name'')) (defaultName ''2''),
                     m_matchSeed = hString (hash ''matchSeed''),
                     m_phase = ph, m_round = rnd,
                     m_p1State = normalizePlayerState (Some j1),
                     m_p2State = normalizePlayerState (Some j2),
                     m_readyP1 = (hash ''readyP1'' = Some (HStr ''1'')),
                     m_readyP2 = (hash ''readyP2'' = Some (HStr ''1'')),
                     m_wipeIndexP1 = nonNegativeInt (hash ''wipeIndexP1''),
                     m_wipeIndexP2 = nonNegativeInt (hash ''wipeIndexP2''),
                     m_combatRound = positiveInt (hash ''combatRound''),
                     m_scoutRound = positiveInt (hash ''scoutRound''),
                     m_scoutP1Board = normalizeBoardSummary (hash ''scoutP1Board''),
                     m_scoutP2Board = normalizeBoardSummary (hash ''scoutP2Board'')\<rparr>
           | _ \<Rightarrow> None)
      | _ \<Rightarrow> None)"

lemma parse_SomeD:
  assumes "parseRuntimeHash mid h = Some rt"
  shows "h ''phase'' = Some (HStr (phaseName (m_phase rt)))" "positiveInt (h ''round'') = Some (m_round rt)"
    "m_matchId rt = mid" "player_ok (m_p1State rt)" "player_ok (m_p2State rt)" "0 < m_round rt"
proof -
  obtain s where s: "h ''phase'' = Some (HStr s)"
    using assms by (cases "h ''phase''" rule: hString.cases) (auto simp: parseRuntimeHash_def)
  then show "h ''phase'' = Some (HStr (phaseName (m_phase rt)))"
    "positiveInt (h ''round'') = Some (m_round rt)" "m_matchId rt = mid"
    "player_ok (m_p1State rt)" "player_ok (m_p2State rt)"
    using assms by (auto simp: parseRuntimeHash_def normalize_ok split: if_splits option.splits)
  then show "0 < m_round rt"
    by (auto simp: positiveInt.simps split: option.splits if_splits)
qed

lemma show_one: "''1'' = showNat 1" "''0'' = showNat 0"
  by code_simp+

lemma emptyBoardSummary_ok: "summary_ok emptyBoardSummary"
  by (simp add: summary_ok_def emptyBoardSummary_def)

lemma runtime_hash_start:
  "parseRuntimeHash (mt_id mt) (map_of (initialRuntimeHash mt (n1, n2))) =
     Some \<lparr>m_matchId = mt_id mt, m_player1Id = mt_player1Id mt, m_player2Id = mt_player2Id mt,
       m_player1Name = nameOr n1 (defaultName ''1''), m_player2Name = nameOr n2 (defaultName ''2''),
       m_matchSeed = mt_matchSeed mt, m_phase = ShopPlace, m_round = 1,
       m_p1State = (normalizePlayerState (Some (mt_p1State mt)))\<lparr>p_ready := False\<rparr>,
       m_p2State = (normalizePlayerState (Some (mt_p2State mt)))\<lparr>p_ready := False\<rparr>,
       m_readyP1 = False, m_readyP2 = False,
       m_wipeIndexP1 = mt_wipeIndexP1 mt, m_wipeIndexP2 = mt_wipeIndexP2 mt,
       m_combatRound = None, m_scoutRound = None,
       m_scoutP1Board = emptyBoardSummary, m_scoutP2Board = emptyBoardSummary\<rparr>"
proof -
  have ready: "player_ok (s\<lparr>p_ready := b\<rparr>) \<longleftrightarrow> player_ok s" for s :: "jobj PlayerState" and b
    by (simp add: player_ok_def)
  have one: "positiveInt (Some (HStr ''1'')) = Some 1"
    unfolding show_one by simp
  have ph: "isPhase ''shop_place'' = Some ShopPlace" by simp
  show ?thesis
    unfolding parseRuntimeHash_def initialRuntimeHash_def
    by (simp add: Let_def one ph ready normalize_ok emptyBoardSummary_ok)
qed

text \<open>
  C31: A match loaded into Redis reads back as what it was created as: the runtime parsed from the
  hash of \<open>initialRuntimeHash\<close> is in round 1 of the shop phase, with both players' states
  normalised and not ready, the persisted wipe indices, no combat round and empty scouting
  boards.
\<close>

theorem runtime_hash_roundtrip:
  "parseRuntimeHash (mt_id mt) (map_of (initialRuntimeHash mt (n1, n2))) =
     Some \<lparr>m_matchId = mt_id mt, m_player1Id = mt_player1Id mt, m_player2Id = mt_player2Id mt,
       m_player1Name = nameOr n1 (defaultName ''1''), m_player2Name = nameOr n2 (defaultName ''2''),
       m_matchSeed = mt_matchSeed mt, m_phase = ShopPlace, m_round = 1,
       m_p1State = (normalizePlayerState (Some (mt_p1State mt)))\<lparr>p_ready := False\<rparr>,
       m_p2State = (normalizePlayerState (Some (mt_p2State mt)))\<lparr>p_ready := False\<rparr>,
       m_readyP1 = False, m_readyP2 = False,
       m_wipeIndexP1 = mt_wipeIndexP1 mt, m_wipeIndexP2 = mt_wipeIndexP2 mt,
       m_combatRound = None, m_scoutRound = None,
       m_scoutP1Board = emptyBoardSummary, m_scoutP2Board = emptyBoardSummary\<rparr>"
  by (rule runtime_hash_start)

text \<open>
  Normalising is idempotent through Redis and establishes the shape of a player state,
  whatever JSON the column or the hash holds: HP and gold non-negative, nine board and eight
  bench slots.
\<close>

theorem normalize_idempotent:
  "player_ok (normalizePlayerState v) \<and>
   normalizePlayerState (Some (playerJson (normalizePlayerState v))) = normalizePlayerState v"
  by (simp add: normalize_ok)

subsection \<open>What a client is told\<close>

record RosterView =
  rv_username :: string
  rv_board :: "jobj option list"
  rv_bench :: "jobj option list"
  rv_gold :: int
  rv_hp :: int

record OpponentView =
  ov_username :: string
  ov_gold :: int
  ov_hp :: int
  ov_scoutRound :: "nat option"
  ov_boardSummary :: OpponentBoardSummary
  ov_battleBoardSummary :: "OpponentBoardSummary option"

record MatchStatePayload =
  mp_matchId :: string
  mp_round :: nat
  mp_yourSide :: Side
  mp_roster :: RosterView
  mp_opponent :: OpponentView
  mp_readyCount :: nat

definition matchStatePayload ::
  "MatchRuntimeState \<Rightarrow> Side \<Rightarrow> jobj PlayerState \<Rightarrow> jobj PlayerState \<Rightarrow> nat \<Rightarrow> MatchStatePayload" where
  "matchStatePayload runtime side own opponent readyCount =
     \<lparr>mp_matchId = m_matchId runtime, mp_round = m_round runtime, mp_yourSide = side,
      mp_roster =
        \<lparr>rv_username = (if side = P1 then m_player1Name runtime else m_player2Name runtime),
         rv_board = p_board own, rv_bench = p_bench own, rv_gold = p_gold own, rv_hp = p_hp own\<rparr>,
      mp_opponent =
        \<lparr>ov_username = (if side = P1 then m_player2Name runtime else m_player1Name runtime),
         ov_gold = p_gold opponent, ov_hp = p_hp opponent, ov_scoutRound = m_scoutRound runtime,
         ov_boardSummary = (if side = P1 then m_scoutP2Board runtime else m_scoutP1Board runtime),
         ov_battleBoardSummary =
           (if m_phase runtime = BattlePhase then Some (summarizeBoard (p_board opponent)) else None)\<rparr>,
      mp_readyCount = readyCount\<rparr>"

text \<open>What of a player the other one may learn: HP, gold, and in battle the types and stars on the board.\<close>

definition sameShownBoard :: "jobj option list \<Rightarrow> jobj option list \<Rightarrow> bool" where
  "sameShownBoard b b' \<longleftrightarrow> summarizeBoard b = summarizeBoard b'"

text \<open>
  No leak during planning. Outside the battle phase a player's state payload does not depend on
  the opponent's board, bench or ready flag; in the battle phase it depends on the opponent's
  roster only through the unit types and stars standing on the board.
\<close>

theorem payload_hides_opponent:
  assumes "p_gold opp = p_gold opp'" and "p_hp opp = p_hp opp'"
    and "m_phase rt = BattlePhase \<longrightarrow> sameShownBoard (p_board opp) (p_board opp')"
  shows "matchStatePayload rt side own opp n = matchStatePayload rt side own opp' n"
  using assms by (auto simp: matchStatePayload_def sameShownBoard_def)

subsection \<open>Units for the engine\<close>

definition sideName :: "Side \<Rightarrow> string" where
  "sideName s = (case s of P1 \<Rightarrow> ''p1'' | P2 \<Rightarrow> ''p2'')"

definition fallbackId :: "Side \<Rightarrow> nat \<Rightarrow> string" where
  "fallbackId side slot = sideName side @ ''-'' @ showNat slot"

definition boardUnit :: "Side \<Rightarrow> nat \<Rightarrow> jobj \<Rightarrow> UnitId \<Rightarrow> Star \<Rightarrow> UnitInstance" where
  "boardUnit side slot entry unitId star =
     (let maxHp = finitePositive (getProp entry ''maxHp'') (base_hp (UNIT_BASE_STATS unitId));
          hp = min maxHp (finiteNonNegative (getProp entry ''hp'') maxHp)
      in \<lparr>u_instanceId = (case getProp entry ''instanceId'' of
                            Some (JStr s) \<Rightarrow> s | _ \<Rightarrow> fallbackId side slot),
          u_unitId = unitId, u_star = star, u_hp = hp, u_maxHp = maxHp, u_slot = slot, u_side = side,
          u_alive = hp > 0, u_revivedThisRound = None, u_slowActive = None,
          u_slowUntilHealerAct = None, u_effectiveSpd = None\<rparr>)"

text \<open>The \<open>flatMap\<close> over the slots; the \<open>Inl\<close> result is the thrown error's message.\<close>

fun unitsFrom :: "Side \<Rightarrow> nat \<Rightarrow> jobj option list \<Rightarrow> string + UnitInstance list" where
  "unitsFrom side slot [] = Inr []"
| "unitsFrom side slot (None # rest) = unitsFrom side (Suc slot) rest"
| "unitsFrom side slot (Some entry # rest) =
     (case (isUnitId (getProp entry ''unitId''), isStar (getProp entry ''star'')) of
        (Some unitId, Some star) \<Rightarrow>
          (case unitsFrom side (Suc slot) rest of
             Inl e \<Rightarrow> Inl e
           | Inr us \<Rightarrow> Inr (boardUnit side slot entry unitId star # us))
      | _ \<Rightarrow> Inl (''runtime.invalid_unit: '' @ sideName side @ '' slot '' @ showNat slot))"

definition unitsFromBoard :: "jobj option list \<Rightarrow> Side \<Rightarrow> string + UnitInstance list" where
  "unitsFromBoard board side = unitsFrom side 0 board"

definition unitEntry_ok :: "jobj \<Rightarrow> bool" where
  "unitEntry_ok e \<longleftrightarrow> isUnitId (getProp e ''unitId'') \<noteq> None \<and> isStar (getProp e ''star'') \<noteq> None"

text \<open>No unit of the board has the maximal HP 1, which no unit the shop sells has.\<close>

definition noFrailTank :: "jobj option list \<Rightarrow> bool" where
  "noFrailTank board \<longleftrightarrow> (\<forall>e. Some e \<in> set board \<longrightarrow> getProp e ''maxHp'' \<noteq> Some (JNum 1))"

lemma finitePositive_pos: "0 < d \<Longrightarrow> 0 < finitePositive v d"
  by (cases "(v, d)" rule: finitePositive.cases) auto

lemma finitePositive_not_one: "1 < d \<Longrightarrow> v \<noteq> Some (JNum 1) \<Longrightarrow> 2 \<le> finitePositive v d"
  by (cases "(v, d)" rule: finitePositive.cases) auto

lemma base_hp_big: "1 < base_hp (UNIT_BASE_STATS u)"
  by (cases u) simp_all

lemma boardUnit_ok:
  assumes "slot < 9" and "getProp e ''maxHp'' \<noteq> Some (JNum 1)"
  shows "unit_ok (boardUnit side slot e u s)" "u_side (boardUnit side slot e u s) = side"
    "u_slot (boardUnit side slot e u s) = slot"
proof -
  let ?mx = "finitePositive (getProp e ''maxHp'') (base_hp (UNIT_BASE_STATS u))"
  have "2 \<le> ?mx" using base_hp_big assms(2) by (rule finitePositive_not_one)
  moreover from this have "0 \<le> finiteNonNegative (getProp e ''hp'') ?mx"
    by (intro finiteNonNegative_nonneg) simp
  ultimately show "unit_ok (boardUnit side slot e u s)"
    using assms(1) by (auto simp: boardUnit_def unit_ok_def slow_ok_def Let_def)
qed (simp_all add: boardUnit_def Let_def)

lemma unitsFrom_ok:
  "unitsFrom side k board = Inr us \<Longrightarrow> k + length board \<le> 9 \<Longrightarrow> noFrailTank board \<Longrightarrow>
   (\<forall>u \<in> set us. unit_ok u \<and> u_side u = side \<and> k \<le> u_slot u) \<and> sorted_wrt (<) (map u_slot us)"
proof (induction side k board arbitrary: us rule: unitsFrom.induct)
  case (3 side slot entry rest)
  from "3.prems"(1) obtain unitId star us' where
    ids: "isUnitId (getProp entry ''unitId'') = Some unitId" "isStar (getProp entry ''star'') = Some star"
    and rest: "unitsFrom side (Suc slot) rest = Inr us'" "us = boardUnit side slot entry unitId star # us'"
    by (auto split: option.splits sum.splits)
  have frail: "getProp entry ''maxHp'' \<noteq> Some (JNum 1)" "noFrailTank rest"
    using "3.prems"(3) by (auto simp: noFrailTank_def)
  have "slot < 9" using "3.prems"(2) by simp
  note unit = boardUnit_ok [OF this frail(1), of side unitId star]
  have "(\<forall>u \<in> set us'. unit_ok u \<and> u_side u = side \<and> Suc slot \<le> u_slot u) \<and> sorted_wrt (<) (map u_slot us')"
    using "3.IH" [OF _ ids rest(1)] "3.prems"(2) frail(2) by simp
  with unit rest(2) show ?case by (auto simp: Suc_le_eq)
qed (fastforce simp: noFrailTank_def Suc_le_eq)+

lemma unitsFrom_error:
  "(\<exists>e. unitsFrom side k board = Inl e) \<longleftrightarrow> (\<exists>e. Some e \<in> set board \<and> \<not> unitEntry_ok e)"
  by (induction side k board rule: unitsFrom.induct)
    (force simp: unitEntry_ok_def split: option.splits sum.splits)+

definition boardEntries_ok :: "jobj option list \<Rightarrow> bool" where
  "boardEntries_ok board \<longleftrightarrow> list_all (\<lambda>s. case s of Some e \<Rightarrow> unitEntry_ok e | None \<Rightarrow> True) board"

text \<open>
  The boards of a parsed runtime are fit for the engine: reading both of them either throws,
  which happens exactly when some slot holds an object without a valid type or star, or gives
  fresh, well-formed units on their own side, at most one per slot and in slot order.
\<close>

theorem units_from_board_correct:
  assumes "length board = 9" and "noFrailTank board"
  shows "case unitsFromBoard board side of
      Inl e \<Rightarrow> \<not> boardEntries_ok board
    | Inr us \<Rightarrow> boardEntries_ok board \<and>
        list_all (\<lambda>u. unit_ok u \<and> u_side u = side) us \<and> sorted_wrt (<) (map u_slot us)"
proof -
  have entries: "boardEntries_ok board \<longleftrightarrow>
      (\<nexists>e. Some e \<in> set board \<and> \<not> unitEntry_ok e)"
    by (auto simp: boardEntries_ok_def list_all_iff split: option.splits)
  show ?thesis
  proof (cases "unitsFromBoard board side")
    case (Inl e)
    then show ?thesis using unitsFrom_error [of side 0 board] by (auto simp: entries unitsFromBoard_def)
  next
    case (Inr us)
    have "\<nexists>e. unitsFrom side 0 board = Inl e" using Inr by (simp add: unitsFromBoard_def)
    with Inr unitsFrom_ok [of side 0 board us] unitsFrom_error [of side 0 board] assms show ?thesis
      by (simp add: entries unitsFromBoard_def list_all_iff)
  qed
qed

subsection \<open>Playback timing\<close>

definition REAL_COMBAT_DONE_TIMEOUT_MS :: int where "REAL_COMBAT_DONE_TIMEOUT_MS = 60000"

definition COMBAT_EVENT_PLAYBACK_MS :: int where "COMBAT_EVENT_PLAYBACK_MS = 800"

definition COMBAT_PLAYBACK_GRACE_MS :: int where "COMBAT_PLAYBACK_GRACE_MS = 5000"

definition js_trim :: "string \<Rightarrow> string" where
  "js_trim s = (let ws = (\<lambda>c. c \<in> set '' '' \<or> of_char c \<in> {9, 10, 11, 12, 13 :: nat})
     in rev (dropWhile ws (rev (dropWhile ws s))))"

text \<open>The argument is the environment variable, \<open>None\<close> when unset.\<close>

definition combatDoneTimeoutMs :: "string option \<Rightarrow> int" where
  "combatDoneTimeoutMs raw =
     (case raw of
        None \<Rightarrow> REAL_COMBAT_DONE_TIMEOUT_MS
      | Some s \<Rightarrow>
          if js_trim s = [] then REAL_COMBAT_DONE_TIMEOUT_MS
          else case js_Number (js_trim s) of
                 Some n \<Rightarrow> if n \<ge> 250 \<and> n \<le> 300000 then n else REAL_COMBAT_DONE_TIMEOUT_MS
               | None \<Rightarrow> REAL_COMBAT_DONE_TIMEOUT_MS)"

definition combatDoneTimeoutForEventCount :: "int \<Rightarrow> int \<Rightarrow> int" where
  "combatDoneTimeoutForEventCount eventCount configured =
     (if configured \<noteq> REAL_COMBAT_DONE_TIMEOUT_MS then configured
      else max REAL_COMBAT_DONE_TIMEOUT_MS
             (max 0 eventCount * COMBAT_EVENT_PLAYBACK_MS + COMBAT_PLAYBACK_GRACE_MS))"

text \<open>\<open>Math.ceil(timeoutMs / 1000) + 30\<close>.\<close>

definition combatResultTtlSeconds :: "int \<Rightarrow> int" where
  "combatResultTtlSeconds timeoutMs = (timeoutMs + 999) div 1000 + 30"

lemma ttl_covers:
  "t + 30000 \<le> 1000 * combatResultTtlSeconds t \<and> 1000 * combatResultTtlSeconds t < t + 31000"
proof -
  define q where "q = (t + 999) div 1000"
  define r where "r = (t + 999) mod 1000"
  have "t + 999 = q * 1000 + r" by (simp add: q_def r_def)
  moreover have "0 \<le> r" "r < 1000" by (simp_all add: r_def)
  moreover have "combatResultTtlSeconds t = q + 30" by (simp add: combatResultTtlSeconds_def q_def)
  ultimately show ?thesis by simp
qed

text \<open>
  The deadline leaves time for the replay and the cached result outlives the deadline: with the
  committed default every visible event gets its 800 ms plus 5 s of grace and never less than
  60 s in all; an override from the environment stays between 250 ms and 5 minutes; and in every
  case the result's time to live covers the deadline with at least 30 and less than 31 seconds to
  spare.
\<close>

theorem combat_deadline_bounds:
  "(let configured = combatDoneTimeoutMs raw; deadline = combatDoneTimeoutForEventCount n configured
    in 250 \<le> configured \<and> configured \<le> 300000 \<and> 250 \<le> deadline \<and>
       (configured = REAL_COMBAT_DONE_TIMEOUT_MS \<and> 0 \<le> n \<longrightarrow>
          60000 \<le> deadline \<and> n * 800 + 5000 \<le> deadline) \<and>
       deadline + 30000 \<le> 1000 * combatResultTtlSeconds deadline \<and>
       1000 * combatResultTtlSeconds deadline < deadline + 31000)"
proof -
  define c where "c = combatDoneTimeoutMs raw"
  define d where "d = combatDoneTimeoutForEventCount n c"
  have "250 \<le> c \<and> c \<le> 300000"
    by (auto simp: c_def combatDoneTimeoutMs_def REAL_COMBAT_DONE_TIMEOUT_MS_def split: option.splits)
  moreover from this have "250 \<le> d"
    by (auto simp: d_def combatDoneTimeoutForEventCount_def REAL_COMBAT_DONE_TIMEOUT_MS_def)
  moreover have "d + 30000 \<le> 1000 * combatResultTtlSeconds d \<and> 1000 * combatResultTtlSeconds d < d + 31000"
    by (rule ttl_covers)
  moreover have "60000 \<le> d \<and> n * 800 + 5000 \<le> d" if "c = REAL_COMBAT_DONE_TIMEOUT_MS" "0 \<le> n"
    unfolding d_def that(1) using that(2) by (simp add: max_def combatDoneTimeoutForEventCount_def REAL_COMBAT_DONE_TIMEOUT_MS_def
        COMBAT_EVENT_PLAYBACK_MS_def COMBAT_PLAYBACK_GRACE_MS_def)
  ultimately show ?thesis unfolding Let_def c_def [symmetric] d_def [symmetric] by simp
qed

subsection \<open>Concrete states\<close>

definition demoUnitObj :: "UnitId \<Rightarrow> Star \<Rightarrow> string \<Rightarrow> int \<Rightarrow> jobj" where
  "demoUnitObj u s i h = [(''instanceId'', JStr i), (''unitId'', JStr (unitIdName u)),
     (''star'', JNum (int s)), (''hp'', JNum h), (''maxHp'', JNum (base_hp (UNIT_BASE_STATS u)))]"

definition demoBoardObjs :: "jobj option list" where
  "demoBoardObjs = [Some (demoUnitObj Fighter 0 ''a1'' 100), None, None, Some (demoUnitObj Ranger 1 ''a2'' 60),
     None, None, None, None, None]"

theorem units_from_board_correct_witness:
  "\<exists>us. unitsFromBoard demoBoardObjs P1 = Inr us \<and> map u_slot us = [0, 3] \<and>
     list_all (\<lambda>u. unit_ok u \<and> u_side u = P1) us"
proof -
  have "noFrailTank demoBoardObjs"
    by (simp add: noFrailTank_def demoBoardObjs_def demoUnitObj_def getProp_def)
  moreover obtain us where "unitsFromBoard demoBoardObjs P1 = Inr us" "map u_slot us = [0, 3]"
    by (simp add: unitsFromBoard_def demoBoardObjs_def demoUnitObj_def getProp_def boardUnit_def Let_def)
  ultimately show ?thesis
    using units_from_board_correct [of demoBoardObjs P1] by (simp add: demoBoardObjs_def)
qed

definition demoRuntime :: "MatchPhase \<Rightarrow> MatchRuntimeState" where
  "demoRuntime ph = \<lparr>m_matchId = ''m1'', m_player1Id = ''alice'', m_player2Id = ''bob'',
     m_player1Name = ''Alice'', m_player2Name = ''Bob'', m_matchSeed = ''seed'', m_phase = ph, m_round = 1,
     m_p1State = \<lparr>p_hp = 100, p_gold = 5, p_ready = False, p_board = demoBoardObjs, p_bench = replicate 8 None\<rparr>,
     m_p2State = \<lparr>p_hp = 100, p_gold = 5, p_ready = False, p_board = replicate 9 None, p_bench = replicate 8 None\<rparr>,
     m_readyP1 = False, m_readyP2 = False, m_wipeIndexP1 = 0, m_wipeIndexP2 = 0, m_combatRound = None,
     m_scoutRound = None, m_scoutP1Board = emptyBoardSummary, m_scoutP2Board = emptyBoardSummary\<rparr>"

theorem payload_hides_opponent_witness:
  "matchStatePayload (demoRuntime ShopPlace) P2 (m_p2State (demoRuntime ShopPlace)) (m_p1State (demoRuntime ShopPlace)) 0 =
   matchStatePayload (demoRuntime ShopPlace) P2 (m_p2State (demoRuntime ShopPlace))
     ((m_p1State (demoRuntime ShopPlace))\<lparr>p_board := replicate 9 None\<rparr>) 0"
  by (rule payload_hides_opponent) (simp_all add: demoRuntime_def)

theorem combat_deadline_bounds_witness:
  "60000 \<le> combatDoneTimeoutForEventCount 100 (combatDoneTimeoutMs None)"
  using combat_deadline_bounds [of None 100]
  by (simp add: Let_def combatDoneTimeoutMs_def)

end
