(* ===== verification/Redis_Scripts.thy ===== *)
theory Redis_Scripts
  imports Redis Runtime_Data "HOL-Library.Product_Lexorder"
begin

text \<open>
  The Lua scripts under \<open>redis/scripts\<close> as functions on the keyspace, one per script, and the three
  interfaces the services rely on: a compare-and-set register (the phase of a match), an
  idempotent log (the action log, the combat acknowledgements) and an owned lock
  (\<open>SET NX\<close> with compare-and-delete). Each interface is a locale; its lemmas are proved from the
  laws once and reach the scripts through interpretations.
\<close>

subsection \<open>Match scripts\<close>

text \<open>
  \<open>phase_flip.lua\<close>. The optional arguments are \<open>None\<close> when missing; an empty string counts as
  missing, as in the script.
\<close>

definition given :: "string option \<Rightarrow> bool" where
  "given a \<longleftrightarrow> a \<noteq> None \<and> a \<noteq> Some []"

definition phaseFlip ::
  "string \<Rightarrow> string \<Rightarrow> string \<Rightarrow> string \<Rightarrow> string option \<Rightarrow> string option \<Rightarrow> redis \<Rightarrow> int \<times> redis" where
  "phaseFlip key expectedPhase newPhase instanceId expectedRound nextRound r =
     (if hget key ''phase'' r \<noteq> Some (HStr expectedPhase) then (0, r)
      else if given expectedRound \<and> hget key ''round'' r \<noteq> map_option HStr expectedRound then (0, r)
      else let r1 = hset key ''phase'' (HStr newPhase) r;
               r2 = (if given nextRound then hset key ''round'' (HStr (the nextRound)) r1 else r1);
               r3 = (if newPhase = ''battle'' then hset key ''combatLockInstance'' (HStr instanceId) r2 else r2)
           in (1, r3))"

text \<open>\<open>action_log.lua\<close>; the runtime commit and the shop commit are optional.\<close>

record commit =
  c_runtimeKey :: string
  c_field :: string
  c_value :: hval
  c_phase :: string
  c_round :: string

definition actionLog ::
  "string \<Rightarrow> string \<Rightarrow> int \<Rightarrow> commit option \<Rightarrow> (string \<times> hval \<times> int) option \<Rightarrow> redis \<Rightarrow> int \<times> redis" where
  "actionLog logKey actionId now rt shop r =
     (if hexists logKey actionId r then (0, r)
      else let stale = (case rt of
               None \<Rightarrow> None
             | Some c \<Rightarrow>
                 if hget (c_runtimeKey c) ''round'' r \<noteq> Some (HStr (c_round c)) then Some (-2)
                 else if hget (c_runtimeKey c) ''phase'' r \<noteq> Some (HStr (c_phase c)) then Some (-1)
                 else None)
           in case stale of
                Some code \<Rightarrow> (code, r)
              | None \<Rightarrow>
                  let r1 = expire logKey 120 (hset logKey actionId (HStr (showInt now)) r);
                      r2 = (case rt of None \<Rightarrow> r1 | Some c \<Rightarrow> hset (c_runtimeKey c) (c_field c) (c_value c) r1);
                      r3 = (case shop of None \<Rightarrow> r2 | Some (k, v, ttl) \<Rightarrow> setEx k v ttl r2)
                  in (1, r3))"

text \<open>\<open>combat_done.lua\<close>.\<close>

definition combatDone :: "string \<Rightarrow> string \<Rightarrow> int \<Rightarrow> redis \<Rightarrow> nat \<times> redis" where
  "combatDone key playerId now r =
     (if hexists key playerId r then (hlen key r, r)
      else let r' = expire key 90 (hset key playerId (HStr (showInt now)) r)
           in (hlen key r', r'))"

text \<open>\<open>match_pair.lua\<close>: the two longest-waiting members, or none.\<close>

definition matchPair :: "string \<Rightarrow> redis \<Rightarrow> string list \<times> redis" where
  "matchPair key r =
     (let members = map fst (take 2 (r_zset r key))
      in if length members < 2 then ([], r)
         else (members, fold (\<lambda>m s. snd (zrem key m s)) members r))"

text \<open>
  \<open>ws_rate_limit.lua\<close> at Redis time \<open>now\<close> in milliseconds. The sequence key holds a counter.
\<close>

definition seqOf :: "string \<Rightarrow> redis \<Rightarrow> nat" where
  "seqOf k r = (case r_str r k of Some (HStr s) \<Rightarrow> (case js_Number s of Some n \<Rightarrow> nat n | None \<Rightarrow> 0) | _ \<Rightarrow> 0)"

definition wsRateLimit :: "string \<Rightarrow> string \<Rightarrow> int \<Rightarrow> int \<Rightarrow> redis \<Rightarrow> nat \<times> redis" where
  "wsRateLimit hits seqKey window now r =
     (let cutoff = now - window;
          r1 = r\<lparr>r_zset := (r_zset r)(hits := filter (\<lambda>(_, s). s > cutoff) (r_zset r hits))\<rparr>;
          n = seqOf seqKey r1 + 1;
          r2 = r1\<lparr>r_str := (r_str r1)(seqKey := Some (HStr (showNat n)))\<rparr>;
          r3 = zadd hits now (showInt now @ '':'' @ showNat n) r2;
          r4 = expire seqKey (window + 1000) (expire hits (window + 1000) r3)
      in (zcard hits r4, r4))"

subsection \<open>Room scripts\<close>

definition present :: "hval option \<Rightarrow> bool" where
  "present v \<longleftrightarrow> v \<noteq> None \<and> v \<noteq> Some (HStr [])"

definition userRoomKey :: "string \<Rightarrow> string" where
  "userRoomKey u = ''user:room:'' @ u"

definition roomCodeKey :: "string \<Rightarrow> string" where
  "roomCodeKey c = ''room:code:'' @ c"

text \<open>\<open>room_join.lua\<close>.\<close>

definition roomJoin :: "string \<Rightarrow> string \<Rightarrow> string \<Rightarrow> string \<Rightarrow> int \<Rightarrow> redis \<Rightarrow> int \<times> redis" where
  "roomJoin roomKey userKey guestId roomId ttl r =
     (if \<not> hexists roomKey ''roomId'' r then (0, r)
      else if hget roomKey ''ownerId'' r = Some (HStr guestId) then (-4, r)
      else if existsKey userKey r then (-2, r)
      else if present (hget roomKey ''guestId'' r) then (-1, r)
      else if hget roomKey ''status'' r \<noteq> Some (HStr ''waiting'') then (-3, r)
      else (1, setEx userKey (HStr roomId) ttl
                 (hset roomKey ''status'' (HStr ''full'') (hset roomKey ''guestId'' (HStr guestId) r))))"

fun hvalStr :: "hval option \<Rightarrow> string" where
  "hvalStr (Some (HStr s)) = s"
| "hvalStr _ = []"

text \<open>\<open>room_leave.lua\<close>.\<close>

definition roomLeave :: "string \<Rightarrow> string \<Rightarrow> string \<Rightarrow> redis \<Rightarrow> int \<times> redis" where
  "roomLeave roomKey userKey userId r =
     (if \<not> hexists roomKey ''roomId'' r then (0, r)
      else if hget roomKey ''ownerId'' r = Some (HStr userId) then
        let guest = hget roomKey ''guestId'' r; code = hget roomKey ''code'' r;
            r1 = del roomKey r;
            r2 = (if present code then del (roomCodeKey (hvalStr code)) r1 else r1);
            r3 = del userKey r2;
            r4 = (if present guest then del (userRoomKey (hvalStr guest)) r3 else r3)
        in (2, r4)
      else if hget roomKey ''guestId'' r = Some (HStr userId) then
        (1, del userKey (hset roomKey ''status'' (HStr ''waiting'') (hset roomKey ''guestId'' (HStr []) r)))
      else (0, r))"

text \<open>\<open>room_start_match.lua\<close>: \<open>Inl\<close> the error code, \<open>Inr\<close> the two players.\<close>

definition roomStartMatch ::
  "string \<Rightarrow> string \<Rightarrow> string \<Rightarrow> int \<Rightarrow> redis \<Rightarrow> (int + string \<times> string) \<times> redis" where
  "roomStartMatch roomKey claimKey token ttl r =
     (if \<not> hexists roomKey ''roomId'' r then (Inl 0, r)
      else if hget roomKey ''status'' r \<noteq> Some (HStr ''full'') then (Inl (-1), r)
      else let owner = hget roomKey ''ownerId'' r; guest = hget roomKey ''guestId'' r
           in if \<not> present owner \<or> \<not> present guest then (Inl (-2), r)
              else let (ok, r') = setNx claimKey (HStr token) ttl r
                   in if \<not> ok then (Inl (-3), r) else (Inr (hvalStr owner, hvalStr guest), r'))"

text \<open>\<open>room_match_done.lua\<close>: returns the recorded match id.\<close>

definition roomMatchDone ::
  "string \<Rightarrow> string \<Rightarrow> string \<Rightarrow> string \<Rightarrow> string \<Rightarrow> string \<Rightarrow> string \<Rightarrow> int \<Rightarrow> redis \<Rightarrow> string \<times> redis" where
  "roomMatchDone roomKey codeKey ownerKey guestKey claimKey roomId matchId tombstone r =
     (if present (hget roomKey ''matchId'' r) then (hvalStr (hget roomKey ''matchId'' r), r)
      else let r1 = hset roomKey ''status'' (HStr ''matched'') (hset roomKey ''matchId'' (HStr matchId) r);
               r2 = del claimKey (del codeKey r1);
               r3 = (if getStr ownerKey r2 = Some (HStr roomId) then del ownerKey r2 else r2);
               r4 = (if getStr guestKey r3 = Some (HStr roomId) then del guestKey r3 else r3)
           in (matchId, expire roomKey tombstone r4))"

text \<open>
  Compare-and-delete: \<open>room_match_abort.lua\<close>, and the inline script by which \<open>shop.service.ts\<close>,
  \<open>combat.coordinator.ts\<close> and \<open>match.runtime.adapter.ts\<close> release their locks.
\<close>

definition releaseOwned :: "string \<Rightarrow> hval \<Rightarrow> redis \<Rightarrow> int \<times> redis" where
  "releaseOwned key owner r =
     (if getStr key r = Some owner then (1, del key r) else (0, r))"

subsection \<open>Interface: compare-and-set register\<close>

text \<open>
  A register whose value moves forward: a flip from \<open>v\<close> to \<open>w\<close> succeeds exactly if the register
  holds \<open>v\<close> and then it holds \<open>w\<close>; otherwise nothing happens. Values are ranked and every allowed
  flip raises the rank.
\<close>

locale cas_register =
  fixes view :: "'s \<Rightarrow> 'v option"
    and flip :: "'v \<Rightarrow> 'v \<Rightarrow> 's \<Rightarrow> bool \<times> 's"
  assumes flip_ok: "fst (flip v w s) \<longleftrightarrow> view s = Some v"
    and flip_new: "view s = Some v \<Longrightarrow> view (snd (flip v w s)) = Some w"
    and flip_fail: "view s \<noteq> Some v \<Longrightarrow> snd (flip v w s) = s"
begin

text \<open>Of two competing flips from the same value only the first wins.\<close>

lemma second_loses:
  assumes "fst (flip v w s)" and "v \<noteq> w"
  shows "\<not> fst (flip v w' (snd (flip v w s)))"
  using assms flip_ok flip_new by auto

text \<open>Any sequence of flips that all leave a value strictly forward.\<close>

fun flips :: "('v \<times> 'v) list \<Rightarrow> 's \<Rightarrow> bool list \<times> 's" where
  "flips [] s = ([], s)"
| "flips ((v, w) # fs) s = (let (b, s') = flip v w s; (bs, s'') = flips fs s' in (b # bs, s''))"

text \<open>How many flips away from \<open>v\<close> succeeded.\<close>

fun winsFrom :: "'v \<Rightarrow> ('v \<times> 'v) list \<Rightarrow> bool list \<Rightarrow> nat" where
  "winsFrom v ((v', w) # fs) (b # bs) = of_bool (b \<and> v' = v) + winsFrom v fs bs"
| "winsFrom v _ _ = 0"

lemma wins_bounded:
  fixes rank :: "'v \<Rightarrow> 'k :: linorder"
  assumes "\<And>v w. (v, w) \<in> set fs \<Longrightarrow> rank v < rank w"
  shows "(\<forall>u. view s = Some u \<longrightarrow> rank v < rank u) \<longrightarrow> winsFrom v fs (fst (flips fs s)) = 0"
    and "winsFrom v fs (fst (flips fs s)) \<le> 1"
proof -
  have "((\<forall>u. view s = Some u \<longrightarrow> rank v < rank u) \<longrightarrow> winsFrom v fs (fst (flips fs s)) = 0) \<and>
      winsFrom v fs (fst (flips fs s)) \<le> 1"
    using assms
  proof (induction fs arbitrary: s)
    case Nil
    then show ?case by simp
  next
    case (Cons f fs)
    obtain x y where f: "f = (x, y)" by fastforce
    have xy: "rank x < rank y" using Cons.prems f by auto
    obtain b s' where fl: "flip x y s = (b, s')" by fastforce
    obtain bs s'' where fls: "flips fs s' = (bs, s'')" by fastforce
    have IH: "(\<forall>u. view s' = Some u \<longrightarrow> rank v < rank u) \<longrightarrow> winsFrom v fs bs = 0" "winsFrom v fs bs \<le> 1"
      using Cons.IH [of s'] Cons.prems fls by auto
    show ?case
    proof (cases b)
      case True
      with fl flip_ok [of x y s] flip_new [of s x y] have "view s = Some x" "view s' = Some y" by auto
      with IH xy True show ?thesis by (auto simp: f fl fls)
    next
      case False
      with fl flip_ok [of x y s] flip_fail [of s x y] have "s' = s" by auto
      with fls have "flips fs s = (bs, s'')" by simp
      with IH False \<open>s' = s\<close> show ?thesis by (auto simp: f fl)
    qed
  qed
  then show "(\<forall>u. view s = Some u \<longrightarrow> rank v < rank u) \<longrightarrow> winsFrom v fs (fst (flips fs s)) = 0"
    and "winsFrom v fs (fst (flips fs s)) \<le> 1" by auto
qed

end

subsection \<open>Interface: idempotent log\<close>

locale idempotent_log =
  fixes seen :: "'s \<Rightarrow> 'id set"
    and record_id :: "'id \<Rightarrow> 's \<Rightarrow> 's"
  assumes repeat: "i \<in> seen s \<Longrightarrow> record_id i s = s"
    and grows: "seen s \<subseteq> seen (record_id i s) \<and> seen (record_id i s) \<subseteq> insert i (seen s)"
begin

lemma twice: "i \<in> seen (record_id i s) \<Longrightarrow> record_id i (record_id i s) = record_id i s"
  by (rule repeat)

lemma fold_grows:
  "seen s \<subseteq> seen (fold record_id is s) \<and> seen (fold record_id is s) \<subseteq> seen s \<union> set is"
proof (induction "is" arbitrary: s)
  case Nil
  then show ?case by simp
next
  case (Cons i js)
  from Cons.IH [of "record_id i s"] grows [of s i] show ?case by auto
qed

text \<open>A retry anywhere later in the sequence changes nothing.\<close>

lemma late_retry:
  "i \<in> seen (record_id i s) \<Longrightarrow>
   record_id i (fold record_id is (record_id i s)) = fold record_id is (record_id i s)"
  using fold_grows [of "record_id i s" "is"] by (intro repeat) auto

end

subsection \<open>Interface: owned lock\<close>

locale owned_lock =
  fixes holder :: "'s \<Rightarrow> 'o option"
    and acquire :: "'o \<Rightarrow> 's \<Rightarrow> bool \<times> 's"
    and release :: "'o \<Rightarrow> 's \<Rightarrow> 's"
  assumes acquire_free: "holder s = None \<Longrightarrow> fst (acquire x s) \<and> holder (snd (acquire x s)) = Some x"
    and acquire_taken: "holder s \<noteq> None \<Longrightarrow> \<not> fst (acquire x s) \<and> snd (acquire x s) = s"
    and release_own: "holder s = Some x \<Longrightarrow> holder (release x s) = None"
    and release_other: "holder s \<noteq> Some x \<Longrightarrow> release x s = s"
begin

lemma acquired: "fst (acquire x s) \<Longrightarrow> holder s = None \<and> holder (snd (acquire x s)) = Some x"
  using acquire_free acquire_taken by (cases "holder s") auto

text \<open>
  Requests of different owners: as long as the holder itself does not release, nobody else gets
  the lock and nobody else's release frees it.
\<close>

fun request :: "'o \<times> bool \<Rightarrow> 's \<Rightarrow> 's" where
  "request (x, True) s = snd (acquire x s)"
| "request (x, False) s = release x s"

lemma exclusive:
  assumes "holder s = Some x" and "(x, False) \<notin> set reqs"
  shows "holder (fold request reqs s) = Some x"
  using assms
proof (induction reqs arbitrary: s)
  case Nil
  then show ?case by simp
next
  case (Cons q qs)
  obtain y b where q: "q = (y, b)" by fastforce
  have "request q s = s"
  proof (cases b)
    case True
    with Cons.prems(1) acquire_taken [of s y] show ?thesis by (simp add: q)
  next
    case False
    with Cons.prems q have "y \<noteq> x" by auto
    with False Cons.prems(1) release_other [of s y] show ?thesis by (simp add: q)
  qed
  with Cons show ?case by simp
qed

end

subsection \<open>The phase of a match is a compare-and-set register\<close>

text \<open>The decimal string of a natural number, read back; other strings are no number.\<close>

definition decimalOf :: "hval option \<Rightarrow> nat option" where
  "decimalOf v = (case v of
      Some (HStr s) \<Rightarrow> if showNat (readNat s) = s then Some (readNat s) else None | _ \<Rightarrow> None)"

lemma decimalOf_Some [simp]: "decimalOf v = Some n \<longleftrightarrow> v = Some (HStr (showNat n))"
proof
  assume "decimalOf v = Some n"
  then show "v = Some (HStr (showNat n))"
    by (auto simp: decimalOf_def split: option.splits hval.splits if_splits)
qed (simp add: decimalOf_def)

definition phaseAt :: "string \<Rightarrow> redis \<Rightarrow> (nat \<times> MatchPhase) option" where
  "phaseAt key r =
     (case (hget key ''phase'' r, decimalOf (hget key ''round'' r)) of
        (Some (HStr p), Some n) \<Rightarrow> map_option (Pair n) (isPhase p)
      | _ \<Rightarrow> None)"

lemma phaseAt_Some [simp]:
  "phaseAt key r = Some (n, p) \<longleftrightarrow>
   hget key ''phase'' r = Some (HStr (phaseName p)) \<and> hget key ''round'' r = Some (HStr (showNat n))"
proof
  assume "phaseAt key r = Some (n, p)"
  then show "hget key ''phase'' r = Some (HStr (phaseName p)) \<and> hget key ''round'' r = Some (HStr (showNat n))"
    by (auto simp: phaseAt_def split: option.splits hval.splits)
next
  assume "hget key ''phase'' r = Some (HStr (phaseName p)) \<and> hget key ''round'' r = Some (HStr (showNat n))"
  then show "phaseAt key r = Some (n, p)" by (simp add: phaseAt_def decimalOf_def)
qed

text \<open>The flip as the adapter calls it: expected phase and round, next phase, next round if it changes.\<close>

definition flipTo ::
  "string \<Rightarrow> string \<Rightarrow> nat \<times> MatchPhase \<Rightarrow> nat \<times> MatchPhase \<Rightarrow> redis \<Rightarrow> bool \<times> redis" where
  "flipTo key instanceId v w r =
     (let (code, r') = phaseFlip key (phaseName (snd v)) (phaseName (snd w)) instanceId
            (Some (showNat (fst v))) (if fst w = fst v then None else Some (showNat (fst w))) r
      in (code = 1, r'))"

lemma phaseFlip_given [simp]: "given (Some (showNat n))" "\<not> given None"
  by (simp_all add: given_def)

interpretation phase_register: cas_register "phaseAt key" "flipTo key inst"
proof
  fix v w :: "nat \<times> MatchPhase" and r
  obtain n p m q where v: "v = (n, p)" "w = (m, q)" by fastforce
  show "fst (flipTo key inst v w r) \<longleftrightarrow> phaseAt key r = Some v"
    by (auto simp: v flipTo_def phaseFlip_def Let_def)
  show "phaseAt key r = Some v \<Longrightarrow> phaseAt key (snd (flipTo key inst v w r)) = Some w"
    by (auto simp: v flipTo_def phaseFlip_def Let_def)
  show "phaseAt key r \<noteq> Some v \<Longrightarrow> snd (flipTo key inst v w r) = r"
    by (auto simp: v flipTo_def phaseFlip_def Let_def)
qed

fun runFlips ::
  "string \<Rightarrow> string \<Rightarrow> ((nat \<times> MatchPhase) \<times> (nat \<times> MatchPhase)) list \<Rightarrow> redis \<Rightarrow> bool list \<times> redis" where
  "runFlips key inst [] r = ([], r)"
| "runFlips key inst ((v, w) # fs) r =
     (let (b, r') = flipTo key inst v w r; (bs, r'') = runFlips key inst fs r' in (b # bs, r''))"

definition winsAt :: "nat \<times> MatchPhase \<Rightarrow> ((nat \<times> MatchPhase) \<times> (nat \<times> MatchPhase)) list \<Rightarrow> bool list \<Rightarrow> nat" where
  "winsAt v fs bs = length (filter (\<lambda>(f, b). b \<and> fst f = v) (zip fs bs))"

lemma runFlips_flips: "runFlips key inst fs r = phase_register.flips key inst fs r"
  by (induction fs arbitrary: r) (auto simp: Let_def split: prod.splits)

lemma length_runFlips: "length (fst (runFlips key inst fs r)) = length fs"
proof (induction fs arbitrary: r)
  case (Cons f fs)
  obtain v w where f: "f = (v, w)" by (cases f)
  obtain b r' where fl: "flipTo key inst v w r = (b, r')" by fastforce
  show ?case using Cons.IH [of r'] by (cases "runFlips key inst fs r'") (simp add: f fl)
qed simp

lemma winsAt_winsFrom:
  "length bs = length fs \<Longrightarrow> winsAt v fs bs = phase_register.winsFrom v fs bs"
  by (induction fs bs rule: list_induct2') (auto simp: winsAt_def)

text \<open>
  Exactly one winner per phase change. Whatever sequence of forward phase flips any number of
  replicas issue on a match, in any order, at most one flip away from each (round, phase)
  succeeds: combat starts once, damage is applied once and the round advances once.
\<close>

theorem phase_flip_exactly_once:
  assumes "list_all (\<lambda>(v, w). v < w) fs"
  shows "winsAt v fs (fst (runFlips key inst fs r)) \<le> 1"
proof -
  have "\<And>x y. (x, y) \<in> set fs \<Longrightarrow> id x < id y" using assms by (auto simp: list_all_iff)
  from phase_register.wins_bounded(2) [of fs id v key inst r, OF this] show ?thesis
    by (simp add: runFlips_flips [symmetric] winsAt_winsFrom [OF length_runFlips])
qed

theorem phase_flip_exactly_once_witness:
  "winsAt (1, ShopPlace) [((1, ShopPlace), (1, BattlePhase)), ((1, ShopPlace), (1, BattlePhase))]
     (fst (runFlips ''k'' ''i'' [((1, ShopPlace), (1, BattlePhase)), ((1, ShopPlace), (1, BattlePhase))] emptyRedis)) \<le> 1"
  using phase_flip_exactly_once [of "[((1, ShopPlace), (1, BattlePhase)), ((1, ShopPlace), (1, BattlePhase))]"]
  by (simp add: less_prod_def less_eq_MatchPhase_def less_MatchPhase_def)

subsection \<open>The two logs are idempotent\<close>

definition actionLogKey :: "string \<Rightarrow> string \<Rightarrow> string" where
  "actionLogKey m u = ''match:'' @ m @ '':actionLog:'' @ u"

lemma key_neq [simp]:
  "actionLogKey m u \<noteq> runtimeKey m" "runtimeKey m \<noteq> actionLogKey m u"
  "combatDoneKey m \<noteq> runtimeKey m" "runtimeKey m \<noteq> combatDoneKey m"
  by (simp_all add: actionLogKey_def runtimeKey_def combatDoneKey_def)

text \<open>One logged action of a match: which field it writes and, for the shop, the shop it stores.\<close>

record action =
  a_id :: string
  a_time :: int
  a_field :: string
  a_value :: hval
  a_phase :: MatchPhase
  a_round :: nat
  a_shop :: "(string \<times> hval \<times> int) option"

definition logAction :: "string \<Rightarrow> string \<Rightarrow> action \<Rightarrow> redis \<Rightarrow> int \<times> redis" where
  "logAction m u a r =
     actionLog (actionLogKey m u) (a_id a) (a_time a)
       (Some \<lparr>c_runtimeKey = runtimeKey m, c_field = a_field a, c_value = a_value a,
              c_phase = phaseName (a_phase a), c_round = showNat (a_round a)\<rparr>) (a_shop a) r"

lemma logAction_cases:
  "logAction m u a r =
     (if hexists (actionLogKey m u) (a_id a) r then (0, r)
      else if hget (runtimeKey m) ''round'' r \<noteq> Some (HStr (showNat (a_round a))) then (-2, r)
      else if hget (runtimeKey m) ''phase'' r \<noteq> Some (HStr (phaseName (a_phase a))) then (-1, r)
      else (1, (case a_shop a of None \<Rightarrow> id | Some (k, v, ttl) \<Rightarrow> setEx k v ttl)
                 (hset (runtimeKey m) (a_field a) (a_value a)
                   (expire (actionLogKey m u) 120
                     (hset (actionLogKey m u) (a_id a) (HStr (showInt (a_time a))) r)))))"
  by (auto simp: logAction_def actionLog_def Let_def split: option.splits)

definition loggedIds :: "string \<Rightarrow> redis \<Rightarrow> string set" where
  "loggedIds key r = {i. hexists key i r}"

text \<open>The contents of an action may vary from one attempt to the next; its id identifies it.\<close>

interpretation action_log:
  idempotent_log "loggedIds (actionLogKey m u)" "\<lambda>i r. snd (logAction m u ((content i)\<lparr>a_id := i\<rparr>) r)"
  by unfold_locales (auto simp: loggedIds_def logAction_cases hexists_def split: option.splits)

interpretation combat_acks:
  idempotent_log "\<lambda>r. loggedIds key r" "\<lambda>p r. snd (combatDone key p now r)"
  by unfold_locales (auto simp: loggedIds_def combatDone_def Let_def hexists_def)

text \<open>Every action of the stream that is logged by the end was logged once and only once.\<close>

fun runActions :: "string \<Rightarrow> string \<Rightarrow> action list \<Rightarrow> redis \<Rightarrow> int list \<times> redis" where
  "runActions m u [] r = ([], r)"
| "runActions m u (a # as) r =
     (let (c, r') = logAction m u a r; (cs, r'') = runActions m u as r' in (c # cs, r''))"

definition timesCommitted :: "string \<Rightarrow> action list \<Rightarrow> int list \<Rightarrow> nat" where
  "timesCommitted i as cs = length (filter (\<lambda>(a, c). a_id a = i \<and> c = 1) (zip as cs))"

lemma logAction_logged:
  assumes "logAction m u a r = (c, r')"
  shows "hexists (actionLogKey m u) i r' \<longleftrightarrow> hexists (actionLogKey m u) i r \<or> (c = 1 \<and> i = a_id a)"
    and "c = 1 \<Longrightarrow> \<not> hexists (actionLogKey m u) (a_id a) r"
    and "c \<noteq> 1 \<Longrightarrow> r' = r"
  using assms by (auto simp: logAction_cases hexists_def split: if_splits option.splits)

lemma runActions_once:
  "(hexists (actionLogKey m u) i r \<longrightarrow> timesCommitted i as (fst (runActions m u as r)) = 0) \<and>
   timesCommitted i as (fst (runActions m u as r)) \<le> 1"
proof (induction as arbitrary: r)
  case Nil
  then show ?case by (simp add: timesCommitted_def)
next
  case (Cons a as)
  obtain c r' where log: "logAction m u a r = (c, r')" by fastforce
  obtain cs r'' where rest: "runActions m u as r' = (cs, r'')" by fastforce
  have "timesCommitted i (a # as) (c # cs) = of_bool (a_id a = i \<and> c = 1) + timesCommitted i as cs"
    by (simp add: timesCommitted_def)
  with Cons.IH [of r'] logAction_logged(1) [OF log, of i] logAction_logged(2) [OF log]
  show ?case by (auto simp: log rest)
qed

text \<open>
  C16: No action is applied twice. Whatever stream of client actions arrives, with ids repeated by
  retries, duplicated by reconnects or reused with other contents, an id is committed at most
  once, and an action that is not committed (a duplicate, a stale round or phase) leaves the
  whole keyspace as it was.
\<close>

theorem action_log_at_most_once:
  "timesCommitted i as (fst (runActions m u as r)) \<le> 1 \<and>
   (fst (logAction m u a r) = 1 \<or> snd (logAction m u a r) = r)"
  using runActions_once [of m u i r as] logAction_logged(3) [of m u a r "fst (logAction m u a r)" "snd (logAction m u a r)"]
  by auto

subsection \<open>The owned lock\<close>

interpretation redis_lock:
  owned_lock "getStr key" "\<lambda>x. setNx key x ttl" "\<lambda>x r. snd (releaseOwned key x r)"
  by unfold_locales (auto simp: getStr_def setNx_def releaseOwned_def)

text \<open>A request on a lock: its owner tag and whether it acquires (\<open>True\<close>) or releases.\<close>

fun lockRequest :: "string \<Rightarrow> int \<Rightarrow> hval \<times> bool \<Rightarrow> redis \<Rightarrow> redis" where
  "lockRequest key ttl (x, True) r = snd (setNx key x ttl r)"
| "lockRequest key ttl (x, False) r = snd (releaseOwned key x r)"

lemma lockRequest_request: "lockRequest key ttl q r = redis_lock.request key ttl q r"
  by (cases q; cases "snd q") auto

text \<open>
  Mutual exclusion of the roster, combat and room-handoff locks: from the moment an owner got
  \<open>OK\<close> until it releases, no sequence of acquisitions and releases by others takes the lock away
  from it: in particular the late release of an owner whose lock expired cannot delete the lock
  of its successor.
\<close>

theorem lock_is_exclusive:
  assumes "fst (setNx key x ttl r)" and "(x, False) \<notin> set reqs"
  shows "getStr key (fold (lockRequest key ttl) reqs (snd (setNx key x ttl r))) = Some x \<and>
    (y \<noteq> x \<longrightarrow> \<not> fst (setNx key y ttl (fold (lockRequest key ttl) reqs (snd (setNx key x ttl r)))))"
proof -
  have "getStr key (snd (setNx key x ttl r)) = Some x"
    using redis_lock.acquired [OF assms(1)] by simp
  from redis_lock.exclusive [OF this assms(2), of ttl]
  have held: "getStr key (fold (lockRequest key ttl) reqs (snd (setNx key x ttl r))) = Some x"
    by (simp add: lockRequest_request [abs_def])
  then show ?thesis by (simp add: setNx_def getStr_def)
qed

theorem lock_is_exclusive_witness:
  "getStr ''lock'' (lockRequest ''lock'' 30 (HStr ''b'', False) (snd (setNx ''lock'' (HStr ''a'') 30 emptyRedis))) =
   Some (HStr ''a'')"
  using lock_is_exclusive [of "''lock''" "HStr ''a''" 30 emptyRedis "[(HStr ''b'', False)]"]
  by (simp add: setNx_def emptyRedis_def)

end
