(* ===== verification/Shop.thy ===== *)
theory Shop
  imports Runtime_Data
begin

text \<open>
  The pure part of \<open>shop/shop.service.ts\<close>: offer generation and the four roster mutations that the
  service runs inside \<open>withAction\<close>. A mutation gets the player's state and the stored shop and either
  fails with an error code (the \<open>Inl\<close> result: the mutated copy is dropped, nothing is stored) or
  returns both updated. The digest of Node's \<open>crypto\<close> is the parameter \<open>sha\<close>, \<open>randomUUID()\<close> the
  argument \<open>uuid\<close>.
\<close>

subsection \<open>Typed units\<close>

record RuntimeUnitState =
  r_instanceId :: string
  r_unitId :: UnitId
  r_star :: Star
  r_hp :: int
  r_maxHp :: int
  r_investedGold :: "int option"

type_synonym player = "RuntimeUnitState PlayerState"

text \<open>The JSON object of a unit, and the cast \<open>as RuntimeUnitState\<close> back.\<close>

definition unitObj :: "RuntimeUnitState \<Rightarrow> jobj" where
  "unitObj u =
     [(''instanceId'', JStr (r_instanceId u)), (''unitId'', JStr (unitIdName (r_unitId u))),
      (''star'', JNum (int (r_star u))), (''hp'', JNum (r_hp u)), (''maxHp'', JNum (r_maxHp u))] @
     (case r_investedGold u of None \<Rightarrow> [] | Some g \<Rightarrow> [(''investedGold'', JNum g)])"

fun asStr :: "json option \<Rightarrow> string option" where
  "asStr (Some (JStr s)) = Some s"
| "asStr _ = None"

fun asNum :: "json option \<Rightarrow> int option" where
  "asNum (Some (JNum n)) = Some n"
| "asNum _ = None"

definition castUnit :: "jobj \<Rightarrow> RuntimeUnitState option" where
  "castUnit e =
     (case (asStr (getProp e ''instanceId''), isUnitId (getProp e ''unitId''),
            isStar (getProp e ''star''), asNum (getProp e ''hp''), asNum (getProp e ''maxHp'')) of
        (Some i, Some u, Some s, Some h, Some m) \<Rightarrow>
          Some \<lparr>r_instanceId = i, r_unitId = u, r_star = s, r_hp = h, r_maxHp = m,
                r_investedGold = asNum (getProp e ''investedGold'')\<rparr>
      | _ \<Rightarrow> None)"

subsection \<open>Costs and offers\<close>

fun UNIT_COST :: "UnitId \<Rightarrow> int" where
  "UNIT_COST Fighter = 1"
| "UNIT_COST Healer = 1"
| "UNIT_COST Ranger = 2"
| "UNIT_COST Tank = 2"

definition UNIT_POOL :: "(UnitId \<times> int) list" where
  "UNIT_POOL = [(Fighter, 40), (Healer, 80), (Ranger, 95), (Tank, 100)]"

record ShopOffer =
  of_offerId :: string
  of_unitId :: UnitId
  of_star :: Star

record StoredShop =
  s_round :: nat
  s_refreshCount :: nat
  s_refreshUsed :: bool
  s_offers :: "ShopOffer option list"

definition hexDigit :: "nat \<Rightarrow> char" where
  "hexDigit d = ''0123456789abcdef'' ! d"

definition hexOf :: "nat list \<Rightarrow> string" where
  "hexOf bytes = concat (map (\<lambda>b. [hexDigit (b div 16), hexDigit (b mod 16)]) bytes)"

text \<open>\<open>String.prototype.slice(a, b)\<close> for \<open>0 <= a <= b\<close>.\<close>

definition slice :: "nat \<Rightarrow> nat \<Rightarrow> string \<Rightarrow> string" where
  "slice a b s = take (b - a) (drop a s)"

definition deterministicOfferId :: "(string \<Rightarrow> nat list) \<Rightarrow> string \<Rightarrow> nat \<Rightarrow> string" where
  "deterministicOfferId sha seed index =
     (let hex = slice 0 32 (hexOf (sha (seed @ '':'' @ showNat index)))
      in slice 0 8 hex @ ''-'' @ slice 8 12 hex @ ''-4'' @ slice 13 16 hex @ ''-a'' @
         slice 17 20 hex @ ''-'' @ drop 20 hex)"

text \<open>\<open>digest.readUInt32BE(0)\<close>.\<close>

definition hashString :: "(string \<Rightarrow> nat list) \<Rightarrow> string \<Rightarrow> int" where
  "hashString sha v = (case sha v of
      a # b # c # d # _ \<Rightarrow> int a * 16777216 + int b * 65536 + int c * 256 + int d
    | _ \<Rightarrow> 0)"

text \<open>
  \<open>random() * 100 < ceiling\<close> on the numerator of the draw; both products are below \<open>2^53\<close>, so the
  doubles of the code are exact.
\<close>

definition rollUnit :: "int \<Rightarrow> UnitId option" where
  "rollUnit v = map_option fst (List.find (\<lambda>e. v * 100 < snd e * 4294967296) UNIT_POOL)"

definition seedText :: "string \<Rightarrow> nat \<Rightarrow> nat \<Rightarrow> string \<Rightarrow> string" where
  "seedText matchSeed rnd refreshCount playerId =
     matchSeed @ '':'' @ showNat rnd @ '':'' @ showNat refreshCount @ '':'' @ playerId"

definition generateOffers ::
  "(string \<Rightarrow> nat list) \<Rightarrow> string \<Rightarrow> nat \<Rightarrow> string \<Rightarrow> nat \<Rightarrow> ShopOffer list" where
  "generateOffers sha matchSeed rnd playerId refreshCount =
     (let seed = seedText matchSeed rnd refreshCount playerId
      in map (\<lambda>(index, v). \<lparr>of_offerId = deterministicOfferId sha seed index,
                            of_unitId = the (rollUnit v), of_star = 0\<rparr>)
           (enumerate 0 (draws mulberry32 5 (hashString sha seed))))"

lemma rollUnit_total: "0 \<le> v \<Longrightarrow> v < 4294967296 \<Longrightarrow> rollUnit v \<noteq> None"
  by (auto simp: rollUnit_def UNIT_POOL_def)

lemma rollUnit_cases:
  assumes "0 \<le> v" "v < 4294967296"
  shows "rollUnit v = Some Fighter \<longleftrightarrow> v \<in> {0..<1717986919}"
    "rollUnit v = Some Healer \<longleftrightarrow> v \<in> {1717986919..<3435973837}"
    "rollUnit v = Some Ranger \<longleftrightarrow> v \<in> {3435973837..<4080218932}"
    "rollUnit v = Some Tank \<longleftrightarrow> v \<in> {4080218932..<4294967296}"
  using assms by (auto simp: rollUnit_def UNIT_POOL_def)

text \<open>
  The shop's odds. Every draw of the generator selects a unit (the code's non-null assertion
  never fails), and of the \<open>2^32\<close> equally weighted draws the four units get 40, 40, 15 and 5
  percent up to rounding to a whole draw.
\<close>

theorem shop_odds:
  "rollUnit (fst (mulberry32 s)) \<noteq> None \<and>
   card {v. 0 \<le> v \<and> v < 4294967296 \<and> rollUnit v = Some Fighter} = 1717986919 \<and>
   card {v. 0 \<le> v \<and> v < 4294967296 \<and> rollUnit v = Some Healer} = 1717986918 \<and>
   card {v. 0 \<le> v \<and> v < 4294967296 \<and> rollUnit v = Some Ranger} = 644245095 \<and>
   card {v. 0 \<le> v \<and> v < 4294967296 \<and> rollUnit v = Some Tank} = 214748364"
proof -
  have "{v. 0 \<le> v \<and> v < 4294967296 \<and> rollUnit v = Some Fighter} = {0..<1717986919}"
    "{v. 0 \<le> v \<and> v < 4294967296 \<and> rollUnit v = Some Healer} = {1717986919..<3435973837}"
    "{v. 0 \<le> v \<and> v < 4294967296 \<and> rollUnit v = Some Ranger} = {3435973837..<4080218932}"
    "{v. 0 \<le> v \<and> v < 4294967296 \<and> rollUnit v = Some Tank} = {4080218932..<4294967296}"
    using rollUnit_cases by auto
  then show ?thesis using rollUnit_total mulberry32_bounds by simp
qed

lemma generateOffers_length [simp]: "length (generateOffers sha ms rnd pid k) = 5"
  by (simp add: generateOffers_def Let_def)

lemma generateOffers_star: "o' \<in> set (generateOffers sha ms rnd pid k) \<Longrightarrow> of_star o' = 0"
  by (auto simp: generateOffers_def Let_def)

subsection \<open>Invested gold and roster helpers\<close>

datatype Source = Board | Bench

fun roster :: "Source \<Rightarrow> 'u PlayerState \<Rightarrow> 'u option list" where
  "roster Board s = p_board s"
| "roster Bench s = p_bench s"

text \<open>\<open>state[source][slot] = v\<close>.\<close>

fun setSlot :: "Source \<Rightarrow> nat \<Rightarrow> 'u option \<Rightarrow> 'u PlayerState \<Rightarrow> 'u PlayerState" where
  "setSlot Board i v s = s\<lparr>p_board := (p_board s)[i := v]\<rparr>"
| "setSlot Bench i v s = s\<lparr>p_bench := (p_bench s)[i := v]\<rparr>"

definition investedGold :: "RuntimeUnitState \<Rightarrow> int" where
  "investedGold unit =
     (case r_investedGold unit of
        Some stored \<Rightarrow> if stored \<ge> 0 then stored else UNIT_COST (r_unitId unit) * 2 ^ r_star unit
      | None \<Rightarrow> UNIT_COST (r_unitId unit) * 2 ^ r_star unit)"

type_synonym entry = "Source \<times> nat \<times> RuntimeUnitState"

definition slotEntries :: "Source \<Rightarrow> player \<Rightarrow> entry list" where
  "slotEntries src s =
     concat (map (\<lambda>(i, u). case u of Some x \<Rightarrow> [(src, i, x)] | None \<Rightarrow> []) (enumerate 0 (roster src s)))"

definition rosterEntries :: "player \<Rightarrow> entry list" where
  "rosterEntries s = slotEntries Board s @ slotEntries Bench s"

definition newUnit :: "string \<Rightarrow> UnitId \<Rightarrow> int \<Rightarrow> RuntimeUnitState" where
  "newUnit uuid unitId cost =
     (let maxHp = base_hp (UNIT_BASE_STATS unitId)
      in \<lparr>r_instanceId = uuid, r_unitId = unitId, r_star = 0, r_hp = maxHp, r_maxHp = maxHp,
          r_investedGold = Some cost\<rparr>)"

definition mergeUnits :: "RuntimeUnitState \<Rightarrow> RuntimeUnitState \<Rightarrow> RuntimeUnitState" where
  "mergeUnits target consumed =
     target\<lparr>r_star := r_star target + 1, r_investedGold := Some (investedGold target + investedGold consumed),
            r_hp := r_maxHp target\<rparr>"

subsection \<open>The four mutations\<close>

type_synonym shop_state = "player \<times> StoredShop"

definition buyUnit :: "string \<Rightarrow> nat \<Rightarrow> shop_state \<Rightarrow> string + shop_state" where
  "buyUnit uuid offerIndex ctx =
     (let (state, shop) = ctx in
      case js_nth (s_offers shop) offerIndex of
        Some (Some offer) \<Rightarrow>
          (let cost = UNIT_COST (of_unitId offer) in
           if p_gold state < cost then Inl ''shop.insufficient_gold''
           else let state' = state\<lparr>p_gold := p_gold state - cost\<rparr>;
                    bought = newUnit uuid (of_unitId offer) cost
                in case findIndex (\<lambda>e. e = None) (p_bench state') of
                     None \<Rightarrow> Inl ''shop.roster_full''
                   | Some slot \<Rightarrow>
                       Inr (state'\<lparr>p_bench := (p_bench state')[slot := Some bought]\<rparr>,
                            shop\<lparr>s_offers := (s_offers shop)[offerIndex := None]\<rparr>))
      | _ \<Rightarrow> Inl ''shop.offer_unavailable'')"

definition sellUnit :: "Source \<Rightarrow> int \<Rightarrow> shop_state \<Rightarrow> string + shop_state" where
  "sellUnit source slot ctx =
     (let (state, shop) = ctx in
      if slot < 0 \<or> slot \<ge> int (length (roster source state)) then Inl ''shop.invalid_slot''
      else case roster source state ! nat slot of
             None \<Rightarrow> Inl ''shop.unit_not_found''
           | Some unit \<Rightarrow>
               Inr (setSlot source (nat slot) None (state\<lparr>p_gold := p_gold state + investedGold unit\<rparr>), shop))"

definition refreshShop :: "(string \<Rightarrow> nat list) \<Rightarrow> string \<Rightarrow> nat \<Rightarrow> string \<Rightarrow> shop_state \<Rightarrow> string + shop_state" where
  "refreshShop sha matchSeed rnd userId ctx =
     (let (state, shop) = ctx in
      if s_refreshUsed shop then Inl ''shop.refresh_used''
      else let count = s_refreshCount shop + 1
           in Inr (state, shop\<lparr>s_refreshUsed := True, s_refreshCount := count,
                                s_offers := map Some (generateOffers sha matchSeed rnd userId count)\<rparr>))"

text \<open>\<open>mergeUnits(target.unit, source.unit); state[source.source][source.slot] = null\<close>.\<close>

definition applyFuse :: "entry \<Rightarrow> entry \<Rightarrow> player \<Rightarrow> player" where
  "applyFuse target source state =
     (let (ts, ti, tu) = target; (ss, si, su) = source
      in setSlot ss si None (setSlot ts ti (Some (mergeUnits tu su)) state))"

definition fuseDragged :: "UnitId \<Rightarrow> string \<Rightarrow> string \<Rightarrow> player \<Rightarrow> string + player" where
  "fuseDragged unitId sourceId targetId state =
     (if sourceId = targetId then Inl ''shop.cannot_fuse''
      else case (List.find (\<lambda>(_, _, u). r_instanceId u = sourceId) (rosterEntries state),
                 List.find (\<lambda>(_, _, u). r_instanceId u = targetId) (rosterEntries state)) of
             (Some (ss, si, su), Some (ts, ti, tu)) \<Rightarrow>
               if r_unitId su \<noteq> unitId \<or> r_unitId tu \<noteq> unitId \<or> r_star su \<noteq> r_star tu \<or> r_star tu \<ge> 2
               then Inl ''shop.cannot_fuse''
               else Inr (applyFuse (ts, ti, tu) (ss, si, su) state)
           | _ \<Rightarrow> Inl ''shop.unit_not_found'')"

definition starCmp :: "entry \<Rightarrow> entry \<Rightarrow> int" where
  "starCmp a b = int (r_star (snd (snd a))) - int (r_star (snd (snd b)))"

text \<open>The first entry with a later one of the same star: \<open>candidates.find(... slice(index + 1).some ...)\<close>.\<close>

fun findPair :: "entry list \<Rightarrow> entry option" where
  "findPair [] = None"
| "findPair (e # es) =
     (if \<exists>other \<in> set es. r_star (snd (snd other)) = r_star (snd (snd e)) then Some e else findPair es)"

definition fuseLegacy :: "UnitId \<Rightarrow> player \<Rightarrow> string + player" where
  "fuseLegacy unitId state =
     (let candidates = js_sort starCmp
            (filter (\<lambda>(_, _, u). r_unitId u = unitId \<and> r_star u < 2) (rosterEntries state))
      in case findPair candidates of
           None \<Rightarrow> Inl ''shop.cannot_fuse''
         | Some pair \<Rightarrow>
             (case List.find (\<lambda>e. (fst e, fst (snd e)) \<noteq> (fst pair, fst (snd pair)) \<and>
                                   r_star (snd (snd e)) = r_star (snd (snd pair))) candidates of
                Some second \<Rightarrow> Inr (applyFuse pair second state)
              | None \<Rightarrow> Inl ''shop.cannot_fuse''))"

text \<open>\<open>None\<close> is a missing instance id; an empty one is falsy in the code and takes the legacy path.\<close>

definition fuseUnits :: "UnitId \<Rightarrow> string option \<Rightarrow> string option \<Rightarrow> shop_state \<Rightarrow> string + shop_state" where
  "fuseUnits unitId sourceId targetId ctx =
     (let (state, shop) = ctx in
      if (sourceId = None) \<noteq> (targetId = None) then Inl ''shop.invalid_fuse_pair''
      else let result = (case (sourceId, targetId) of
                 (Some s, Some t) \<Rightarrow> if s \<noteq> [] \<and> t \<noteq> [] then fuseDragged unitId s t state
                                     else fuseLegacy unitId state
               | _ \<Rightarrow> fuseLegacy unitId state)
           in map_sum id (\<lambda>st. (st, shop)) result)"

end
