(* ===== verification/World.thy ===== *)
theory World
  imports Redis_Scripts Shop
begin

text \<open>
  The state the services share, and the way their methods compose. A replica keeps no match state
  of its own: everything is in Redis, in PostgreSQL (\<open>matches\<close>, \<open>match_rounds\<close>, \<open>users\<close>), in the
  BullMQ queues, or on its way through Pub/Sub. A service method is a function from this world to
  an error code or a result, with the world it leaves behind; whatever a method did before it
  threw stays done, except inside a database transaction.
\<close>

subsection \<open>Methods\<close>

type_synonym 'a result = "string + 'a"

definition ret :: "'a \<Rightarrow> 'w \<Rightarrow> 'a result \<times> 'w" where
  "ret x w = (Inr x, w)"

definition throw :: "string \<Rightarrow> 'w \<Rightarrow> 'a result \<times> 'w" where
  "throw e w = (Inl e, w)"

text \<open>\<open>await\<close>: run, and pass the value on unless it threw.\<close>

definition andThen :: "('w \<Rightarrow> 'a result \<times> 'w) \<Rightarrow> ('a \<Rightarrow> 'w \<Rightarrow> 'b result \<times> 'w) \<Rightarrow> 'w \<Rightarrow> 'b result \<times> 'w" where
  "andThen m f w = (case m w of (Inl e, w') \<Rightarrow> (Inl e, w') | (Inr x, w') \<Rightarrow> f x w')"

definition guard :: "bool \<Rightarrow> string \<Rightarrow> 'w \<Rightarrow> unit result \<times> 'w" where
  "guard b e w = (if b then (Inr (), w) else (Inl e, w))"

definition modify :: "('w \<Rightarrow> 'w) \<Rightarrow> 'w \<Rightarrow> unit result \<times> 'w" where
  "modify f w = (Inr (), f w)"

definition gets :: "('w \<Rightarrow> 'a) \<Rightarrow> 'w \<Rightarrow> 'a result \<times> 'w" where
  "gets f w = (Inr (f w), w)"

text \<open>\<open>try m finally f\<close>, for a cleanup \<open>f\<close> that does not throw.\<close>

definition finallyDo :: "('w \<Rightarrow> 'a result \<times> 'w) \<Rightarrow> ('w \<Rightarrow> 'w) \<Rightarrow> 'w \<Rightarrow> 'a result \<times> 'w" where
  "finallyDo m f w = (case m w of (r, w') \<Rightarrow> (r, f w'))"

lemma method_simps [simp, handler_simps]:
  "ret x w = (Inr x, w)" "throw e w = (Inl e, w)" "modify f w = (Inr (), f w)" "gets g w = (Inr (g w), w)"
  "guard b e w = (if b then (Inr (), w) else (Inl e, w))"
  by (simp_all add: ret_def throw_def modify_def gets_def guard_def)

lemma andThen_simps [simp, handler_simps]:
  "m w = (Inl e, w') \<Longrightarrow> andThen m f w = (Inl e, w')"
  "m w = (Inr x, w') \<Longrightarrow> andThen m f w = f x w'"
  by (simp_all add: andThen_def)

lemma andThen_cases:
  assumes "andThen m f w = (r, w')"
  obtains (err) e where "m w = (Inl e, w')" "r = Inl e"
  | (ok) x w1 where "m w = (Inr x, w1)" "f x w1 = (r, w')"
  using assms by (auto simp: andThen_def split: prod.splits sum.splits)

lemma andThen_InrD:
  assumes "andThen m f w = (Inr y, w')"
  shows "\<exists>x w1. m w = (Inr x, w1) \<and> f x w1 = (Inr y, w')"
  using assms by (auto simp: andThen_def split: prod.splits sum.splits)

subsection \<open>Rows, jobs and messages\<close>

record UserRow =
  us_id :: string
  us_email :: string
  us_username :: string
  us_passwordHash :: string
  us_rating :: int
  us_createdAt :: int

record MatchRound =
  mr_matchId :: string
  mr_roundNumber :: int
  mr_events :: "SnapEvent list option"

datatype Job =
    PhaseStart string nat int
  | CombatDoneTimeout string nat int
  | RoundReadyTimeout string nat int
  | DisconnectDetect string string int
  | MatchCleanup string int

text \<open>The explicit job ids of \<open>queue.service.ts\<close>; BullMQ ignores a job whose id is still known.\<close>

fun jobId :: "Job \<Rightarrow> string" where
  "jobId (PhaseStart m n d) = ''phase-'' @ m @ ''-'' @ showNat n"
| "jobId (CombatDoneTimeout m n d) = ''combat-done-timeout-'' @ m @ ''-'' @ showNat n"
| "jobId (RoundReadyTimeout m n d) = ''round-ready-timeout-'' @ m @ ''-'' @ showNat n"
| "jobId (DisconnectDetect m u d) = ''disconnect-'' @ m @ ''-'' @ u"
| "jobId (MatchCleanup m t) = ''cleanup-'' @ m"

record PlayerView =
  pv_id :: string
  pv_username :: string
  pv_hp :: int
  pv_gold :: int
  pv_ready :: bool

record PhasePayload =
  ph_matchId :: string
  ph_phase :: MatchPhase
  ph_round :: nat
  ph_timer :: nat
  ph_players :: "PlayerView list"

record SideDamage =
  sd_wiped :: bool
  sd_tie :: bool
  sd_hpBefore :: int
  sd_hpAfter :: int
  sd_damageApplied :: int

record DamagePayload =
  dp_matchId :: string
  dp_round :: nat
  dp_p1 :: SideDamage
  dp_p2 :: SideDamage
  dp_winner :: "Side option"

datatype MatchEndReason = HpZero | Forfeit | Disconnect

record RatingChange =
  rc_before :: int
  rc_after :: int
  rc_delta :: int

record MatchEndPayload =
  me_matchId :: string
  me_winnerId :: "string option"
  me_reason :: MatchEndReason
  me_p1 :: "int \<times> int"
  me_p2 :: "int \<times> int"
  me_rating :: "(RatingChange \<times> RatingChange) option"

record CombatPayload =
  cp_matchId :: string
  cp_round :: nat
  cp_cycleCount :: nat
  cp_endedAt :: int
  cp_events :: "SnapEvent list"
  cp_board1 :: "jobj option list"
  cp_board2 :: "jobj option list"

record RoomView =
  rm_roomId :: string
  rm_code :: string
  rm_ownerId :: string
  rm_guestId :: "string option"
  rm_status :: string
  rm_expiresAt :: string
  rm_matchId :: "string option"

datatype Payload =
    PhaseEvent PhasePayload
  | StateEvent MatchStatePayload
  | ShopOfferEvent string nat "ShopOffer option list"
  | DamageEvent DamagePayload
  | MatchEndEvent MatchEndPayload
  | CombatEvents CombatPayload
  | RoomStateEvent RoomView

text \<open>The envelope types of \<open>pubsub.bridge.ts\<close>.\<close>

datatype Envelope =
    ToMatch string Payload
  | ToUser string string Payload
  | ToRoom string Payload "string list"

text \<open>
  \<open>w_combatResult\<close> is the Redis string \<open>match:<id>:combat-result\<close>, the JSON of an event list, with the
  time to live it was stored with.
  \<open>w_cacheUp\<close> says whether a cache command reaches Redis: the statistics and leaderboard caches catch
  its failure and go on without.
\<close>

record world =
  w_redis :: redis
  w_matches :: "Match list"
  w_rounds :: "MatchRound list"
  w_users :: "UserRow list"
  w_jobs :: "Job list"
  w_pub :: "Envelope list"
  w_combatResult :: "string \<Rightarrow> (SnapEvent list \<times> int) option"
  w_cacheUp :: bool
  w_now :: int

definition onRedis :: "(redis \<Rightarrow> redis) \<Rightarrow> world \<Rightarrow> world" where
  "onRedis f w = w\<lparr>w_redis := f (w_redis w)\<rparr>"

text \<open>Run a script or command that replies.\<close>

definition redisCall :: "(redis \<Rightarrow> 'a \<times> redis) \<Rightarrow> world \<Rightarrow> 'a result \<times> world" where
  "redisCall f w = (let (x, r) = f (w_redis w) in (Inr x, w\<lparr>w_redis := r\<rparr>))"

text \<open>A cache command inside \<open>try { .. } catch\<close>: dropped when Redis is unreachable.\<close>

definition tryRedis :: "(redis \<Rightarrow> redis) \<Rightarrow> world \<Rightarrow> world" where
  "tryRedis f w = (if w_cacheUp w then onRedis f w else w)"

definition addJob :: "Job \<Rightarrow> world \<Rightarrow> world" where
  "addJob j w = (if jobId j \<in> jobId ` set (w_jobs w) then w else w\<lparr>w_jobs := w_jobs w @ [j]\<rparr>)"

definition publish :: "string \<Rightarrow> Payload \<Rightarrow> world \<Rightarrow> world" where
  "publish m p w = w\<lparr>w_pub := w_pub w @ [ToMatch m p]\<rparr>"

definition publishToUser :: "string \<Rightarrow> string \<Rightarrow> Payload \<Rightarrow> world \<Rightarrow> world" where
  "publishToUser m u p w = w\<lparr>w_pub := w_pub w @ [ToUser m u p]\<rparr>"

definition publishToRoom :: "string \<Rightarrow> Payload \<Rightarrow> string list \<Rightarrow> world \<Rightarrow> world" where
  "publishToRoom rm p us w = w\<lparr>w_pub := w_pub w @ [ToRoom rm p us]\<rparr>"

definition writeCombatResult :: "string \<Rightarrow> SnapEvent list \<Rightarrow> int \<Rightarrow> world \<Rightarrow> world" where
  "writeCombatResult m evs ttlSeconds w = w\<lparr>w_combatResult := (w_combatResult w)(m := Some (evs, ttlSeconds))\<rparr>"

definition clearCombatResult :: "string \<Rightarrow> world \<Rightarrow> world" where
  "clearCombatResult m w = w\<lparr>w_combatResult := (w_combatResult w)(m := None)\<rparr>"

definition getCombatResult :: "string \<Rightarrow> world \<Rightarrow> SnapEvent list option" where
  "getCombatResult m w = map_option fst (w_combatResult w m)"

lemma redisCall_eq: "redisCall f w = (Inr (fst (f (w_redis w))), w\<lparr>w_redis := snd (f (w_redis w))\<rparr>)"
  by (simp add: redisCall_def split: prod.split)

text \<open>
  Frames: what each effect leaves alone. \<open>database\<close> collects the three tables and \<open>keyspace\<close> what Redis
  holds; every effect changes one of the components only.
\<close>

definition database :: "world \<Rightarrow> Match list \<times> MatchRound list \<times> UserRow list" where
  "database w = (w_matches w, w_rounds w, w_users w)"

lemma databaseD:
  "database w = database w' \<Longrightarrow> w_matches w = w_matches w' \<and> w_rounds w = w_rounds w' \<and> w_users w = w_users w'"
  by (simp add: database_def)

lemma database_frames [simp]:
  "database (publish m p w) = database w" "database (publishToUser m u p w) = database w"
  "database (publishToRoom rm p us w) = database w" "database (addJob j w) = database w"
  "database (writeCombatResult m e t w) = database w" "database (clearCombatResult m w) = database w"
  "database (onRedis f w) = database w" "database (tryRedis f w) = database w"
  by (simp_all add: database_def publish_def publishToUser_def publishToRoom_def addJob_def writeCombatResult_def
      clearCombatResult_def onRedis_def tryRedis_def)

lemmas table_frames [simp] = database_frames [THEN databaseD, THEN conjunct1]
  database_frames [THEN databaseD, THEN conjunct2, THEN conjunct1]
  database_frames [THEN databaseD, THEN conjunct2, THEN conjunct2]

lemma redis_frames [simp]:
  "w_redis (publish m p w) = w_redis w" "w_redis (publishToUser m u p w) = w_redis w"
  "w_redis (publishToRoom rm p us w) = w_redis w" "w_redis (addJob j w) = w_redis w"
  "w_redis (writeCombatResult m e t w) = w_redis w" "w_redis (clearCombatResult m w) = w_redis w"
  "w_redis (onRedis f w) = f (w_redis w)"
  by (simp_all add: publish_def publishToUser_def publishToRoom_def addJob_def writeCombatResult_def
      clearCombatResult_def onRedis_def)

lemma pub_frames [simp]:
  "w_pub (publish m p w) = w_pub w @ [ToMatch m p]" "w_pub (publishToUser m u p w) = w_pub w @ [ToUser m u p]"
  "w_pub (publishToRoom rm p us w) = w_pub w @ [ToRoom rm p us]"
  "w_pub (addJob j w) = w_pub w" "w_pub (onRedis f w) = w_pub w" "w_pub (tryRedis f w) = w_pub w"
  "w_pub (writeCombatResult m e t w) = w_pub w" "w_pub (clearCombatResult m w) = w_pub w"
  by (simp_all add: publish_def publishToUser_def publishToRoom_def addJob_def writeCombatResult_def
      clearCombatResult_def onRedis_def tryRedis_def)

lemma job_frames [simp]:
  "w_jobs (publish m p w) = w_jobs w" "w_jobs (publishToUser m u p w) = w_jobs w"
  "w_jobs (publishToRoom rm p us w) = w_jobs w" "w_jobs (onRedis f w) = w_jobs w"
  "w_jobs (tryRedis f w) = w_jobs w" "w_jobs (writeCombatResult m e t w) = w_jobs w"
  "w_jobs (clearCombatResult m w) = w_jobs w"
  by (simp_all add: publish_def publishToUser_def publishToRoom_def writeCombatResult_def
      clearCombatResult_def onRedis_def tryRedis_def)

lemma result_frames [simp]:
  "w_combatResult (publish m p w) = w_combatResult w" "w_combatResult (publishToUser m u p w) = w_combatResult w"
  "w_combatResult (publishToRoom rm p us w) = w_combatResult w" "w_combatResult (addJob j w) = w_combatResult w"
  "w_combatResult (onRedis f w) = w_combatResult w" "w_combatResult (tryRedis f w) = w_combatResult w"
  by (simp_all add: publish_def publishToUser_def publishToRoom_def addJob_def onRedis_def tryRedis_def)

subsection \<open>Interface: an action that takes effect once\<close>

text \<open>
  Several handlers may race to end something (a match, a room, a round). What each of them promises:
  it wins only from a live state, its win ends that state for good, and an attempt on an ended state
  does not win. An invariant of the state may be relied on. Then of any sequence of attempts at most one wins.
\<close>

locale once_action =
  fixes inv :: "'s \<Rightarrow> bool"
    and ended :: "'s \<Rightarrow> bool"
    and attempt :: "'a \<Rightarrow> 's \<Rightarrow> bool \<times> 's"
  assumes keeps: "inv s \<Longrightarrow> inv (snd (attempt a s))"
    and win_ends: "inv s \<Longrightarrow> fst (attempt a s) \<Longrightarrow> ended (snd (attempt a s))"
    and ended_stays: "inv s \<Longrightarrow> ended s \<Longrightarrow> \<not> fst (attempt a s) \<and> ended (snd (attempt a s))"
begin

fun attempts :: "'a list \<Rightarrow> 's \<Rightarrow> bool list \<times> 's" where
  "attempts [] s = ([], s)"
| "attempts (a # as) s = (let (b, s') = attempt a s; (bs, s'') = attempts as s' in (b # bs, s''))"

lemma none_after_end: "inv s \<Longrightarrow> ended s \<Longrightarrow> True \<notin> set (fst (attempts as s))"
proof (induction as arbitrary: s)
  case (Cons a as)
  obtain b s' where at: "attempt a s = (b, s')" by fastforce
  obtain bs s'' where rest: "attempts as s' = (bs, s'')" by fastforce
  from ended_stays [OF Cons.prems, of a] keeps [OF Cons.prems(1), of a] at Cons.IH [of s'] rest show ?case by simp
qed simp

lemma at_most_one: "inv s \<Longrightarrow> count_list (fst (attempts as s)) True \<le> 1"
proof (induction as arbitrary: s)
  case (Cons a as)
  obtain b s' where at: "attempt a s = (b, s')" by fastforce
  obtain bs s'' where rest: "attempts as s' = (bs, s'')" by fastforce
  from keeps [OF Cons.prems, of a] at have inv': "inv s'" by simp
  have "count_list bs True = 0" if b
    using that win_ends [OF Cons.prems, of a] at none_after_end [OF inv', of as] rest by (simp add: count_list_0_iff)
  with Cons.IH [OF inv'] at rest show ?case by (cases b) simp_all
qed simp

end

subsection \<open>Interface: methods that move along a step relation\<close>

text \<open>
  What a component promises to the rest of the system is a relation on the part of the world it works on, and an
  invariant that its steps keep; a method keeps the promise if what it does to that part is a sequence of steps,
  from any state with the invariant. Methods that do so compose.
\<close>

locale stepwise =
  fixes view :: "world \<Rightarrow> 'v"
    and step :: "'v \<Rightarrow> 'v \<Rightarrow> bool"
    and good :: "'v \<Rightarrow> bool"
  assumes keeps: "good v \<Longrightarrow> step v v' \<Longrightarrow> good v'"
begin

definition moves :: "(world \<Rightarrow> 'a \<times> world) \<Rightarrow> bool" where
  "moves f \<longleftrightarrow> (\<forall>w. good (view w) \<longrightarrow> step\<^sup>*\<^sup>* (view w) (view (snd (f w))))"

lemma keeps_all: "step\<^sup>*\<^sup>* v v' \<Longrightarrow> good v \<Longrightarrow> good v'"
  by (induction rule: rtranclp_induct) (auto intro: keeps)

lemma movesD: "moves f \<Longrightarrow> good (view w) \<Longrightarrow> f w = (x, w') \<Longrightarrow> step\<^sup>*\<^sup>* (view w) (view w')"
  unfolding moves_def by (metis snd_conv)

lemma quiet: "(\<And>w. view (snd (f w)) = view w) \<Longrightarrow> moves f"
  by (simp add: moves_def)

lemma single: "(\<And>w. good (view w) \<Longrightarrow> step (view w) (view (snd (f w)))) \<Longrightarrow> moves f"
  by (simp add: moves_def r_into_rtranclp)

lemma basic: "moves (ret x)" "moves (throw e)" "moves (guard b e)" "moves (gets g)" "moves (\<lambda>w. (y, w))"
  by (simp_all add: moves_def)

lemma after: "step\<^sup>*\<^sup>* v (view w) \<Longrightarrow> good v \<Longrightarrow> moves f \<Longrightarrow> step\<^sup>*\<^sup>* v (view (snd (f w)))"
  by (meson moves_def keeps_all rtranclp_trans)

lemma bound:
  assumes "moves f" and "\<And>w x w1. f w = (Inr x, w1) \<Longrightarrow> P x" and "\<And>x. P x \<Longrightarrow> moves (g x)"
  shows "moves (andThen f g)"
  unfolding moves_def
proof (intro allI impI)
  fix w assume good: "good (view w)"
  obtain r w1 where run: "f w = (r, w1)" by fastforce
  note first = movesD [OF assms(1) good run]
  show "step\<^sup>*\<^sup>* (view w) (view (snd (andThen f g w)))"
  proof (cases r)
    case (Inr x)
    with assms(2,3) run have "moves (g x)" by blast
    from after [OF first good this] run Inr show ?thesis by simp
  qed (use first run in simp)
qed

lemma chain: "moves f \<Longrightarrow> (\<And>x. moves (g x)) \<Longrightarrow> moves (andThen f g)"
  by (rule bound [where P = "\<lambda>_. True"]) simp_all

lemma cleanup:
  assumes "moves f" and "\<And>w. step\<^sup>*\<^sup>* (view w) (view (g w))"
  shows "moves (finallyDo f g)"
  unfolding moves_def
proof (intro allI impI)
  fix w assume good: "good (view w)"
  obtain r w1 where run: "f w = (r, w1)" by fastforce
  from movesD [OF assms(1) good run] assms(2) [of w1] run
  show "step\<^sup>*\<^sup>* (view w) (view (snd (finallyDo f g w)))" by (simp add: finallyDo_def)
qed

text \<open>A call whose outcome decides how the method goes on.\<close>

lemma branch:
  assumes "moves f" and "\<And>w x w1. f w = (x, w1) \<Longrightarrow> P x" and "\<And>x. P x \<Longrightarrow> moves (g x)"
  shows "moves (\<lambda>w. case f w of (x, w1) \<Rightarrow> g x w1)"
  unfolding moves_def
proof (intro allI impI)
  fix w assume good: "good (view w)"
  obtain x w1 where run: "f w = (x, w1)" by fastforce
  with assms(2,3) have "moves (g x)" by blast
  from after [OF movesD [OF assms(1) good run] good this] run
  show "step\<^sup>*\<^sup>* (view w) (view (snd (case f w of (x, w1) \<Rightarrow> g x w1)))" by simp
qed

lemma either: "moves f \<Longrightarrow> moves g \<Longrightarrow> moves (\<lambda>w. if b w then f w else g w)"
  by (simp add: moves_def)

end

end
