(* ===== verification/Database.thy ===== *)
theory Database
  imports World
begin

text \<open>
  The data access layer: \<open>match/match.repository.ts\<close> and \<open>user/user.service.ts\<close> over the three
  tables, with transactions, and the connection routing of \<open>database/postgres-replication.ts\<close>. A
  query that the code pins to the primary reads the tables of the world; one that may go to the
  replica takes the replica's tables as an argument, which may lag behind. Generated ids are
  arguments.
\<close>

subsection \<open>Connection routing\<close>

record ResolvedPostgresUrls =
  primaryUrl :: "string option"
  replicaUrl :: "string option"

text \<open>The environment maps variable names to their values. \<open>a ?? b\<close> on optional values.\<close>

definition orElse :: "'a option \<Rightarrow> 'a option \<Rightarrow> 'a option" where
  "orElse a b = (case a of Some x \<Rightarrow> Some x | None \<Rightarrow> b)"

definition resolvePostgresUrls :: "(string \<rightharpoonup> string) \<Rightarrow> ResolvedPostgresUrls" where
  "resolvePostgresUrls env =
     (let primary = orElse (env ''DATABASE_PRIMARY_URL'') (env ''DATABASE_URL'')
      in \<lparr>primaryUrl = primary, replicaUrl = orElse (env ''DATABASE_REPLICA_URL'') primary\<rparr>)"

datatype PostgresReplicationFragment =
    SingleUrl "string option"
  | Replication string "string list"

text \<open>A truthy string: present and not empty.\<close>

definition truthy :: "string option \<Rightarrow> bool" where
  "truthy s \<longleftrightarrow> s \<noteq> None \<and> s \<noteq> Some []"

lemma truthy_simps [simp]: "\<not> truthy None" "truthy (Some x) \<longleftrightarrow> x \<noteq> []"
  by (simp_all add: truthy_def)

definition buildPostgresConnectionFragment :: "(string \<rightharpoonup> string) \<Rightarrow> PostgresReplicationFragment" where
  "buildPostgresConnectionFragment env =
     (let urls = resolvePostgresUrls env
      in if truthy (primaryUrl urls) \<and> truthy (replicaUrl urls) \<and> replicaUrl urls \<noteq> primaryUrl urls
         then Replication (the (primaryUrl urls)) [the (replicaUrl urls)]
         else SingleUrl (primaryUrl urls))"

text \<open>
  The routing adds a replica only to a configured primary, never the primary itself, and an
  environment without \<open>DATABASE_REPLICA_URL\<close> keeps the single connection.
\<close>

lemma replication_sound:
  "buildPostgresConnectionFragment env = Replication p rs \<Longrightarrow>
   resolvePostgresUrls env = \<lparr>primaryUrl = Some p, replicaUrl = Some (hd rs)\<rparr> \<and> rs = [hd rs] \<and> hd rs \<noteq> p \<and>
   env ''DATABASE_REPLICA_URL'' = Some (hd rs)"
  by (auto simp: buildPostgresConnectionFragment_def resolvePostgresUrls_def Let_def orElse_def truthy_def
      split: if_splits option.splits)

lemma no_replica_single:
  "env ''DATABASE_REPLICA_URL'' = None \<Longrightarrow>
   buildPostgresConnectionFragment env = SingleUrl (primaryUrl (resolvePostgresUrls env))"
  by (simp add: buildPostgresConnectionFragment_def resolvePostgresUrls_def Let_def orElse_def)

subsection \<open>Transactions\<close>

text \<open>\<open>dataSource.transaction\<close>: everything the body did to the tables is undone when it throws.\<close>

definition transaction :: "(world \<Rightarrow> 'a result \<times> world) \<Rightarrow> world \<Rightarrow> 'a result \<times> world" where
  "transaction body w = (case body w of
      (Inl e, w') \<Rightarrow> (Inl e, w'\<lparr>w_matches := w_matches w, w_rounds := w_rounds w, w_users := w_users w\<rparr>)
    | (Inr x, w') \<Rightarrow> (Inr x, w'))"

lemma transaction_atomic:
  "transaction body w = (Inl e, w') \<Longrightarrow> database w' = database w"
  by (auto simp: transaction_def database_def split: prod.splits sum.splits)

lemma transaction_Inr [simp]: "body w = (Inr x, w') \<Longrightarrow> transaction body w = (Inr x, w')"
  by (simp add: transaction_def)

subsection \<open>Matches\<close>

definition matches_findById :: "string \<Rightarrow> world \<Rightarrow> Match option" where
  "matches_findById uid w = List.find (\<lambda>m. mt_id m = uid) (w_matches w)"

text \<open>
  The row lock of the \<open>ForUpdate\<close> variant serializes the transactions on one match; a transaction
  is one step of the model, so the read is the same.
\<close>

definition matches_findByIdForUpdate :: "string \<Rightarrow> world \<Rightarrow> Match option" where
  "matches_findByIdForUpdate uid w = matches_findById uid w"

definition involves :: "string \<Rightarrow> Match \<Rightarrow> bool" where
  "involves userId m \<longleftrightarrow> mt_player1Id m = userId \<or> mt_player2Id m = userId"

definition activeMatchQuery :: "string \<Rightarrow> Match list \<Rightarrow> Match list" where
  "activeMatchQuery userId ms = filter (\<lambda>m. involves userId m \<and> mt_status m = InProgress) ms"

definition matches_findActiveByUserId :: "string \<Rightarrow> world \<Rightarrow> Match option" where
  "matches_findActiveByUserId userId w =
     (case activeMatchQuery userId (w_matches w) of [] \<Rightarrow> None | m # _ \<Rightarrow> Some m)"

text \<open>\<open>create\<close>: a duplicate seed violates \<open>UQ_matches_seed\<close>.\<close>

definition matches_create ::
  "string \<Rightarrow> string \<times> string \<Rightarrow> string \<Rightarrow> json \<Rightarrow> json \<Rightarrow> MatchStatus option \<Rightarrow> nat option \<Rightarrow> nat option \<Rightarrow>
   world \<Rightarrow> Match result \<times> world" where
  "matches_create newId players matchSeed p1State p2State status wipe1 wipe2 w =
     (if matchSeed \<in> mt_matchSeed ` set (w_matches w) then (Inl ''23505'', w)
      else let m = \<lparr>mt_id = newId, mt_player1Id = fst players, mt_player2Id = snd players, mt_winnerId = None,
                    mt_status = (case status of Some s \<Rightarrow> s | None \<Rightarrow> InProgress), mt_matchSeed = matchSeed,
                    mt_wipeIndexP1 = (case wipe1 of Some n \<Rightarrow> n | None \<Rightarrow> 0),
                    mt_wipeIndexP2 = (case wipe2 of Some n \<Rightarrow> n | None \<Rightarrow> 0),
                    mt_p1State = p1State, mt_p2State = p2State, mt_createdAt = w_now w, mt_finishedAt = None\<rparr>
           in (Inr m, w\<lparr>w_matches := w_matches w @ [m]\<rparr>))"

text \<open>\<open>UPDATE .. WHERE id = ..\<close>; the first result is \<open>Boolean(result.affected)\<close>.\<close>

definition matches_update :: "string \<Rightarrow> (Match \<Rightarrow> Match) \<Rightarrow> world \<Rightarrow> bool \<times> world" where
  "matches_update uid f w =
     (uid \<in> mt_id ` set (w_matches w),
      w\<lparr>w_matches := map (\<lambda>m. if mt_id m = uid then f m else m) (w_matches w)\<rparr>)"

definition matches_updateState :: "string \<Rightarrow> Side \<Rightarrow> json \<Rightarrow> world \<Rightarrow> bool \<times> world" where
  "matches_updateState uid side state =
     matches_update uid (\<lambda>m. case side of P1 \<Rightarrow> m\<lparr>mt_p1State := state\<rparr> | P2 \<Rightarrow> m\<lparr>mt_p2State := state\<rparr>)"

definition matches_updateRuntimeSnapshot ::
  "string \<Rightarrow> json \<Rightarrow> json \<Rightarrow> nat \<Rightarrow> nat \<Rightarrow> world \<Rightarrow> bool \<times> world" where
  "matches_updateRuntimeSnapshot uid p1State p2State wipe1 wipe2 =
     matches_update uid (\<lambda>m. m\<lparr>mt_p1State := p1State, mt_p2State := p2State,
                              mt_wipeIndexP1 := wipe1, mt_wipeIndexP2 := wipe2\<rparr>)"

definition matches_finalize ::
  "Match \<Rightarrow> MatchStatus \<Rightarrow> string option \<Rightarrow> int \<Rightarrow> world \<Rightarrow> world" where
  "matches_finalize match status winnerId finishedAt w =
     snd (matches_update (mt_id match)
            (\<lambda>m. m\<lparr>mt_status := status, mt_winnerId := winnerId, mt_finishedAt := Some finishedAt\<rparr>) w)"

definition saveRoundEvents :: "string \<Rightarrow> int \<Rightarrow> SnapEvent list \<Rightarrow> world \<Rightarrow> world" where
  "saveRoundEvents matchId roundNumber events w =
     (case findIndex (\<lambda>r. mr_matchId r = matchId \<and> mr_roundNumber r = roundNumber) (w_rounds w) of
        Some i \<Rightarrow> w\<lparr>w_rounds := (w_rounds w)[i := (w_rounds w ! i)\<lparr>mr_events := Some events\<rparr>]\<rparr>
      | None \<Rightarrow> w\<lparr>w_rounds := w_rounds w @
          [\<lparr>mr_matchId = matchId, mr_roundNumber = roundNumber, mr_events = Some events\<rparr>]\<rparr>)"

text \<open>The reads below go to the replica; \<open>ORDER BY\<close> is the stable sort of the prelude.\<close>

definition findRounds :: "MatchRound list \<Rightarrow> string \<Rightarrow> MatchRound list" where
  "findRounds rounds matchId = js_sort (cmp_key mr_roundNumber) (filter (\<lambda>r. mr_matchId r = matchId) rounds)"

definition findHistoryByUserId :: "Match list \<Rightarrow> string \<Rightarrow> int \<Rightarrow> Match list" where
  "findHistoryByUserId ms userId limit =
     take (nat (min (max limit 1) 50))
       (js_sort (cmp_key (\<lambda>m. - mt_createdAt m))
          (filter (\<lambda>m. involves userId m \<and> (mt_status m = MatchFinished \<or> mt_status m = Forfeited)) ms))"

text \<open>The map has an entry for each match with at least one round.\<close>

definition countRoundsByMatchIds :: "MatchRound list \<Rightarrow> string list \<Rightarrow> string \<rightharpoonup> nat" where
  "countRoundsByMatchIds rounds matchIds = (\<lambda>uid.
     let n = length (filter (\<lambda>r. mr_matchId r = uid) rounds)
     in if uid \<in> set matchIds \<and> n > 0 then Some n else None)"

subsection \<open>Users\<close>

definition users_findById :: "string \<Rightarrow> world \<Rightarrow> UserRow option" where
  "users_findById uid w = List.find (\<lambda>u. us_id u = uid) (w_users w)"

definition users_findByIds :: "string list \<Rightarrow> UserRow list \<Rightarrow> UserRow list" where
  "users_findByIds ids us = (if ids = [] then [] else filter (\<lambda>u. us_id u \<in> set ids) us)"

definition users_findByIdsForUpdate :: "string list \<Rightarrow> world \<Rightarrow> UserRow list" where
  "users_findByIdsForUpdate ids w =
     (if ids = [] then [] else js_sort (cmp_key us_id) (filter (\<lambda>u. us_id u \<in> set ids) (w_users w)))"

definition toLower :: "char \<Rightarrow> char" where
  "toLower c = (let n = (of_char c :: nat) in if 65 \<le> n \<and> n \<le> 90 then char_of (n + 32) else c)"

definition toLowerCase :: "string \<Rightarrow> string" where
  "toLowerCase s = map toLower s"

definition users_findByEmail :: "string \<Rightarrow> world \<Rightarrow> UserRow option" where
  "users_findByEmail email w = List.find (\<lambda>u. us_email u = toLowerCase email) (w_users w)"

definition users_findByUsername :: "string \<Rightarrow> world \<Rightarrow> UserRow option" where
  "users_findByUsername username w = List.find (\<lambda>u. us_username u = username) (w_users w)"

text \<open>
  Errors of the unique indexes are reported as PostgreSQL does, with the code and the violated
  constraint.
\<close>

definition EMAIL_TAKEN :: string where "EMAIL_TAKEN = ''23505:UQ_users_email''"

definition USERNAME_TAKEN :: string where "USERNAME_TAKEN = ''23505:UQ_users_username''"

definition users_create :: "string \<Rightarrow> string \<Rightarrow> string \<Rightarrow> string \<Rightarrow> world \<Rightarrow> UserRow result \<times> world" where
  "users_create newId email username passwordHash w =
     (if toLowerCase email \<in> us_email ` set (w_users w) then (Inl EMAIL_TAKEN, w)
      else if username \<in> us_username ` set (w_users w) then (Inl USERNAME_TAKEN, w)
      else let u = \<lparr>us_id = newId, us_email = toLowerCase email, us_username = username,
                    us_passwordHash = passwordHash, us_rating = 1000, us_createdAt = w_now w\<rparr>
           in (Inr u, w\<lparr>w_users := w_users w @ [u]\<rparr>))"

definition users_update :: "string \<Rightarrow> (UserRow \<Rightarrow> UserRow) \<Rightarrow> world \<Rightarrow> bool \<times> world" where
  "users_update uid f w =
     (uid \<in> us_id ` set (w_users w),
      w\<lparr>w_users := map (\<lambda>u. if us_id u = uid then f u else u) (w_users w)\<rparr>)"

definition updateUsername :: "string \<Rightarrow> string \<Rightarrow> world \<Rightarrow> UserRow result \<times> world" where
  "updateUsername uid username w =
     (if \<exists>u \<in> set (w_users w). us_username u = username \<and> us_id u \<noteq> uid \<and> uid \<in> us_id ` set (w_users w)
      then (Inl USERNAME_TAKEN, w)
      else let (affected, w') = users_update uid (\<lambda>u. u\<lparr>us_username := username\<rparr>) w
           in if \<not> affected then (Inl ''user not found'', w')
              else case users_findById uid w' of
                     None \<Rightarrow> (Inl ''user not found after update'', w')
                   | Some fresh \<Rightarrow> (Inr fresh, w'))"

text \<open>\<open>SET rating = GREATEST(0, rating + delta)\<close>; the deltas are integers already.\<close>

definition updateRating :: "string \<Rightarrow> int \<Rightarrow> world \<Rightarrow> unit result \<times> world" where
  "updateRating uid delta w =
     (let (affected, w') = users_update uid (\<lambda>u. u\<lparr>us_rating := max 0 (us_rating u + delta)\<rparr>) w
      in if affected then (Inr (), w') else (Inl ''user not found'', w'))"

subsection \<open>Well-formed tables\<close>

text \<open>The primary keys and unique indexes of the schema.\<close>

definition tables_ok :: "world \<Rightarrow> bool" where
  "tables_ok w \<longleftrightarrow> distinct (map mt_id (w_matches w)) \<and> distinct (map mt_matchSeed (w_matches w)) \<and>
     distinct (map us_id (w_users w)) \<and> distinct (map us_email (w_users w)) \<and>
     distinct (map us_username (w_users w)) \<and> list_all (\<lambda>u. 0 \<le> us_rating u) (w_users w)"

lemma matches_update_ids [simp]:
  "(\<And>m. mt_id (f m) = mt_id m) \<Longrightarrow> map mt_id (w_matches (snd (matches_update i f w))) = map mt_id (w_matches w)"
  by (simp add: matches_update_def)

lemma matches_findById_update [simp]:
  assumes "\<And>m. mt_id (f m) = mt_id m"
  shows "matches_findById i (snd (matches_update j f w)) =
    (if i = j then map_option f (matches_findById i w) else matches_findById i w)"
proof -
  have "List.find (\<lambda>m. mt_id m = i) (map (\<lambda>m. if mt_id m = j then f m else m) ms) =
      (if i = j then map_option f (List.find (\<lambda>m. mt_id m = i) ms) else List.find (\<lambda>m. mt_id m = i) ms)" for ms
    using assms by (induction ms) auto
  then show ?thesis by (simp add: matches_findById_def matches_update_def)
qed

lemma matches_update_frames [simp]:
  "w_users (snd (matches_update i f w)) = w_users w" "w_rounds (snd (matches_update i f w)) = w_rounds w"
  "w_redis (snd (matches_update i f w)) = w_redis w" "w_jobs (snd (matches_update i f w)) = w_jobs w"
  "w_pub (snd (matches_update i f w)) = w_pub w" "w_now (snd (matches_update i f w)) = w_now w"
  "w_cacheUp (snd (matches_update i f w)) = w_cacheUp w"
  "w_combatResult (snd (matches_update i f w)) = w_combatResult w"
  by (simp_all add: matches_update_def)

lemma users_update_frames [simp]:
  "w_matches (snd (users_update i f w)) = w_matches w" "w_rounds (snd (users_update i f w)) = w_rounds w"
  "w_redis (snd (users_update i f w)) = w_redis w" "w_jobs (snd (users_update i f w)) = w_jobs w"
  "w_pub (snd (users_update i f w)) = w_pub w" "w_now (snd (users_update i f w)) = w_now w"
  "w_cacheUp (snd (users_update i f w)) = w_cacheUp w"
  by (simp_all add: users_update_def)

lemma users_findById_update [simp]:
  assumes "\<And>u. us_id (f u) = us_id u"
  shows "users_findById i (snd (users_update j f w)) =
    (if i = j then map_option f (users_findById i w) else users_findById i w)"
proof -
  have "List.find (\<lambda>u. us_id u = i) (map (\<lambda>u. if us_id u = j then f u else u) us) =
      (if i = j then map_option f (List.find (\<lambda>u. us_id u = i) us) else List.find (\<lambda>u. us_id u = i) us)" for us
    using assms by (induction us) auto
  then show ?thesis by (simp add: users_findById_def users_update_def)
qed

lemma users_update_affected: "fst (users_update i f w) \<longleftrightarrow> users_findById i w \<noteq> None"
  by (auto simp: users_update_def users_findById_def find_None_iff' image_iff)

lemma matches_findById_Some: "matches_findById i w = Some m \<Longrightarrow> m \<in> set (w_matches w) \<and> mt_id m = i"
  unfolding matches_findById_def by (drule find_SomeD) auto

lemma users_findById_Some: "users_findById i w = Some u \<Longrightarrow> u \<in> set (w_users w) \<and> us_id u = i"
  unfolding users_findById_def by (drule find_SomeD) auto

lemma find_distinct_key:
  assumes "distinct (map k xs)" and "x \<in> set xs"
  shows "List.find (\<lambda>y. k y = k x) xs = Some x"
  using assms by (induction xs) auto

lemma users_findById_in: "tables_ok w \<Longrightarrow> u \<in> set (w_users w) \<Longrightarrow> users_findById (us_id u) w = Some u"
  unfolding users_findById_def tables_ok_def by (blast intro: find_distinct_key)

lemma matches_findById_in: "tables_ok w \<Longrightarrow> m \<in> set (w_matches w) \<Longrightarrow> matches_findById (mt_id m) w = Some m"
  unfolding matches_findById_def tables_ok_def by (blast intro: find_distinct_key)

end
