(* ===== verification/Match_Service.thy ===== *)
theory Match_Service
  imports Database
begin

text \<open>
  \<open>match/match.service.ts\<close>: persistent match state, the ELO update and the one transaction that ends a
  match. Ratings are integers; \<open>eloDelta\<close> computes over the reals where the code has doubles, with
  \<open>Math.round\<close> as the floor of the argument plus one half.
\<close>

definition HISTORY_LIMIT :: int where "HISTORY_LIMIT = 50"

definition CLEANUP_GRACE_MS :: int where "CLEANUP_GRACE_MS = 30000"

definition ELO_K_FACTOR :: real where "ELO_K_FACTOR = 32"

subsection \<open>Ratings\<close>

definition expectedScore :: "int \<Rightarrow> int \<Rightarrow> real" where
  "expectedScore rating opponentRating = 1 / (1 + 10 powr (real_of_int (opponentRating - rating) / 400))"

definition js_round :: "real \<Rightarrow> int" where
  "js_round x = \<lfloor>x + 1 / 2\<rfloor>"

definition eloDelta :: "int \<Rightarrow> int \<Rightarrow> nat \<Rightarrow> int" where
  "eloDelta rating opponentRating score =
     js_round (ELO_K_FACTOR * (real score - expectedScore rating opponentRating))"

lemma expectedScore_bounds: "0 < expectedScore a b" "expectedScore a b < 1"
  by (simp_all add: expectedScore_def add_pos_pos)

lemma eloDelta_win: "0 \<le> eloDelta a b 1 \<and> eloDelta a b 1 \<le> 32"
  using expectedScore_bounds [of a b]
  by (simp add: eloDelta_def js_round_def ELO_K_FACTOR_def le_floor_iff floor_le_iff)

lemma eloDelta_loss: "-32 \<le> eloDelta a b 0 \<and> eloDelta a b 0 \<le> 0"
  using expectedScore_bounds [of a b]
  by (simp add: eloDelta_def js_round_def ELO_K_FACTOR_def le_floor_iff floor_le_iff)

lemma expectedScore_mono: "b \<le> b' \<Longrightarrow> expectedScore a b' \<le> expectedScore a b"
  unfolding expectedScore_def by (intro divide_left_mono add_mono) (auto intro: powr_mono simp: add_pos_pos)

lemma eloDelta_mono: "b \<le> b' \<Longrightarrow> eloDelta a b s \<le> eloDelta a b' s"
  using expectedScore_mono [of b b' a]
  by (simp add: eloDelta_def js_round_def ELO_K_FACTOR_def floor_mono)

lemma eloDelta_even: "eloDelta a a 1 = 16"
  by (simp add: eloDelta_def js_round_def ELO_K_FACTOR_def expectedScore_def)

subsection \<open>Reads\<close>

definition findById :: "string \<Rightarrow> world \<Rightarrow> Match result" where
  "findById matchId w = (case matches_findById matchId w of Some m \<Rightarrow> Inr m | None \<Rightarrow> Inl ''match.not_found'')"

definition usernamesForPlayers :: "string \<Rightarrow> string \<Rightarrow> world \<Rightarrow> string \<times> string" where
  "usernamesForPlayers player1Id player2Id w =
     (let players = users_findByIds [player1Id, player2Id] (w_users w);
          names = (\<lambda>i. map_option us_username (List.find (\<lambda>u. us_id u = i) players))
      in ((case names player1Id of Some n \<Rightarrow> n | None \<Rightarrow> defaultName ''1''),
          (case names player2Id of Some n \<Rightarrow> n | None \<Rightarrow> defaultName ''2'')))"

subsection \<open>Snapshots and the event log\<close>

definition updateState :: "string \<Rightarrow> Side \<Rightarrow> json \<Rightarrow> world \<Rightarrow> unit result \<times> world" where
  "updateState matchId side state w =
     (let (updated, w') = matches_updateState matchId side state w
      in if updated then (Inr (), w') else (Inl ''match.not_found'', w'))"

definition updateRuntimeSnapshot :: "string \<Rightarrow> json \<Rightarrow> json \<Rightarrow> nat \<Rightarrow> nat \<Rightarrow> world \<Rightarrow> unit result \<times> world" where
  "updateRuntimeSnapshot matchId p1State p2State wipe1 wipe2 w =
     (let (updated, w') = matches_updateRuntimeSnapshot matchId p1State p2State wipe1 wipe2 w
      in if updated then (Inr (), w') else (Inl ''match.not_found'', w'))"

definition appendRoundEvents :: "string \<Rightarrow> int \<Rightarrow> SnapEvent list \<Rightarrow> world \<Rightarrow> unit result \<times> world" where
  "appendRoundEvents matchId roundNumber events w =
     (if roundNumber < 1 then (Inl ''match.invalid_round'', w)
      else transaction (\<lambda>w. case matches_findByIdForUpdate matchId w of
               None \<Rightarrow> (Inl ''match.not_found'', w)
             | Some _ \<Rightarrow> (Inr (), saveRoundEvents matchId roundNumber events w)) w)"

subsection \<open>Finalization\<close>

datatype FinalizeOutcome =
    NotFinalized bool
  | Finalized Match "(RatingChange \<times> RatingChange) option"

definition ratingChange :: "int \<Rightarrow> int \<Rightarrow> RatingChange" where
  "ratingChange before delta =
     (let after = max 0 (before + delta) in \<lparr>rc_before = before, rc_after = after, rc_delta = after - before\<rparr>)"

text \<open>The rating part of the transaction: both rows are locked, compared and moved.\<close>

definition applyRatings :: "Match \<Rightarrow> string \<Rightarrow> world \<Rightarrow> (RatingChange \<times> RatingChange) result \<times> world" where
  "applyRatings match winnerId w =
     (let players = users_findByIdsForUpdate [mt_player1Id match, mt_player2Id match] w in
      if length players \<noteq> 2 then (Inl ''match.player_not_found'', w)
      else let p1 = the (List.find (\<lambda>u. us_id u = mt_player1Id match) players);
               p2 = the (List.find (\<lambda>u. us_id u = mt_player2Id match) players);
               p1Delta = eloDelta (us_rating p1) (us_rating p2) (if winnerId = us_id p1 then 1 else 0)
           in andThen (updateRating (us_id p1) p1Delta) (\<lambda>_.
                andThen (updateRating (us_id p2) (- p1Delta)) (\<lambda>_.
                  ret (ratingChange (us_rating p1) p1Delta, ratingChange (us_rating p2) (- p1Delta)))) w)"

definition finalizeTx :: "string \<Rightarrow> string option \<Rightarrow> MatchEndReason \<Rightarrow> world \<Rightarrow> FinalizeOutcome result \<times> world" where
  "finalizeTx matchId winnerId reason w =
     (case matches_findByIdForUpdate matchId w of
        None \<Rightarrow> (Inl ''match.not_found'', w)
      | Some match \<Rightarrow>
          if mt_status match \<noteq> InProgress then (Inr (NotFinalized (mt_finishedAt match \<noteq> None)), w)
          else if truthy winnerId \<and> winnerId \<noteq> Some (mt_player1Id match) \<and> winnerId \<noteq> Some (mt_player2Id match)
          then (Inl ''match.invalid_winner'', w)
          else andThen
                 (if truthy winnerId then (\<lambda>w. map_prod (map_sum id Some) id (applyRatings match (the winnerId) w))
                  else ret None)
                 (\<lambda>ratingChanges w.
                    let status = (if reason = HpZero then MatchFinished else Forfeited);
                        finishedAt = w_now w
                    in (Inr (Finalized (match\<lparr>mt_status := status, mt_winnerId := winnerId,
                                              mt_finishedAt := Some finishedAt\<rparr>) ratingChanges),
                        matches_finalize match status winnerId finishedAt w)) w)"

definition finalPlayerState :: "json \<Rightarrow> int \<times> int" where
  "finalPlayerState state =
     (let obj = (case asObj (Some state) of Some kvs \<Rightarrow> kvs | None \<Rightarrow> []);
          num = (\<lambda>v. case v of Some (JNum n) \<Rightarrow> n | _ \<Rightarrow> 0)
      in (num (getProp obj ''hp''), num (getProp obj ''gold'')))"

definition scheduleMatchCleanup :: "string \<Rightarrow> int \<Rightarrow> world \<Rightarrow> world" where
  "scheduleMatchCleanup matchId atEpochMs w =
     addJob (MatchCleanup matchId (max 0 (atEpochMs - w_now w))) w"

text \<open>The keys of the two caches that finalization touches.\<close>

definition statsCacheKey :: "string \<Rightarrow> string" where
  "statsCacheKey userId = ''stats:'' @ userId"

definition LEADERBOARD_VERSION_KEY :: string where
  "LEADERBOARD_VERSION_KEY = ''leaderboard:version''"

definition invalidateUsers :: "string list \<Rightarrow> world \<Rightarrow> world" where
  "invalidateUsers userIds w = (if userIds = [] then w else tryRedis (fold (\<lambda>u. del (statsCacheKey u)) userIds) w)"

definition incr :: "string \<Rightarrow> redis \<Rightarrow> redis" where
  "incr k r = r\<lparr>r_str := (r_str r)(k := Some (HStr (showNat (seqOf k r + 1))))\<rparr>"

definition bumpVersion :: "world \<Rightarrow> world" where
  "bumpVersion w = tryRedis (incr LEADERBOARD_VERSION_KEY) w"

definition matchEndPayload ::
  "Match \<Rightarrow> MatchEndReason \<Rightarrow> (RatingChange \<times> RatingChange) option \<Rightarrow> MatchEndPayload" where
  "matchEndPayload m reason ratings =
     \<lparr>me_matchId = mt_id m, me_winnerId = mt_winnerId m, me_reason = reason,
      me_p1 = finalPlayerState (mt_p1State m), me_p2 = finalPlayerState (mt_p2State m), me_rating = ratings\<rparr>"

definition finalize :: "string \<Rightarrow> string option \<Rightarrow> MatchEndReason \<Rightarrow> world \<Rightarrow> bool result \<times> world" where
  "finalize matchId winnerId reason w =
     (case transaction (finalizeTx matchId winnerId reason) w of
        (Inl e, w') \<Rightarrow> (Inl e, w')
      | (Inr (NotFinalized alreadyTerminal), w') \<Rightarrow>
          (Inr False, if alreadyTerminal then scheduleMatchCleanup matchId (w_now w' + CLEANUP_GRACE_MS) w' else w')
      | (Inr (Finalized m ratings), w') \<Rightarrow>
          (Inr True,
           publish (mt_id m) (MatchEndEvent (matchEndPayload m reason ratings))
             (bumpVersion (invalidateUsers [mt_player1Id m, mt_player2Id m]
               (scheduleMatchCleanup (mt_id m) (w_now w' + CLEANUP_GRACE_MS) w')))))"

definition forfeitDisconnectedPlayer :: "string \<Rightarrow> string \<Rightarrow> world \<Rightarrow> bool result \<times> world" where
  "forfeitDisconnectedPlayer matchId userId w =
     (case matches_findById matchId w of
        None \<Rightarrow> (Inr False, w)
      | Some match \<Rightarrow>
          if mt_status match \<noteq> InProgress then (Inr False, w)
          else if userId \<noteq> mt_player1Id match \<and> userId \<noteq> mt_player2Id match then (Inr False, w)
          else let winnerId = (if userId = mt_player1Id match then mt_player2Id match else mt_player1Id match)
               in finalize (mt_id match) (Some winnerId) Disconnect w)"

definition leaveMatch :: "string \<Rightarrow> world \<Rightarrow> bool result \<times> world" where
  "leaveMatch userId w =
     (case matches_findActiveByUserId userId w of
        None \<Rightarrow> (Inr False, w)
      | Some match \<Rightarrow> forfeitDisconnectedPlayer (mt_id match) userId w)"

subsection \<open>History and detail\<close>

datatype MatchOutcome = OutcomeSelf | OutcomeOpponent

definition outcomeFor :: "Match \<Rightarrow> string \<Rightarrow> MatchOutcome option" where
  "outcomeFor match userId =
     (if \<not> truthy (mt_winnerId match) then None
      else Some (if mt_winnerId match = Some userId then OutcomeSelf else OutcomeOpponent))"

text \<open>Timestamps stay numbers of milliseconds; the code renders them with \<open>toISOString\<close>.\<close>

record MatchHistoryDto =
  mh_matchId :: string
  mh_opponentId :: string
  mh_opponentName :: "string option"
  mh_winner :: "MatchOutcome option"
  mh_status :: MatchStatus
  mh_rounds :: nat
  mh_createdAt :: int
  mh_duration :: "int option"

definition usernameIn :: "UserRow list \<Rightarrow> string \<Rightarrow> string option" where
  "usernameIn us i = map_option us_username (List.find (\<lambda>u. us_id u = i) us)"

definition getHistory :: "Match list \<Rightarrow> MatchRound list \<Rightarrow> UserRow list \<Rightarrow> string \<Rightarrow> MatchHistoryDto list" where
  "getHistory ms rounds us userId =
     (let matches = findHistoryByUserId ms userId HISTORY_LIMIT;
          opponentOf = (\<lambda>m. if mt_player1Id m = userId then mt_player2Id m else mt_player1Id m);
          opponents = users_findByIds (remdups (map opponentOf matches)) us;
          roundCounts = countRoundsByMatchIds rounds (map mt_id matches)
      in map (\<lambda>m. \<lparr>mh_matchId = mt_id m, mh_opponentId = opponentOf m,
            mh_opponentName = usernameIn opponents (opponentOf m), mh_winner = outcomeFor m userId,
            mh_status = mt_status m,
            mh_rounds = (case roundCounts (mt_id m) of Some n \<Rightarrow> n | None \<Rightarrow> 0),
            mh_createdAt = mt_createdAt m,
            mh_duration = map_option (\<lambda>t. max 0 ((t - mt_createdAt m) div 1000)) (mt_finishedAt m)\<rparr>) matches)"

record MatchDetailDto =
  md_matchId :: string
  md_players :: "(string \<times> string option) list"
  md_winnerId :: "string option"
  md_winner :: "string option"
  md_status :: MatchStatus
  md_rounds :: "(int \<times> SnapEvent list) list"
  md_createdAt :: int
  md_finishedAt :: "int option"

definition getDetail ::
  "Match list \<Rightarrow> MatchRound list \<Rightarrow> UserRow list \<Rightarrow> string \<Rightarrow> string \<Rightarrow> MatchDetailDto result" where
  "getDetail ms rounds us matchId userId =
     (case List.find (\<lambda>m. mt_id m = matchId) ms of
        None \<Rightarrow> Inl ''match.not_found''
      | Some match \<Rightarrow>
          if mt_player1Id match \<noteq> userId \<and> mt_player2Id match \<noteq> userId then Inl ''match.not_your_match''
          else let players = users_findByIds [mt_player1Id match, mt_player2Id match] us;
                   winner = mt_winnerId match
               in Inr \<lparr>md_matchId = mt_id match,
                    md_players = map (\<lambda>i. (i, usernameIn players i)) [mt_player1Id match, mt_player2Id match],
                    md_winnerId = winner,
                    md_winner = (if truthy winner then usernameIn players (the winner) else None),
                    md_status = mt_status match,
                    md_rounds = map (\<lambda>r. (mr_roundNumber r, case mr_events r of Some e \<Rightarrow> e | None \<Rightarrow> []))
                      (findRounds rounds (mt_id match)),
                    md_createdAt = mt_createdAt match, md_finishedAt = mt_finishedAt match\<rparr>)"

end
