(* ===== verification/Shop_Props.thy ===== *)
theory Shop_Props
  imports Shop
begin

text \<open>
  The contract every shop action keeps (well-formed state, conserved wealth, fair prices, one
  refresh per phase), stated once as a locale over the action, and the properties of the shop.
\<close>

subsection \<open>Wealth\<close>

definition slotGold :: "RuntimeUnitState option \<Rightarrow> int" where
  "slotGold s = (case s of None \<Rightarrow> 0 | Some u \<Rightarrow> investedGold u)"

definition wealth :: "player \<Rightarrow> int" where
  "wealth s = p_gold s + sum_list (map slotGold (p_board s)) + sum_list (map slotGold (p_bench s))"

lemma slotGold_simps [simp]: "slotGold None = 0" "slotGold (Some u) = investedGold u"
  by (simp_all add: slotGold_def)

lemma UNIT_COST_pos [simp]: "0 < UNIT_COST u" "0 \<le> UNIT_COST u"
  by (cases u; simp)+

lemma investedGold_nonneg [simp]: "0 \<le> investedGold u"
  by (auto simp: investedGold_def split: option.splits)

lemma wealth_setSlot:
  "i < length (roster src s) \<Longrightarrow>
   wealth (setSlot src i v s) = wealth s - slotGold (roster src s ! i) + slotGold v"
  by (cases src) (simp_all add: wealth_def sum_list_update_int)

lemma wealth_gold: "wealth (s\<lparr>p_gold := g\<rparr>) = wealth s - p_gold s + g"
  by (simp add: wealth_def)

lemma setSlot_frame [simp]:
  "p_gold (setSlot src i v s) = p_gold s" "p_hp (setSlot src i v s) = p_hp s"
  "p_ready (setSlot src i v s) = p_ready s"
  "length (p_board (setSlot src i v s)) = length (p_board s)"
  "length (p_bench (setSlot src i v s)) = length (p_bench s)"
  "length (roster src' (setSlot src i v s)) = length (roster src' s)"
  by (cases src; cases src'; simp)+

lemma roster_setSlot:
  "roster src' (setSlot src i v s) = (if src' = src then (roster src s)[i := v] else roster src' s)"
  by (cases src; cases src') simp_all

lemma roster_gold [simp]: "roster src (s\<lparr>p_gold := g\<rparr>) = roster src s"
  by (cases src) simp_all

subsection \<open>Roster entries\<close>

lemma set_slotEntries:
  "(src', i, u) \<in> set (slotEntries src s) \<longleftrightarrow>
   src' = src \<and> i < length (roster src s) \<and> roster src s ! i = Some u"
  by (auto simp: slotEntries_def in_set_enumerate_eq split: option.splits)

lemma set_rosterEntries:
  "(src, i, u) \<in> set (rosterEntries s) \<longleftrightarrow> i < length (roster src s) \<and> roster src s ! i = Some u"
  by (cases src) (auto simp: rosterEntries_def set_slotEntries)

definition unitsOfPlayer :: "player \<Rightarrow> RuntimeUnitState set" where
  "unitsOfPlayer s = {u. \<exists>src. Some u \<in> set (roster src s)}"

lemma unitsOfPlayer_gold [simp]: "unitsOfPlayer (s\<lparr>p_gold := g\<rparr>) = unitsOfPlayer s"
  by (simp add: unitsOfPlayer_def)

lemma unitsOfPlayer_setSlot: "unitsOfPlayer (setSlot src i v s) \<subseteq> unitsOfPlayer s \<union> set_option v"
  by (auto simp: unitsOfPlayer_def roster_setSlot split: if_splits dest!: set_update_subset_insert [THEN subsetD])

lemma entry_unit: "(src, i, u) \<in> set (rosterEntries s) \<Longrightarrow> u \<in> unitsOfPlayer s"
  unfolding set_rosterEntries unitsOfPlayer_def by (metis (mono_tags) mem_Collect_eq nth_mem)

subsection \<open>The contract\<close>

text \<open>A unit is fairly priced if its refund is the cost of the star-0 copies it was made of.\<close>

definition priced :: "RuntimeUnitState \<Rightarrow> bool" where
  "priced u \<longleftrightarrow> r_star u \<le> 2 \<and> investedGold u = UNIT_COST (r_unitId u) * 2 ^ r_star u"

definition shop_ok :: "shop_state \<Rightarrow> bool" where
  "shop_ok st \<longleftrightarrow> player_ok (fst st) \<and> (\<forall>u \<in> unitsOfPlayer (fst st). priced u) \<and>
     length (s_offers (snd st)) = 5 \<and> s_refreshCount (snd st) = of_bool (s_refreshUsed (snd st))"

locale roster_action =
  fixes act :: "'arg \<Rightarrow> shop_state \<Rightarrow> string + shop_state"
  assumes keeps_ok: "shop_ok st \<Longrightarrow> act a st = Inr st' \<Longrightarrow> shop_ok st'"
    and keeps_wealth: "shop_ok st \<Longrightarrow> act a st = Inr st' \<Longrightarrow> wealth (fst st') = wealth (fst st)"
    and keeps_round: "act a st = Inr st' \<Longrightarrow> s_round (snd st') = s_round (snd st) \<and>
      s_refreshCount (snd st) \<le> s_refreshCount (snd st') \<and> p_hp (fst st') = p_hp (fst st)"
begin

text \<open>A failed action stores nothing.\<close>

definition attempt :: "'arg \<Rightarrow> shop_state \<Rightarrow> shop_state" where
  "attempt a st = (case act a st of Inl _ \<Rightarrow> st | Inr st' \<Rightarrow> st')"

lemma attempt_keeps:
  assumes "shop_ok st"
  shows "shop_ok (attempt a st) \<and> wealth (fst (attempt a st)) = wealth (fst st) \<and>
    s_round (snd (attempt a st)) = s_round (snd st) \<and>
    s_refreshCount (snd st) \<le> s_refreshCount (snd (attempt a st)) \<and>
    p_hp (fst (attempt a st)) = p_hp (fst st)"
  using assms keeps_ok keeps_wealth keeps_round by (auto simp: attempt_def split: sum.splits)

lemma session_keeps:
  "shop_ok st \<Longrightarrow> shop_ok (fold attempt as st) \<and> wealth (fst (fold attempt as st)) = wealth (fst st) \<and>
    s_round (snd (fold attempt as st)) = s_round (snd st) \<and>
    s_refreshCount (snd st) \<le> s_refreshCount (snd (fold attempt as st)) \<and>
    p_hp (fst (fold attempt as st)) = p_hp (fst st)"
proof (induction as arbitrary: st)
  case Nil
  then show ?case by simp
next
  case (Cons a as)
  from attempt_keeps [OF Cons.prems, of a] Cons.IH [of "attempt a st"] show ?case by auto
qed

end

subsection \<open>Each action meets the contract\<close>

lemma newUnit_priced: "priced (newUnit uuid u (UNIT_COST u)) \<and> investedGold (newUnit uuid u (UNIT_COST u)) = UNIT_COST u"
  by (simp add: priced_def newUnit_def investedGold_def Let_def)

lemma buyUnit_InrD:
  assumes "buyUnit uuid i st = Inr st'"
  shows "\<exists>offer slot. i < length (s_offers (snd st)) \<and> s_offers (snd st) ! i = Some offer \<and>
    UNIT_COST (of_unitId offer) \<le> p_gold (fst st) \<and>
    slot < length (p_bench (fst st)) \<and> p_bench (fst st) ! slot = None \<and>
    st' = (setSlot Bench slot (Some (newUnit uuid (of_unitId offer) (UNIT_COST (of_unitId offer))))
             ((fst st)\<lparr>p_gold := p_gold (fst st) - UNIT_COST (of_unitId offer)\<rparr>),
           (snd st)\<lparr>s_offers := (s_offers (snd st))[i := None]\<rparr>)"
  using assms
  by (auto simp: buyUnit_def Let_def split: option.splits if_splits prod.splits dest!: findIndex_SomeD)

interpretation buys: roster_action "\<lambda>(uuid, i). buyUnit uuid i"
proof unfold_locales
  fix st a st'
  assume act: "(case a of (uuid, i) \<Rightarrow> buyUnit uuid i) st = Inr st'"
  obtain uuid i where a: "a = (uuid, i)" by fastforce
  have act': "buyUnit uuid i st = Inr st'" using act by (simp add: a)
  from buyUnit_InrD [OF act'] obtain offer :: ShopOffer and slot where b: "UNIT_COST (of_unitId offer) \<le> p_gold (fst st)"
    "slot < length (p_bench (fst st))" "p_bench (fst st) ! slot = None"
    "st' = (setSlot Bench slot (Some (newUnit uuid (of_unitId offer) (UNIT_COST (of_unitId offer))))
             ((fst st)\<lparr>p_gold := p_gold (fst st) - UNIT_COST (of_unitId offer)\<rparr>),
           (snd st)\<lparr>s_offers := (s_offers (snd st))[i := None]\<rparr>)"
    by blast
  let ?new = "newUnit uuid (of_unitId offer) (UNIT_COST (of_unitId offer))"
  show "s_round (snd st') = s_round (snd st) \<and> s_refreshCount (snd st) \<le> s_refreshCount (snd st') \<and>
      p_hp (fst st') = p_hp (fst st)"
    using b(4) by simp
  assume ok: "shop_ok st"
  have "unitsOfPlayer (fst st') \<subseteq> unitsOfPlayer (fst st) \<union> {?new}"
    using unitsOfPlayer_setSlot [of Bench slot "Some ?new" "(fst st)\<lparr>p_gold := p_gold (fst st) - UNIT_COST (of_unitId offer)\<rparr>"]
    by (simp add: b(4) del: setSlot.simps)
  then show "shop_ok st'"
    using ok b newUnit_priced by (auto simp: shop_ok_def player_ok_def)
  show "wealth (fst st') = wealth (fst st)"
    using b newUnit_priced by (simp add: wealth_setSlot wealth_gold del: setSlot.simps)
qed

lemma sellUnit_InrD:
  assumes "sellUnit src slot st = Inr st'"
  shows "\<exists>u. 0 \<le> slot \<and> nat slot < length (roster src (fst st)) \<and> roster src (fst st) ! nat slot = Some u \<and>
    st' = (setSlot src (nat slot) None ((fst st)\<lparr>p_gold := p_gold (fst st) + investedGold u\<rparr>), snd st)"
  using assms by (auto simp: sellUnit_def split: option.splits if_splits prod.splits)

interpretation sells: roster_action "\<lambda>(src, slot). sellUnit src slot"
proof unfold_locales
  fix st a st'
  assume act: "(case a of (src, slot) \<Rightarrow> sellUnit src slot) st = Inr st'"
  obtain src slot where a: "a = (src, slot)" by fastforce
  have act': "sellUnit src slot st = Inr st'" using act by (simp add: a)
  from sellUnit_InrD [OF act'] obtain u where b: "nat slot < length (roster src (fst st))" "roster src (fst st) ! nat slot = Some u"
    "st' = (setSlot src (nat slot) None ((fst st)\<lparr>p_gold := p_gold (fst st) + investedGold u\<rparr>), snd st)"
    by blast
  show "s_round (snd st') = s_round (snd st) \<and> s_refreshCount (snd st) \<le> s_refreshCount (snd st') \<and>
      p_hp (fst st') = p_hp (fst st)"
    using b(3) by simp
  assume ok: "shop_ok st"
  have "unitsOfPlayer (fst st') \<subseteq> unitsOfPlayer (fst st)"
    using unitsOfPlayer_setSlot [of src "nat slot" None "(fst st)\<lparr>p_gold := p_gold (fst st) + investedGold u\<rparr>"]
    by (simp add: b(3))
  then show "shop_ok st'"
    using ok b by (auto simp: shop_ok_def player_ok_def)
  show "wealth (fst st') = wealth (fst st)"
    using b by (simp add: wealth_setSlot wealth_gold)
qed

interpretation refreshes: roster_action "\<lambda>u. refreshShop sha matchSeed rnd userId"
  by unfold_locales (auto simp: refreshShop_def shop_ok_def Let_def split: if_splits prod.splits)

text \<open>Fusing two different entries of the same type and star.\<close>

lemma applyFuse_keeps:
  assumes "(ts, ti, tu) \<in> set (rosterEntries s)" "(ss, si, su) \<in> set (rosterEntries s)" "(ts, ti) \<noteq> (ss, si)"
  shows "wealth (applyFuse (ts, ti, tu) (ss, si, su) s) = wealth s"
    and "unitsOfPlayer (applyFuse (ts, ti, tu) (ss, si, su) s) \<subseteq> insert (mergeUnits tu su) (unitsOfPlayer s)"
proof -
  let ?s1 = "setSlot ts ti (Some (mergeUnits tu su)) s"
  have t: "ti < length (roster ts s)" "roster ts s ! ti = Some tu"
    and u: "si < length (roster ss s)" "roster ss s ! si = Some su"
    using assms(1,2) by (simp_all add: set_rosterEntries)
  have other: "roster ss ?s1 ! si = Some su" using assms(3) u by (auto simp: roster_setSlot)
  have "0 \<le> investedGold tu + investedGold su" by simp
  then have "investedGold (mergeUnits tu su) = investedGold tu + investedGold su"
    by (simp add: mergeUnits_def investedGold_def [of "tu\<lparr>r_star := x, r_investedGold := y, r_hp := z\<rparr>" for x y z])
  then show "wealth (applyFuse (ts, ti, tu) (ss, si, su) s) = wealth s"
    using t u other by (simp add: applyFuse_def wealth_setSlot)
  show "unitsOfPlayer (applyFuse (ts, ti, tu) (ss, si, su) s) \<subseteq> insert (mergeUnits tu su) (unitsOfPlayer s)"
    using unitsOfPlayer_setSlot [of ss si None ?s1] unitsOfPlayer_setSlot [of ts ti "Some (mergeUnits tu su)" s]
    by (auto simp: applyFuse_def)
qed

lemma mergeUnits_priced:
  assumes "priced t" "priced s" "r_unitId s = r_unitId t" "r_star s = r_star t" "r_star t < 2"
  shows "priced (mergeUnits t s)"
  using assms by (auto simp: priced_def mergeUnits_def investedGold_def)

lemma priced_entry: "shop_ok st \<Longrightarrow> (src, i, u) \<in> set (rosterEntries (fst st)) \<Longrightarrow> priced u"
  using entry_unit by (auto simp: shop_ok_def)

text \<open>What both fuse paths do when they succeed.\<close>

definition fusesPair :: "UnitId \<Rightarrow> player \<Rightarrow> player \<Rightarrow> bool" where
  "fusesPair unitId s s' \<longleftrightarrow> (\<exists>ts ti tu ss si su.
     (ts, ti, tu) \<in> set (rosterEntries s) \<and> (ss, si, su) \<in> set (rosterEntries s) \<and> (ts, ti) \<noteq> (ss, si) \<and>
     r_unitId tu = unitId \<and> r_unitId su = unitId \<and> r_star su = r_star tu \<and> r_star tu < 2 \<and>
     s' = applyFuse (ts, ti, tu) (ss, si, su) s)"

lemma fuseDragged_pair: "fuseDragged unitId a b s = Inr s' \<Longrightarrow> fusesPair unitId s s'"
proof -
  assume fuse: "fuseDragged unitId a b s = Inr s'"
  then obtain ss si su ts ti tu where
    f: "List.find (\<lambda>(_, _, u). r_instanceId u = a) (rosterEntries s) = Some (ss, si, su)"
      "List.find (\<lambda>(_, _, u). r_instanceId u = b) (rosterEntries s) = Some (ts, ti, tu)"
    and c: "a \<noteq> b" "r_unitId su = unitId" "r_unitId tu = unitId" "r_star su = r_star tu" "r_star tu < 2"
      "s' = applyFuse (ts, ti, tu) (ss, si, su) s"
    by (auto simp: fuseDragged_def split: if_splits option.splits)
  note su = find_SomeD [OF f(1)] and tu = find_SomeD [OF f(2)]
  have "(ts, ti) \<noteq> (ss, si)" using su tu c(1) by (auto simp: set_rosterEntries)
  with su tu c show ?thesis unfolding fusesPair_def by blast
qed

lemma findPair_SomeD: "findPair es = Some e \<Longrightarrow> e \<in> set es"
  by (induction es) (auto split: if_splits)

lemma fuseLegacy_pair: "fuseLegacy unitId s = Inr s' \<Longrightarrow> fusesPair unitId s s'"
proof -
  assume fuse: "fuseLegacy unitId s = Inr s'"
  let ?cs = "js_sort starCmp (filter (\<lambda>(_, _, u). r_unitId u = unitId \<and> r_star u < 2) (rosterEntries s))"
  from fuse obtain p q where p: "findPair ?cs = Some p"
    and q: "List.find (\<lambda>e. (fst e, fst (snd e)) \<noteq> (fst p, fst (snd p)) \<and>
        r_star (snd (snd e)) = r_star (snd (snd p))) ?cs = Some q"
    and s': "s' = applyFuse p q s"
    by (auto simp: fuseLegacy_def Let_def split: option.splits)
  have mem: "e \<in> set (rosterEntries s) \<and> r_unitId (snd (snd e)) = unitId \<and> r_star (snd (snd e)) < 2"
    if "e \<in> set ?cs" for e
    using that by auto
  obtain ts ti tu ss si su where e: "p = (ts, ti, tu)" "q = (ss, si, su)" by (metis prod_cases3)
  show ?thesis
    using mem [OF findPair_SomeD [OF p]] mem [OF conjunct1 [OF find_SomeD [OF q]]] find_SomeD [OF q] s'
    unfolding fusesPair_def e by fastforce
qed

lemma fuseUnits_InrD:
  assumes "fuseUnits unitId a b st = Inr st'"
  shows "fusesPair unitId (fst st) (fst st') \<and> snd st' = snd st"
proof -
  obtain s shop where st: "st = (s, shop)" by fastforce
  have split: "map_sum id (\<lambda>x. (x, shop)) r = Inr st' \<Longrightarrow> \<exists>x. r = Inr x \<and> st' = (x, shop)" for r :: "string + player"
    by (cases r) auto
  from assms have "(\<exists>x. fuseLegacy unitId s = Inr x \<and> st' = (x, shop)) \<or>
      (\<exists>i j x. fuseDragged unitId i j s = Inr x \<and> st' = (x, shop))"
    unfolding st fuseUnits_def Let_def prod.case
    by (auto split: if_splits option.splits dest!: split)
  then show ?thesis using fuseLegacy_pair fuseDragged_pair st by auto
qed

lemma applyFuse_frame:
  "p_gold (applyFuse t u s) = p_gold s" "p_hp (applyFuse t u s) = p_hp s"
  "length (p_board (applyFuse t u s)) = length (p_board s)"
  "length (p_bench (applyFuse t u s)) = length (p_bench s)"
  by (simp_all add: applyFuse_def split: prod.split)

interpretation fuses: roster_action "\<lambda>(unitId, a, b). fuseUnits unitId a b"
proof unfold_locales
  fix st a st'
  assume act: "(case a of (unitId, x, y) \<Rightarrow> fuseUnits unitId x y) st = Inr st'"
  obtain unitId x y where a: "a = (unitId, x, y)" by (metis prod_cases3)
  have fuse: "fuseUnits unitId x y st = Inr st'" using act by (simp add: a)
  from fuseUnits_InrD [OF this] obtain ts ti tu ss si su where
    pair: "(ts, ti, tu) \<in> set (rosterEntries (fst st))" "(ss, si, su) \<in> set (rosterEntries (fst st))"
      "(ts, ti) \<noteq> (ss, si)"
    and same: "r_unitId tu = unitId" "r_unitId su = unitId" "r_star su = r_star tu" "r_star tu < 2"
    and st': "fst st' = applyFuse (ts, ti, tu) (ss, si, su) (fst st)" "snd st' = snd st"
    unfolding fusesPair_def by blast
  show "s_round (snd st') = s_round (snd st) \<and> s_refreshCount (snd st) \<le> s_refreshCount (snd st') \<and>
      p_hp (fst st') = p_hp (fst st)"
    by (simp add: st' applyFuse_frame)
  assume ok: "shop_ok st"
  have "priced (mergeUnits tu su)"
    using mergeUnits_priced [OF priced_entry [OF ok pair(1)] priced_entry [OF ok pair(2)]] same by simp
  then show "shop_ok st'"
    using ok applyFuse_keeps(2) [OF pair] by (auto simp: shop_ok_def st' player_ok_def applyFuse_frame)
  show "wealth (fst st') = wealth (fst st)"
    unfolding st' by (rule applyFuse_keeps(1) [OF pair])
qed

subsection \<open>A whole shop phase\<close>

datatype ShopAction =
    Buy string nat
  | Sell Source int
  | Refresh
  | Fuse UnitId "string option" "string option"

text \<open>The service's four entry points as one dispatch.\<close>

fun shopAct :: "(string \<Rightarrow> nat list) \<Rightarrow> string \<Rightarrow> nat \<Rightarrow> string \<Rightarrow> ShopAction \<Rightarrow> shop_state \<Rightarrow> string + shop_state" where
  "shopAct sha matchSeed rnd userId (Buy uuid i) = buyUnit uuid i"
| "shopAct sha matchSeed rnd userId (Sell src slot) = sellUnit src slot"
| "shopAct sha matchSeed rnd userId Refresh = refreshShop sha matchSeed rnd userId"
| "shopAct sha matchSeed rnd userId (Fuse u a b) = fuseUnits u a b"

lemma shopAct_keeps:
  assumes "shopAct sha matchSeed rnd userId a st = Inr st'"
  shows "s_round (snd st') = s_round (snd st) \<and> s_refreshCount (snd st) \<le> s_refreshCount (snd st') \<and>
      p_hp (fst st') = p_hp (fst st)"
    and "shop_ok st \<Longrightarrow> shop_ok st' \<and> wealth (fst st') = wealth (fst st)"
proof -
  have "(s_round (snd st') = s_round (snd st) \<and> s_refreshCount (snd st) \<le> s_refreshCount (snd st') \<and>
      p_hp (fst st') = p_hp (fst st)) \<and>
    (shop_ok st \<longrightarrow> shop_ok st' \<and> wealth (fst st') = wealth (fst st))"
  proof (cases a)
    case (Buy uuid i)
    with assms have "(case (uuid, i) of (uuid, i) \<Rightarrow> buyUnit uuid i) st = Inr st'" by simp
    then show ?thesis using buys.keeps_round buys.keeps_ok buys.keeps_wealth by blast
  next
    case (Sell src slot)
    with assms have "(case (src, slot) of (src, slot) \<Rightarrow> sellUnit src slot) st = Inr st'" by simp
    then show ?thesis using sells.keeps_round sells.keeps_ok sells.keeps_wealth by blast
  next
    case Refresh
    with assms have "refreshShop sha matchSeed rnd userId st = Inr st'" by simp
    then show ?thesis using refreshes.keeps_round refreshes.keeps_ok refreshes.keeps_wealth by blast
  next
    case (Fuse u x y)
    with assms have "(case (u, x, y) of (u, x, y) \<Rightarrow> fuseUnits u x y) st = Inr st'" by simp
    then show ?thesis using fuses.keeps_round fuses.keeps_ok fuses.keeps_wealth by blast
  qed
  then show "s_round (snd st') = s_round (snd st) \<and> s_refreshCount (snd st) \<le> s_refreshCount (snd st') \<and>
      p_hp (fst st') = p_hp (fst st)"
    "shop_ok st \<Longrightarrow> shop_ok st' \<and> wealth (fst st') = wealth (fst st)" by blast+
qed

interpretation shop: roster_action "shopAct sha matchSeed rnd userId"
  by unfold_locales (simp_all add: shopAct_keeps)

text \<open>A phase of actions in order; a failing one leaves the stored state as it was.\<close>

definition shopSession ::
  "(string \<Rightarrow> nat list) \<Rightarrow> string \<Rightarrow> nat \<Rightarrow> string \<Rightarrow> ShopAction list \<Rightarrow> shop_state \<Rightarrow> shop_state" where
  "shopSession sha matchSeed rnd userId acts st =
     fold (\<lambda>a st. case shopAct sha matchSeed rnd userId a st of Inl _ \<Rightarrow> st | Inr st' \<Rightarrow> st') acts st"

lemma attempt_session: "shopSession sha ms rnd uid acts st = fold (shop.attempt sha ms rnd uid) acts st"
  unfolding shopSession_def shop.attempt_def ..

text \<open>
  The shop neither creates nor destroys value: after any sequence of buy, sell, refresh and
  fuse requests, in any order and with any arguments, valid or not, gold plus the gold invested
  in the units is what it was, gold has not become negative, every unit still sells for the cost
  of the copies in it, the roster keeps its slots, and at most one refresh was made.
\<close>

theorem shop_conserves_wealth:
  assumes "shop_ok st"
  shows "wealth (fst (shopSession sha ms rnd uid acts st)) = wealth (fst st) \<and>
    shop_ok (shopSession sha ms rnd uid acts st) \<and>
    0 \<le> p_gold (fst (shopSession sha ms rnd uid acts st)) \<and>
    s_refreshCount (snd (shopSession sha ms rnd uid acts st)) \<le> 1"
  using shop.session_keeps [OF assms, of sha ms rnd uid acts]
  by (auto simp: attempt_session shop_ok_def player_ok_def)

text \<open>
  Selling undoes buying: a unit just bought stands on the first free bench slot and sells back
  for its cost, which restores the player's state exactly; only the offer stays consumed.
\<close>

theorem buy_then_sell_refunds:
  assumes "buyUnit uuid i st = Inr st1"
  shows "\<exists>slot. findIndex (\<lambda>e. e = None) (p_bench (fst st)) = Some slot \<and>
    sellUnit Bench (int slot) st1 = Inr (fst st, (snd st)\<lparr>s_offers := (s_offers (snd st))[i := None]\<rparr>)"
proof -
  from assms obtain slot and offer :: ShopOffer where slot: "findIndex (\<lambda>e. e = None) (p_bench (fst st)) = Some slot"
    and st1: "st1 = ((fst st)\<lparr>p_gold := p_gold (fst st) - UNIT_COST (of_unitId offer),
        p_bench := (p_bench (fst st))[slot := Some (newUnit uuid (of_unitId offer) (UNIT_COST (of_unitId offer)))]\<rparr>,
      (snd st)\<lparr>s_offers := (s_offers (snd st))[i := None]\<rparr>)"
    by (auto simp: buyUnit_def Let_def split: option.splits if_splits prod.splits)
  have free: "slot < length (p_bench (fst st))" "p_bench (fst st) ! slot = None"
    using findIndex_SomeD [OF slot] by simp_all
  have "(p_bench (fst st))[slot := None] = p_bench (fst st)"
    using free list_update_id [of "p_bench (fst st)" slot] by simp
  then have "sellUnit Bench (int slot) st1 = Inr (fst st, (snd st)\<lparr>s_offers := (s_offers (snd st))[i := None]\<rparr>)"
    using free newUnit_priced by (simp add: sellUnit_def st1)
  with slot show ?thesis by blast
qed

subsection \<open>The compatibility path of fuse\<close>

definition position :: "entry \<Rightarrow> Source \<times> nat" where
  "position e = (fst e, fst (snd e))"

definition entryStar :: "entry \<Rightarrow> Star" where
  "entryStar e = r_star (snd (snd e))"

interpretation star_order: comparator starCmp
  by unfold_locales (auto simp: starCmp_def)

lemma distinct_slotEntries: "distinct (map position (slotEntries src s))"
proof -
  have "distinct (map position (concat (map (\<lambda>(i, u). case u of Some x \<Rightarrow> [(src, i, x)] | None \<Rightarrow> []) (enumerate k xs)))) \<and>
      (\<forall>e \<in> set (concat (map (\<lambda>(i, u). case u of Some x \<Rightarrow> [(src, i, x)] | None \<Rightarrow> []) (enumerate k xs))). k \<le> fst (snd e))" for k xs
  proof (induction xs arbitrary: k)
    case Nil
    then show ?case by simp
  next
    case (Cons x xs)
    from Cons.IH [of "Suc k"] show ?case
      by (cases x) (auto simp: position_def intro: Suc_leD)
  qed
  then show ?thesis by (simp add: slotEntries_def)
qed

lemma distinct_positions: "distinct (map position (rosterEntries s))"
proof -
  have src: "fst (position e) = src" if "e \<in> set (slotEntries src s)" for e src
    using that by (auto simp: position_def slotEntries_def split: option.splits)
  then have "position e \<noteq> position e'" if "e \<in> set (slotEntries Board s)" "e' \<in> set (slotEntries Bench s)" for e e'
    using src [OF that(1)] src [OF that(2)] by auto
  then have "position ` set (slotEntries Board s) \<inter> position ` set (slotEntries Bench s) = {}" by blast
  then show ?thesis by (simp add: rosterEntries_def distinct_slotEntries)
qed

lemma findPair_star:
  "findPair (e # es) = (if \<exists>other \<in> set es. entryStar other = entryStar e then Some e else findPair es)"
  by (simp add: entryStar_def)

declare findPair.simps(2) [simp del]

text \<open>Every entry before the one found is the only one of its star.\<close>

lemma findPair_later:
  "findPair es = Some e \<Longrightarrow> \<exists>pre post. es = pre @ e # post \<and>
     (\<exists>other \<in> set post. entryStar other = entryStar e) \<and>
     (\<forall>p \<in> set pre. \<forall>q \<in> set es. q \<noteq> p \<longrightarrow> entryStar q \<noteq> entryStar p)"
proof (induction es)
  case Nil
  then show ?case by simp
next
  case (Cons x xs)
  show ?case
  proof (cases "\<exists>other \<in> set xs. entryStar other = entryStar x")
    case True
    with Cons.prems have "e = x" by (simp add: findPair_star)
    with True show ?thesis by (intro exI [of _ "[]"] exI [of _ xs]) simp
  next
    case False
    with Cons.prems have "findPair xs = Some e" by (simp add: findPair_star)
    from Cons.IH [OF this] obtain pre post where
      ih: "xs = pre @ e # post" "\<exists>other \<in> set post. entryStar other = entryStar e"
        "\<forall>p \<in> set pre. \<forall>q \<in> set xs. q \<noteq> p \<longrightarrow> entryStar q \<noteq> entryStar p" by blast
    have "entryStar q \<noteq> entryStar p" if "p \<in> set (x # pre)" "q \<in> set (x # xs)" "q \<noteq> p" for p q
    proof (cases "p = x")
      case True
      with that False show ?thesis by auto
    next
      case px: False
      then have "p \<in> set pre" "p \<in> set xs" using that(1) ih(1) by auto
      with ih(3) False that show ?thesis by (metis set_ConsD)
    qed
    then have "\<forall>p \<in> set (x # pre). \<forall>q \<in> set (x # xs). q \<noteq> p \<longrightarrow> entryStar q \<noteq> entryStar p" by blast
    with ih(1,2) show ?thesis by (intro exI [of _ "x # pre"] exI [of _ post] conjI) simp_all
  qed
qed

lemma findPair_None:
  "findPair es = None \<Longrightarrow> e \<in> set es \<Longrightarrow> e' \<in> set es \<Longrightarrow> e \<noteq> e' \<Longrightarrow> entryStar e \<noteq> entryStar e'"
proof (induction es)
  case (Cons x xs)
  then show ?case by (auto simp: findPair_star split: if_splits)
qed simp

definition fusable :: "UnitId \<Rightarrow> player \<Rightarrow> entry \<Rightarrow> entry \<Rightarrow> bool" where
  "fusable unitId s e e' \<longleftrightarrow> e \<in> set (rosterEntries s) \<and> e' \<in> set (rosterEntries s) \<and>
     position e \<noteq> position e' \<and> r_unitId (snd (snd e)) = unitId \<and> r_unitId (snd (snd e')) = unitId \<and>
     entryStar e = entryStar e' \<and> entryStar e < 2"

text \<open>
  The compatibility fuse path finds a pair whenever there is one: it fails exactly when no two
  units of the type share a star below 2, and otherwise it merges two such units of the lowest
  star that occurs twice.
\<close>

theorem fuse_legacy_complete:
  "(case fuseLegacy unitId s of
      Inl e \<Rightarrow> e = ''shop.cannot_fuse'' \<and> (\<nexists>e e'. fusable unitId s e e')
    | Inr s' \<Rightarrow> (\<exists>e e'. fusable unitId s e e' \<and> s' = applyFuse e e' s \<and>
        (\<nexists>f f'. fusable unitId s f f' \<and> entryStar f < entryStar e)))"
proof -
  let ?pred = "\<lambda>e. r_unitId (snd (snd e)) = unitId \<and> r_star (snd (snd e)) < 2"
  define cs where "cs = js_sort starCmp (filter (\<lambda>(_, _, u). r_unitId u = unitId \<and> r_star u < 2) (rosterEntries s))"
  have mem: "e \<in> set cs \<longleftrightarrow> e \<in> set (rosterEntries s) \<and> ?pred e" for e
    by (auto simp: cs_def)
  have "mset (map position cs) = mset (map position (filter (\<lambda>(_, _, u). r_unitId u = unitId \<and> r_star u < 2) (rosterEntries s)))"
    by (simp add: cs_def)
  from mset_eq_imp_distinct_iff [OF this] have dist: "distinct (map position cs)"
    using distinct_map_filter [OF distinct_positions [of s]] by blast
  then have pos_inj: "position e \<noteq> position e'" if "e \<in> set cs" "e' \<in> set cs" "e \<noteq> e'" for e e'
    using that by (auto simp: distinct_map inj_on_def)
  have sorted: "sorted_wrt (\<lambda>a b. entryStar a \<le> entryStar b) cs"
    using star_order.sorted_sort unfolding cs_def by (simp add: starCmp_def entryStar_def)
  have fus: "fusable unitId s e e' \<longleftrightarrow> e \<in> set cs \<and> e' \<in> set cs \<and> e \<noteq> e' \<and> entryStar e = entryStar e'" for e e'
    unfolding fusable_def entryStar_def using pos_inj [of e e'] by (auto simp: mem)
  show ?thesis
  proof (cases "findPair cs")
    case None
    then have "fuseLegacy unitId s = Inl ''shop.cannot_fuse''"
      by (simp add: fuseLegacy_def Let_def cs_def)
    moreover have "\<not> fusable unitId s e e'" for e e'
      using findPair_None [OF None] unfolding fus by blast
    ultimately show ?thesis by simp
  next
    case (Some p)
    from findPair_later [OF Some] obtain pre post other where
      d: "cs = pre @ p # post" "other \<in> set post" "entryStar other = entryStar p"
        "\<forall>x \<in> set pre. \<forall>q \<in> set cs. q \<noteq> x \<longrightarrow> entryStar q \<noteq> entryStar x" by blast
    have p: "p \<in> set cs" and other: "other \<in> set cs" using d(1,2) by auto
    have "p \<noteq> other" using dist d(1,2) by auto
    with pos_inj p other have ne: "position other \<noteq> position p" by metis
    let ?q = "\<lambda>e. (fst e, fst (snd e)) \<noteq> (fst p, fst (snd p)) \<and> r_star (snd (snd e)) = r_star (snd (snd p))"
    obtain q where q: "List.find ?q cs = Some q"
      using other ne d(3) find_None_iff' [of ?q cs] unfolding position_def entryStar_def
      by (cases "List.find ?q cs") blast+
    have run: "fuseLegacy unitId s = Inr (applyFuse p q s)"
      using Some q by (simp add: fuseLegacy_def Let_def cs_def)
    have pq: "fusable unitId s p q"
      using find_SomeD [OF q] p unfolding fus entryStar_def by force
    have "\<not> (fusable unitId s f f' \<and> entryStar f < entryStar p)" for f f'
    proof
      assume f: "fusable unitId s f f' \<and> entryStar f < entryStar p"
      have "f \<in> set pre"
        using f sorted d(1) unfolding fus by (fastforce simp: sorted_wrt_append)
      with d(4) f show False unfolding fus by metis
    qed
    with pq have "\<exists>e e'. fusable unitId s e e' \<and> applyFuse p q s = applyFuse e e' s \<and>
        (\<nexists>f f'. fusable unitId s f f' \<and> entryStar f < entryStar e)" by blast
    then show ?thesis unfolding run sum.case .
  qed
qed

subsection \<open>A concrete shop\<close>

definition demoShop :: shop_state where
  "demoShop =
     (\<lparr>p_hp = 100, p_gold = 5, p_ready = False,
       p_board = Some (newUnit ''u1'' Ranger 2) # replicate 8 None,
       p_bench = Some (newUnit ''u2'' Ranger 2) # replicate 7 None\<rparr>,
      \<lparr>s_round = 1, s_refreshCount = 0, s_refreshUsed = False,
       s_offers = [Some \<lparr>of_offerId = ''o1'', of_unitId = Tank, of_star = 0\<rparr>, None, None, None, None]\<rparr>)"

lemma demoShop_ok: "shop_ok demoShop"
proof -
  have "roster src (fst demoShop) = Some (newUnit (if src = Board then ''u1'' else ''u2'') Ranger 2) #
      replicate (if src = Board then 8 else 7) None" for src
    by (cases src) (simp_all add: demoShop_def)
  then have "\<forall>u \<in> unitsOfPlayer (fst demoShop). \<exists>i. u = newUnit i Ranger (UNIT_COST Ranger)"
    by (auto simp: unitsOfPlayer_def)
  then have "\<forall>u \<in> unitsOfPlayer (fst demoShop). priced u" using newUnit_priced by metis
  then show ?thesis by (simp add: shop_ok_def player_ok_def) (simp add: demoShop_def)
qed

theorem shop_conserves_wealth_witness:
  "wealth (fst (shopSession (\<lambda>_. replicate 32 7) ''seed'' 1 ''alice''
     [Buy ''u3'' 0, Fuse Ranger None None, Sell Bench 0, Refresh, Refresh] demoShop)) = 9"
proof -
  have "wealth (fst demoShop) = 9"
    by (simp add: wealth_def demoShop_def newUnit_def investedGold_def Let_def sum_list_replicate)
  with shop_conserves_wealth [OF demoShop_ok] show ?thesis by metis
qed

theorem buy_then_sell_refunds_witness:
  "\<exists>st1. buyUnit ''u3'' 0 demoShop = Inr st1 \<and>
     map_sum id fst (sellUnit Bench 1 st1) = (Inr (fst demoShop) :: string + player)"
proof -
  have "\<exists>st1. buyUnit ''u3'' 0 demoShop = Inr st1" 
    by (simp add: buyUnit_def demoShop_def js_nth_def Let_def numeral_eq_Suc)
  then obtain st1 where st1: "buyUnit ''u3'' 0 demoShop = Inr st1" by blast
  have "findIndex (\<lambda>e. e = None) (p_bench (fst demoShop)) = Some 1"
    by (simp add: demoShop_def numeral_eq_Suc)
  with buy_then_sell_refunds [OF st1] st1 show ?thesis by auto
qed

theorem fuse_legacy_complete_witness:
  "case fuseLegacy Ranger (fst demoShop) of Inl e \<Rightarrow> False | Inr s' \<Rightarrow> True"
proof -
  have "fusable Ranger (fst demoShop) (Board, 0, newUnit ''u1'' Ranger 2) (Bench, 0, newUnit ''u2'' Ranger 2)"
    by (simp add: fusable_def set_rosterEntries demoShop_def position_def entryStar_def newUnit_def Let_def)
  with fuse_legacy_complete [of Ranger "fst demoShop"] show ?thesis
    by (auto split: sum.splits)
qed

end
