(* ===== verification/Shop_Actions.thy ===== *)
theory Shop_Actions
  imports Match_Service Shop_Props
begin

text \<open>
  The protocol of \<open>shop/shop.service.ts\<close> around the roster mutations: the idempotency log, the
  per-player lock, the context read from Redis, the atomic commit and the messages. What other
  replicas do while a request waits for the lock is the argument \<open>env\<close>; \<open>owner\<close> is the request's
  \<open>randomUUID()\<close>.

  A stored unit is an object this service wrote; a roster with any other object is outside the model
  and reported with the error \<open>model.roster\<close>.
\<close>

definition SHOP_TTL_SECONDS :: int where "SHOP_TTL_SECONDS = 30 * 60"

definition ACTION_LOCK_TTL_MS :: int where "ACTION_LOCK_TTL_MS = 5000"

definition ACTION_LOCK_ATTEMPTS :: nat where "ACTION_LOCK_ATTEMPTS = 40"

definition shopKey :: "string \<Rightarrow> string \<Rightarrow> string" where
  "shopKey matchId userId = ''match:'' @ matchId @ '':shop:'' @ userId"

definition shopLockKey :: "string \<Rightarrow> string \<Rightarrow> string" where
  "shopLockKey matchId userId = ''match:'' @ matchId @ '':shop-lock:'' @ userId"

subsection \<open>Stored shops and rosters\<close>

definition offerJson :: "ShopOffer \<Rightarrow> json" where
  "offerJson o' = JObj [(''offerId'', JStr (of_offerId o')), (''unitId'', JStr (unitIdName (of_unitId o'))),
     (''star'', JNum (int (of_star o')))]"

definition shopJson :: "StoredShop \<Rightarrow> json" where
  "shopJson s = JObj [(''round'', JNum (int (s_round s))), (''refreshCount'', JNum (int (s_refreshCount s))),
     (''refreshUsed'', JBool (s_refreshUsed s)),
     (''offers'', JArr (map (\<lambda>x. case x of None \<Rightarrow> JNull | Some o' \<Rightarrow> offerJson o') (s_offers s)))]"

definition offerOf :: "json \<Rightarrow> ShopOffer option" where
  "offerOf j = (case asObj (Some j) of None \<Rightarrow> None | Some e \<Rightarrow>
     (case (asStr (getProp e ''offerId''), isUnitId (getProp e ''unitId''), isStar (getProp e ''star'')) of
        (Some i, Some u, Some s) \<Rightarrow> Some \<lparr>of_offerId = i, of_unitId = u, of_star = s\<rparr>
      | _ \<Rightarrow> None))"

fun natOr0 :: "json option \<Rightarrow> nat" where
  "natOr0 (Some (JNum n)) = nat n"
| "natOr0 _ = 0"

definition shopOf :: "json \<Rightarrow> StoredShop option" where
  "shopOf j = (case asObj (Some j) of None \<Rightarrow> None | Some e \<Rightarrow>
     (case getProp e ''offers'' of
        Some (JArr xs) \<Rightarrow> Some \<lparr>s_round = natOr0 (getProp e ''round''),
          s_refreshCount = natOr0 (getProp e ''refreshCount''),
          s_refreshUsed = (getProp e ''refreshUsed'' = Some (JBool True)), s_offers = map offerOf xs\<rparr>
      | _ \<Rightarrow> None))"

definition readShop :: "string \<Rightarrow> string \<Rightarrow> redis \<Rightarrow> StoredShop option" where
  "readShop matchId userId r = Option.bind (jsonParse (getStr (shopKey matchId userId) r)) shopOf"

definition castSlots :: "jobj option list \<Rightarrow> RuntimeUnitState option list option" where
  "castSlots xs =
     (if list_all (\<lambda>x. case x of None \<Rightarrow> True | Some e \<Rightarrow> castUnit e \<noteq> None) xs
      then Some (map (\<lambda>x. Option.bind x castUnit) xs) else None)"

definition castPlayer :: "jobj PlayerState \<Rightarrow> player option" where
  "castPlayer s = (case (castSlots (p_board s), castSlots (p_bench s)) of
      (Some b, Some c) \<Rightarrow> Some \<lparr>p_hp = p_hp s, p_gold = p_gold s, p_ready = p_ready s, p_board = b, p_bench = c\<rparr>
    | _ \<Rightarrow> None)"

definition playerObj :: "player \<Rightarrow> jobj PlayerState" where
  "playerObj s = \<lparr>p_hp = p_hp s, p_gold = p_gold s, p_ready = p_ready s,
     p_board = map (map_option unitObj) (p_board s), p_bench = map (map_option unitObj) (p_bench s)\<rparr>"

subsection \<open>Messages\<close>

definition publishOffers :: "MatchRuntimeState \<Rightarrow> string \<Rightarrow> ShopOffer option list \<Rightarrow> world \<Rightarrow> world" where
  "publishOffers runtime playerId offers =
     publishToUser (m_matchId runtime) playerId (ShopOfferEvent (m_matchId runtime) (m_round runtime) offers)"

definition publishState :: "MatchRuntimeState \<Rightarrow> Side \<Rightarrow> jobj PlayerState \<Rightarrow> world \<Rightarrow> world" where
  "publishState runtime changedSide changedState w =
     (let p1 = (if changedSide = P1 then changedState else m_p1State runtime);
          p2 = (if changedSide = P2 then changedState else m_p2State runtime);
          readyCount = of_bool (m_readyP1 runtime) + of_bool (m_readyP2 runtime)
      in publishToUser (m_matchId runtime) (m_player2Id runtime)
           (StateEvent (matchStatePayload runtime P2 p2 p1 readyCount))
           (publishToUser (m_matchId runtime) (m_player1Id runtime)
             (StateEvent (matchStatePayload runtime P1 p1 p2 readyCount)) w))"

subsection \<open>Shops at the start of a phase\<close>

definition resetShop :: "(string \<Rightarrow> nat list) \<Rightarrow> MatchRuntimeState \<Rightarrow> string \<Rightarrow> world \<Rightarrow> world" where
  "resetShop sha runtime playerId w =
     (let shop = \<lparr>s_round = m_round runtime, s_refreshCount = 0, s_refreshUsed = False,
                  s_offers = map Some (generateOffers sha (m_matchSeed runtime) (m_round runtime) playerId 0)\<rparr>
      in publishOffers runtime playerId (s_offers shop)
           (onRedis (setEx (shopKey (m_matchId runtime) playerId) (HJson (shopJson shop)) SHOP_TTL_SECONDS) w))"

definition rollOffersForMatch :: "(string \<Rightarrow> nat list) \<Rightarrow> MatchRuntimeState \<Rightarrow> world \<Rightarrow> world" where
  "rollOffersForMatch sha runtime w =
     resetShop sha runtime (m_player2Id runtime) (resetShop sha runtime (m_player1Id runtime) w)"

subsection \<open>The action protocol\<close>

record ActionContext =
  ac_runtime :: MatchRuntimeState
  ac_side :: Side
  ac_state :: player
  ac_shop :: StoredShop

definition sideState :: "Side \<Rightarrow> MatchRuntimeState \<Rightarrow> jobj PlayerState" where
  "sideState side runtime = (case side of P1 \<Rightarrow> m_p1State runtime | P2 \<Rightarrow> m_p2State runtime)"

definition stateField :: "Side \<Rightarrow> string" where
  "stateField side = (case side of P1 \<Rightarrow> ''p1State'' | P2 \<Rightarrow> ''p2State'')"

definition playerIdOf :: "Side \<Rightarrow> MatchRuntimeState \<Rightarrow> string" where
  "playerIdOf side runtime = (case side of P1 \<Rightarrow> m_player1Id runtime | P2 \<Rightarrow> m_player2Id runtime)"

definition actionContext :: "string \<Rightarrow> string \<Rightarrow> nat \<Rightarrow> redis \<Rightarrow> string + ActionContext" where
  "actionContext userId matchId expectedRound r =
     (case parseRuntimeHash matchId (hgetall (runtimeKey matchId) r) of
        None \<Rightarrow> Inl ''match.runtime_not_found''
      | Some runtime \<Rightarrow>
          if m_round runtime \<noteq> expectedRound then Inl ''match.round_mismatch''
          else if m_phase runtime \<noteq> ShopPlace then Inl ''match.not_your_turn''
          else if m_player1Id runtime \<noteq> userId \<and> m_player2Id runtime \<noteq> userId then Inl ''match.not_participant''
          else let side = (if m_player1Id runtime = userId then P1 else P2)
               in case readShop matchId userId r of
                    None \<Rightarrow> Inl ''shop.offers_not_found''
                  | Some shop \<Rightarrow>
                      if s_round shop \<noteq> expectedRound then Inl ''shop.offers_not_found''
                      else case castPlayer (sideState side runtime) of
                             None \<Rightarrow> Inl ''model.roster''
                           | Some state \<Rightarrow> Inr \<lparr>ac_runtime = runtime, ac_side = side, ac_state = state, ac_shop = shop\<rparr>)"

text \<open>The commit is one script; \<open>True\<close> says that this request recorded the action.\<close>

definition commitAction :: "ActionContext \<Rightarrow> string \<Rightarrow> int \<Rightarrow> redis \<Rightarrow> int \<times> redis" where
  "commitAction ctx clientActionId now =
     (let runtime = ac_runtime ctx; userId = playerIdOf (ac_side ctx) runtime
      in logAction (m_matchId runtime) userId
           \<lparr>a_id = clientActionId, a_time = now, a_field = stateField (ac_side ctx),
            a_value = HJson (playerJson (playerObj (ac_state ctx))), a_phase = ShopPlace, a_round = m_round runtime,
            a_shop = Some (shopKey (m_matchId runtime) userId, HJson (shopJson (ac_shop ctx)), SHOP_TTL_SECONDS)\<rparr>)"

definition persistAction :: "ActionContext \<Rightarrow> string \<Rightarrow> world \<Rightarrow> bool result \<times> world" where
  "persistAction ctx clientActionId w =
     (let (code, r) = commitAction ctx clientActionId (w_now w) (w_redis w);
          w1 = w\<lparr>w_redis := r\<rparr>; runtime = ac_runtime ctx; state = playerObj (ac_state ctx)
      in if code = -2 then (Inl ''match.round_mismatch'', w1)
         else if code = -1 then (Inl ''match.not_your_turn'', w1)
         else if code \<noteq> 1 then (Inr False, w1)
         else andThen (updateState (m_matchId runtime) (ac_side ctx) (playerJson state)) (\<lambda>_.
                andThen (modify (publishState runtime (ac_side ctx) state)) (\<lambda>_. ret True)) w1)"

fun acquireLock :: "nat \<Rightarrow> (nat \<Rightarrow> world \<Rightarrow> world) \<Rightarrow> string \<Rightarrow> string \<Rightarrow> int \<Rightarrow> world \<Rightarrow> bool \<times> world" where
  "acquireLock 0 env key owner ttl w = (False, w)"
| "acquireLock (Suc attempts) env key owner ttl w =
     (let (ok, r) = setNx key (HStr owner) ttl (w_redis w); w1 = w\<lparr>w_redis := r\<rparr>
      in if ok then (True, w1) else acquireLock attempts env key owner ttl (env attempts w1))"

definition releaseLock :: "string \<Rightarrow> string \<Rightarrow> world \<Rightarrow> world" where
  "releaseLock key owner = onRedis (\<lambda>r. snd (releaseOwned key (HStr owner) r))"

type_synonym mutation = "ActionContext \<Rightarrow> string + shop_state \<times> bool"

text \<open>The body under the lock; the result is the \<open>duplicate\<close> flag.\<close>

definition lockedAction :: "string \<Rightarrow> string \<Rightarrow> nat \<Rightarrow> string \<Rightarrow> mutation \<Rightarrow> world \<Rightarrow> bool result \<times> world" where
  "lockedAction userId matchId rnd clientActionId mutate w =
     (if hexists (actionLogKey matchId userId) clientActionId (w_redis w) then (Inr True, w)
      else case actionContext userId matchId rnd (w_redis w) of
             Inl e \<Rightarrow> (Inl e, w)
           | Inr ctx \<Rightarrow>
               (case mutate ctx of
                  Inl e \<Rightarrow> (Inl e, w)
                | Inr ((state, shop), emitOffers) \<Rightarrow>
                    andThen (persistAction (ctx\<lparr>ac_state := state, ac_shop := shop\<rparr>) clientActionId)
                      (\<lambda>recorded. if \<not> recorded then ret True
                         else andThen (modify (if emitOffers then publishOffers (ac_runtime ctx) userId (s_offers shop) else id))
                                (\<lambda>_. ret False)) w))"

definition withAction ::
  "(nat \<Rightarrow> world \<Rightarrow> world) \<Rightarrow> string \<Rightarrow> string \<Rightarrow> string \<Rightarrow> nat \<Rightarrow> string \<Rightarrow> mutation \<Rightarrow> world \<Rightarrow> bool result \<times> world" where
  "withAction env owner userId matchId rnd clientActionId mutate w =
     (if hexists (actionLogKey matchId userId) clientActionId (w_redis w) then (Inr True, w)
      else let key = shopLockKey matchId userId;
               (ok, w1) = acquireLock ACTION_LOCK_ATTEMPTS env key owner ACTION_LOCK_TTL_MS w
           in if \<not> ok then (Inl ''shop.busy'', w1)
              else finallyDo (lockedAction userId matchId rnd clientActionId mutate) (releaseLock key owner) w1)"

subsection \<open>The four actions\<close>

definition buy :: "(nat \<Rightarrow> world \<Rightarrow> world) \<Rightarrow> string \<Rightarrow> string \<Rightarrow> string \<Rightarrow> string \<Rightarrow> nat \<Rightarrow> nat \<Rightarrow> string \<Rightarrow>
    world \<Rightarrow> bool result \<times> world" where
  "buy env owner uuid userId matchId rnd offerIndex clientActionId =
     withAction env owner userId matchId rnd clientActionId
       (\<lambda>ctx. map_sum id (\<lambda>st. (st, False)) (buyUnit uuid offerIndex (ac_state ctx, ac_shop ctx)))"

definition sell :: "(nat \<Rightarrow> world \<Rightarrow> world) \<Rightarrow> string \<Rightarrow> string \<Rightarrow> string \<Rightarrow> nat \<Rightarrow> Source \<Rightarrow> int \<Rightarrow> string \<Rightarrow>
    world \<Rightarrow> bool result \<times> world" where
  "sell env owner userId matchId rnd source slot clientActionId =
     withAction env owner userId matchId rnd clientActionId
       (\<lambda>ctx. map_sum id (\<lambda>st. (st, False)) (sellUnit source slot (ac_state ctx, ac_shop ctx)))"

definition refresh :: "(string \<Rightarrow> nat list) \<Rightarrow> (nat \<Rightarrow> world \<Rightarrow> world) \<Rightarrow> string \<Rightarrow> string \<Rightarrow> string \<Rightarrow> nat \<Rightarrow> string \<Rightarrow>
    world \<Rightarrow> bool result \<times> world" where
  "refresh sha env owner userId matchId rnd clientActionId =
     withAction env owner userId matchId rnd clientActionId
       (\<lambda>ctx. map_sum id (\<lambda>st. (st, True))
          (refreshShop sha (m_matchSeed (ac_runtime ctx)) rnd userId (ac_state ctx, ac_shop ctx)))"

definition fuse :: "(nat \<Rightarrow> world \<Rightarrow> world) \<Rightarrow> string \<Rightarrow> string \<Rightarrow> string \<Rightarrow> nat \<Rightarrow> UnitId \<Rightarrow> string \<Rightarrow> string option \<Rightarrow>
    string option \<Rightarrow> world \<Rightarrow> bool result \<times> world" where
  "fuse env owner userId matchId rnd unitId clientActionId sourceInstanceId targetInstanceId =
     withAction env owner userId matchId rnd clientActionId
       (\<lambda>ctx. map_sum id (\<lambda>st. (st, False))
          (fuseUnits unitId sourceInstanceId targetInstanceId (ac_state ctx, ac_shop ctx)))"

end
