(* ===== verification/Shop_Refinement.thy ===== *)
theory Shop_Refinement
  imports Shop_Actions
begin

text \<open>
  The shop service implements the roster mutations: what a player owns is read back from Redis
  through \<open>shopView\<close>, and on that view every request is one step of \<open>shopAct\<close>, or nothing.
\<close>

subsection \<open>What was stored reads back\<close>

lemma castUnit_unitObj: "r_star u \<le> 2 \<Longrightarrow> castUnit (unitObj u) = Some u"
proof -
  assume star: "r_star u \<le> 2"
  have star': "isStar (getProp (unitObj u) ''star'') = Some (r_star u)"
    using star by (simp add: unitObj_def getProp_def del: isStar.simps)
  have type: "isUnitId (getProp (unitObj u) ''unitId'') = Some (r_unitId u)"
    by (simp add: unitObj_def getProp_def del: isUnitId.simps)
  have rest: "asStr (getProp (unitObj u) ''instanceId'') = Some (r_instanceId u)"
    "asNum (getProp (unitObj u) ''hp'') = Some (r_hp u)" "asNum (getProp (unitObj u) ''maxHp'') = Some (r_maxHp u)"
    "asNum (getProp (unitObj u) ''investedGold'') = r_investedGold u"
    by (simp_all add: unitObj_def getProp_def split: option.split)
  show ?thesis
    unfolding castUnit_def star' type rest by simp
qed

lemma castSlots_unitObj:
  assumes "\<And>u. Some u \<in> set xs \<Longrightarrow> r_star u \<le> 2"
  shows "castSlots (map (map_option unitObj) xs) = Some xs"
proof -
  have "list_all (\<lambda>x. case x of None \<Rightarrow> True | Some e \<Rightarrow> castUnit e \<noteq> None) (map (map_option unitObj) xs)"
    using assms by (auto simp: list_all_iff castUnit_unitObj split: option.split)
  moreover have "Option.bind (map_option unitObj x) castUnit = x" if "x \<in> set xs" for x
  proof (cases x)
    case (Some a)
    with that assms show ?thesis by (simp add: castUnit_unitObj)
  qed simp
  then have "map (\<lambda>x. Option.bind x castUnit) (map (map_option unitObj) xs) = xs"
    by (simp add: map_idI)
  ultimately show ?thesis by (simp only: castSlots_def if_True)
qed

lemma castPlayer_playerObj:
  assumes "\<forall>u \<in> unitsOfPlayer s. priced u"
  shows "castPlayer (playerObj s) = Some s"
proof -
  have "r_star u \<le> 2" if "Some u \<in> set (roster src s)" for u src
    using that assms by (auto simp: unitsOfPlayer_def priced_def)
  from castSlots_unitObj [of "p_board s", OF this [of _ Board]] castSlots_unitObj [of "p_bench s", OF this [of _ Bench]]
  show ?thesis by (simp add: castPlayer_def playerObj_def)
qed

definition offers_ok :: "StoredShop \<Rightarrow> bool" where
  "offers_ok s \<longleftrightarrow> (\<forall>o'. Some o' \<in> set (s_offers s) \<longrightarrow> of_star o' \<le> 2)"

lemma offerOf_offerJson: "of_star o' \<le> 2 \<Longrightarrow> offerOf (offerJson o') = Some o'"
proof -
  assume star: "of_star o' \<le> 2"
  have "isStar (Some (JNum (int (of_star o')))) = Some (of_star o')" using star by (rule isStar_int)
  then show ?thesis
    by (simp add: offerOf_def offerJson_def getProp_def del: isStar.simps isUnitId.simps)
qed

lemma offerOf_null [simp]: "offerOf JNull = None"
  by (simp add: offerOf_def)

lemma offerOf_star: "offerOf j = Some o' \<Longrightarrow> of_star o' \<le> 2"
  by (auto simp: offerOf_def dest: isStar_le split: option.splits)

lemma shopOf_shopJson: "offers_ok s \<Longrightarrow> shopOf (shopJson s) = Some s"
proof -
  assume ok: "offers_ok s"
  have "map offerOf (map (\<lambda>x. case x of None \<Rightarrow> JNull | Some o' \<Rightarrow> offerJson o') (s_offers s)) = s_offers s"
    using ok unfolding map_map by (intro map_idI) (auto simp: offers_ok_def offerOf_offerJson split: option.split)
  then show ?thesis by (cases s) (simp add: shopOf_def shopJson_def getProp_def)
qed

lemma readShop_offers: "readShop m u r = Some s \<Longrightarrow> offers_ok s"
  by (auto simp: readShop_def shopOf_def offers_ok_def offerOf_star
      split: option.splits json.splits bind_splits)

lemma shopAct_offers:
  assumes "shopAct sha ms rnd u a st = Inr st'" and "offers_ok (snd st)"
  shows "offers_ok (snd st')"
proof (cases a)
  case (Buy uuid i)
  with assms(1) have "buyUnit uuid i st = Inr st'" by simp
  moreover have "set ((s_offers (snd st))[i := None]) \<subseteq> insert None (set (s_offers (snd st)))"
    by (rule set_update_subset_insert)
  ultimately show ?thesis using buyUnit_InrD [of uuid i st st'] assms(2) by (auto simp: offers_ok_def)
next
  case (Sell src slot)
  with assms(1) have "sellUnit src slot st = Inr st'" by simp
  from sellUnit_InrD [OF this] assms(2) show ?thesis by auto
next
  case Refresh
  with assms show ?thesis
    by (auto simp: refreshShop_def Let_def offers_ok_def generateOffers_star split: if_splits prod.splits)
next
  case (Fuse t x y)
  with assms(1) have "fuseUnits t x y st = Inr st'" by simp
  from fuseUnits_InrD [OF this] assms(2) show ?thesis by simp
qed

subsection \<open>A runtime with one player's state replaced\<close>

definition withState :: "Side \<Rightarrow> jobj PlayerState \<Rightarrow> MatchRuntimeState \<Rightarrow> MatchRuntimeState" where
  "withState side s rt = (case side of P1 \<Rightarrow> rt\<lparr>m_p1State := s\<rparr> | P2 \<Rightarrow> rt\<lparr>m_p2State := s\<rparr>)"

lemma withState_simps [simp]:
  "m_round (withState side s rt) = m_round rt" "m_phase (withState side s rt) = m_phase rt"
  "m_matchId (withState side s rt) = m_matchId rt"
  "m_player1Id (withState side s rt) = m_player1Id rt" "m_player2Id (withState side s rt) = m_player2Id rt"
  "sideState side (withState side s rt) = s" "playerIdOf side' (withState side s rt) = playerIdOf side' rt"
  by (cases side; cases side'; simp add: withState_def sideState_def playerIdOf_def)+

lemma sideState_other: "side' \<noteq> side \<Longrightarrow> sideState side' (withState side s rt) = sideState side' rt"
  by (cases side; cases side'; simp add: withState_def sideState_def)

lemma parse_withState:
  assumes "parseRuntimeHash m h = Some rt" and "player_ok s"
  shows "parseRuntimeHash m (h(stateField side \<mapsto> HJson (playerJson s))) = Some (withState side s rt)"
  using assms
  by (cases side) (auto simp: parseRuntimeHash_def stateField_def withState_def split: if_splits option.splits)

subsection \<open>The view and one request\<close>

definition shopView :: "string \<Rightarrow> string \<Rightarrow> nat \<Rightarrow> world \<Rightarrow> shop_state option" where
  "shopView userId matchId rnd w =
     (case actionContext userId matchId rnd (w_redis w) of
        Inr ctx \<Rightarrow> Some (ac_state ctx, ac_shop ctx)
      | Inl _ \<Rightarrow> None)"

lemma actionContext_InrD:
  assumes "actionContext u m rnd r = Inr ctx"
  shows "parseRuntimeHash m (hgetall (runtimeKey m) r) = Some (ac_runtime ctx)" "m_round (ac_runtime ctx) = rnd"
    "m_phase (ac_runtime ctx) = ShopPlace" "playerIdOf (ac_side ctx) (ac_runtime ctx) = u"
    "ac_side ctx = (if m_player1Id (ac_runtime ctx) = u then P1 else P2)"
    "readShop m u r = Some (ac_shop ctx)" "s_round (ac_shop ctx) = rnd"
    "castPlayer (sideState (ac_side ctx) (ac_runtime ctx)) = Some (ac_state ctx)"
    "m_matchId (ac_runtime ctx) = m"
  using assms
  by (auto simp: actionContext_def playerIdOf_def Let_def split: option.splits if_splits dest: parse_SomeD(3))

lemma keys_distinct [simp]:
  "shopLockKey m u \<noteq> shopKey m u'" "shopKey m u' \<noteq> shopLockKey m u"
  by (simp_all add: shopKey_def shopLockKey_def)

text \<open>A context depends on the runtime hash and the stored shop only.\<close>

lemma actionContext_frame:
  assumes "hgetall (runtimeKey m) r' = hgetall (runtimeKey m) r" and "getStr (shopKey m u) r' = getStr (shopKey m u) r"
  shows "actionContext u m rnd r' = actionContext u m rnd r"
proof -
  have "readShop m u r' = readShop m u r" by (simp add: readShop_def assms(2))
  then show ?thesis unfolding actionContext_def assms(1) by (simp only:)
qed

text \<open>A request of a player as the four entry points make it.\<close>

record request =
  q_owner :: string
  q_userId :: string
  q_round :: nat
  q_actionId :: string
  q_action :: ShopAction

definition shopRequest ::
  "(string \<Rightarrow> nat list) \<Rightarrow> (nat \<Rightarrow> world \<Rightarrow> world) \<Rightarrow> string \<Rightarrow> request \<Rightarrow> world \<Rightarrow> bool result \<times> world" where
  "shopRequest sha env m q =
     (case q_action q of
        Buy uuid i \<Rightarrow> buy env (q_owner q) uuid (q_userId q) m (q_round q) i (q_actionId q)
      | Sell src slot \<Rightarrow> sell env (q_owner q) (q_userId q) m (q_round q) src slot (q_actionId q)
      | Refresh \<Rightarrow> refresh sha env (q_owner q) (q_userId q) m (q_round q) (q_actionId q)
      | Fuse t a b \<Rightarrow> fuse env (q_owner q) (q_userId q) m (q_round q) t (q_actionId q) a b)"

definition requestMutation :: "(string \<Rightarrow> nat list) \<Rightarrow> request \<Rightarrow> mutation" where
  "requestMutation sha q ctx =
     map_sum id (\<lambda>st. (st, q_action q = Refresh))
       (shopAct sha (m_matchSeed (ac_runtime ctx)) (q_round q) (q_userId q) (q_action q) (ac_state ctx, ac_shop ctx))"

lemma shopRequest_eq:
  "shopRequest sha env m q =
     withAction env (q_owner q) (q_userId q) m (q_round q) (q_actionId q) (requestMutation sha q)"
  by (cases "q_action q")
    (simp_all add: shopRequest_def buy_def sell_def refresh_def fuse_def requestMutation_def [abs_def])

text \<open>Under the lock: nothing happened to the keyspace, or the commit of a context read from it did.\<close>

lemma lockedAction_cases:
  assumes "lockedAction u m rnd aid mutate w = (res, w')"
  obtains (unchanged) "w_redis w' = w_redis w" "res \<noteq> Inr False"
  | (committed) ctx state shop emit where "actionContext u m rnd (w_redis w) = Inr ctx"
      "mutate ctx = Inr ((state, shop), emit)" "\<not> hexists (actionLogKey m u) aid (w_redis w)"
      "commitAction (ctx\<lparr>ac_state := state, ac_shop := shop\<rparr>) aid (w_now w) (w_redis w) = (1, w_redis w')"
      "res = Inr False \<or> res = Inl ''match.not_found''"
proof -
  consider (dup) "hexists (actionLogKey m u) aid (w_redis w)"
    | (ctx) e where "\<not> hexists (actionLogKey m u) aid (w_redis w)" "actionContext u m rnd (w_redis w) = Inl e"
    | (mut) e ctx where "\<not> hexists (actionLogKey m u) aid (w_redis w)" "actionContext u m rnd (w_redis w) = Inr ctx"
        "mutate ctx = Inl e"
    | (go) ctx state shop emit where "\<not> hexists (actionLogKey m u) aid (w_redis w)"
        "actionContext u m rnd (w_redis w) = Inr ctx" "mutate ctx = Inr ((state, shop), emit)"
    by (cases "actionContext u m rnd (w_redis w)"; cases "mutate (projr (actionContext u m rnd (w_redis w)))") (auto, fastforce)
  then show thesis
  proof cases
    case go
    let ?ctx = "ctx\<lparr>ac_state := state, ac_shop := shop\<rparr>"
    obtain code r where commit: "commitAction ?ctx aid (w_now w) (w_redis w) = (code, r)" by fastforce
    show thesis
    proof (cases "code = 1")
      case False
      have "r = w_redis w"
        using logAction_logged(3) [OF commit [unfolded commitAction_def Let_def] False] .
      with False go assms unchanged show thesis
        by (auto simp: lockedAction_def persistAction_def commit Let_def andThen_def split: if_splits)
    next
      case True
      obtain x w2 where upd: "updateState (m_matchId (ac_runtime ?ctx)) (ac_side ?ctx) (playerJson (playerObj state))
          (w\<lparr>w_redis := r\<rparr>) = (x, w2)" by fastforce
      then have w2: "w_redis w2 = r" "x = Inr () \<or> x = Inl ''match.not_found''"
        by (auto simp: updateState_def matches_updateState_def matches_update_def Let_def split: if_splits)
      have "w_redis w' = r" "res = Inr False \<or> res = Inl ''match.not_found''"
        using go assms w2 upd True
        by (auto simp: lockedAction_def persistAction_def commit Let_def andThen_def publishState_def publishOffers_def)
      with committed [OF go(2,3,1)] commit True show thesis by simp
    qed
  qed (use assms unchanged in \<open>auto simp: lockedAction_def\<close>)
qed

text \<open>The commit seen through the view.\<close>

lemma commit_view:
  assumes ctx: "actionContext u m rnd r = Inr ctx"
    and commit: "commitAction (ctx\<lparr>ac_state := state, ac_shop := shop\<rparr>) aid now r = (1, r')"
    and ok: "player_ok state" "\<forall>x \<in> unitsOfPlayer state. priced x" "offers_ok shop" "s_round shop = rnd"
  shows "actionContext u m rnd r' = Inr (ctx\<lparr>ac_runtime := withState (ac_side ctx) (playerObj state) (ac_runtime ctx),
      ac_state := state, ac_shop := shop\<rparr>)"
    and "hexists (actionLogKey m u) aid r'"
proof -
  note c = actionContext_InrD [OF ctx]
  let ?rt = "ac_runtime ctx" and ?side = "ac_side ctx"
  have "\<not> hexists (actionLogKey m u) aid r" and
    r': "r' = setEx (shopKey m u) (HJson (shopJson shop)) SHOP_TTL_SECONDS
      (hset (runtimeKey m) (stateField ?side) (HJson (playerJson (playerObj state)))
        (expire (actionLogKey m u) 120 (hset (actionLogKey m u) aid (HStr (showInt now)) r)))"
    using commit by (auto simp: commitAction_def Let_def logAction_cases c(4,9) split: if_splits)
  have hash: "hgetall (runtimeKey m) r' = (hgetall (runtimeKey m) r)(stateField ?side \<mapsto> HJson (playerJson (playerObj state)))"
    by (simp add: r' hgetall_hset)
  have "player_ok (playerObj state)" using ok(1) by (simp add: player_ok_def playerObj_def)
  from parse_withState [OF c(1) this] have parse:
    "parseRuntimeHash m (hgetall (runtimeKey m) r') = Some (withState ?side (playerObj state) ?rt)"
    by (simp add: hash)
  have shop: "readShop m u r' = Some shop"
    by (simp add: readShop_def r' getStr_def shopOf_shopJson [OF ok(3)])
  show "actionContext u m rnd r' = Inr (ctx\<lparr>ac_runtime := withState ?side (playerObj state) ?rt,
      ac_state := state, ac_shop := shop\<rparr>)"
    using c(2-5) castPlayer_playerObj [OF ok(2)]
    by (cases ctx) (auto simp: actionContext_def parse shop ok(4) Let_def playerIdOf_def split: if_splits)
  show "hexists (actionLogKey m u) aid r'" by (simp add: r' hexists_def)
qed

lemma hash_setNx [simp]: "hgetall k (snd (setNx k' v t r)) = hgetall k r"
  by (simp add: setNx_def)

text \<open>Waiting for a lock that nobody gives up leaves the keyspace as it was.\<close>

definition noOthers :: "nat \<Rightarrow> world \<Rightarrow> world" where
  "noOthers attempt w = w"

lemma acquireLock_idle:
  "acquireLock n noOthers key owner ttl w = (b, w') \<Longrightarrow>
   (b \<and> getStr key (w_redis w) = None \<and> w' = w\<lparr>w_redis := setEx key (HStr owner) ttl (w_redis w)\<rparr>) \<or> (\<not> b \<and> w' = w)"
  by (induction n arbitrary: w) (auto simp: noOthers_def setNx_def getStr_def Let_def split: if_splits prod.splits)

lemma lockKey_not_hash [simp]: "shopLockKey m u \<noteq> runtimeKey m" "runtimeKey m \<noteq> shopLockKey m u"
  by (simp_all add: shopLockKey_def runtimeKey_def)

lemma lockKey_not_log [simp]: "shopLockKey m u \<noteq> actionLogKey m u'" "actionLogKey m u' \<noteq> shopLockKey m u"
  by (simp_all add: shopLockKey_def actionLogKey_def)

lemma release_view:
  "actionContext u m rnd (w_redis (releaseLock (shopLockKey m v) owner w)) = actionContext u m rnd (w_redis w)"
  "hexists (actionLogKey m u) aid (w_redis (releaseLock (shopLockKey m v) owner w)) = hexists (actionLogKey m u) aid (w_redis w)"
  by (auto simp: releaseLock_def releaseOwned_def getStr_def hexists_def intro!: actionContext_frame)

lemma acquire_view:
  "actionContext u m rnd (setEx (shopLockKey m v) x t r) = actionContext u m rnd r"
  "hexists (actionLogKey m u) aid (setEx (shopLockKey m v) x t r) = hexists (actionLogKey m u) aid r"
  by (auto simp: getStr_def hexists_def intro!: actionContext_frame)

text \<open>A request with a new id, under the lock, commits what its mutation computed.\<close>

lemma locked_commits:
  assumes ctx: "actionContext (q_userId q) m (q_round q) (w_redis w) = Inr ctx"
    and round: "hget (runtimeKey m) ''round'' (w_redis w) = Some (HStr (showNat (q_round q)))"
    and new: "\<not> hexists (actionLogKey m (q_userId q)) (q_actionId q) (w_redis w)"
    and ok: "shop_ok (ac_state ctx, ac_shop ctx)"
    and act: "shopAct sha (m_matchSeed (ac_runtime ctx)) (q_round q) (q_userId q) (q_action q) (ac_state ctx, ac_shop ctx) = Inr (state, shop)"
    and body: "lockedAction (q_userId q) m (q_round q) (q_actionId q) (requestMutation sha q) w = (res, w')"
  shows "(res = Inr False \<or> res = Inl ''match.not_found'') \<and> shopView (q_userId q) m (q_round q) w' = Some (state, shop)
     \<and> hexists (actionLogKey m (q_userId q)) (q_actionId q) (w_redis w')"
proof -
  note c = actionContext_InrD [OF ctx]
  have keeps: "shop_ok (state, shop)" "s_round shop = q_round q" "offers_ok shop"
    using shopAct_keeps [OF act] ok c(7) shopAct_offers [OF act] readShop_offers [OF c(6)] by auto
  then have ok': "player_ok state" "\<forall>x \<in> unitsOfPlayer state. priced x" by (simp_all add: shop_ok_def)
  have phase: "hget (runtimeKey m) ''phase'' (w_redis w) = Some (HStr (phaseName ShopPlace))"
    using parse_SomeD(1) [OF c(1)] c(3) by (simp add: hgetall_hget)
  have mut: "requestMutation sha q ctx = Inr ((state, shop), q_action q = Refresh)"
    by (simp add: requestMutation_def act)
  from body show ?thesis
  proof (cases rule: lockedAction_cases)
    case unchanged
    let ?ctx = "ctx\<lparr>ac_state := state, ac_shop := shop\<rparr>"
    have "fst (commitAction ?ctx (q_actionId q) (w_now w) (w_redis w)) = 1"
      using new phase round c(2,4,9) by (simp add: commitAction_def Let_def logAction_cases)
    then obtain r where "commitAction ?ctx (q_actionId q) (w_now w) (w_redis w) = (1, r)"
      by (metis prod.collapse)
    with commit_view(2) [OF ctx this ok' keeps(3,2)] body unchanged(1) ctx new mut have False
      by (auto simp: lockedAction_def persistAction_def Let_def andThen_def updateState_def matches_updateState_def
          matches_update_def publishState_def publishOffers_def split: if_splits)
    then show ?thesis ..
  next
    case (committed ctx' state' shop' emit)
    with ctx mut have same: "ctx' = ctx" "state' = state" "shop' = shop" by auto
    from commit_view [OF ctx committed(4) [unfolded same] ok' keeps(3,2)] committed(5)
    show ?thesis by (simp add: shopView_def)
  qed
qed

text \<open>
  C10: The shop service refines the shop. On an uncontended lock, in the shop phase of the round the
  request names, with an action id not used before, a request is exactly one step of the abstract
  shop on the player's view: what \<open>shopAct\<close> rejects is rejected with the same error and changes
  nothing, what it accepts is committed to Redis as computed, with the id logged.
\<close>

theorem shop_request_refines:
  assumes "actionContext (q_userId q) m (q_round q) (w_redis w) = Inr ctx"
    and "hget (runtimeKey m) ''round'' (w_redis w) = Some (HStr (showNat (q_round q)))"
    and "getStr (shopLockKey m (q_userId q)) (w_redis w) = None"
    and "\<not> hexists (actionLogKey m (q_userId q)) (q_actionId q) (w_redis w)"
    and "shop_ok (ac_state ctx, ac_shop ctx)"
  shows "case shopAct sha (m_matchSeed (ac_runtime ctx)) (q_round q) (q_userId q) (q_action q) (ac_state ctx, ac_shop ctx) of
      Inl e \<Rightarrow> fst (shopRequest sha env m q w) = Inl e \<and>
        shopView (q_userId q) m (q_round q) (snd (shopRequest sha env m q w)) = Some (ac_state ctx, ac_shop ctx)
    | Inr st \<Rightarrow> (fst (shopRequest sha env m q w) = Inr False \<or> fst (shopRequest sha env m q w) = Inl ''match.not_found'') \<and>
        shopView (q_userId q) m (q_round q) (snd (shopRequest sha env m q w)) = Some st \<and>
        hexists (actionLogKey m (q_userId q)) (q_actionId q) (w_redis (snd (shopRequest sha env m q w)))"
proof -
  let ?u = "q_userId q" and ?key = "shopLockKey m (q_userId q)"
  let ?w1 = "w\<lparr>w_redis := setEx ?key (HStr (q_owner q)) ACTION_LOCK_TTL_MS (w_redis w)\<rparr>"
  have acq: "acquireLock ACTION_LOCK_ATTEMPTS env ?key (q_owner q) ACTION_LOCK_TTL_MS w = (True, ?w1)"
    using assms(3) by (simp add: ACTION_LOCK_ATTEMPTS_def numeral_eq_Suc setNx_def getStr_def)
  obtain res w2 where body: "lockedAction ?u m (q_round q) (q_actionId q) (requestMutation sha q) ?w1 = (res, w2)" by fastforce
  have run: "shopRequest sha env m q w = (res, releaseLock ?key (q_owner q) w2)"
    using assms(4) acq body by (simp add: shopRequest_eq withAction_def finallyDo_def)
  have pre: "actionContext ?u m (q_round q) (w_redis ?w1) = Inr ctx" "\<not> hexists (actionLogKey m ?u) (q_actionId q) (w_redis ?w1)"
    "hget (runtimeKey m) ''round'' (w_redis ?w1) = Some (HStr (showNat (q_round q)))"
    using assms(1,2,4) by (simp_all add: acquire_view)
  show ?thesis
  proof (cases "shopAct sha (m_matchSeed (ac_runtime ctx)) (q_round q) ?u (q_action q) (ac_state ctx, ac_shop ctx)")
    case (Inl e)
    then have "res = Inl e" "w2 = ?w1"
      using body pre by (auto simp: lockedAction_def requestMutation_def)
    with Inl show ?thesis by (simp add: run shopView_def release_view acquire_view assms(1))
  next
    case (Inr st)
    then have "shopAct sha (m_matchSeed (ac_runtime ctx)) (q_round q) ?u (q_action q) (ac_state ctx, ac_shop ctx) = Inr (fst st, snd st)"
      by simp
    from locked_commits [OF pre(1,3,2) assms(5) this body] show ?thesis
      by (simp add: Inr run shopView_def release_view)
  qed
qed

subsection \<open>Whole sessions of requests\<close>

lemma request_keeps_view:
  assumes view: "shopView u m rnd w = Some st" and ok: "shop_ok st" and q: "q_userId q = u"
  shows "\<exists>st'. shopView u m rnd (snd (shopRequest sha noOthers m q w)) = Some st' \<and> shop_ok st' \<and>
    wealth (fst st') = wealth (fst st)"
proof -
  let ?key = "shopLockKey m u"
  have idle: "\<exists>st'. shopView u m rnd w' = Some st' \<and> shop_ok st' \<and> wealth (fst st') = wealth (fst st)"
    if "actionContext u m rnd (w_redis w') = actionContext u m rnd (w_redis w)" for w'
    using view ok that by (auto simp: shopView_def)
  show ?thesis
  proof (cases "hexists (actionLogKey m u) (q_actionId q) (w_redis w)")
    case True
    then show ?thesis using idle [of w] by (simp add: shopRequest_eq withAction_def q)
  next
    case new: False
    obtain b w1 where acq: "acquireLock ACTION_LOCK_ATTEMPTS noOthers ?key (q_owner q) ACTION_LOCK_TTL_MS w = (b, w1)"
      by fastforce
    show ?thesis
    proof (cases b)
      case False
      with acquireLock_idle [OF acq] have "w1 = w" by simp
      with False new acq show ?thesis using idle [of w] by (simp add: shopRequest_eq withAction_def q)
    next
      case True
      with acquireLock_idle [OF acq] have w1: "w1 = w\<lparr>w_redis := setEx ?key (HStr (q_owner q)) ACTION_LOCK_TTL_MS (w_redis w)\<rparr>"
        by simp
      obtain res w2 where body: "lockedAction u m (q_round q) (q_actionId q) (requestMutation sha q) w1 = (res, w2)" by fastforce
      have run: "snd (shopRequest sha noOthers m q w) = releaseLock ?key (q_owner q) w2"
        using new acq True body by (simp add: shopRequest_eq withAction_def finallyDo_def q)
      from body show ?thesis
      proof (cases rule: lockedAction_cases)
        case unchanged
        then show ?thesis using idle [of "releaseLock ?key (q_owner q) w2"]
          by (simp add: run release_view w1 acquire_view)
      next
        case (committed ctx state shop emit)
        have ctx: "actionContext u m rnd (w_redis w1) = Inr ctx" and st: "st = (ac_state ctx, ac_shop ctx)" and rnd: "q_round q = rnd"
        proof -
          obtain ctx0 where ctx0: "actionContext u m rnd (w_redis w1) = Inr ctx0" "st = (ac_state ctx0, ac_shop ctx0)"
            using view by (auto simp: shopView_def w1 acquire_view split: sum.splits)
          have "q_round q = rnd"
            using actionContext_InrD(1,2) [OF committed(1)] actionContext_InrD(1,2) [OF ctx0(1)] by simp
          with committed(1) ctx0 show "actionContext u m rnd (w_redis w1) = Inr ctx" "st = (ac_state ctx, ac_shop ctx)"
            "q_round q = rnd" by simp_all
        qed
        have act: "shopAct sha (m_matchSeed (ac_runtime ctx)) rnd u (q_action q) st = Inr (state, shop)"
          using committed(2) by (auto simp: requestMutation_def q rnd st map_sum_def split: sum.splits)
        have keeps: "shop_ok (state, shop)" "s_round shop = rnd" "offers_ok shop" "wealth state = wealth (fst st)"
          using shopAct_keeps [OF act] ok actionContext_InrD(7) [OF ctx] shopAct_offers [OF act]
            readShop_offers [OF actionContext_InrD(6) [OF ctx]] by (auto simp: st)
        then have "player_ok state" "\<forall>x \<in> unitsOfPlayer state. priced x" by (simp_all add: shop_ok_def)
        from commit_view(1) [OF ctx committed(4) this keeps(3,2)] keeps show ?thesis
          by (simp add: run shopView_def release_view)
      qed
    qed
  qed
qed

text \<open>
  C11: Conservation of value end to end. However many requests a player sends in a shop phase, valid
  or not, repeated, for a stale round or while the lock is taken, what Redis holds for that player
  afterwards is still well-formed and worth what it was before.
\<close>

theorem shop_service_conserves_wealth:
  assumes "shopView u m rnd w = Some st" and "shop_ok st" and "list_all (\<lambda>q. q_userId q = u) qs"
  shows "\<exists>st'. shopView u m rnd (fold (\<lambda>q w. snd (shopRequest sha noOthers m q w)) qs w) = Some st' \<and>
    shop_ok st' \<and> wealth (fst st') = wealth (fst st)"
  using assms
proof (induction qs arbitrary: w st)
  case (Cons q qs)
  from request_keeps_view [OF Cons.prems(1,2), of q sha] Cons.prems(3) obtain st1 where
    st1: "shopView u m rnd (snd (shopRequest sha noOthers m q w)) = Some st1" "shop_ok st1"
      "wealth (fst st1) = wealth (fst st)" by auto
  from Cons.IH [OF st1(1,2)] Cons.prems(3) st1(3) show ?case by simp
qed auto

subsection \<open>A concrete session\<close>

definition shopPlayer :: player where
  "shopPlayer = \<lparr>p_hp = 100, p_gold = 5, p_ready = False, p_board = replicate 9 None, p_bench = replicate 8 None\<rparr>"

definition shopStock :: StoredShop where
  "shopStock = \<lparr>s_round = 1, s_refreshCount = 0, s_refreshUsed = False,
     s_offers = [Some \<lparr>of_offerId = ''o1'', of_unitId = Tank, of_star = 0\<rparr>, None, None, None, None]\<rparr>"

definition shopRow :: Match where
  "shopRow = \<lparr>mt_id = ''m1'', mt_player1Id = ''alice'', mt_player2Id = ''bob'', mt_winnerId = None,
     mt_status = InProgress, mt_matchSeed = ''seed'', mt_wipeIndexP1 = 0, mt_wipeIndexP2 = 0,
     mt_p1State = JNull, mt_p2State = JNull, mt_createdAt = 0, mt_finishedAt = None\<rparr>"

definition shopWorld :: world where
  "shopWorld = \<lparr>w_redis = setEx (shopKey ''m1'' ''alice'') (HJson (shopJson shopStock)) SHOP_TTL_SECONDS
       (hsets (runtimeKey ''m1'') (initialRuntimeHash shopRow (''Alice'', ''Bob'')) emptyRedis),
     w_matches = [shopRow], w_rounds = [], w_users = [], w_jobs = [], w_pub = [],
     w_combatResult = (\<lambda>_. None), w_cacheUp = True, w_now = 5\<rparr>"

lemma normalize_null:
  "normalizePlayerState (Some JNull) = \<lparr>p_hp = 100, p_gold = 5, p_ready = False, p_board = replicate 9 None, p_bench = replicate 8 None\<rparr>"
  by (simp add: normalizePlayerState_def getProp_def normalizeSlots_def js_nth_def numeral_eq_Suc)

lemma shopWorld_context:
  "\<exists>ctx. actionContext ''alice'' ''m1'' 1 (w_redis shopWorld) = Inr ctx \<and> ac_state ctx = shopPlayer \<and> ac_shop ctx = shopStock"
proof -
  have empty: "hgetall (runtimeKey ''m1'') emptyRedis = Map.empty"
    by (simp add: hgetall_def emptyRedis_def)
  have hash: "hgetall (runtimeKey ''m1'') (w_redis shopWorld) = map_of (initialRuntimeHash shopRow (''Alice'', ''Bob''))"
    unfolding shopWorld_def world.simps hgetall_setEx
    by (rule hgetall_fresh [OF empty]) (simp add: initialRuntimeHash_def Let_def)
  have shop: "readShop ''m1'' ''alice'' (w_redis shopWorld) = Some shopStock"
    using shopOf_shopJson [of shopStock]
    by (simp add: readShop_def shopWorld_def getStr_def) (simp add: offers_ok_def shopStock_def)
  have cast: "castPlayer \<lparr>p_hp = 100, p_gold = 5, p_ready = False, p_board = replicate 9 None, p_bench = replicate 8 None\<rparr> =
      Some shopPlayer"
    by (simp add: castPlayer_def castSlots_def shopPlayer_def list_all_iff)
  have "mt_id shopRow = ''m1''" by (simp add: shopRow_def)
  with runtime_hash_start [of shopRow "''Alice''" "''Bob''"] hash shop cast show ?thesis
    by (simp add: actionContext_def Let_def sideState_def normalize_null shopRow_def shopStock_def)
qed

lemma shopWorld_ok: "shop_ok (shopPlayer, shopStock)"
proof -
  have "roster src shopPlayer = replicate (if src = Board then 9 else 8) None" for src
    by (cases src) (simp_all add: shopPlayer_def)
  then have "unitsOfPlayer shopPlayer = {}" by (auto simp: unitsOfPlayer_def)
  then show ?thesis by (simp add: shop_ok_def player_ok_def) (simp add: shopPlayer_def shopStock_def)
qed

definition demoRequest :: "string \<Rightarrow> ShopAction \<Rightarrow> request" where
  "demoRequest aid a = \<lparr>q_owner = ''owner'', q_userId = ''alice'', q_round = 1, q_actionId = aid, q_action = a\<rparr>"

theorem shop_request_refines_witness:
  "\<exists>st. shopView ''alice'' ''m1'' 1 (snd (shopRequest (\<lambda>_. []) noOthers ''m1'' (demoRequest ''a1'' (Buy ''u1'' 0)) shopWorld)) = Some st \<and>
     p_gold (fst st) = 3"
proof -
  obtain ctx where ctx: "actionContext ''alice'' ''m1'' 1 (w_redis shopWorld) = Inr ctx" "ac_state ctx = shopPlayer"
    "ac_shop ctx = shopStock" using shopWorld_context by blast
  let ?q = "demoRequest ''a1'' (Buy ''u1'' 0)"
  have pre: "actionContext (q_userId ?q) ''m1'' (q_round ?q) (w_redis shopWorld) = Inr ctx"
    "shop_ok (ac_state ctx, ac_shop ctx)"
    using ctx shopWorld_ok by (simp_all add: demoRequest_def)
  have round: "hget (runtimeKey ''m1'') ''round'' (w_redis shopWorld) = Some (HStr (showNat (q_round ?q)))"
    by (simp add: shopWorld_def hget_hsets initialRuntimeHash_def Let_def demoRequest_def show_one(1) [simplified])
  have free: "getStr (shopLockKey ''m1'' (q_userId ?q)) (w_redis shopWorld) = None"
    by (simp add: shopWorld_def getStr_def emptyRedis_def)
  have new: "\<not> hexists (actionLogKey ''m1'' (q_userId ?q)) (q_actionId ?q) (w_redis shopWorld)"
    by (simp add: shopWorld_def hexists_def hget_hsets) (simp add: hget_def emptyRedis_def)
  obtain st where "buyUnit ''u1'' 0 (shopPlayer, shopStock) = Inr st" "p_gold (fst st) = 3"
    by (simp add: buyUnit_def shopPlayer_def shopStock_def js_nth_def Let_def numeral_eq_Suc)
  with shop_request_refines [OF pre(1) round free new pre(2), of "\<lambda>_. []" noOthers] ctx show ?thesis
    by (simp add: demoRequest_def)
qed

theorem shop_service_conserves_wealth_witness:
  "\<exists>st'. shopView ''alice'' ''m1'' 1 (fold (\<lambda>q w. snd (shopRequest (\<lambda>_. []) noOthers ''m1'' q w))
      [demoRequest ''a1'' (Buy ''u1'' 0), demoRequest ''a2'' (Sell Bench 0)] shopWorld) = Some st' \<and>
    wealth (fst st') = 5"
proof -
  have view: "shopView ''alice'' ''m1'' 1 shopWorld = Some (shopPlayer, shopStock)"
    using shopWorld_context by (auto simp: shopView_def)
  have "wealth shopPlayer = 5" by (simp add: wealth_def shopPlayer_def sum_list_replicate)
  moreover have "list_all (\<lambda>q. q_userId q = ''alice'') [demoRequest ''a1'' (Buy ''u1'' 0), demoRequest ''a2'' (Sell Bench 0)]"
    by (simp add: demoRequest_def)
  ultimately show ?thesis
    using shop_service_conserves_wealth [OF view shopWorld_ok, of _ "\<lambda>_. []"] by fastforce
qed

end
