(* ===== verification/Match_Runtime.thy ===== *)
theory Match_Runtime
  imports Shop_Refinement
begin

text \<open>
  The round orchestrator: \<open>runtime/match.runtime.adapter.ts\<close>, and \<open>runtime/combat.coordinator.ts\<close>, which
  it calls to simulate the battle. A handler is a function on the world, statement by statement in
  the order of the code. What the handlers get from outside is in \<open>ports\<close>: the digest, the
  host name, the generated ids, the configured deadline, and what other replicas do while a handler
  waits for the action lock (\<open>pt_env\<close>) or while the engine runs (\<open>pt_during\<close>).
\<close>

definition SHOP_PHASE_SECONDS :: nat where "SHOP_PHASE_SECONDS = 40"

definition SHOP_PHASE_MS :: int where "SHOP_PHASE_MS = int SHOP_PHASE_SECONDS * 1000"

definition RUNTIME_TTL_SECONDS :: int where "RUNTIME_TTL_SECONDS = 30 * 60"

definition ROUND_GOLD :: int where "ROUND_GOLD = 5"

definition TIE_DAMAGE :: int where "TIE_DAMAGE = 5"

definition ROUND_READY_GRACE_MS :: int where "ROUND_READY_GRACE_MS = 3000"

definition ROUND_READY_GRACE_SECONDS :: nat where "ROUND_READY_GRACE_SECONDS = 3"

definition COMBAT_LOCK_TTL_SECONDS :: int where "COMBAT_LOCK_TTL_SECONDS = 30"

record ports =
  pt_sha :: "string \<Rightarrow> nat list"
  pt_instance :: string
  pt_owner :: string
  pt_uuid :: string
  pt_deadline :: int
  pt_env :: "nat \<Rightarrow> world \<Rightarrow> world"
  pt_during :: "world \<Rightarrow> world"

type_synonym BattleWinner = "Side option"

subsection \<open>Reading the runtime\<close>

definition findRuntime :: "string \<Rightarrow> world \<Rightarrow> MatchRuntimeState option \<times> world" where
  "findRuntime matchId w =
     (let key = runtimeKey matchId; hash = hgetall key (w_redis w)
      in case parseRuntimeHash matchId hash of
           None \<Rightarrow> (None, w)
         | Some runtime \<Rightarrow>
             if hString (hash ''player1Name'') = [] \<or> hString (hash ''player2Name'') = []
             then let names = usernamesForPlayers (m_player1Id runtime) (m_player2Id runtime) w
                  in (Some (runtime\<lparr>m_player1Name := fst names, m_player2Name := snd names\<rparr>),
                      onRedis (hsets key [(''player1Name'', HStr (fst names)), (''player2Name'', HStr (snd names))]) w)
             else (Some runtime, w))"

definition getRuntime :: "string \<Rightarrow> world \<Rightarrow> MatchRuntimeState result \<times> world" where
  "getRuntime matchId w = (case findRuntime matchId w of
      (None, w') \<Rightarrow> (Inl ''match.runtime_not_found'', w')
    | (Some runtime, w') \<Rightarrow> (Inr runtime, w'))"

definition requireActionPhase :: "string \<Rightarrow> nat \<Rightarrow> MatchPhase \<Rightarrow> world \<Rightarrow> MatchRuntimeState result \<times> world" where
  "requireActionPhase matchId rnd phase =
     andThen (getRuntime matchId) (\<lambda>runtime.
       andThen (guard (m_round runtime = rnd) ''match.round_mismatch'') (\<lambda>_.
       andThen (guard (m_phase runtime = phase) ''match.not_your_turn'') (\<lambda>_. ret runtime)))"

definition sideFor :: "MatchRuntimeState \<Rightarrow> string \<Rightarrow> Side result" where
  "sideFor runtime userId =
     (if m_player1Id runtime = userId then Inr P1
      else if m_player2Id runtime = userId then Inr P2
      else Inl ''match.not_your_match'')"

text \<open>A pure step inside a handler: its error is the handler's.\<close>

definition lift :: "'a result \<Rightarrow> 'w \<Rightarrow> 'a result \<times> 'w" where
  "lift r w = (r, w)"

lemma lift_simp [simp]: "lift r w = (r, w)"
  by (simp add: lift_def)

definition readyCountOf :: "MatchRuntimeState \<Rightarrow> nat" where
  "readyCountOf runtime = of_bool (m_readyP1 runtime) + of_bool (m_readyP2 runtime)"

definition statePayloadForUser :: "string \<Rightarrow> string \<Rightarrow> world \<Rightarrow> MatchStatePayload result \<times> world" where
  "statePayloadForUser matchId userId =
     andThen (getRuntime matchId) (\<lambda>runtime.
     andThen (lift (sideFor runtime userId)) (\<lambda>side.
       ret (matchStatePayload runtime side (sideState side runtime)
              (sideState (case side of P1 \<Rightarrow> P2 | P2 \<Rightarrow> P1) runtime) (readyCountOf runtime))))"

definition getCombatResultForReconnect :: "string \<Rightarrow> world \<Rightarrow> (nat \<times> SnapEvent list) option \<times> world" where
  "getCombatResultForReconnect matchId w =
     (case findRuntime matchId w of
        (None, w') \<Rightarrow> (None, w')
      | (Some runtime, w') \<Rightarrow>
          if m_phase runtime \<noteq> BattlePhase \<or> m_combatRound runtime \<noteq> Some (m_round runtime) then (None, w')
          else (map_option (Pair (m_round runtime)) (getCombatResult matchId w'), w'))"

subsection \<open>Payloads and jobs\<close>

definition playerView :: "Side \<Rightarrow> MatchRuntimeState \<Rightarrow> PlayerView" where
  "playerView side rt =
     \<lparr>pv_id = playerIdOf side rt,
      pv_username = (case side of P1 \<Rightarrow> m_player1Name rt | P2 \<Rightarrow> m_player2Name rt),
      pv_hp = p_hp (sideState side rt), pv_gold = p_gold (sideState side rt),
      pv_ready = (case side of P1 \<Rightarrow> m_readyP1 rt | P2 \<Rightarrow> m_readyP2 rt)\<rparr>"

definition phasePayload :: "MatchRuntimeState \<Rightarrow> nat \<Rightarrow> PhasePayload" where
  "phasePayload runtime timer =
     \<lparr>ph_matchId = m_matchId runtime, ph_phase = m_phase runtime, ph_round = m_round runtime,
      ph_timer = timer, ph_players = [playerView P1 runtime, playerView P2 runtime]\<rparr>"

definition schedulePhaseStart :: "string \<Rightarrow> nat \<Rightarrow> int \<Rightarrow> world \<Rightarrow> world" where
  "schedulePhaseStart matchId rnd delayMs = addJob (PhaseStart matchId rnd delayMs)"

definition scheduleCombatDoneTimeout :: "string \<Rightarrow> nat \<Rightarrow> int \<Rightarrow> world \<Rightarrow> world" where
  "scheduleCombatDoneTimeout matchId rnd delayMs = addJob (CombatDoneTimeout matchId rnd delayMs)"

definition scheduleRoundReadyTimeout :: "string \<Rightarrow> nat \<Rightarrow> int \<Rightarrow> world \<Rightarrow> world" where
  "scheduleRoundReadyTimeout matchId rnd delayMs = addJob (RoundReadyTimeout matchId rnd delayMs)"

definition scheduleDisconnectDetect :: "string \<Rightarrow> string \<Rightarrow> int \<Rightarrow> world \<Rightarrow> world" where
  "scheduleDisconnectDetect matchId userId delayMs = addJob (DisconnectDetect matchId userId delayMs)"

subsection \<open>Starting a match\<close>

text \<open>
  Unlike \<open>normalizePlayerState\<close> this keeps a stored array as it is; an element that is neither an
  object nor null has no place in a payload and reads as null.
\<close>

definition initialPlayerState :: "json \<Rightarrow> jobj PlayerState" where
  "initialPlayerState state =
     (let obj = (case asObj (Some state) of Some kvs \<Rightarrow> kvs | None \<Rightarrow> []);
          num = (\<lambda>k d. case getProp obj k of Some (JNum n) \<Rightarrow> n | _ \<Rightarrow> d);
          slots = (\<lambda>k n. case getProp obj k of Some (JArr xs) \<Rightarrow> map (\<lambda>j. asObj (Some j)) xs | _ \<Rightarrow> replicate n None)
      in \<lparr>p_hp = num ''hp'' 100, p_gold = num ''gold'' 5, p_ready = False,
          p_board = slots ''board'' 9, p_bench = slots ''bench'' 8\<rparr>)"

definition initializeMatch :: "ports \<Rightarrow> Match \<Rightarrow> world \<Rightarrow> unit result \<times> world" where
  "initializeMatch pt match w =
     (let key = runtimeKey (mt_id match);
          names = usernamesForPlayers (mt_player1Id match) (mt_player2Id match) w;
          runtime = \<lparr>m_matchId = mt_id match, m_player1Id = mt_player1Id match, m_player2Id = mt_player2Id match,
            m_player1Name = fst names, m_player2Name = snd names, m_matchSeed = mt_matchSeed match,
            m_phase = ShopPlace, m_round = 1, m_p1State = initialPlayerState (mt_p1State match),
            m_p2State = initialPlayerState (mt_p2State match), m_readyP1 = False, m_readyP2 = False,
            m_wipeIndexP1 = mt_wipeIndexP1 match, m_wipeIndexP2 = mt_wipeIndexP2 match,
            m_combatRound = None, m_scoutRound = None,
            m_scoutP1Board = replicate 9 None, m_scoutP2Board = replicate 9 None\<rparr>;
          w1 = onRedis (expire key RUNTIME_TTL_SECONDS) (onRedis (hsets key (initialRuntimeHash match names)) w);
          w2 = schedulePhaseStart (mt_id match) 1 SHOP_PHASE_MS w1;
          w3 = publish (mt_id match) (PhaseEvent (phasePayload runtime SHOP_PHASE_SECONDS)) w2;
          w4 = publishState runtime P1 (m_p1State runtime) w3
      in (Inr (), rollOffersForMatch (pt_sha pt) runtime w4))"

subsection \<open>Combat\<close>

definition roundSeed :: "(string \<Rightarrow> nat list) \<Rightarrow> string \<Rightarrow> nat \<Rightarrow> int" where
  "roundSeed sha matchSeed rnd = hashString sha (matchSeed @ '':'' @ showNat rnd)"

fun visibleEvent :: "CombatEvent \<Rightarrow> bool" where
  "visibleEvent (CycleEndEv _) = False"
| "visibleEvent (BattleEndEv _ _) = False"
| "visibleEvent (DeathEv _ _ _ _) = False"
| "visibleEvent _ = True"

definition cycleCountOf :: "SnapEvent list \<Rightarrow> nat" where
  "cycleCountOf events = (if events = [] then 0 else case fst (last events) of BattleEndEv c _ \<Rightarrow> c | _ \<Rightarrow> 0)"

definition combatResultKey :: "string \<Rightarrow> string" where
  "combatResultKey m = ''match:'' @ m @ '':combat-result''"

text \<open>The battle of a runtime; reading a board throws on an invalid unit.\<close>

definition battleEvents :: "(string \<Rightarrow> nat list) \<Rightarrow> MatchRuntimeState \<Rightarrow> SnapEvent list result" where
  "battleEvents sha runtime =
     (case unitsFromBoard (p_board (m_p1State runtime)) P1 of
        Inl e \<Rightarrow> Inl e
      | Inr us1 \<Rightarrow>
          (case unitsFromBoard (p_board (m_p2State runtime)) P2 of
             Inl e \<Rightarrow> Inl e
           | Inr us2 \<Rightarrow> Inr (runBattle \<lparr>bs_p1Units = us1, bs_p2Units = us2,
               bs_roundSeed = roundSeed sha (m_matchSeed runtime) (m_round runtime),
               bs_matchSeed = m_matchSeed runtime, bs_rng = None\<rparr>)))"

definition combatBody :: "ports \<Rightarrow> string \<Rightarrow> nat \<Rightarrow> world \<Rightarrow> bool result \<times> world" where
  "combatBody pt matchId expectedRound w =
     (case parseRuntimeHash matchId (hgetall (runtimeKey matchId) (w_redis w)) of
        None \<Rightarrow> (Inr False, w)
      | Some runtime \<Rightarrow>
          if m_phase runtime \<noteq> BattlePhase \<or> m_round runtime \<noteq> expectedRound \<or> m_combatRound runtime = Some expectedRound
          then (Inr False, w)
          else let w1 = clearCombatResult matchId (onRedis (del (combatDoneKey matchId)) w)
               in case battleEvents (pt_sha pt) runtime of
                    Inl e \<Rightarrow> (Inl e, w1)
                  | Inr events \<Rightarrow>
                      let w2 = pt_during pt w1 in
                      case parseRuntimeHash matchId (hgetall (runtimeKey matchId) (w_redis w2)) of
                        None \<Rightarrow> (Inr False, w2)
                      | Some current \<Rightarrow>
                          if m_phase current \<noteq> BattlePhase \<or> m_round current \<noteq> expectedRound then (Inr False, w2)
                          else let visibleEventCount = length (filter (\<lambda>e. visibleEvent (fst e)) events);
                                   timeout = combatDoneTimeoutForEventCount (int visibleEventCount) (pt_deadline pt)
                               in andThen (appendRoundEvents matchId (int (m_round runtime)) events) (\<lambda>_.
                                  andThen (modify (writeCombatResult matchId events (combatResultTtlSeconds timeout))) (\<lambda>_.
                                  andThen (modify (onRedis (hset (runtimeKey matchId) ''combatRound'' (HStr (showNat (m_round runtime)))))) (\<lambda>_.
                                  andThen (\<lambda>w. modify (publish matchId (CombatEvents
                                      \<lparr>cp_matchId = matchId, cp_round = m_round runtime, cp_cycleCount = cycleCountOf events,
                                       cp_endedAt = w_now w, cp_events = events,
                                       cp_board1 = p_board (m_p1State runtime), cp_board2 = p_board (m_p2State runtime)\<rparr>)) w) (\<lambda>_.
                                  andThen (modify (scheduleCombatDoneTimeout matchId (m_round runtime) timeout)) (\<lambda>_.
                                    ret True))))) w2)"

definition runCombat :: "ports \<Rightarrow> string \<Rightarrow> nat \<Rightarrow> world \<Rightarrow> bool result \<times> world" where
  "runCombat pt matchId expectedRound w =
     (let owner = HStr (pt_instance pt @ '':'' @ pt_owner pt);
          (acquired, r) = setNx (combatLockKey matchId) owner COMBAT_LOCK_TTL_SECONDS (w_redis w);
          w1 = w\<lparr>w_redis := r\<rparr>
      in if \<not> acquired then (Inr False, w1)
         else finallyDo (combatBody pt matchId expectedRound)
                (onRedis (\<lambda>r. snd (releaseOwned (combatLockKey matchId) owner r))) w1)"

subsection \<open>Resolving a round\<close>

definition battleWinner :: "SnapEvent list \<Rightarrow> BattleWinner result" where
  "battleWinner events =
     (case List.find (\<lambda>e. case fst e of BattleEndEv _ _ \<Rightarrow> True | _ \<Rightarrow> False) (rev events) of
        Some (BattleEndEv _ winner, _) \<Rightarrow> Inr winner
      | _ \<Rightarrow> Inl ''combat.internal: battle_end event missing or invalid'')"

record Damage =
  dm_p1 :: int
  dm_p2 :: int
  dm_wipeIndexP1 :: nat
  dm_wipeIndexP2 :: nat

definition damageFor :: "BattleWinner \<Rightarrow> nat \<Rightarrow> nat \<Rightarrow> Damage" where
  "damageFor winner p1Index p2Index =
     (case winner of
        None \<Rightarrow> \<lparr>dm_p1 = TIE_DAMAGE, dm_p2 = TIE_DAMAGE, dm_wipeIndexP1 = p1Index, dm_wipeIndexP2 = p2Index\<rparr>
      | Some P1 \<Rightarrow> (let next' = min 5 (p2Index + 1)
                     in \<lparr>dm_p1 = 0, dm_p2 = int next' * 5, dm_wipeIndexP1 = p1Index, dm_wipeIndexP2 = next'\<rparr>)
      | Some P2 \<Rightarrow> (let next' = min 5 (p1Index + 1)
                     in \<lparr>dm_p1 = int next' * 5, dm_p2 = 0, dm_wipeIndexP1 = next', dm_wipeIndexP2 = p2Index\<rparr>))"

text \<open>\<open>winnerId\<close>: \<open>None\<close> is \<open>undefined\<close> (the match goes on), \<open>Some None\<close> is \<open>null\<close> (a draw).\<close>

record Resolution =
  rs_damage :: Damage
  rs_p1 :: "jobj PlayerState"
  rs_p2 :: "jobj PlayerState"
  rs_payload :: DamagePayload
  rs_winnerId :: "string option option"

definition resolveRound :: "MatchRuntimeState \<Rightarrow> nat \<Rightarrow> SnapEvent list \<Rightarrow> Resolution result" where
  "resolveRound runtime rnd events =
     (case battleWinner events of
        Inl e \<Rightarrow> Inl e
      | Inr winner \<Rightarrow>
          let s1 = m_p1State runtime; s2 = m_p2State runtime;
              damage = damageFor winner (m_wipeIndexP1 runtime) (m_wipeIndexP2 runtime);
              p1 = s1\<lparr>p_hp := max 0 (p_hp s1 - dm_p1 damage)\<rparr>;
              p2 = s2\<lparr>p_hp := max 0 (p_hp s2 - dm_p2 damage)\<rparr>;
              payload = \<lparr>dp_matchId = m_matchId runtime, dp_round = rnd,
                dp_p1 = \<lparr>sd_wiped = (winner = Some P2), sd_tie = (winner = None), sd_hpBefore = p_hp s1,
                         sd_hpAfter = p_hp p1, sd_damageApplied = dm_p1 damage\<rparr>,
                dp_p2 = \<lparr>sd_wiped = (winner = Some P1), sd_tie = (winner = None), sd_hpBefore = p_hp s2,
                         sd_hpAfter = p_hp p2, sd_damageApplied = dm_p2 damage\<rparr>,
                dp_winner = winner\<rparr>;
              winnerId = (if p_hp p1 \<le> 0 \<and> p_hp p2 \<le> 0 then Some None
                          else if p_hp p1 \<le> 0 then Some (Some (m_player2Id runtime))
                          else if p_hp p2 \<le> 0 then Some (Some (m_player1Id runtime))
                          else None)
          in Inr \<lparr>rs_damage = damage, rs_p1 = p1, rs_p2 = p2, rs_payload = payload, rs_winnerId = winnerId\<rparr>)"

definition publishDamagePreview :: "MatchRuntimeState \<Rightarrow> nat \<Rightarrow> world \<Rightarrow> bool result \<times> world" where
  "publishDamagePreview runtime rnd w =
     (case getCombatResult (m_matchId runtime) w of
        None \<Rightarrow> (Inr False, w)
      | Some events \<Rightarrow>
          (case resolveRound runtime rnd events of
             Inl e \<Rightarrow> (Inl e, w)
           | Inr res \<Rightarrow> (Inr True, publish (m_matchId runtime) (DamageEvent (rs_payload res)) w)))"

definition persistSnapshot ::
  "MatchRuntimeState \<Rightarrow> jobj PlayerState \<Rightarrow> jobj PlayerState \<Rightarrow> world \<Rightarrow> unit result \<times> world" where
  "persistSnapshot runtime p1State p2State =
     updateRuntimeSnapshot (m_matchId runtime) (playerJson p1State) (playerJson p2State)
       (m_wipeIndexP1 runtime) (m_wipeIndexP2 runtime)"

definition flipPhase :: "ports \<Rightarrow> string \<Rightarrow> nat \<times> MatchPhase \<Rightarrow> nat \<times> MatchPhase \<Rightarrow> world \<Rightarrow> bool \<times> world" where
  "flipPhase pt matchId v v' w =
     (let (flipped, r) = flipTo (runtimeKey matchId) (pt_instance pt) v v' (w_redis w) in (flipped, w\<lparr>w_redis := r\<rparr>))"

subsection \<open>Phase transitions\<close>

definition tryStartCombat :: "ports \<Rightarrow> string \<Rightarrow> nat \<Rightarrow> world \<Rightarrow> bool result \<times> world" where
  "tryStartCombat pt matchId rnd w =
     (case findRuntime matchId w of
        (None, w1) \<Rightarrow> (Inr False, w1)
      | (Some runtime, w1) \<Rightarrow>
          if m_phase runtime \<noteq> ShopPlace \<or> m_round runtime \<noteq> rnd then (Inr False, w1)
          else let (flipped, w2) = flipPhase pt matchId (rnd, ShopPlace) (rnd, BattlePhase) w1
               in if \<not> flipped then (Inr False, w2)
                  else let runtime' = runtime\<lparr>m_phase := BattlePhase\<rparr>
                       in andThen (modify (publish matchId (PhaseEvent (phasePayload runtime' 0)))) (\<lambda>_.
                          andThen (modify (publishState runtime' P1 (m_p1State runtime'))) (\<lambda>_.
                          andThen (runCombat pt matchId rnd) (\<lambda>ran.
                            if ran then andThen (publishDamagePreview runtime' rnd) (\<lambda>_. ret True) else ret False))) w2)"

definition advanceResolvedRound :: "ports \<Rightarrow> string \<Rightarrow> nat \<Rightarrow> world \<Rightarrow> bool result \<times> world" where
  "advanceResolvedRound pt matchId rnd w =
     (case findRuntime matchId w of
        (None, w1) \<Rightarrow> (Inr False, w1)
      | (Some runtime, w1) \<Rightarrow>
          if m_phase runtime \<noteq> Resolved \<or> m_round runtime \<noteq> rnd then (Inr False, w1)
          else let nextRound = rnd + 1;
                   (flipped, w2) = flipPhase pt matchId (rnd, Resolved) (nextRound, ShopPlace) w1
               in if \<not> flipped then (Inr False, w2)
                  else let key = runtimeKey matchId;
                           w3 = onRedis (hsets key [(''readyP1'', HStr ''0''), (''readyP2'', HStr ''0''), (''combatRound'', HStr [])]) w2;
                           runtime' = runtime\<lparr>m_phase := ShopPlace, m_round := nextRound, m_readyP1 := False,
                             m_readyP2 := False, m_combatRound := None\<rparr>;
                           w4 = schedulePhaseStart matchId nextRound SHOP_PHASE_MS (onRedis (expire key RUNTIME_TTL_SECONDS) w3);
                           w5 = publish matchId (PhaseEvent (phasePayload runtime' SHOP_PHASE_SECONDS)) w4;
                           w6 = publishState runtime' P1 (m_p1State runtime') w5
                       in (Inr True, rollOffersForMatch (pt_sha pt) runtime' w6))"

text \<open>The second half of \<open>applyDamageAndAdvance\<close>, once its flip has won: a finished match ...\<close>

definition finishMatch :: "MatchRuntimeState \<Rightarrow> Resolution \<Rightarrow> string option \<Rightarrow> world \<Rightarrow> bool result \<times> world" where
  "finishMatch runtime res winnerId =
     (let matchId = m_matchId runtime in
      andThen (persistSnapshot runtime (rs_p1 res) (rs_p2 res)) (\<lambda>_.
      andThen (modify (onRedis (hsets (runtimeKey matchId)
          [(''phase'', HStr ''finished''), (''p1State'', HJson (playerJson (rs_p1 res))),
           (''p2State'', HJson (playerJson (rs_p2 res))), (''wipeIndexP1'', HStr (showNat (m_wipeIndexP1 runtime))),
           (''wipeIndexP2'', HStr (showNat (m_wipeIndexP2 runtime)))]))) (\<lambda>_.
      andThen (modify (publish matchId (DamageEvent (rs_payload res)))) (\<lambda>_.
      andThen (finalize matchId winnerId HpZero) (\<lambda>_. ret True)))))"

text \<open>... or a round summary.\<close>

definition summarizeRound :: "MatchRuntimeState \<Rightarrow> Resolution \<Rightarrow> nat \<Rightarrow> world \<Rightarrow> bool result \<times> world" where
  "summarizeRound runtime res rnd =
     (let matchId = m_matchId runtime; key = runtimeKey matchId;
          p1 = (rs_p1 res)\<lparr>p_gold := p_gold (rs_p1 res) + ROUND_GOLD, p_ready := False\<rparr>;
          p2 = (rs_p2 res)\<lparr>p_gold := p_gold (rs_p2 res) + ROUND_GOLD, p_ready := False\<rparr>;
          scout1 = summarizeBoard (p_board p1); scout2 = summarizeBoard (p_board p2);
          runtime' = runtime\<lparr>m_phase := Resolved, m_p1State := p1, m_p2State := p2, m_readyP1 := False,
            m_readyP2 := False, m_combatRound := None, m_scoutRound := Some rnd,
            m_scoutP1Board := scout1, m_scoutP2Board := scout2\<rparr>
      in andThen (persistSnapshot runtime p1 p2) (\<lambda>_.
         andThen (modify (onRedis (hsets key
             [(''p1State'', HJson (playerJson p1)), (''p2State'', HJson (playerJson p2)),
              (''readyP1'', HStr ''0''), (''readyP2'', HStr ''0''),
              (''wipeIndexP1'', HStr (showNat (m_wipeIndexP1 runtime))),
              (''wipeIndexP2'', HStr (showNat (m_wipeIndexP2 runtime))),
              (''combatRound'', HStr []), (''scoutRound'', HStr (showNat rnd)),
              (''scoutP1Board'', HJson (summaryJson scout1)), (''scoutP2Board'', HJson (summaryJson scout2))]))) (\<lambda>_.
         andThen (modify (onRedis (expire key RUNTIME_TTL_SECONDS))) (\<lambda>_.
         andThen (modify (publish matchId (DamageEvent (rs_payload res)))) (\<lambda>_.
         andThen (modify (publish matchId (PhaseEvent (phasePayload runtime' 0)))) (\<lambda>_.
         andThen (modify (publishState runtime' P1 p1)) (\<lambda>_. ret True)))))))"

definition applyDamageAndAdvance :: "ports \<Rightarrow> string \<Rightarrow> nat \<Rightarrow> world \<Rightarrow> bool result \<times> world" where
  "applyDamageAndAdvance pt matchId rnd w =
     (case findRuntime matchId w of
        (None, w1) \<Rightarrow> (Inr False, w1)
      | (Some runtime, w1) \<Rightarrow>
          if m_phase runtime \<noteq> BattlePhase \<or> m_round runtime \<noteq> rnd \<or> m_combatRound runtime \<noteq> Some rnd then (Inr False, w1)
          else case getCombatResult matchId w1 of
                 None \<Rightarrow> (Inr False, w1)
               | Some events \<Rightarrow>
                   (case resolveRound runtime rnd events of
                      Inl e \<Rightarrow> (Inl e, w1)
                    | Inr res \<Rightarrow>
                        let (flipped, w2) = flipPhase pt matchId (rnd, BattlePhase) (rnd, Resolved) w1
                        in if \<not> flipped then (Inr False, w2)
                           else let runtime' = runtime\<lparr>m_wipeIndexP1 := dm_wipeIndexP1 (rs_damage res),
                                                       m_wipeIndexP2 := dm_wipeIndexP2 (rs_damage res)\<rparr>
                                in case rs_winnerId res of
                                     Some winnerId \<Rightarrow> finishMatch runtime' res winnerId w2
                                   | None \<Rightarrow> summarizeRound runtime' res rnd w2))"

subsection \<open>Client acknowledgements\<close>

record RuntimeActionResult =
  ra_duplicate :: "bool option"
  ra_readyCount :: "nat option"
  ra_ackCount :: "nat option"
  ra_forfeited :: "bool option"

definition noResult :: RuntimeActionResult where
  "noResult = \<lparr>ra_duplicate = None, ra_readyCount = None, ra_ackCount = None, ra_forfeited = None\<rparr>"

definition duplicateResult :: "bool \<Rightarrow> RuntimeActionResult" where
  "duplicateResult b = noResult\<lparr>ra_duplicate := Some b\<rparr>"

definition readyField :: "Side \<Rightarrow> string" where
  "readyField side = (case side of P1 \<Rightarrow> ''readyP1'' | P2 \<Rightarrow> ''readyP2'')"

definition readyOf :: "Side \<Rightarrow> MatchRuntimeState \<Rightarrow> bool" where
  "readyOf side runtime = (case side of P1 \<Rightarrow> m_readyP1 runtime | P2 \<Rightarrow> m_readyP2 runtime)"

definition markReady :: "ports \<Rightarrow> string \<Rightarrow> string \<Rightarrow> nat \<Rightarrow> world \<Rightarrow> nat result \<times> world" where
  "markReady pt userId matchId rnd =
     andThen (requireActionPhase matchId rnd ShopPlace) (\<lambda>runtime.
     andThen (lift (sideFor runtime userId)) (\<lambda>side.
     andThen (modify (onRedis (hset (runtimeKey matchId) (readyField side) (HStr ''1'')))) (\<lambda>_.
     andThen (getRuntime matchId) (\<lambda>updated.
       let readyCount = readyCountOf updated
       in if readyCount = 2 then andThen (tryStartCombat pt matchId rnd) (\<lambda>_. ret readyCount) else ret readyCount))))"

definition handleCombatDone :: "ports \<Rightarrow> string \<Rightarrow> string \<Rightarrow> nat \<Rightarrow> world \<Rightarrow> nat result \<times> world" where
  "handleCombatDone pt userId matchId rnd =
     andThen (requireActionPhase matchId rnd BattlePhase) (\<lambda>runtime.
     andThen (lift (sideFor runtime userId)) (\<lambda>_.
     andThen (\<lambda>w. redisCall (combatDone (combatDoneKey matchId) userId (w_now w)) w) (\<lambda>count.
       if count \<ge> 2 then andThen (applyDamageAndAdvance pt matchId rnd) (\<lambda>_. ret count) else ret count)))"

definition markRoundReady :: "ports \<Rightarrow> string \<Rightarrow> string \<Rightarrow> nat \<Rightarrow> world \<Rightarrow> RuntimeActionResult result \<times> world" where
  "markRoundReady pt userId matchId rnd =
     andThen (requireActionPhase matchId rnd Resolved) (\<lambda>runtime.
     andThen (lift (sideFor runtime userId)) (\<lambda>side.
       if readyOf side runtime
       then ret (noResult\<lparr>ra_duplicate := Some True, ra_readyCount := Some (readyCountOf runtime)\<rparr>)
       else andThen (modify (onRedis (hset (runtimeKey matchId) (readyField side) (HStr ''1'')))) (\<lambda>_.
            andThen (getRuntime matchId) (\<lambda>updated.
              let readyCount = readyCountOf updated;
                  result = noResult\<lparr>ra_duplicate := Some False, ra_readyCount := Some readyCount\<rparr>
              in if readyCount \<ge> 2 then andThen (advanceResolvedRound pt matchId rnd) (\<lambda>_. ret result)
                 else andThen (modify (scheduleRoundReadyTimeout matchId rnd ROUND_READY_GRACE_MS)) (\<lambda>_.
                      andThen (modify (publish matchId (PhaseEvent (phasePayload updated ROUND_READY_GRACE_SECONDS)))) (\<lambda>_.
                        ret result))))))"

definition surrender :: "ports \<Rightarrow> string \<Rightarrow> string \<Rightarrow> nat \<Rightarrow> world \<Rightarrow> bool result \<times> world" where
  "surrender pt userId matchId rnd =
     andThen (getRuntime matchId) (\<lambda>runtime.
       if m_round runtime \<noteq> rnd \<or> m_phase runtime = Finished then ret False
       else andThen (lift (sideFor runtime userId)) (\<lambda>side w.
              let (flipped, w2) = flipPhase pt matchId (rnd, m_phase runtime) (rnd, Finished) w
              in if \<not> flipped then (Inr False, w2)
                 else finalize matchId
                        (Some (case side of P1 \<Rightarrow> m_player2Id runtime | P2 \<Rightarrow> m_player1Id runtime)) Forfeit w2))"

text \<open>\<open>None\<close> for the match id is the one-argument form, which looks the caller's live match up.\<close>

definition handleDisconnect :: "ports \<Rightarrow> string option \<Rightarrow> string \<Rightarrow> world \<Rightarrow> bool result \<times> world" where
  "handleDisconnect pt explicitMatchId userId w =
     (case (case explicitMatchId of Some m \<Rightarrow> Some m
            | None \<Rightarrow> map_option mt_id (matches_findActiveByUserId userId w)) of
        None \<Rightarrow> (Inr False, w)
      | Some matchId \<Rightarrow>
          (case findRuntime matchId w of
             (None, w1) \<Rightarrow> forfeitDisconnectedPlayer matchId userId w1
           | (Some runtime, w1) \<Rightarrow>
               (case sideFor runtime userId of
                  Inl e \<Rightarrow> (Inl e, w1)
                | Inr _ \<Rightarrow>
                    if m_phase runtime = Finished then (Inr False, w1)
                    else let (flipped, w2) = flipPhase pt matchId (m_round runtime, m_phase runtime)
                               (m_round runtime, Finished) w1
                         in if \<not> flipped then (Inr False, w2) else forfeitDisconnectedPlayer matchId userId w2)))"

subsection \<open>Roster moves and the ready flag\<close>

text \<open>\<open>findRosterUnit\<close>: the board first, then the bench.\<close>

definition isInstance :: "string \<Rightarrow> jobj option \<Rightarrow> bool" where
  "isInstance i u \<longleftrightarrow> (case u of Some e \<Rightarrow> getProp e ''instanceId'' = Some (JStr i) | None \<Rightarrow> False)"

definition findRosterUnit :: "jobj PlayerState \<Rightarrow> string \<Rightarrow> (Source \<times> nat) option" where
  "findRosterUnit state i =
     (case findIndex (isInstance i) (p_board state) of
        Some slot \<Rightarrow> Some (Board, slot)
      | None \<Rightarrow> map_option (Pair Bench) (findIndex (isInstance i) (p_bench state)))"

text \<open>The move itself, from the slot check to the updated state.\<close>

definition moveUnit :: "string \<Rightarrow> Source \<Rightarrow> int \<Rightarrow> jobj PlayerState \<Rightarrow> jobj PlayerState result" where
  "moveUnit i target slot state =
     (if slot < 0 \<or> slot \<ge> int (length (roster target state)) then Inl ''place.slot_out_of_range''
      else case findRosterUnit state i of
             None \<Rightarrow> Inl ''place.unit_not_owned''
           | Some (src, k) \<Rightarrow>
               (let occupied = roster target state ! nat slot in
                if occupied \<noteq> None \<and> \<not> isInstance i occupied then Inl ''place.slot_occupied''
                else if src \<noteq> target \<or> k \<noteq> nat slot
                     then Inr (setSlot target (nat slot) (roster src state ! k) (setSlot src k None state))
                     else Inr state))"

definition commitRuntimeAction ::
  "MatchRuntimeState \<Rightarrow> string \<Rightarrow> string \<Rightarrow> hval \<Rightarrow> string \<Rightarrow> MatchPhase \<Rightarrow> world \<Rightarrow> bool result \<times> world" where
  "commitRuntimeAction runtime userId field value clientActionId expectedPhase w =
     (let (code, r) = logAction (m_matchId runtime) userId
            \<lparr>a_id = clientActionId, a_time = w_now w, a_field = field, a_value = value, a_phase = expectedPhase,
             a_round = m_round runtime, a_shop = None\<rparr> (w_redis w);
          w1 = w\<lparr>w_redis := r\<rparr>
      in if code = -2 then (Inl ''match.round_mismatch'', w1)
         else if code = -1 then (Inl ''match.not_your_turn'', w1)
         else (Inr (code = 1), w1))"

definition withPlayerActionLock ::
  "ports \<Rightarrow> string \<Rightarrow> string \<Rightarrow> (world \<Rightarrow> 'a result \<times> world) \<Rightarrow> world \<Rightarrow> 'a result \<times> world" where
  "withPlayerActionLock pt matchId userId action w =
     (let key = shopLockKey matchId userId; (ok, w1) = acquireLock 40 (pt_env pt) key (pt_owner pt) 5000 w
      in if \<not> ok then (Inl ''match.action_busy'', w1)
         else finallyDo action (releaseLock key (pt_owner pt)) w1)"

definition placeBody :: "string \<Rightarrow> string \<Rightarrow> nat \<Rightarrow> string \<Rightarrow> Source \<Rightarrow> int \<Rightarrow> string \<Rightarrow>
    world \<Rightarrow> RuntimeActionResult result \<times> world" where
  "placeBody userId matchId rnd unitInstanceId target slot clientActionId w =
     (if hexists (actionLogKey matchId userId) clientActionId (w_redis w) then (Inr (duplicateResult True), w)
      else andThen (requireActionPhase matchId rnd ShopPlace) (\<lambda>runtime.
           andThen (lift (sideFor runtime userId)) (\<lambda>side.
           andThen (lift (moveUnit unitInstanceId target slot (sideState side runtime))) (\<lambda>state.
           andThen (commitRuntimeAction runtime userId (stateField side) (HJson (playerJson state)) clientActionId ShopPlace) (\<lambda>recorded.
             if \<not> recorded then ret (duplicateResult True)
             else andThen (updateState matchId side (playerJson state)) (\<lambda>_.
                  andThen (modify (publishState runtime side state)) (\<lambda>_. ret (duplicateResult False))))))) w)"

definition place :: "ports \<Rightarrow> string \<Rightarrow> string \<Rightarrow> nat \<Rightarrow> string \<Rightarrow> Source \<Rightarrow> int \<Rightarrow> string \<Rightarrow>
    world \<Rightarrow> RuntimeActionResult result \<times> world" where
  "place pt userId matchId rnd unitInstanceId target slot clientActionId =
     withPlayerActionLock pt matchId userId (placeBody userId matchId rnd unitInstanceId target slot clientActionId)"

definition markReadyAction :: "ports \<Rightarrow> string \<Rightarrow> string \<Rightarrow> nat \<Rightarrow> bool \<Rightarrow> string \<Rightarrow>
    world \<Rightarrow> RuntimeActionResult result \<times> world" where
  "markReadyAction pt userId matchId rnd ready clientActionId =
     andThen (requireActionPhase matchId rnd ShopPlace) (\<lambda>runtime.
     andThen (lift (sideFor runtime userId)) (\<lambda>side.
     andThen (commitRuntimeAction runtime userId (readyField side) (HStr (if ready then ''1'' else ''0'')) clientActionId ShopPlace) (\<lambda>recorded.
     andThen (getRuntime matchId) (\<lambda>updated.
       let readyCount = readyCountOf updated;
           result = noResult\<lparr>ra_duplicate := Some (\<not> recorded), ra_readyCount := Some readyCount\<rparr>
       in if \<not> recorded then ret result
          else andThen (modify (publishState updated side (sideState side updated))) (\<lambda>_.
               if readyCount = 2 then andThen (tryStartCombat pt matchId rnd) (\<lambda>_. ret result) else ret result)))))"

subsection \<open>Dispatch\<close>

text \<open>
  The action types with the part of the payload each of them carries after validation, and the
  three actions that name their match themselves.
\<close>

datatype RuntimeAction =
    ShopBuy nat
  | ShopSell Source int
  | ShopRefresh
  | ShopFuse UnitId "string option" "string option"
  | MatchPlace string Source int
  | MatchReady "bool option"
  | MatchCombatDone
  | MatchRoundReady
  | MatchSurrender

fun namesMatch :: "RuntimeAction \<Rightarrow> bool" where
  "namesMatch MatchCombatDone = True"
| "namesMatch MatchRoundReady = True"
| "namesMatch MatchSurrender = True"
| "namesMatch _ = False"

definition handleAction ::
  "ports \<Rightarrow> string \<Rightarrow> RuntimeAction \<Rightarrow> nat \<Rightarrow> string \<Rightarrow> string option \<Rightarrow> world \<Rightarrow> RuntimeActionResult result \<times> world" where
  "handleAction pt userId action rnd clientActionId payloadMatchId w =
     (let matchId = (if namesMatch action then payloadMatchId
                     else map_option mt_id (matches_findActiveByUserId userId w))
      in if \<not> truthy matchId then (Inl ''match.not_found'', w)
         else let m = the matchId; dup = (\<lambda>d. ret (duplicateResult d))
              in (case action of
                    ShopBuy i \<Rightarrow> andThen (buy (pt_env pt) (pt_owner pt) (pt_uuid pt) userId m rnd i clientActionId) dup
                  | ShopSell src slot \<Rightarrow> andThen (sell (pt_env pt) (pt_owner pt) userId m rnd src slot clientActionId) dup
                  | ShopRefresh \<Rightarrow> andThen (refresh (pt_sha pt) (pt_env pt) (pt_owner pt) userId m rnd clientActionId) dup
                  | ShopFuse u a b \<Rightarrow> andThen (fuse (pt_env pt) (pt_owner pt) userId m rnd u clientActionId a b) dup
                  | MatchPlace i target slot \<Rightarrow> place pt userId m rnd i target slot clientActionId
                  | MatchReady ready \<Rightarrow> markReadyAction pt userId m rnd (case ready of Some b \<Rightarrow> b | None \<Rightarrow> True) clientActionId
                  | MatchCombatDone \<Rightarrow> andThen (handleCombatDone pt userId m rnd) (\<lambda>n. ret (noResult\<lparr>ra_ackCount := Some n\<rparr>))
                  | MatchRoundReady \<Rightarrow> markRoundReady pt userId m rnd
                  | MatchSurrender \<Rightarrow> andThen (surrender pt userId m rnd) (\<lambda>b. ret (noResult\<lparr>ra_forfeited := Some b\<rparr>))) w)"

end
