(* ===== verification/Placement.thy ===== *)
theory Placement
  imports Match_Runtime "HOL-Library.Multiset"
begin

text \<open>
  Moving a unit between the slots of a roster (\<open>place\<close> of \<open>runtime/match.runtime.adapter.ts\<close>): when the move is
  accepted, and that it neither creates nor loses a unit.
\<close>

definition slots :: "'u PlayerState \<Rightarrow> 'u option list" where
  "slots st = p_board st @ p_bench st"

text \<open>No two slots hold the same instance; the ids are those of \<open>randomUUID()\<close>.\<close>

definition unique_instance :: "string \<Rightarrow> jobj PlayerState \<Rightarrow> bool" where
  "unique_instance i st \<longleftrightarrow> length (filter (isInstance i) (slots st)) \<le> 1"

lemma length_filter_nth:
  assumes "length (filter p xs) \<le> 1" and "a < length xs" "b < length xs" "p (xs ! a)" "p (xs ! b)"
  shows "a = b"
proof -
  have "card {k. k < length xs \<and> p (xs ! k)} \<le> 1" using assms(1) by (simp add: length_filter_conv_card)
  then show ?thesis using assms(2-5) by (auto simp: card_le_Suc0_iff_eq)
qed

lemma unique_slots:
  assumes "unique_instance i st" and "k < length (roster s st)" "isInstance i (roster s st ! k)"
    and "k' < length (roster s' st)" "isInstance i (roster s' st ! k')"
  shows "s = s' \<and> k = k'"
proof -
  define pos where "pos s k = (case s of Board \<Rightarrow> k | Bench \<Rightarrow> length (p_board st) + k)" for s :: Source and k
  have at: "pos s k < length (slots st) \<and> slots st ! pos s k = roster s st ! k" if "k < length (roster s st)" for s k
    using that by (cases s) (simp_all add: pos_def slots_def nth_append)
  have "pos s k = pos s' k'"
    using assms(1) at [OF assms(2)] at [OF assms(4)] assms(3,5) unfolding unique_instance_def
    by (intro length_filter_nth [of "isInstance i" "slots st"]) auto
  with assms(2,4) show ?thesis by (cases s; cases s') (auto simp: pos_def)
qed

lemma find_in:
  assumes "findRosterUnit st i = Some (s, k)"
  shows "k < length (roster s st) \<and> isInstance i (roster s st ! k)"
  using assms by (auto simp: findRosterUnit_def dest!: findIndex_SomeD split: option.splits)

lemma all_Source: "(\<forall>s. P s) \<longleftrightarrow> P Board \<and> P Bench"
  by (metis Source.exhaust)

lemma find_none: "findRosterUnit st i = None \<longleftrightarrow> (\<forall>s. \<forall>u \<in> set (roster s st). \<not> isInstance i u)"
  unfolding all_Source roster.simps findIndex_None_iff [symmetric]
  by (simp add: findRosterUnit_def split: option.split)

lemma mset_move:
  "k < length xs \<Longrightarrow> j < length xs \<Longrightarrow> xs ! j = None \<Longrightarrow> mset (xs[k := None, j := xs ! k]) = mset xs"
  using mset_swap [of j xs k] by simp

lemma mset_transfer:
  assumes "k < length xs" "j < length ys" "ys ! j = None"
  shows "mset (xs[k := None]) + mset (ys[j := xs ! k]) = mset xs + mset ys"
proof -
  have "xs ! k \<in># mset xs" "None \<in># mset ys" using assms by (auto simp: in_set_conv_nth)
  then obtain A B where "mset xs = add_mset (xs ! k) A" "mset ys = add_mset None B" by (meson multi_member_split)
  then show ?thesis using assms by (simp add: mset_update)
qed

text \<open>The three ways to fail, and what an accepted move does.\<close>

lemma moveUnit_cases:
  obtains (range) "slot < 0 \<or> slot \<ge> int (length (roster target st))" "moveUnit i target slot st = Inl ''place.slot_out_of_range''"
  | (missing) "0 \<le> slot" "nat slot < length (roster target st)" "findRosterUnit st i = None"
      "moveUnit i target slot st = Inl ''place.unit_not_owned''"
  | (taken) s k where "0 \<le> slot" "nat slot < length (roster target st)" "findRosterUnit st i = Some (s, k)"
      "roster target st ! nat slot \<noteq> None" "\<not> isInstance i (roster target st ! nat slot)"
      "moveUnit i target slot st = Inl ''place.slot_occupied''"
  | (moved) s k where "0 \<le> slot" "nat slot < length (roster target st)" "findRosterUnit st i = Some (s, k)"
      "roster target st ! nat slot = None \<or> isInstance i (roster target st ! nat slot)"
      "moveUnit i target slot st = Inr (if s \<noteq> target \<or> k \<noteq> nat slot
         then setSlot target (nat slot) (roster s st ! k) (setSlot s k None st) else st)"
proof (cases "slot < 0 \<or> slot \<ge> int (length (roster target st))")
  case True
  then show ?thesis using range by (simp add: moveUnit_def)
next
  case False
  then have slot: "0 \<le> slot" "nat slot < length (roster target st)" by auto
  show ?thesis
  proof (cases "findRosterUnit st i")
    case None
    with False slot show ?thesis using missing by (simp add: moveUnit_def)
  next
    case (Some sk)
    obtain s k where sk: "sk = (s, k)" by fastforce
    show ?thesis
    proof (cases "roster target st ! nat slot = None \<or> isInstance i (roster target st ! nat slot)")
      case True
      with False Some sk slot show ?thesis
        by (intro moved [of s k]) (simp_all add: moveUnit_def Let_def)
    next
      case free: False
      with False Some sk slot show ?thesis
        by (intro taken [of s k]) (simp_all add: moveUnit_def Let_def)
    qed
  qed
qed

lemma isInstance_None [simp]: "\<not> isInstance i None"
  by (simp add: isInstance_def)

lemma accepted_move:
  assumes one: "unique_instance i st" and run: "moveUnit i target slot st = Inr st'"
  obtains s k where "findRosterUnit st i = Some (s, k)" "nat slot < length (roster target st)" "0 \<le> slot"
    "s = target \<and> k = nat slot \<and> st' = st
     \<or> roster target st ! nat slot = None \<and> (s, k) \<noteq> (target, nat slot)
       \<and> st' = setSlot target (nat slot) (roster s st ! k) (setSlot s k None st)"
proof (cases rule: moveUnit_cases [of slot target st i])
  case (moved s k)
  note found = find_in [OF moved(3)]
  have "s = target \<and> k = nat slot" if "isInstance i (roster target st ! nat slot)"
    using unique_slots [OF one found [THEN conjunct1] found [THEN conjunct2] moved(2) that] .
  with moved run show ?thesis by (intro that [OF moved(3,2,1)]) (auto split: if_splits)
qed (use run in simp_all)

lemma move_mset:
  assumes "k < length (roster s st)" "j < length (roster t st)" "roster t st ! j = None" "(s, k) \<noteq> (t, j)"
  shows "mset (slots (setSlot t j (roster s st ! k) (setSlot s k None st))) = mset (slots st)"
  using assms mset_transfer [of k "p_board st" j "p_bench st"] mset_transfer [of k "p_bench st" j "p_board st"]
  by (cases s; cases t) (simp_all add: slots_def mset_move add.commute)


text \<open>A fighter goes from the bench to the middle of the board; the occupied corner is refused.\<close>

definition demoUnit :: "string \<Rightarrow> jobj" where
  "demoUnit i = [(''instanceId'', JStr i), (''unitId'', JStr ''fighter''), (''star'', JNum 0)]"

definition demoRoster :: "jobj PlayerState" where
  "demoRoster = \<lparr>p_hp = 100, p_gold = 5, p_ready = False, p_board = Some (demoUnit ''a'') # replicate 8 None,
     p_bench = Some (demoUnit ''b'') # replicate 7 None\<rparr>"


end
