(* ===== verification/Match_Service_Props.thy ===== *)
theory Match_Service_Props
  imports Match_Service
begin

text \<open>
  What the match service guarantees: a match ends once, its ratings move as announced, and an
  attempt that fails leaves the tables alone.
\<close>

subsection \<open>The rating step\<close>

lemma distinct_js_sort: "distinct (map f (js_sort c xs)) \<longleftrightarrow> distinct (map f xs)"
  by (metis mset_eq_imp_distinct_iff mset_js_sort mset_map)

lemma two_rows:
  assumes "distinct (map us_id us)" and "length (filter (\<lambda>u. us_id u \<in> {a, b}) us) = 2"
  shows "a \<noteq> b" and "List.find (\<lambda>u. us_id u = a) us \<noteq> None" and "List.find (\<lambda>u. us_id u = b) us \<noteq> None"
proof -
  define ids where "ids = us_id ` set (filter (\<lambda>u. us_id u \<in> {a, b}) us)"
  have "distinct (map us_id (filter (\<lambda>u. us_id u \<in> {a, b}) us))"
    using assms(1) by (rule distinct_map_filter)
  from distinct_card [OF this] assms(2) have card: "card ids = 2" by (simp add: ids_def)
  have sub: "ids \<subseteq> {a, b}" by (auto simp: ids_def)
  show ab: "a \<noteq> b"
  proof
    assume "a = b"
    with sub have "card ids \<le> card {a}" by (intro card_mono) auto
    with card show False by simp
  qed
  have "ids = {a, b}"
    using sub card ab by (intro card_subset_eq) auto
  then have "a \<in> ids" "b \<in> ids" by auto
  then show "List.find (\<lambda>u. us_id u = a) us \<noteq> None" "List.find (\<lambda>u. us_id u = b) us \<noteq> None"
    by (auto simp: ids_def find_None_iff')
qed

lemma find_players:
  assumes "tables_ok w" and "i \<in> {a, b}"
  shows "List.find (\<lambda>u. us_id u = i) (users_findByIdsForUpdate [a, b] w) = users_findById i w"
proof -
  let ?ps = "users_findByIdsForUpdate [a, b] w"
  have d: "distinct (map us_id ?ps)"
    using assms(1) by (simp add: users_findByIdsForUpdate_def distinct_js_sort tables_ok_def distinct_map_filter)
  have mem: "u \<in> set ?ps \<longleftrightarrow> u \<in> set (w_users w) \<and> us_id u \<in> {a, b}" for u
    by (auto simp: users_findByIdsForUpdate_def)
  show ?thesis
  proof (cases "users_findById i w")
    case None
    then have "List.find (\<lambda>u. us_id u = i) ?ps = None" by (auto simp: users_findById_def find_None_iff' mem)
    with None show ?thesis by simp
  next
    case (Some u)
    from users_findById_Some [OF this] assms(2) mem have "u \<in> set ?ps" "us_id u = i" by auto
    with find_distinct_key [OF d, of u] Some show ?thesis by simp
  qed
qed

lemma updateRating_ok:
  "users_findById i w = Some u \<Longrightarrow> updateRating i d w =
     (Inr (), snd (users_update i (\<lambda>u. u\<lparr>us_rating := max 0 (us_rating u + d)\<rparr>) w))"
  by (simp add: updateRating_def Let_def case_prod_unfold users_update_affected)

text \<open>The outcome of a rating step, in terms of the two rows before.\<close>

definition ratedUsers :: "string \<Rightarrow> string \<Rightarrow> int \<Rightarrow> UserRow list \<Rightarrow> UserRow list" where
  "ratedUsers a b d = map (\<lambda>u. if us_id u = a then u\<lparr>us_rating := max 0 (us_rating u + d)\<rparr>
      else if us_id u = b then u\<lparr>us_rating := max 0 (us_rating u - d)\<rparr> else u)"

lemma applyRatings_cases:
  assumes ok: "tables_ok w" and run: "applyRatings m win w = (r, w')"
  obtains (missing) "r = Inl ''match.player_not_found''" "w' = w"
  | (rated) u1 u2 d where "users_findById (mt_player1Id m) w = Some u1" "users_findById (mt_player2Id m) w = Some u2"
      "mt_player1Id m \<noteq> mt_player2Id m"
      "d = eloDelta (us_rating u1) (us_rating u2) (if win = mt_player1Id m then 1 else 0)"
      "r = Inr (ratingChange (us_rating u1) d, ratingChange (us_rating u2) (- d))"
      "w' = w\<lparr>w_users := ratedUsers (mt_player1Id m) (mt_player2Id m) d (w_users w)\<rparr>"
proof (cases "length (users_findByIdsForUpdate [mt_player1Id m, mt_player2Id m] w) = 2")
  case False
  with run missing show ?thesis by (simp add: applyRatings_def Let_def)
next
  case True
  let ?a = "mt_player1Id m" and ?b = "mt_player2Id m"
  have "distinct (map us_id (w_users w))" using ok by (simp add: tables_ok_def)
  from two_rows [OF this, of ?a ?b] True obtain u1 u2 where
    ab: "?a \<noteq> ?b" and u1: "users_findById ?a w = Some u1" and u2: "users_findById ?b w = Some u2"
    by (auto simp: users_findByIdsForUpdate_def users_findById_def)
  have ids: "us_id u1 = ?a" "us_id u2 = ?b"
    using users_findById_Some [OF u1] users_findById_Some [OF u2] by auto
  define d where "d = eloDelta (us_rating u1) (us_rating u2) (if win = ?a then 1 else 0)"
  let ?w1 = "snd (users_update ?a (\<lambda>u. u\<lparr>us_rating := max 0 (us_rating u + d)\<rparr>) w)"
  have "users_findById ?b ?w1 = Some u2" using ab u2 by simp
  from updateRating_ok [OF this, of "- d"] updateRating_ok [OF u1, of d] True run ids
  have r: "r = Inr (ratingChange (us_rating u1) d, ratingChange (us_rating u2) (- d))"
    and w': "w' = snd (users_update ?b (\<lambda>u. u\<lparr>us_rating := max 0 (us_rating u + - d)\<rparr>) ?w1)"
    by (auto simp: applyRatings_def Let_def find_players [OF ok] u1 u2 andThen_def d_def [symmetric])
  have "w' = w\<lparr>w_users := ratedUsers ?a ?b d (w_users w)\<rparr>"
    using ab by (auto simp: w' users_update_def ratedUsers_def)
  with rated [OF u1 u2 ab d_def r] show ?thesis by blast
qed

subsection \<open>The transaction\<close>

lemma finalizeTx_missing: "matches_findById mid w = None \<Longrightarrow> finalizeTx mid win reason w = (Inl ''match.not_found'', w)"
  by (simp add: finalizeTx_def matches_findByIdForUpdate_def)

lemma finalizeTx_terminal:
  "matches_findById mid w = Some m \<Longrightarrow> mt_status m \<noteq> InProgress \<Longrightarrow>
   finalizeTx mid win reason w = (Inr (NotFinalized (mt_finishedAt m \<noteq> None)), w)"
  by (simp add: finalizeTx_def matches_findByIdForUpdate_def)

definition endedRow :: "string option \<Rightarrow> MatchEndReason \<Rightarrow> int \<Rightarrow> Match \<Rightarrow> Match" where
  "endedRow win reason now m = m\<lparr>mt_status := (if reason = HpZero then MatchFinished else Forfeited),
     mt_winnerId := win, mt_finishedAt := Some now\<rparr>"

lemma endedRow_simps [simp]:
  "mt_id (endedRow win reason now m) = mt_id m" "mt_status (endedRow win reason now m) \<noteq> InProgress"
  "mt_player1Id (endedRow win reason now m) = mt_player1Id m"
  "mt_player2Id (endedRow win reason now m) = mt_player2Id m"
  "mt_winnerId (endedRow win reason now m) = win" "mt_p1State (endedRow win reason now m) = mt_p1State m"
  "mt_p2State (endedRow win reason now m) = mt_p2State m"
  by (simp_all add: endedRow_def)

text \<open>A live match: the transaction fails, or it ends the row and moves the ratings.\<close>

lemma finalizeTx_live:
  assumes "matches_findById mid w = Some m" and "mt_status m = InProgress"
    and "finalizeTx mid win reason w = (r, w')"
  obtains (invalid) "r = Inl ''match.invalid_winner''" "w' = w"
  | (failed) e w1 where "applyRatings m (the win) w = (Inl e, w1)" "r = Inl e" "truthy win" "w' = w1"
  | (drawn) "\<not> truthy win" "r = Inr (Finalized (endedRow win reason (w_now w) m) None)"
      "w' = snd (matches_update mid (endedRow win reason (w_now w)) w)"
  | (won) rc w1 where "truthy win" "the win = mt_player1Id m \<or> the win = mt_player2Id m"
      "applyRatings m (the win) w = (Inr rc, w1)"
      "r = Inr (Finalized (endedRow win reason (w_now w1) m) (Some rc))"
      "w' = snd (matches_update mid (endedRow win reason (w_now w1)) w1)"
proof -
  have mid: "mt_id m = mid" using assms(1) matches_findById_Some by auto
  have upd: "matches_finalize m (if reason = HpZero then MatchFinished else Forfeited) win t =
      (\<lambda>w. snd (matches_update mid (endedRow win reason t) w))" for t
    by (simp add: matches_finalize_def endedRow_def [abs_def] mid fun_eq_iff)
  have run: "(r, w') =
      (if truthy win \<and> win \<noteq> Some (mt_player1Id m) \<and> win \<noteq> Some (mt_player2Id m)
       then (Inl ''match.invalid_winner'', w)
       else if truthy win then (case applyRatings m (the win) w of (Inl e, w1) \<Rightarrow> (Inl e, w1)
         | (Inr rc, w1) \<Rightarrow> (Inr (Finalized (endedRow win reason (w_now w1) m) (Some rc)),
             snd (matches_update mid (endedRow win reason (w_now w1)) w1)))
       else (Inr (Finalized (endedRow win reason (w_now w) m) None),
             snd (matches_update mid (endedRow win reason (w_now w)) w)))"
  proof -
    obtain x w1 where ar: "applyRatings m (the win) w = (x, w1)" by fastforce
    show ?thesis
      unfolding assms(3) [symmetric] finalizeTx_def matches_findByIdForUpdate_def
      by (cases x; cases "truthy win")
        (simp_all add: assms(1,2) ar andThen_def Let_def upd endedRow_def [of _ _ _ m] cong: if_cong split del: if_split)
  qed
  show thesis
  proof (cases "truthy win")
    case False
    with run have "r = Inr (Finalized (endedRow win reason (w_now w) m) None)"
      "w' = snd (matches_update mid (endedRow win reason (w_now w)) w)"
      by auto
    with False drawn show thesis by blast
  next
    case True
    show thesis
    proof (cases "win \<noteq> Some (mt_player1Id m) \<and> win \<noteq> Some (mt_player2Id m)")
      case True
      with \<open>truthy win\<close> run invalid show thesis by auto
    next
      case False
      obtain x w1 where ar: "applyRatings m (the win) w = (x, w1)" by fastforce
      show thesis
      proof (cases x)
        case (Inl e)
        from failed [OF ar [unfolded this]] run True False ar Inl show thesis by auto
      next
        case (Inr rc)
        have "r = Inr (Finalized (endedRow win reason (w_now w1) m) (Some rc))"
          "w' = snd (matches_update mid (endedRow win reason (w_now w1)) w1)"
          using run True False ar Inr by auto
        from won [OF True _ ar [unfolded Inr] this] False True show thesis by fastforce
      qed
    qed
  qed
qed

subsection \<open>Ending a match once\<close>

definition matchEnded :: "string \<Rightarrow> world \<Rightarrow> bool" where
  "matchEnded mid w \<longleftrightarrow> (case matches_findById mid w of Some m \<Rightarrow> mt_status m \<noteq> InProgress | None \<Rightarrow> False)"

definition tryFinalize :: "string \<Rightarrow> string option \<times> MatchEndReason \<Rightarrow> world \<Rightarrow> bool \<times> world" where
  "tryFinalize mid a w = (let (r, w') = finalize mid (fst a) (snd a) w in (r = Inr True, w'))"

lemma schedule_database [simp]: "database (scheduleMatchCleanup m t w) = database w"
  by (simp add: scheduleMatchCleanup_def)

lemma cache_database [simp]:
  "database (invalidateUsers us w) = database w" "database (bumpVersion w) = database w"
  by (simp_all add: invalidateUsers_def bumpVersion_def)

lemma findById_database: "database w = database w' \<Longrightarrow> matches_findById i w = matches_findById i w'"
  by (simp add: database_def matches_findById_def)

lemma usersById_database: "database w = database w' \<Longrightarrow> users_findById i w = users_findById i w'"
  by (simp add: database_def users_findById_def)

lemma matchEnded_database: "database w = database w' \<Longrightarrow> matchEnded i w = matchEnded i w'"
  by (simp add: matchEnded_def findById_database [of w w'])

text \<open>Whatever \<open>finalize\<close> does to the tables, its transaction did.\<close>

lemma finalize_database:
  "database (snd (finalize mid win reason w)) = database (snd (transaction (finalizeTx mid win reason) w))"
  by (auto simp: finalize_def split: prod.splits sum.splits FinalizeOutcome.splits)

lemma finalize_Inr_True:
  assumes "finalize mid win reason w = (Inr True, w')"
  obtains m rc w1 where "finalizeTx mid win reason w = (Inr (Finalized m rc), w1)"
    "w' = publish (mt_id m) (MatchEndEvent (matchEndPayload m reason rc))
      (bumpVersion (invalidateUsers [mt_player1Id m, mt_player2Id m]
        (scheduleMatchCleanup (mt_id m) (w_now w1 + CLEANUP_GRACE_MS) w1)))"
  using assms by (auto simp: finalize_def transaction_def split: prod.splits sum.splits FinalizeOutcome.splits)

lemma updateRating_cases:
  "updateRating i d w = (r, w') \<Longrightarrow> (r = Inr () \<or> r = Inl ''user not found'') \<and>
     w_matches w' = w_matches w \<and> w_rounds w' = w_rounds w \<and>
     w_now w' = w_now w \<and> w_redis w' = w_redis w \<and> w_jobs w' = w_jobs w \<and> w_pub w' = w_pub w"
  by (auto simp: updateRating_def Let_def case_prod_unfold split: if_splits)

lemma finalize_won:
  assumes "finalize mid win reason w = (Inr True, w')"
  shows "\<exists>m rc w1. finalizeTx mid win reason w = (Inr (Finalized m rc), w1) \<and> database w' = database w1"
  using assms by (rule finalize_Inr_True) simp

lemma applyRatings_matches:
  assumes "applyRatings m win w = (r, w')"
  shows "w_matches w' = w_matches w \<and> w_rounds w' = w_rounds w \<and>
     w_now w' = w_now w \<and> w_redis w' = w_redis w \<and> w_jobs w' = w_jobs w \<and> w_pub w' = w_pub w \<and>
     (\<forall>e. r = Inl e \<longrightarrow> e = ''match.player_not_found'' \<or> e = ''user not found'')"
proof (cases "length (users_findByIdsForUpdate [mt_player1Id m, mt_player2Id m] w) = 2")
  case False
  with assms show ?thesis by (auto simp: applyRatings_def Let_def)
next
  case True
  with assms show ?thesis
    unfolding applyRatings_def Let_def
    by (auto elim!: andThen_cases dest!: updateRating_cases)
qed

lemma finalizeTx_Finalized:
  assumes "finalizeTx mid win reason w = (Inr (Finalized m rc), w')"
  shows "\<exists>m0. matches_findById mid w = Some m0 \<and> mt_status m0 = InProgress \<and> m = endedRow win reason (w_now w) m0 \<and>
     matches_findById mid w' = Some m"
proof -
  obtain m0 where m0: "matches_findById mid w = Some m0" "mt_status m0 = InProgress"
    using assms finalizeTx_missing finalizeTx_terminal by (cases "matches_findById mid w") force+
  from m0 assms show ?thesis
  proof (cases rule: finalizeTx_live)
    case drawn
    with m0 show ?thesis by simp
  next
    case (won rc' w1)
    from applyRatings_matches [OF won(3)] m0 have "matches_findById mid w1 = Some m0" "w_now w1 = w_now w"
      by (simp_all add: matches_findById_def)
    with won m0 show ?thesis by simp
  qed simp_all
qed

lemma applyRatings_cacheUp: "applyRatings m win w = (r, w') \<Longrightarrow> w_cacheUp w' = w_cacheUp w"
  by (auto simp: applyRatings_def Let_def updateRating_def case_prod_unfold elim!: andThen_cases split: if_splits)

lemma finalizeTx_redis:
  assumes "finalizeTx mid win reason w = (Inr (Finalized m rc), w')"
  shows "w_redis w' = w_redis w \<and> w_cacheUp w' = w_cacheUp w"
proof -
  obtain m0 where "matches_findById mid w = Some m0" "mt_status m0 = InProgress"
    using finalizeTx_Finalized [OF assms] by blast
  from this assms show ?thesis
  proof (cases rule: finalizeTx_live)
    case (won rc' w1)
    with applyRatings_matches [OF won(3)] applyRatings_cacheUp [OF won(3)] show ?thesis by simp
  qed simp_all
qed

lemma finalizeTx_keeps_ended:
  "matchEnded mid w \<Longrightarrow> \<exists>b. finalizeTx mid win reason w = (Inr (NotFinalized b), w)"
  using finalizeTx_terminal by (fastforce simp: matchEnded_def split: option.splits)

lemma finalize_ended:
  assumes "matchEnded mid w"
  shows "fst (finalize mid win reason w) = Inr False" and "database (snd (finalize mid win reason w)) = database w"
  using finalizeTx_keeps_ended [OF assms, of win reason]
  by (auto simp: finalize_def transaction_def)

interpretation finalization: once_action "\<lambda>_. True" "matchEnded mid" "tryFinalize mid"
proof
  fix a w
  assume "fst (tryFinalize mid a w)"
  then obtain w' where fin: "finalize mid (fst a) (snd a) w = (Inr True, w')"
    by (auto simp: tryFinalize_def split: prod.splits)
  from finalize_won [OF fin] obtain m rc w1 where
    tx: "finalizeTx mid (fst a) (snd a) w = (Inr (Finalized m rc), w1)" and db: "database w' = database w1" by blast
  from finalizeTx_Finalized [OF tx] have "matchEnded mid w1" by (auto simp: matchEnded_def)
  with matchEnded_database [OF db] show "matchEnded mid (snd (tryFinalize mid a w))"
    by (simp add: tryFinalize_def fin)
next
  fix w a
  assume "matchEnded mid w"
  then have "\<not> fst (tryFinalize mid a w)" and "database (snd (tryFinalize mid a w)) = database w"
    using finalize_ended [of mid w "fst a" "snd a"] by (simp_all add: tryFinalize_def case_prod_unfold Let_def)
  with matchEnded_database [OF this(2), of mid] \<open>matchEnded mid w\<close>
  show "\<not> fst (tryFinalize mid a w) \<and> matchEnded mid (snd (tryFinalize mid a w))" by blast
qed simp

text \<open>Any sequence of end signals for one match: hit points, surrender, disconnects, retries.\<close>

fun runFinalizes :: "string \<Rightarrow> (string option \<times> MatchEndReason) list \<Rightarrow> world \<Rightarrow> bool list \<times> world" where
  "runFinalizes mid [] w = ([], w)"
| "runFinalizes mid (a # as) w =
     (let (b, w') = tryFinalize mid a w; (bs, w'') = runFinalizes mid as w' in (b # bs, w''))"

lemma runFinalizes_attempts: "runFinalizes mid as w = finalization.attempts mid as w"
  by (induction as arbitrary: w) (auto simp: Let_def split: prod.splits)

lemma runFinalizes_ended: "matchEnded mid w \<Longrightarrow> database (snd (runFinalizes mid as w)) = database w"
proof (induction as arbitrary: w)
  case (Cons a as)
  obtain b w' where at: "tryFinalize mid a w = (b, w')" by fastforce
  from finalization.ended_stays [OF _ Cons.prems, of a] at have "matchEnded mid w'" by simp
  moreover have "database w' = database w"
    using finalize_ended(2) [OF Cons.prems, of "fst a" "snd a"] at
    by (auto simp: tryFinalize_def split: prod.splits)
  ultimately show ?case using Cons.IH [of w'] at by (simp add: case_prod_unfold Let_def)
qed simp

text \<open>
  C4: A match ends once. Of any sequence of end signals (hit points gone, surrender, disconnect, and
  retries of each, with any winner claimed) at most one finalizes the match, and on a match that
  has ended no signal touches a table again: status, winner and ratings stay as they are.
\<close>

theorem match_ends_once:
  "count_list (fst (runFinalizes mid as w)) True \<le> 1 \<and>
   (matchEnded mid w \<longrightarrow> database (snd (runFinalizes mid as w)) = database w)"
  using finalization.at_most_one [of mid as w] runFinalizes_ended [of mid w as]
  by (simp add: runFinalizes_attempts)

text \<open>What a finalization with a winner did: the row it found, the two players, and the move of their ratings.\<close>

lemma finalize_rated:
  assumes "tables_ok w" and "finalize mid (Some winner) reason w = (Inr True, w')" and "winner \<noteq> []"
  obtains m0 u1 u2 d where "matches_findById mid w = Some m0" "winner \<in> {mt_player1Id m0, mt_player2Id m0}"
    "users_findById (mt_player1Id m0) w = Some u1" "users_findById (mt_player2Id m0) w = Some u2" "mt_player1Id m0 \<noteq> mt_player2Id m0"
    "d = eloDelta (us_rating u1) (us_rating u2) (if winner = mt_player1Id m0 then 1 else 0)"
    "w_users w' = ratedUsers (mt_player1Id m0) (mt_player2Id m0) d (w_users w)"
    "last (w_pub w') = ToMatch mid (MatchEndEvent (matchEndPayload (endedRow (Some winner) reason (w_now w) m0) reason
       (Some (ratingChange (us_rating u1) d, ratingChange (us_rating u2) (- d)))))"
proof -
  from finalize_Inr_True [OF assms(2)] obtain m rc w1 where
    tx: "finalizeTx mid (Some winner) reason w = (Inr (Finalized m rc), w1)"
    and w': "w' = publish (mt_id m) (MatchEndEvent (matchEndPayload m reason rc))
      (bumpVersion (invalidateUsers [mt_player1Id m, mt_player2Id m]
        (scheduleMatchCleanup (mt_id m) (w_now w1 + CLEANUP_GRACE_MS) w1)))" by blast
  from finalizeTx_Finalized [OF tx] obtain m0 where
    m0: "matches_findById mid w = Some m0" "mt_status m0 = InProgress" and m: "m = endedRow (Some winner) reason (w_now w) m0"
    by blast
  have mid: "mt_id m0 = mid" using matches_findById_Some [OF m0(1)] by simp
  have db: "w_users w' = w_users w1" using databaseD [of w' w1] by (simp add: w')
  from m0 tx show ?thesis
  proof (cases rule: finalizeTx_live)
    case (won rc' w2)
    then have ar: "applyRatings m0 winner w = (Inr rc', w2)" and win: "winner \<in> {mt_player1Id m0, mt_player2Id m0}"
      and rc: "rc = Some rc'" and users: "w_users w1 = w_users w2" using assms(3) by auto
    from assms(1) ar show ?thesis
    proof (cases rule: applyRatings_cases)
      case (rated u1 u2 d)
      with win users db rc show ?thesis by (intro that [of m0 u1 u2 d] m0(1)) (simp_all add: w' m mid)
    qed simp
  qed (use assms(3) in simp_all)
qed

lemma find_rated:
  "List.find (\<lambda>u. us_id u = i) (ratedUsers a b d us) =
     map_option (\<lambda>u. if us_id u = a then u\<lparr>us_rating := max 0 (us_rating u + d)\<rparr>
       else if us_id u = b then u\<lparr>us_rating := max 0 (us_rating u - d)\<rparr> else u)
       (List.find (\<lambda>u. us_id u = i) us)"
  by (induction us) (auto simp: ratedUsers_def)

lemma rated_others: "list_all2 (\<lambda>u u'. us_id u \<notin> {a, b} \<longrightarrow> u' = u) us (ratedUsers a b d us)"
  unfolding ratedUsers_def by (simp add: list_all2_conv_all_nth)

text \<open>
  C13: Ratings at the end of a match. When \<open>finalize\<close> succeeds with a winner, what it announces in
  \<open>game:match:end\<close> is what the table holds afterwards; the winner gains between 0 and 32 points, the
  loser loses at most what the winner gains (less only when the rating stops at 0), and no other
  user's row changes.
\<close>

theorem ratings_follow_elo:
  assumes "tables_ok w" and "finalize mid (Some winner) reason w = (Inr True, w')" and "winner \<noteq> []"
  shows "\<exists>p1 p2 rc1 rc2. p1 \<noteq> p2 \<and> winner \<in> {p1, p2} \<and>
      (\<exists>e. last (w_pub w') = ToMatch mid (MatchEndEvent e) \<and> me_rating e = Some (rc1, rc2) \<and>
           me_winnerId e = Some winner \<and> me_reason e = reason) \<and>
      map_option us_rating (users_findById p1 w) = Some (rc_before rc1) \<and>
      map_option us_rating (users_findById p2 w) = Some (rc_before rc2) \<and>
      map_option us_rating (users_findById p1 w') = Some (rc_after rc1) \<and>
      map_option us_rating (users_findById p2 w') = Some (rc_after rc2) \<and>
      (let (win, lose) = (if winner = p1 then (rc1, rc2) else (rc2, rc1)) in
         0 \<le> rc_delta win \<and> rc_delta win \<le> 32 \<and> rc_delta lose \<le> 0 \<and> - rc_delta lose \<le> rc_delta win \<and>
         (rc_delta lose = - rc_delta win \<or> rc_after lose = 0)) \<and>
      list_all2 (\<lambda>u u'. us_id u \<notin> {p1, p2} \<longrightarrow> u' = u) (w_users w) (w_users w')"
proof -
  from assms obtain m0 u1 u2 d where live: "matches_findById mid w = Some m0"
    and win: "winner \<in> {mt_player1Id m0, mt_player2Id m0}" and rows: "users_findById (mt_player1Id m0) w = Some u1"
    "users_findById (mt_player2Id m0) w = Some u2" "mt_player1Id m0 \<noteq> mt_player2Id m0"
    and d: "d = eloDelta (us_rating u1) (us_rating u2) (if winner = mt_player1Id m0 then 1 else 0)"
    and users: "w_users w' = ratedUsers (mt_player1Id m0) (mt_player2Id m0) d (w_users w)"
    and ev: "last (w_pub w') = ToMatch mid (MatchEndEvent (matchEndPayload (endedRow (Some winner) reason (w_now w) m0) reason
       (Some (ratingChange (us_rating u1) d, ratingChange (us_rating u2) (- d)))))"
    by (rule finalize_rated)
  let ?a = "mt_player1Id m0" and ?b = "mt_player2Id m0"
  let ?r1 = "ratingChange (us_rating u1) d" and ?r2 = "ratingChange (us_rating u2) (- d)"
  have ids: "us_id u1 = ?a" "us_id u2 = ?b" and pos: "0 \<le> us_rating u1" "0 \<le> us_rating u2"
    using users_findById_Some [OF rows(1)] users_findById_Some [OF rows(2)] assms(1) by (auto simp: tables_ok_def list_all_iff)
  have after: "map_option us_rating (users_findById ?a w') = Some (rc_after ?r1)"
    "map_option us_rating (users_findById ?b w') = Some (rc_after ?r2)"
    using rows ids unfolding users_findById_def users find_rated by (simp_all add: ratingChange_def Let_def)
  have "0 \<le> d \<and> d \<le> 32" if "winner = ?a" using that d eloDelta_win by simp
  moreover have "-32 \<le> d \<and> d \<le> 0" if "winner \<noteq> ?a" using that d eloDelta_loss by simp
  ultimately have elo: "let (win, lose) = (if winner = ?a then (?r1, ?r2) else (?r2, ?r1)) in
      0 \<le> rc_delta win \<and> rc_delta win \<le> 32 \<and> rc_delta lose \<le> 0 \<and> - rc_delta lose \<le> rc_delta win \<and>
      (rc_delta lose = - rc_delta win \<or> rc_after lose = 0)"
    using pos by (cases "winner = ?a") (auto simp: ratingChange_def Let_def max_def)
  have others: "list_all2 (\<lambda>u u'. us_id u \<notin> {?a, ?b} \<longrightarrow> u' = u) (w_users w) (w_users w')"
    unfolding users by (rule rated_others)
  show ?thesis
    by (rule exI [of _ ?a], rule exI [of _ ?b], rule exI [of _ ?r1], rule exI [of _ ?r2])
      (use rows win ev after elo others in \<open>auto simp: matchEndPayload_def ratingChange_def Let_def\<close>)
qed


subsection \<open>A concrete match\<close>

definition demoUser :: "string \<Rightarrow> int \<Rightarrow> UserRow" where
  "demoUser name rating = \<lparr>us_id = name, us_email = name @ ''@x.io'', us_username = name, us_passwordHash = [],
     us_rating = rating, us_createdAt = 0\<rparr>"

definition demoMatch :: Match where
  "demoMatch = \<lparr>mt_id = ''m1'', mt_player1Id = ''alice'', mt_player2Id = ''bob'', mt_winnerId = None,
     mt_status = InProgress, mt_matchSeed = ''seed'', mt_wipeIndexP1 = 0, mt_wipeIndexP2 = 0,
     mt_p1State = JNull, mt_p2State = JNull, mt_createdAt = 0, mt_finishedAt = None\<rparr>"

definition demoWorld :: world where
  "demoWorld = \<lparr>w_redis = emptyRedis, w_matches = [demoMatch], w_rounds = [],
     w_users = [demoUser ''alice'' 1000, demoUser ''bob'' 1000], w_jobs = [], w_pub = [],
     w_combatResult = (\<lambda>_. None), w_cacheUp = True, w_now = 5\<rparr>"

lemma demoWorld_ok: "tables_ok demoWorld"
  by (simp add: tables_ok_def demoWorld_def demoUser_def demoMatch_def)

lemma demo_finds:
  "matches_findById ''m1'' demoWorld = Some demoMatch"
  "users_findById ''alice'' demoWorld = Some (demoUser ''alice'' 1000)"
  "users_findById ''bob'' demoWorld = Some (demoUser ''bob'' 1000)"
  by (simp_all add: matches_findById_def users_findById_def demoWorld_def demoMatch_def demoUser_def)

lemma demo_players: "length (users_findByIdsForUpdate [''alice'', ''bob''] demoWorld) = 2"
  by (simp add: users_findByIdsForUpdate_def demoWorld_def demoUser_def)

lemma demo_ratings: "\<exists>rc w1. applyRatings demoMatch ''alice'' demoWorld = (Inr rc, w1)"
proof -
  have "updateRating ''alice'' d demoWorld = (Inr (), snd (users_update ''alice''
      (\<lambda>u. u\<lparr>us_rating := max 0 (us_rating u + d)\<rparr>) demoWorld))" for d
    using demo_finds(2) by (rule updateRating_ok)
  moreover have "users_findById ''bob'' (snd (users_update ''alice'' (\<lambda>u. u\<lparr>us_rating := f u\<rparr>) demoWorld)) =
      Some (demoUser ''bob'' 1000)" for f
    by (simp add: demo_finds)
  note updateRating_ok [OF this]
  ultimately show ?thesis
    using find_players [OF demoWorld_ok, of "''alice''" "''alice''" "''bob''"]
      find_players [OF demoWorld_ok, of "''bob''" "''alice''" "''bob''"] demo_players demo_finds
    by (simp add: applyRatings_def Let_def andThen_def demoMatch_def) (simp add: demoUser_def)
qed

lemma demo_finalize: "\<exists>w'. finalize ''m1'' (Some ''alice'') HpZero demoWorld = (Inr True, w')"
proof -
  obtain rc w1 where ar: "applyRatings demoMatch ''alice'' demoWorld = (Inr rc, w1)"
    using demo_ratings by blast
  have "finalizeTx ''m1'' (Some ''alice'') HpZero demoWorld =
      (Inr (Finalized (endedRow (Some ''alice'') HpZero (w_now w1) demoMatch) (Some rc)),
       matches_finalize demoMatch MatchFinished (Some ''alice'') (w_now w1) w1)"
    using ar by (simp add: finalizeTx_def matches_findByIdForUpdate_def demo_finds andThen_def Let_def endedRow_def)
      (simp add: demoMatch_def)
  then show ?thesis by (simp add: finalize_def transaction_def)
qed

theorem match_ends_once_witness:
  "matchEnded ''m1'' (demoWorld\<lparr>w_matches := [demoMatch\<lparr>mt_status := Forfeited\<rparr>]\<rparr>) \<and>
   database (snd (runFinalizes ''m1'' [(Some ''alice'', HpZero), (Some ''bob'', Forfeit)]
     (demoWorld\<lparr>w_matches := [demoMatch\<lparr>mt_status := Forfeited\<rparr>]\<rparr>))) =
   database (demoWorld\<lparr>w_matches := [demoMatch\<lparr>mt_status := Forfeited\<rparr>]\<rparr>)"
proof -
  have "matchEnded ''m1'' (demoWorld\<lparr>w_matches := [demoMatch\<lparr>mt_status := Forfeited\<rparr>]\<rparr>)"
    by (simp add: matchEnded_def matches_findById_def demoMatch_def)
  then show ?thesis using match_ends_once by blast
qed

theorem ratings_follow_elo_witness:
  "\<exists>w' p1 p2 (rc1 :: RatingChange) (rc2 :: RatingChange). finalize ''m1'' (Some ''alice'') HpZero demoWorld = (Inr True, w') \<and> p1 \<noteq> p2 \<and>
     map_option us_rating (users_findById p1 w') = Some (rc_after rc1) \<and>
     map_option us_rating (users_findById p2 w') = Some (rc_after rc2)"
proof -
  obtain w' where fin: "finalize ''m1'' (Some ''alice'') HpZero demoWorld = (Inr True, w')"
    using demo_finalize by blast
  have "''alice'' \<noteq> []" by simp
  from ratings_follow_elo [OF demoWorld_ok fin this] fin show ?thesis
    by (elim exE conjE) (intro exI conjI, assumption+)
qed


end
