(* ===== verification/Rankings.thy ===== *)
theory Rankings
  imports Match_Service_Props
begin

text \<open>
  \<open>user/stats.service.ts\<close> and \<open>user/leaderboard.service.ts\<close>: two read models over the tables, cached in
  Redis. The aggregate queries run on the replica, whose rows are arguments (\<open>ms\<close>, \<open>us\<close>); they may lag
  behind the primary. \<open>getUp\<close> and \<open>setUp\<close> say whether the cache read and the cache write reach Redis:
  both failures are caught. A cached string of another shape than the one written here counts as
  unparsable.
\<close>

subsection \<open>Player statistics\<close>

record PlayerStats =
  ps_matches :: nat
  ps_wins :: nat
  ps_losses :: nat
  ps_winRate :: "nat option"
  ps_currentRank :: "nat option"

definition STATS_CACHE_TTL_SECONDS :: int where "STATS_CACHE_TTL_SECONDS = 60"

definition terminalOf :: "string \<Rightarrow> Match \<Rightarrow> bool" where
  "terminalOf userId m \<longleftrightarrow> (mt_status m = MatchFinished \<or> mt_status m = Forfeited) \<and> involves userId m"

text \<open>\<open>Math.round(wins / matches * 100)\<close> on naturals; \<open>COUNT(rating > mine) + 1\<close>.\<close>

definition greaterCount :: "int \<Rightarrow> UserRow list \<Rightarrow> nat" where
  "greaterCount rating us = length (filter (\<lambda>u. us_rating u > rating) us)"

definition computeStats :: "Match list \<Rightarrow> UserRow list \<Rightarrow> string \<Rightarrow> world \<Rightarrow> PlayerStats" where
  "computeStats ms us userId w =
     (let matches = length (filter (terminalOf userId) ms);
          wins = length (filter (\<lambda>m. terminalOf userId m \<and> mt_winnerId m = Some userId) ms);
          losses = length (filter (\<lambda>m. terminalOf userId m \<and> mt_winnerId m \<noteq> None \<and> mt_winnerId m \<noteq> Some userId) ms);
          winRate = (if matches > 0 then Some ((200 * wins + matches) div (2 * matches)) else None)
      in case users_findById userId w of
           None \<Rightarrow> \<lparr>ps_matches = matches, ps_wins = wins, ps_losses = losses, ps_winRate = winRate, ps_currentRank = None\<rparr>
         | Some user \<Rightarrow> \<lparr>ps_matches = matches, ps_wins = wins, ps_losses = losses, ps_winRate = winRate,
             ps_currentRank = Some (greaterCount (us_rating user) us + 1)\<rparr>)"

definition optNat :: "nat option \<Rightarrow> json" where
  "optNat n = (case n of None \<Rightarrow> JNull | Some k \<Rightarrow> JNum (int k))"

fun natOf :: "json option \<Rightarrow> nat option" where
  "natOf (Some (JNum n)) = Some (nat n)"
| "natOf _ = None"

lemma natOf_optNat [simp]: "natOf (Some (optNat n)) = n"
  by (cases n) (simp_all add: optNat_def)

definition statsJson :: "PlayerStats \<Rightarrow> json" where
  "statsJson s = JObj [(''matches'', JNum (int (ps_matches s))), (''wins'', JNum (int (ps_wins s))),
     (''losses'', JNum (int (ps_losses s))), (''winRate'', optNat (ps_winRate s)),
     (''currentRank'', optNat (ps_currentRank s))]"

definition statsOf :: "json \<Rightarrow> PlayerStats option" where
  "statsOf j = (case asObj (Some j) of None \<Rightarrow> None | Some kvs \<Rightarrow>
     (case (natOf (getProp kvs ''matches''), natOf (getProp kvs ''wins''), natOf (getProp kvs ''losses'')) of
        (Some m, Some v, Some l) \<Rightarrow>
          Some \<lparr>ps_matches = m, ps_wins = v, ps_losses = l, ps_winRate = natOf (getProp kvs ''winRate''),
                ps_currentRank = natOf (getProp kvs ''currentRank'')\<rparr>
      | _ \<Rightarrow> None))"

lemma statsOf_statsJson [simp]: "statsOf (statsJson s) = Some s"
  by (cases s) (simp add: statsOf_def statsJson_def getProp_def)

definition getStats :: "bool \<Rightarrow> bool \<Rightarrow> Match list \<Rightarrow> UserRow list \<Rightarrow> string \<Rightarrow> world \<Rightarrow> PlayerStats \<times> world" where
  "getStats getUp setUp ms us userId w =
     (let cached = (if getUp then getStr (statsCacheKey userId) (w_redis w) else None)
      in case Option.bind (jsonParse cached) statsOf of
           Some s \<Rightarrow> (s, w)
         | None \<Rightarrow>
             let stats = computeStats ms us userId w
             in (stats, if setUp then onRedis (setEx (statsCacheKey userId) (HJson (statsJson stats))
                                                 STATS_CACHE_TTL_SECONDS) w
                        else w))"

subsection \<open>Leaderboard\<close>

record LeaderboardEntry =
  le_rank :: nat
  le_username :: string
  le_rating :: int

record LeaderboardResponse =
  lr_entries :: "LeaderboardEntry list"
  lr_me :: LeaderboardEntry
  lr_limit :: nat
  lr_offset :: nat
  lr_total :: nat

definition LEADERBOARD_CACHE_TTL_SECONDS :: int where "LEADERBOARD_CACHE_TTL_SECONDS = 30"

definition INITIAL_VERSION :: string where "INITIAL_VERSION = ''0''"

definition leaderboardCacheKey :: "string \<Rightarrow> string \<Rightarrow> nat \<Rightarrow> nat \<Rightarrow> string" where
  "leaderboardCacheKey version userId limit offset =
     ''leaderboard:'' @ version @ '':'' @ userId @ '':'' @ showNat limit @ '':'' @ showNat offset"

text \<open>\<open>None\<close> means that the cache is bypassed.\<close>

definition readVersion :: "bool \<Rightarrow> world \<Rightarrow> string option" where
  "readVersion getUp w =
     (if getUp then Some (case getStr LEADERBOARD_VERSION_KEY (w_redis w) of Some (HStr v) \<Rightarrow> v | _ \<Rightarrow> INITIAL_VERSION)
      else None)"

definition boardEntry :: "UserRow list \<Rightarrow> UserRow \<Rightarrow> LeaderboardEntry" where
  "boardEntry us u = \<lparr>le_rank = greaterCount (us_rating u) us + 1, le_username = us_username u, le_rating = us_rating u\<rparr>"

text \<open>\<open>ORDER BY rating DESC, id ASC\<close>; \<open>RANK()\<close> gives every row one more than the number of better ones.\<close>

definition ranking :: "UserRow list \<Rightarrow> UserRow list" where
  "ranking us = js_sort (cmp_key (\<lambda>u. (- us_rating u, us_id u))) us"

definition computeLeaderboard :: "UserRow list \<Rightarrow> string \<Rightarrow> nat \<Rightarrow> nat \<Rightarrow> LeaderboardResponse result" where
  "computeLeaderboard us userId limit offset =
     (case List.find (\<lambda>u. us_id u = userId) us of
        None \<Rightarrow> Inl ''user not found''
      | Some me \<Rightarrow> Inr \<lparr>lr_entries = map (boardEntry us) (take limit (drop offset (ranking us))),
          lr_me = boardEntry us me, lr_limit = limit, lr_offset = offset, lr_total = length us\<rparr>)"

definition entryJson :: "LeaderboardEntry \<Rightarrow> json" where
  "entryJson e = JObj [(''rank'', JNum (int (le_rank e))), (''username'', JStr (le_username e)),
     (''rating'', JNum (le_rating e))]"

fun entryOf :: "json option \<Rightarrow> LeaderboardEntry option" where
  "entryOf (Some (JObj kvs)) =
     (case (natOf (getProp kvs ''rank''), getProp kvs ''username'', getProp kvs ''rating'') of
        (Some k, Some (JStr n), Some (JNum r)) \<Rightarrow> Some \<lparr>le_rank = k, le_username = n, le_rating = r\<rparr>
      | _ \<Rightarrow> None)"
| "entryOf _ = None"

lemma entryOf_entryJson [simp]: "entryOf (Some (entryJson e)) = Some e"
  by (cases e) (simp add: entryJson_def getProp_def)

definition leaderboardJson :: "LeaderboardResponse \<Rightarrow> json" where
  "leaderboardJson r = JObj [(''entries'', JArr (map entryJson (lr_entries r))), (''me'', entryJson (lr_me r)),
     (''limit'', JNum (int (lr_limit r))), (''offset'', JNum (int (lr_offset r))), (''total'', JNum (int (lr_total r)))]"

definition leaderboardOf :: "json \<Rightarrow> LeaderboardResponse option" where
  "leaderboardOf j = (case asObj (Some j) of None \<Rightarrow> None | Some kvs \<Rightarrow>
     (case (entryOf (getProp kvs ''me''), natOf (getProp kvs ''limit''), natOf (getProp kvs ''offset''),
            natOf (getProp kvs ''total'')) of
        (Some me, Some l, Some p, Some t) \<Rightarrow>
          Some \<lparr>lr_entries = map (\<lambda>e. the (entryOf (Some e))) (arrayOf (getProp kvs ''entries'')), lr_me = me,
                lr_limit = l, lr_offset = p, lr_total = t\<rparr>
      | _ \<Rightarrow> None))"

lemma leaderboardOf_leaderboardJson [simp]: "leaderboardOf (leaderboardJson r) = Some r"
  by (cases r) (simp add: leaderboardOf_def leaderboardJson_def getProp_def o_def)

definition getLeaderboard ::
  "bool \<Rightarrow> bool \<Rightarrow> UserRow list \<Rightarrow> string \<Rightarrow> nat \<Rightarrow> nat \<Rightarrow> world \<Rightarrow> LeaderboardResponse result \<times> world" where
  "getLeaderboard getUp setUp us userId limit offset w =
     (let version = readVersion getUp w;
          key = leaderboardCacheKey (the version) userId limit offset;
          cached = (if version \<noteq> None then getStr key (w_redis w) else None)
      in case Option.bind (jsonParse cached) leaderboardOf of
           Some response \<Rightarrow> (Inr response, w)
         | None \<Rightarrow>
             (case computeLeaderboard us userId limit offset of
                Inl e \<Rightarrow> (Inl e, w)
              | Inr response \<Rightarrow>
                  (Inr response,
                   if version \<noteq> None \<and> setUp
                   then onRedis (setEx key (HJson (leaderboardJson response)) LEADERBOARD_CACHE_TTL_SECONDS) w
                   else w)))"

subsection \<open>Ranks\<close>

lemma ranking_sorted: "sorted_wrt (\<lambda>u v. (- us_rating u, us_id u) \<le> (- us_rating v, us_id v)) (ranking us)"
  using key_order.sorted_sort [of "\<lambda>u. (- us_rating u, us_id u)" us] by (simp add: ranking_def)

lemma greaterCount_antimono: "a \<le> b \<Longrightarrow> greaterCount b us \<le> greaterCount a us"
  unfolding greaterCount_def by (induction us) auto

lemma greaterCount_ranking: "greaterCount r (ranking us) = greaterCount r us"
proof -
  have "mset (filter (\<lambda>u. us_rating u > r) (ranking us)) = mset (filter (\<lambda>u. us_rating u > r) us)"
    by (simp add: ranking_def)
  then show ?thesis unfolding greaterCount_def by (rule mset_eq_length)
qed

text \<open>Nobody below position \<open>i\<close> is better than the user there, so the rank is at most the position.\<close>

lemma rank_le_position:
  assumes "i < length us"
  shows "greaterCount (us_rating (ranking us ! i)) us \<le> i"
proof -
  let ?xs = "ranking us" and ?r = "us_rating (ranking us ! i)"
  have len: "i < length ?xs" using assms by (simp add: ranking_def)
  have "us_rating (?xs ! j) \<le> ?r" if "i \<le> j" "j < length ?xs" for j
    using sorted_wrt_nth_less [OF ranking_sorted [of us], of i j] that len by (cases "i = j") (auto simp: less_eq_prod_def)
  then have "filter (\<lambda>u. us_rating u > ?r) (drop i ?xs) = []"
    by (auto simp: filter_Nil_iff in_set_conv_nth not_less)
  then have "filter (\<lambda>u. us_rating u > ?r) ?xs = filter (\<lambda>u. us_rating u > ?r) (take i ?xs)"
    by (metis append_Nil2 append_take_drop_id filter_append)
  then have "greaterCount ?r ?xs \<le> length (take i ?xs)"
    unfolding greaterCount_def by (metis length_filter_le)
  then show ?thesis using len by (simp add: greaterCount_ranking)
qed


subsection \<open>Versioned cache keys\<close>

text \<open>The current version as a number, and the invariant: no entry is of a version still to come.\<close>

definition boardVersion :: "world \<Rightarrow> nat" where
  "boardVersion w = seqOf LEADERBOARD_VERSION_KEY (w_redis w)"

definition versions_ok :: "world \<Rightarrow> bool" where
  "versions_ok w \<longleftrightarrow>
     (getStr LEADERBOARD_VERSION_KEY (w_redis w) = None \<or>
      getStr LEADERBOARD_VERSION_KEY (w_redis w) = Some (HStr (showNat (boardVersion w)))) \<and>
     (\<forall>n u l k. getStr (leaderboardCacheKey (showNat n) u l k) (w_redis w) \<noteq> None \<longrightarrow> n \<le> boardVersion w)"

lemma versions_okI:
  assumes "getStr LEADERBOARD_VERSION_KEY (w_redis w) = None \<or>
      getStr LEADERBOARD_VERSION_KEY (w_redis w) = Some (HStr (showNat (boardVersion w)))"
    and "\<And>n u l k. getStr (leaderboardCacheKey (showNat n) u l k) (w_redis w) \<noteq> None \<Longrightarrow> n \<le> boardVersion w"
  shows "versions_ok w"
  using assms unfolding versions_ok_def by blast

lemma colon_split:
  assumes "CHR '':'' \<notin> set a" and "CHR '':'' \<notin> set b" and "a @ CHR '':'' # x = b @ CHR '':'' # y"
  shows "a = b"
proof -
  have "takeWhile (\<lambda>c. c \<noteq> CHR '':'') (a @ CHR '':'' # x) = a"
    using assms(1) by (subst takeWhile_append2) auto
  moreover have "takeWhile (\<lambda>c. c \<noteq> CHR '':'') (b @ CHR '':'' # y) = b"
    using assms(2) by (subst takeWhile_append2) auto
  ultimately show ?thesis using assms(3) by simp
qed

lemma showNat_no_colon: "CHR '':'' \<notin> set (showNat n)"
proof
  assume "CHR '':'' \<in> set (showNat n)"
  with showNat_digits [of n] have "isDigit (CHR '':'')" by (simp add: list_all_iff)
  then show False by (simp add: isDigit_def)
qed

lemma cacheKey_version:
  "leaderboardCacheKey (showNat n) u l k = leaderboardCacheKey (showNat n') u' l' k' \<Longrightarrow> n = n'"
  using colon_split [OF showNat_no_colon showNat_no_colon, of n "u @ '':'' @ showNat l @ '':'' @ showNat k" n'
      "u' @ '':'' @ showNat l' @ '':'' @ showNat k'"]
  by (simp add: leaderboardCacheKey_def)

lemma key_hd: "showNat n \<noteq> CHR ''v'' # s"
proof
  assume "showNat n = CHR ''v'' # s"
  with showNat_digits [of n] have "isDigit (CHR ''v'')" by simp
  then show False by (simp add: isDigit_def)
qed

lemma cacheKey_distinct [simp]:
  "leaderboardCacheKey (showNat n) u l k \<noteq> LEADERBOARD_VERSION_KEY"
  "LEADERBOARD_VERSION_KEY \<noteq> leaderboardCacheKey (showNat n) u l k"
  "statsCacheKey v \<noteq> leaderboardCacheKey x u l k" "statsCacheKey v \<noteq> LEADERBOARD_VERSION_KEY"
  "LEADERBOARD_VERSION_KEY \<noteq> statsCacheKey v" "leaderboardCacheKey x u l k \<noteq> statsCacheKey v"
  using key_hd [of n]
  by (auto simp: leaderboardCacheKey_def LEADERBOARD_VERSION_KEY_def statsCacheKey_def append_eq_Cons_conv
      dest: sym)

lemma zero_showNat: "''0'' = showNat 0"
  by (simp add: showNat.simps [of 0] digitChar_def char_of_def bit_0)

lemma readVersion_ok: "versions_ok w \<Longrightarrow> readVersion True w = Some (showNat (boardVersion w))"
proof (cases "getStr LEADERBOARD_VERSION_KEY (w_redis w)")
  case None
  then show ?thesis
    by (simp add: readVersion_def INITIAL_VERSION_def boardVersion_def seqOf_def getStr_def zero_showNat)
qed (simp add: versions_ok_def readVersion_def)

lemma versions_okD:
  "versions_ok w \<Longrightarrow> getStr (leaderboardCacheKey (showNat n) u l k) (w_redis w) \<noteq> None \<Longrightarrow> n \<le> boardVersion w"
  unfolding versions_ok_def by blast

lemma versions_okD':
  "versions_ok w \<Longrightarrow> r_str (w_redis w) (leaderboardCacheKey (showNat n) u l k) = Some y \<Longrightarrow> n \<le> boardVersion w"
  using versions_okD [of w n u l k] by (simp add: getStr_def)

lemma versions_ok_redis:
  "w_redis w = w_redis w' \<Longrightarrow> versions_ok w = versions_ok w' \<and> boardVersion w = boardVersion w'"
  by (simp add: versions_ok_def boardVersion_def)

lemma versions_ok_cached:
  assumes "versions_ok w"
  shows "versions_ok (onRedis (setEx (leaderboardCacheKey (showNat (boardVersion w)) u l k) v t) w)"
proof -
  let ?w = "onRedis (setEx (leaderboardCacheKey (showNat (boardVersion w)) u l k) v t) w"
  have v: "boardVersion ?w = boardVersion w"
    by (simp add: boardVersion_def seqOf_def)
  have "n \<le> boardVersion w" if "getStr (leaderboardCacheKey (showNat n) u' l' k') (w_redis ?w) \<noteq> None" for n u' l' k'
  proof (cases "leaderboardCacheKey (showNat n) u' l' k' = leaderboardCacheKey (showNat (boardVersion w)) u l k")
    case True
    from cacheKey_version [OF this] show ?thesis by simp
  next
    case False
    with that have "getStr (leaderboardCacheKey (showNat n) u' l' k') (w_redis w) \<noteq> None" by (simp add: getStr_def)
    with versions_okD [OF assms] show ?thesis by blast
  qed
  moreover have "getStr LEADERBOARD_VERSION_KEY (w_redis ?w) = getStr LEADERBOARD_VERSION_KEY (w_redis w)"
    by (simp add: getStr_def)
  ultimately show ?thesis using assms unfolding versions_ok_def v by simp
qed

lemma versions_ok_getLeaderboard:
  "versions_ok w \<Longrightarrow> versions_ok (snd (getLeaderboard getUp setUp us u l k w))"
  using readVersion_ok [of w] versions_ok_cached [of w]
  by (cases getUp)
    (auto simp: getLeaderboard_def Let_def readVersion_def [of False] split: option.splits sum.splits)

lemma str_dels: "r_str (fold (\<lambda>u. del (statsCacheKey u)) us r) k = (if k \<in> statsCacheKey ` set us then None else r_str r k)"
  by (induction us arbitrary: r) auto

lemma versions_ok_invalidate: "versions_ok w \<Longrightarrow> versions_ok (invalidateUsers us w)"
proof -
  assume ok: "versions_ok w"
  have "boardVersion (invalidateUsers us w) = boardVersion w"
    by (auto simp: boardVersion_def seqOf_def invalidateUsers_def tryRedis_def str_dels)
  then show ?thesis
    using ok by (intro versions_okI) (auto dest!: versions_okD' [OF ok] simp: getStr_def invalidateUsers_def tryRedis_def str_dels
        versions_ok_def [of w] split: if_splits)
qed

lemma bumpVersion_next:
  assumes "versions_ok w" and "w_cacheUp w"
  shows "boardVersion (bumpVersion w) = Suc (boardVersion w) \<and> versions_ok (bumpVersion w)"
proof -
  have v: "boardVersion (bumpVersion w) = Suc (boardVersion w)"
    using assms(2) by (simp add: bumpVersion_def tryRedis_def boardVersion_def incr_def seqOf_def)
  moreover have "versions_ok (bumpVersion w)"
    using assms v by (fastforce simp: versions_ok_def bumpVersion_def tryRedis_def incr_def getStr_def boardVersion_def)
  ultimately show ?thesis by simp
qed

lemma fresh_after_bump:
  assumes "versions_ok w" and "boardVersion w' = Suc (boardVersion w)" and "versions_ok w'"
    and "\<And>k. k \<noteq> LEADERBOARD_VERSION_KEY \<Longrightarrow> getStr k (w_redis w') \<noteq> None \<Longrightarrow> getStr k (w_redis w) \<noteq> None"
  shows "fst (getLeaderboard True setUp us u l k w') = computeLeaderboard us u l k"
proof -
  have "getStr (leaderboardCacheKey (showNat (boardVersion w')) u l k) (w_redis w') = None"
  proof (rule ccontr)
    assume "getStr (leaderboardCacheKey (showNat (boardVersion w')) u l k) (w_redis w') \<noteq> None"
    with assms(4) have "getStr (leaderboardCacheKey (showNat (boardVersion w')) u l k) (w_redis w) \<noteq> None" by simp
    with versions_okD [OF assms(1)] have "boardVersion w' \<le> boardVersion w" by blast
    with assms(2) show False by simp
  qed
  with readVersion_ok [OF assms(3)] show ?thesis
    by (simp add: getLeaderboard_def Let_def split: sum.splits)
qed

text \<open>
  No stale leaderboard after a match. When a match was finalized while Redis was reachable, the
  next leaderboard request of any user, for any page, is computed from the tables and not served
  from an entry cached before, whatever entries earlier requests left; and the version the next
  entries go under is the successor of the old one.
\<close>

theorem finalize_refreshes_leaderboard:
  assumes "versions_ok w" and "w_cacheUp w" and "finalize mid win reason w = (Inr True, w')"
  shows "fst (getLeaderboard True setUp us u l k w') = computeLeaderboard us u l k \<and>
    boardVersion w' = Suc (boardVersion w) \<and> versions_ok w'"
proof -
  from assms(3) show ?thesis
  proof (rule finalize_Inr_True)
    fix m rc w1
    assume tx: "finalizeTx mid win reason w = (Inr (Finalized m rc), w1)"
      and w': "w' = publish (mt_id m) (MatchEndEvent (matchEndPayload m reason rc))
      (bumpVersion (invalidateUsers [mt_player1Id m, mt_player2Id m]
        (scheduleMatchCleanup (mt_id m) (w_now w1 + CLEANUP_GRACE_MS) w1)))"
    have same: "w_redis w1 = w_redis w \<and> w_cacheUp w1 = w_cacheUp w"
      using finalizeTx_redis [OF tx] by simp
    let ?w2 = "invalidateUsers [mt_player1Id m, mt_player2Id m]
        (scheduleMatchCleanup (mt_id m) (w_now w1 + CLEANUP_GRACE_MS) w1)"
    have r2: "w_redis (scheduleMatchCleanup x t w1) = w_redis w" "w_cacheUp (scheduleMatchCleanup x t w1) = w_cacheUp w" for x t
      using same by (simp_all add: scheduleMatchCleanup_def addJob_def)
    have ok1: "versions_ok (scheduleMatchCleanup (mt_id m) (w_now w1 + CLEANUP_GRACE_MS) w1)"
      using assms(1) by (simp add: versions_ok_def boardVersion_def r2)
    from versions_ok_invalidate [OF this] have ok2: "versions_ok ?w2" .
    have up2: "w_cacheUp ?w2"
      using assms(2) r2 by (simp add: invalidateUsers_def tryRedis_def onRedis_def)
    have v2: "boardVersion ?w2 = boardVersion w"
      using assms(2) r2 by (simp add: boardVersion_def seqOf_def invalidateUsers_def tryRedis_def str_dels)
    note bumped = bumpVersion_next [OF ok2 up2]
    have red: "w_redis w' = w_redis (bumpVersion ?w2)" by (simp add: w')
    have ok': "versions_ok w'" and v': "boardVersion w' = Suc (boardVersion w)"
      using bumped v2 versions_ok_redis [OF red] by simp_all
    have "getStr x (w_redis w') \<noteq> None \<Longrightarrow> getStr x (w_redis w) \<noteq> None" if "x \<noteq> LEADERBOARD_VERSION_KEY" for x
      using that assms(2) r2 up2
      by (auto simp: red bumpVersion_def tryRedis_def incr_def getStr_def invalidateUsers_def str_dels split: if_splits)
    from fresh_after_bump [OF assms(1) v' ok' this] v' ok' show ?thesis by simp
  qed
qed

lemma demo_versions: "versions_ok demoWorld"
  by (simp add: versions_ok_def demoWorld_def emptyRedis_def getStr_def)

theorem finalize_refreshes_leaderboard_witness:
  "\<exists>w'. finalize ''m1'' (Some ''alice'') HpZero demoWorld = (Inr True, w') \<and> boardVersion w' = 1"
proof -
  obtain w' where fin: "finalize ''m1'' (Some ''alice'') HpZero demoWorld = (Inr True, w')"
    using demo_finalize by blast
  have "w_cacheUp demoWorld" "boardVersion demoWorld = 0"
    by (simp_all add: demoWorld_def boardVersion_def seqOf_def emptyRedis_def)
  with finalize_refreshes_leaderboard [OF demo_versions _ fin] fin show ?thesis by auto
qed


end
