(* ===== verification/Runtime_Steps.thy ===== *)
theory Runtime_Steps
  imports Match_Runtime Match_Service_Props
begin

text \<open>
  Interleavings. A handler is not atomic: between two of its Redis commands other replicas run
  theirs. \<open>rt_step\<close> has one rule per atomic write that any handler issues on the keys of a match, with
  the arguments the handlers may use; whatever the replicas do, in whatever order their commands
  reach Redis, the keyspace moves along \<open>rt_step\<close>. Every handler is shown to be a sequence of such
  steps, so the invariants below hold for all interleavings.
\<close>

subsection \<open>Atomic steps\<close>

definition playerFields :: "string set" where
  "playerFields = {''p1State'', ''p2State'', ''readyP1'', ''readyP2''}"

definition roundFields :: "string set" where
  "roundFields = playerFields \<union> {''wipeIndexP1'', ''wipeIndexP2'', ''combatRound'', ''scoutRound'', ''scoutP1Board'',
     ''scoutP2Board'', ''player1Name'', ''player2Name''}"

inductive rt_step :: "string \<Rightarrow> redis \<Rightarrow> redis \<Rightarrow> bool" for m where
  rt_start: "rt_step m r (snd (flipTo (runtimeKey m) inst (n, ShopPlace) (n, BattlePhase) r))"
| rt_resolve: "rt_step m r (snd (flipTo (runtimeKey m) inst (n, BattlePhase) (n, Resolved) r))"
| rt_advance: "rt_step m r (snd (flipTo (runtimeKey m) inst (n, Resolved) (Suc n, ShopPlace) r))"
| rt_surrender: "p \<noteq> Finished \<Longrightarrow> rt_step m r (snd (flipTo (runtimeKey m) inst (n, p) (n, Finished) r))"
| rt_commit: "a_field a \<in> playerFields \<Longrightarrow> rt_step m r (snd (logAction m u a r))"
| rt_write: "fst ` set fvs \<subseteq> roundFields \<Longrightarrow> rt_step m r (hsets (runtimeKey m) fvs r)"
| rt_finish: "fst ` set fvs \<subseteq> roundFields \<Longrightarrow>
    rt_step m r (hsets (runtimeKey m) ((''phase'', HStr ''finished'') # fvs) r)"
| rt_other: "r_hash r' (runtimeKey m) = r_hash r (runtimeKey m) \<Longrightarrow> rt_step m r r'"

inductive_cases rt_stepE: "rt_step m r r'"

abbreviation rt_steps :: "string \<Rightarrow> redis \<Rightarrow> redis \<Rightarrow> bool" where
  "rt_steps m \<equiv> (rt_step m)\<^sup>*\<^sup>*"

subsection \<open>Round and phase only move forward\<close>

lemma phaseAt_hash: "r_hash r' k = r_hash r k \<Longrightarrow> phaseAt k r' = phaseAt k r"
  by (simp add: phaseAt_def hget_def)

lemma roundFields_not_phase: "f \<in> roundFields \<Longrightarrow> f \<noteq> ''phase'' \<and> f \<noteq> ''round''"
  by (auto simp: roundFields_def playerFields_def)

lemma phaseAt_write:
  assumes "fst ` set fvs \<subseteq> roundFields"
  shows "phaseAt k (hsets k fvs r) = phaseAt k r"
proof -
  have "map_of (rev fvs) ''phase'' = None" "map_of (rev fvs) ''round'' = None"
    using assms roundFields_not_phase by (fastforce simp: map_of_eq_None_iff)+
  then show ?thesis by (simp add: phaseAt_def hget_hsets)
qed

lemma hget_runtime_hset: "f \<noteq> ''phase'' \<Longrightarrow> f \<noteq> ''round'' \<Longrightarrow> phaseAt k (hset k f v r) = phaseAt k r"
  by (simp add: phaseAt_def)

lemma hget_logAction:
  "f \<noteq> a_field a \<Longrightarrow> hget (runtimeKey m) f (snd (logAction m u a r)) = hget (runtimeKey m) f r"
  by (auto simp: logAction_cases split: option.split)

lemma phaseAt_logAction:
  assumes "a_field a \<in> playerFields"
  shows "phaseAt (runtimeKey m) (snd (logAction m u a r)) = phaseAt (runtimeKey m) r"
proof -
  have "''phase'' \<noteq> a_field a" "''round'' \<noteq> a_field a" using assms by (auto simp: playerFields_def)
  then show ?thesis by (simp add: phaseAt_def hget_logAction)
qed

lemma flip_phase:
  assumes "phaseAt k r = Some v0"
  shows "phaseAt k (snd (flipTo k inst v w r)) = (if v0 = v then Some w else Some v0)"
  using phase_register.flip_new [of k r v inst w] phase_register.flip_fail [of k r v inst w] assms by auto

lemma Finished_max: "p \<le> Finished"
  by (cases p) (simp_all add: less_eq_MatchPhase_def)

lemma phase_order [simp]: "ShopPlace \<le> p" "BattlePhase \<le> Resolved" "\<not> Resolved \<le> BattlePhase" "\<not> BattlePhase \<le> ShopPlace"
  by (simp_all add: less_eq_MatchPhase_def)

text \<open>What every single step keeps.\<close>

definition forward :: "nat \<times> MatchPhase \<Rightarrow> (nat \<times> MatchPhase) option \<Rightarrow> bool" where
  "forward v o' \<longleftrightarrow> (\<exists>v'. o' = Some v' \<and> v \<le> v' \<and> (snd v = Finished \<longrightarrow> v' = v))"

lemma forward_Some: "forward v (Some v') \<longleftrightarrow> v \<le> v' \<and> (snd v = Finished \<longrightarrow> v' = v)"
  unfolding forward_def by blast

lemma forward_refl [simp]: "forward v (Some v)"
  by (simp add: forward_Some)

lemma forward_flip:
  assumes "phaseAt k r = Some v" and "v1 \<le> v2" and "snd v1 \<noteq> Finished"
  shows "forward v (phaseAt k (snd (flipTo k inst v1 v2 r)))"
  using assms(2,3) by (simp add: flip_phase [OF assms(1)] forward_Some)

lemma step_forward:
  assumes "rt_step m r r'" and at: "phaseAt (runtimeKey m) r = Some v"
  shows "forward v (phaseAt (runtimeKey m) r')"
  using assms(1)
proof cases
  case (rt_start inst n)
  show ?thesis unfolding rt_start by (rule forward_flip [OF at]) (simp_all add: less_eq_prod_def)
next
  case (rt_resolve inst n)
  show ?thesis unfolding rt_resolve by (rule forward_flip [OF at]) (simp_all add: less_eq_prod_def)
next
  case (rt_advance inst n)
  show ?thesis unfolding rt_advance by (rule forward_flip [OF at]) (simp_all add: less_eq_prod_def)
next
  case (rt_surrender p inst n)
  show ?thesis unfolding rt_surrender(1)
    by (rule forward_flip [OF at]) (simp_all add: less_eq_prod_def Finished_max rt_surrender(2))
next
  case (rt_commit a u)
  show ?thesis unfolding rt_commit(1) phaseAt_logAction [OF rt_commit(2)] at by simp
next
  case (rt_write fvs)
  show ?thesis unfolding rt_write(1) phaseAt_write [OF rt_write(2)] at by simp
next
  case (rt_finish fvs)
  obtain n p where v: "v = (n, p)" by fastforce
  have "phaseAt (runtimeKey m) r' = phaseAt (runtimeKey m) (hset (runtimeKey m) ''phase'' (HStr ''finished'') r)"
    unfolding rt_finish(1) hsets_Cons by (rule phaseAt_write [OF rt_finish(2)])
  moreover have "phaseAt (runtimeKey m) (hset (runtimeKey m) ''phase'' (HStr ''finished'') r) = Some (n, Finished)"
    using at v by simp
  ultimately have "phaseAt (runtimeKey m) r' = Some (n, Finished)" by simp
  moreover have "(n, p) \<le> (n, Finished)" by (simp add: less_eq_prod_def Finished_max)
  moreover have "p = Finished \<longrightarrow> (n, Finished) = (n, p)" by simp
  ultimately show ?thesis unfolding v by (simp only: forward_Some snd_conv)
next
  case rt_other
  show ?thesis unfolding phaseAt_hash [OF rt_other] at by simp
qed

lemma steps_forward:
  assumes "rt_steps m r r'" and "phaseAt (runtimeKey m) r = Some v"
  shows "forward v (phaseAt (runtimeKey m) r')"
  using assms
proof (induction rule: rtranclp_induct)
  case (step r1 r2)
  then obtain v1 where v1: "phaseAt (runtimeKey m) r1 = Some v1" "v \<le> v1" "snd v = Finished \<longrightarrow> v1 = v"
    unfolding forward_def by blast
  from step_forward [OF step.hyps(2) v1(1)] v1(2,3) show ?case unfolding forward_def by force
qed simp

text \<open>
  C8: A match only moves forward. Along any interleaving of the writes that any number of replicas
  issue, the pair of round and phase never decreases (shop, battle, resolved within a round, then
  the next round), it stays readable, and once the match is finished neither changes again.
\<close>

theorem runtime_moves_forward:
  assumes "rt_steps m r r'" and "phaseAt (runtimeKey m) r = Some v"
  shows "\<exists>v'. phaseAt (runtimeKey m) r' = Some v' \<and> v \<le> v' \<and> (snd v = Finished \<longrightarrow> v' = v)"
  using steps_forward [OF assms] unfolding forward_def .

definition demoPhase :: redis where
  "demoPhase = hsets (runtimeKey ''m'') [(''phase'', HStr (phaseName ShopPlace)), (''round'', HStr (showNat 1))] emptyRedis"

lemma demoPhase_at: "phaseAt (runtimeKey ''m'') demoPhase = Some (1, ShopPlace)"
  by (simp add: demoPhase_def)

lemma runtime_moves_forward_witness:
  "\<exists>v'. phaseAt (runtimeKey ''m'') (snd (flipTo (runtimeKey ''m'') ''i'' (1, ShopPlace) (1, BattlePhase) demoPhase)) = Some v'
     \<and> (1, ShopPlace) \<le> v'"
  using runtime_moves_forward [OF r_into_rtranclp [of "rt_step ''m''", OF rt_step.rt_start [of "''m''" demoPhase "''i''" 1]] demoPhase_at]
  by blast

subsection \<open>Handlers as step sequences\<close>

definition follows :: "string \<Rightarrow> (world \<Rightarrow> 'a \<times> world) \<Rightarrow> bool" where
  "follows m f \<longleftrightarrow> (\<forall>w. rt_steps m (w_redis w) (w_redis (snd (f w))))"

named_theorems follow_intros \<open>handlers and commands that keep to the steps of the protocol\<close>

interpretation runtime: stepwise w_redis "rt_step m" "\<lambda>_. True" for m
  by unfold_locales

lemma follows_moves: "follows m f \<longleftrightarrow> runtime.moves m f"
  by (simp add: follows_def runtime.moves_def)

lemma follows_quiet: "(\<And>w. w_redis (snd (f w)) = w_redis w) \<Longrightarrow> follows m f"
  by (simp add: follows_def)

lemma follows_step: "(\<And>w. rt_step m (w_redis w) (w_redis (snd (f w)))) \<Longrightarrow> follows m f"
  by (simp add: follows_def r_into_rtranclp)

lemma follows_andThen [follow_intros]: "follows m f \<Longrightarrow> (\<And>x. follows m (g x)) \<Longrightarrow> follows m (andThen f g)"
  unfolding follows_moves by (rule runtime.chain)

lemma follows_basic [follow_intros]:
  "follows m (ret x)" "follows m (throw e)" "follows m (guard b e)" "follows m (lift r)"
  by (simp_all add: follows_def)

lemma follows_if [follow_intros]: "follows m f \<Longrightarrow> follows m g \<Longrightarrow> follows m (if b then f else g)"
  by simp

lemma follows_modify: "(\<And>w. rt_steps m (w_redis w) (w_redis (f w))) \<Longrightarrow> follows m (modify f)"
  by (simp add: follows_def)

lemma quiet_effects [follow_intros]:
  "follows m (modify (publish k p))" "follows m (modify (publishToUser k u p))"
  "follows m (modify (addJob j))" "follows m (modify (writeCombatResult k e t))"
  "follows m (modify (clearCombatResult k))" "follows m (modify (publishState rt s st))"
  "follows m (modify (scheduleCombatDoneTimeout k n d))" "follows m (modify (scheduleRoundReadyTimeout k n d))"
  by (simp_all add: follows_def publishState_def Let_def scheduleCombatDoneTimeout_def scheduleRoundReadyTimeout_def)

lemma follows_write: "fst ` set fvs \<subseteq> roundFields \<Longrightarrow> follows m (modify (onRedis (hsets (runtimeKey m) fvs)))"
  by (rule follows_step) (simp add: rt_step.rt_write)

lemma follows_hset: "f \<in> roundFields \<Longrightarrow> follows m (modify (onRedis (hset (runtimeKey m) f v)))"
proof -
  have "hsets (runtimeKey m) [(f, v)] = hset (runtimeKey m) f v" by (simp add: fun_eq_iff)
  moreover assume "f \<in> roundFields"
  ultimately show ?thesis using follows_write [of "[(f, v)]" m] by simp
qed

lemma readyField_in [simp]: "readyField s \<in> roundFields" "readyField s \<in> playerFields" "stateField s \<in> playerFields"
  by (cases s; simp add: readyField_def stateField_def roundFields_def playerFields_def)+

lemma follows_expire: "follows m (modify (onRedis (expire k t)))"
  by (rule follows_step) (simp add: rt_step.rt_other)

lemma keys_runtime [simp]:
  "combatLockKey k \<noteq> runtimeKey m" "runtimeKey m \<noteq> combatLockKey k" "shopKey k u \<noteq> runtimeKey k" "runtimeKey k \<noteq> shopKey k u"
  "combatResultKey k \<noteq> runtimeKey k"
  by (simp_all add: combatLockKey_def runtimeKey_def shopKey_def combatResultKey_def)

lemma hash_del_other: "k \<noteq> runtimeKey m \<Longrightarrow> r_hash (del k r) (runtimeKey m) = r_hash r (runtimeKey m)"
  by (simp add: del_def)

lemma hash_setEx' [simp]: "r_hash (setEx k v t r) = r_hash r"
  by (simp add: setEx_def)

lemma hash_setNx' [simp]: "r_hash (snd (setNx k v t r)) = r_hash r"
  by (simp add: setNx_def)

lemma hash_releaseOwned:
  "k \<noteq> runtimeKey m \<Longrightarrow> r_hash (snd (releaseOwned k v r)) (runtimeKey m) = r_hash r (runtimeKey m)"
  by (simp add: releaseOwned_def hash_del_other)

lemma hash_combatDone: "r_hash (snd (combatDone (combatDoneKey m) u t r)) (runtimeKey m) = r_hash r (runtimeKey m)"
  by (simp add: combatDone_def Let_def hset_def)

lemma follows_database:
  "follows m (updateState k s j)" "follows m (updateRuntimeSnapshot k j1 j2 i1 i2)" "follows m (appendRoundEvents k n e)"
  "follows m (persistSnapshot rt s1 s2)"
  by (auto simp: follows_def persistSnapshot_def updateState_def updateRuntimeSnapshot_def appendRoundEvents_def
      matches_updateState_def matches_updateRuntimeSnapshot_def matches_update_def transaction_def saveRoundEvents_def
      Let_def split: option.splits prod.splits sum.splits if_splits)

lemmas follow_db [follow_intros] = follows_database

lemma finalize_hash: "r_hash (w_redis (snd (finalize k win reason w))) (runtimeKey m) = r_hash (w_redis w) (runtimeKey m)"
proof -
  have key: "statsCacheKey u \<noteq> runtimeKey m" for u by (simp add: statsCacheKey_def runtimeKey_def)
  have tx: "w_redis (snd (transaction (finalizeTx k win reason) w)) = w_redis w"
  proof -
    obtain res w1 where run: "finalizeTx k win reason w = (res, w1)" by fastforce
    have "w_redis w1 = w_redis w"
    proof (cases "matches_findById k w")
      case None
      with finalizeTx_missing run show ?thesis by simp
    next
      case (Some mt)
      show ?thesis
      proof (cases "mt_status mt = InProgress")
        case False
        with finalizeTx_terminal [OF Some] run show ?thesis by simp
      next
        case True
        from Some True run show ?thesis
          by (cases rule: finalizeTx_live) (auto dest: applyRatings_matches)
      qed
    qed
    with run show ?thesis by (cases res) (simp_all add: transaction_def)
  qed
  show ?thesis
    using tx
    by (auto simp: finalize_def scheduleMatchCleanup_def bumpVersion_def invalidateUsers_def tryRedis_def incr_def
        hash_del_other [OF key]
        split: prod.splits sum.splits FinalizeOutcome.splits)
qed

lemma follows_finalize [follow_intros]: "follows m (finalize k win reason)"
  by (rule follows_step) (simp add: rt_step.rt_other finalize_hash)

lemma follows_forfeit [follow_intros]: "follows m (forfeitDisconnectedPlayer k u)"
proof -
  have "rt_step m (w_redis w) (w_redis (snd (forfeitDisconnectedPlayer k u w)))" for w
    by (auto simp: forfeitDisconnectedPlayer_def Let_def finalize_hash intro!: rt_step.rt_other split: option.split)
  then show ?thesis by (rule follows_step)
qed

end
