(* ===== verification/Runtime_Protocol.thy ===== *)
theory Runtime_Protocol
  imports Runtime_Steps
begin

text \<open>
  Every handler of the orchestrator, and the three queue processors that call it, keep to the
  atomic steps of \<open>Runtime_Steps\<close> on the keys of the match they work on. So whatever requests and timers
  arrive, in whatever order and on whatever replicas, a match moves through its rounds and phases
  in one direction only.
\<close>

subsection \<open>Combinators\<close>

lemma steps_write: "fst ` set fvs \<subseteq> roundFields \<Longrightarrow> rt_steps m r (hsets (runtimeKey m) fvs r)"
  by (rule r_into_rtranclp) (rule rt_step.rt_write)

lemma steps_other: "r_hash r' (runtimeKey m) = r_hash r (runtimeKey m) \<Longrightarrow> rt_steps m r r'"
  by (rule r_into_rtranclp) (rule rt_step.rt_other)

lemma follows_finally [follow_intros]:
  "follows m f \<Longrightarrow> (\<And>w. rt_steps m (w_redis w) (w_redis (g w))) \<Longrightarrow> follows m (finallyDo f g)"
  unfolding follows_moves by (rule runtime.cleanup)

lemma parse_matchId: "parseRuntimeHash m h = Some rt \<Longrightarrow> m_matchId rt = m"
  by (auto simp: parseRuntimeHash_def Let_def split: option.splits if_splits)

lemma findRuntime_id: "findRuntime m w = (Some rt, w1) \<Longrightarrow> m_matchId rt = m"
  by (auto simp: findRuntime_def Let_def parse_matchId split: option.splits if_splits)

lemma follows_found [follow_intros]:
  assumes "follows m g" and "\<And>rt. m_matchId rt = m \<Longrightarrow> follows m (f rt)"
  shows "follows m (\<lambda>w. case findRuntime m w of (None, w1) \<Rightarrow> g w1 | (Some rt, w1) \<Rightarrow> f rt w1)"
proof -
  have find: "rt_steps m (w_redis w) (w_redis (snd (findRuntime m w)))" for w
    using rt_step.rt_write [where fvs = "[(''player1Name'', a), (''player2Name'', b)]" for a b]
    by (auto simp: findRuntime_def Let_def roundFields_def split: option.split)
  have "rt_steps m (w_redis w) (w_redis (snd (case findRuntime m w of (None, w1) \<Rightarrow> g w1 | (Some rt, w1) \<Rightarrow> f rt w1)))" for w
  proof -
    obtain x w1 where run: "findRuntime m w = (x, w1)" by fastforce
    with find [of w] have first: "rt_steps m (w_redis w) (w_redis w1)" by simp
    have "rt_steps m (w_redis w1) (w_redis (snd (case x of None \<Rightarrow> g w1 | Some rt \<Rightarrow> f rt w1)))"
      using assms findRuntime_id [of m w] run by (cases x) (simp_all add: follows_def)
    with first run show ?thesis by simp
  qed
  then show ?thesis by (simp add: follows_def)
qed

lemma follows_getRuntime [follow_intros]: "follows m (getRuntime m)"
proof -
  have eq: "getRuntime m = (\<lambda>w. case findRuntime m w of (None, w1) \<Rightarrow> (Inl ''match.runtime_not_found'', w1)
      | (Some rt, w1) \<Rightarrow> (Inr rt, w1))"
    by (rule ext) (simp add: getRuntime_def)
  show ?thesis unfolding eq by (rule follows_found) (simp_all add: follows_quiet)
qed

lemma follows_requireActionPhase [follow_intros]: "follows m (requireActionPhase m n ph)"
  unfolding requireActionPhase_def by (intro follow_intros)

text \<open>What a handler goes on with is a state of its match.\<close>

lemmas andThen_bound = runtime.bound [folded follows_moves]

lemma getRuntime_id: "getRuntime m w = (Inr rt, w1) \<Longrightarrow> m_matchId rt = m"
  by (auto simp: getRuntime_def findRuntime_id split: prod.splits option.splits)

lemma require_id: "requireActionPhase m n ph w = (Inr rt, w1) \<Longrightarrow> m_matchId rt = m"
  unfolding requireActionPhase_def
  by (auto dest!: andThen_InrD split: if_splits dest: getRuntime_id)

lemma follows_require:
  assumes "\<And>rt. m_matchId rt = m \<Longrightarrow> follows m (g rt)"
  shows "follows m (andThen (requireActionPhase m n ph) g)"
  using follows_requireActionPhase require_id assms
  by (rule andThen_bound [where P = "\<lambda>rt. m_matchId rt = m"])

text \<open>The four transitions a handler may attempt.\<close>

definition legalFlip :: "nat \<times> MatchPhase \<Rightarrow> nat \<times> MatchPhase \<Rightarrow> bool" where
  "legalFlip v v' \<longleftrightarrow>
     (case (v, v') of ((n, ph), (n', ph')) \<Rightarrow>
        n' = n \<and> (ph, ph') \<in> {(ShopPlace, BattlePhase), (BattlePhase, Resolved)}
      \<or> n' = n \<and> ph \<noteq> Finished \<and> ph' = Finished
      \<or> n' = Suc n \<and> ph = Resolved \<and> ph' = ShopPlace)"

lemma legalFlip_step: "legalFlip v v' \<Longrightarrow> rt_step m r (snd (flipTo (runtimeKey m) inst v v' r))"
  by (cases v; cases v')
    (auto simp: legalFlip_def intro: rt_step.rt_start rt_step.rt_resolve rt_step.rt_advance rt_step.rt_surrender)

lemma follows_flip [follow_intros]:
  assumes "legalFlip v v'" and "\<And>b. follows m (g b)"
  shows "follows m (\<lambda>w. case flipPhase pt m v v' w of (flipped, w2) \<Rightarrow> g flipped w2)"
proof -
  have "rt_steps m (w_redis w) (w_redis (snd (case flipPhase pt m v v' w of (flipped, w2) \<Rightarrow> g flipped w2)))" for w
  proof -
    obtain b r where run: "flipTo (runtimeKey m) (pt_instance pt) v v' (w_redis w) = (b, r)" by fastforce
    with legalFlip_step [OF assms(1), of m "w_redis w" "pt_instance pt"] have "rt_steps m (w_redis w) r"
      by (metis r_into_rtranclp snd_conv)
    moreover have "rt_steps m (w_redis (w\<lparr>w_redis := r\<rparr>)) (w_redis (snd (g b (w\<lparr>w_redis := r\<rparr>))))"
      using assms(2) [of b] unfolding follows_def by blast
    ultimately show ?thesis using run by (simp add: flipPhase_def)
  qed
  then show ?thesis by (simp add: follows_def)
qed

lemma follows_branches [follow_intros]:
  "follows m (\<lambda>w. (x, w))"
  "follows m f \<Longrightarrow> follows m g \<Longrightarrow> follows m (\<lambda>w. if b w then f w else g w)"
  by (simp_all add: follows_def)

lemma follows_roll [follow_intros]: "follows m (modify (rollOffersForMatch sha rt))"
  by (rule follows_step) (simp add: rt_step.rt_other rollOffersForMatch_def resetShop_def publishOffers_def Let_def)

lemma follows_before:
  assumes "rt_steps m r (w_redis w1)" and "follows m f"
  shows "rt_steps m r (w_redis (snd (f w1)))"
  using assms(1) assms(2) [unfolded follows_def, rule_format, of w1] by (rule rtranclp_trans)

subsection \<open>Timers and the transitions they trigger\<close>

text \<open>What the other replicas do meanwhile keeps to the steps too.\<close>

definition peers :: "string \<Rightarrow> ports \<Rightarrow> bool" where
  "peers m pt \<longleftrightarrow> (\<forall>n w. rt_steps m (w_redis w) (w_redis (pt_env pt n w)))
     \<and> (\<forall>w. rt_steps m (w_redis w) (w_redis (pt_during pt w)))"

lemma follows_combatBody:
  assumes "peers m pt"
  shows "follows m (combatBody pt m n)"
proof -
  let ?store = "\<lambda>rt events timeout.
     andThen (appendRoundEvents m (int (m_round rt)) events) (\<lambda>_.
     andThen (modify (writeCombatResult m events (combatResultTtlSeconds timeout))) (\<lambda>_.
     andThen (modify (onRedis (hset (runtimeKey m) ''combatRound'' (HStr (showNat (m_round rt)))))) (\<lambda>_.
     andThen (\<lambda>w. modify (publish m (CombatEvents
         \<lparr>cp_matchId = m, cp_round = m_round rt, cp_cycleCount = cycleCountOf events, cp_endedAt = w_now w,
          cp_events = events, cp_board1 = p_board (m_p1State rt), cp_board2 = p_board (m_p2State rt)\<rparr>)) w) (\<lambda>_.
     andThen (modify (scheduleCombatDoneTimeout m (m_round rt) timeout)) (\<lambda>_. ret True)))))"
  have stored: "follows m (?store rt events timeout)" for rt events timeout
    by (intro follow_intros follows_hset follows_quiet) (simp_all add: roundFields_def)
  have del: "rt_steps m (w_redis w) (w_redis (clearCombatResult m (onRedis (del (combatDoneKey m)) w)))" for w
    by (rule steps_other) (simp add: hash_del_other)
  have body: "rt_steps m (w_redis w) (w_redis (snd (combatBody pt m n w)))" for w
  proof (cases "parseRuntimeHash m (hgetall (runtimeKey m) (w_redis w))")
    case None
    then show ?thesis by (simp add: combatBody_def)
  next
    case (Some rt)
    let ?w1 = "clearCombatResult m (onRedis (del (combatDoneKey m)) w)"
    let ?w2 = "pt_during pt ?w1"
    have "rt_steps m (w_redis ?w1) (w_redis ?w2)" using assms by (simp only: peers_def)
    with del [of w] have w2: "rt_steps m (w_redis w) (w_redis ?w2)" by (rule rtranclp_trans)
    have last: "rt_steps m (w_redis w) (w_redis (snd (?store rt events timeout ?w2)))" for events timeout
      using w2 stored by (rule follows_before)
    show ?thesis
      unfolding combatBody_def Let_def Some option.case
      by (simp only: w2 del last snd_conv split: option.split sum.split if_split) blast
  qed
  then show ?thesis by (simp add: follows_def)
qed

lemma follows_runCombat:
  assumes "peers m pt"
  shows "follows m (runCombat pt m n)"
proof -
  have "follows m (finallyDo (combatBody pt m n) (onRedis (\<lambda>r. snd (releaseOwned (combatLockKey m) v r))))" for v
    by (intro follows_finally follows_combatBody [OF assms] steps_other)
      (simp add: hash_releaseOwned)
  then have run: "rt_steps m (w_redis w) (w_redis (snd (finallyDo (combatBody pt m n)
      (onRedis (\<lambda>r. snd (releaseOwned (combatLockKey m) v r))) w)))" for v w
    by (simp add: follows_def)
  have "rt_steps m (w_redis w) (w_redis (snd (runCombat pt m n w)))" for w
  proof -
    obtain ok r where set: "setNx (combatLockKey m) (HStr (pt_instance pt @ '':'' @ pt_owner pt)) COMBAT_LOCK_TTL_SECONDS (w_redis w) = (ok, r)"
      by fastforce
    then have "r_hash r = r_hash (w_redis w)" by (metis hash_setNx' snd_conv)
    then have "rt_steps m (w_redis w) (w_redis (w\<lparr>w_redis := r\<rparr>))" by (simp add: r_into_rtranclp rt_step.rt_other)
    with run [of "w\<lparr>w_redis := r\<rparr>"] set show ?thesis
      by (auto simp: runCombat_def Let_def intro: rtranclp_trans)
  qed
  then show ?thesis by (simp add: follows_def)
qed

lemma follows_preview: "follows m (publishDamagePreview rt n)"
  by (rule follows_quiet) (simp add: publishDamagePreview_def split: option.split sum.split)

lemma follows_tryStartCombat:
  assumes "peers m pt"
  shows "follows m (tryStartCombat pt m n)"
  unfolding tryStartCombat_def [abs_def] Let_def
  by (intro follow_intros follows_runCombat [OF assms] follows_preview) (simp add: legalFlip_def)

lemma follows_advance [follow_intros]: "follows m (advanceResolvedRound pt m n)"
proof -
  have reset: "rt_steps m r (hsets (runtimeKey m) [(''readyP1'', v1), (''readyP2'', v2), (''combatRound'', v3)] r)" for v1 v2 v3 r
    by (rule steps_write) (simp add: roundFields_def playerFields_def)
  have keep: "rt_steps m r (expire k t r)" for k t r
    by (rule steps_other) simp
  have roll: "rt_steps m (w_redis w) (w_redis (rollOffersForMatch sha rt w))" for sha rt w
    using follows_roll [of m sha rt] by (simp add: follows_def)
  have rest: "follows m (\<lambda>w2. (Inr True, rollOffersForMatch sha rt (publishState rt P1 st
      (publish m p (schedulePhaseStart m k d (onRedis (expire (runtimeKey m) t)
        (onRedis (hsets (runtimeKey m) [(''readyP1'', v1), (''readyP2'', v2), (''combatRound'', v3)]) w2)))))))"
    for sha rt st p k d t v1 v2 v3
  proof -
    let ?set = "hsets (runtimeKey m) [(''readyP1'', v1), (''readyP2'', v2), (''combatRound'', v3)]"
    let ?w = "\<lambda>w2. publishState rt P1 st (publish m p (schedulePhaseStart m k d (onRedis (expire (runtimeKey m) t) (onRedis ?set w2))))"
    have "w_redis (?w w2) = expire (runtimeKey m) t (?set (w_redis w2))" for w2
      by (simp add: publishState_def Let_def schedulePhaseStart_def)
    then have "rt_steps m (w_redis w2) (w_redis (?w w2))" for w2
      using rtranclp_trans [OF reset keep] by metis
    then have "rt_steps m (w_redis w2) (w_redis (rollOffersForMatch sha rt (?w w2)))" for w2
      using roll by (rule rtranclp_trans)
    then show ?thesis by (simp add: follows_def)
  qed
  show ?thesis
    unfolding advanceResolvedRound_def [abs_def] Let_def
    by (intro follow_intros rest) (simp add: legalFlip_def)
qed

lemma follows_finishWrite:
  "fst ` set fvs \<subseteq> roundFields \<Longrightarrow> follows m (modify (onRedis (hsets (runtimeKey m) ((''phase'', HStr ''finished'') # fvs))))"
  by (rule follows_step) (simp only: method_simps snd_conv redis_frames rt_step.rt_finish)

lemma follows_finish [follow_intros]:
  assumes "m_matchId rt = m"
  shows "follows m (finishMatch rt res win)"
  unfolding finishMatch_def Let_def assms
  by (intro follow_intros follows_finishWrite) (simp add: roundFields_def playerFields_def)

lemma follows_summarize [follow_intros]:
  assumes "m_matchId rt = m"
  shows "follows m (summarizeRound rt res n)"
  unfolding summarizeRound_def Let_def assms
  by (intro follow_intros follows_write follows_expire) (simp add: roundFields_def playerFields_def)

lemma follows_applyDamage [follow_intros]: "follows m (applyDamageAndAdvance pt m n)"
proof -
  have resolved: "follows m (\<lambda>w. case flipPhase pt m (n, BattlePhase) (n, Resolved) w of (flipped, w2) \<Rightarrow>
      if \<not> flipped then (Inr False, w2)
      else case rs_winnerId res of Some win \<Rightarrow> finishMatch rt res win w2 | None \<Rightarrow> summarizeRound rt res n w2)"
    if id: "m_matchId rt = m" for rt res
  proof -
    have "follows m (\<lambda>w2. case rs_winnerId res of Some win \<Rightarrow> finishMatch rt res win w2 | None \<Rightarrow> summarizeRound rt res n w2)"
      by (cases "rs_winnerId res") (simp_all add: follows_finish [OF id] follows_summarize [OF id])
    then show ?thesis by (intro follow_intros) (simp_all add: legalFlip_def)
  qed
  have "follows m (\<lambda>w1. if m_phase rt \<noteq> BattlePhase \<or> m_round rt \<noteq> n \<or> m_combatRound rt \<noteq> Some n then (Inr False, w1)
          else case getCombatResult m w1 of
                 None \<Rightarrow> (Inr False, w1)
               | Some events \<Rightarrow>
                   (case resolveRound rt n events of
                      Inl e \<Rightarrow> (Inl e, w1)
                    | Inr res \<Rightarrow>
                        (case flipPhase pt m (n, BattlePhase) (n, Resolved) w1 of (flipped, w2) \<Rightarrow>
                           if \<not> flipped then (Inr False, w2)
                           else case rs_winnerId res of
                                     Some winnerId \<Rightarrow> finishMatch (rt\<lparr>m_wipeIndexP1 := dm_wipeIndexP1 (rs_damage res),
                                                       m_wipeIndexP2 := dm_wipeIndexP2 (rs_damage res)\<rparr>) res winnerId w2
                                   | None \<Rightarrow> summarizeRound (rt\<lparr>m_wipeIndexP1 := dm_wipeIndexP1 (rs_damage res),
                                                       m_wipeIndexP2 := dm_wipeIndexP2 (rs_damage res)\<rparr>) res n w2)))"
    if "m_matchId rt = m" for rt
  proof -
    have "m_matchId (rt\<lparr>m_wipeIndexP1 := a, m_wipeIndexP2 := b\<rparr>) = m" for a b using that by simp
    from resolved [OF this] show ?thesis
      unfolding follows_def by (simp only: rtranclp.rtrancl_refl snd_conv split: option.split sum.split if_split) blast
  qed
  then show ?thesis
    unfolding applyDamageAndAdvance_def [abs_def] Let_def by (intro follows_found follows_branches(1))
qed

subsection \<open>Requests\<close>

lemma follows_set: "f \<in> roundFields \<Longrightarrow> follows m (modify (onRedis (hset (runtimeKey m) f v)))"
  by (rule follows_hset)

lemma follows_markReady [follow_intros]: "peers m pt \<Longrightarrow> follows m (markReady pt u m n)"
  unfolding markReady_def Let_def
  by (intro follow_intros follows_hset follows_tryStartCombat) simp_all

lemma follows_combatDone [follow_intros]: "follows m (\<lambda>w. redisCall (combatDone (combatDoneKey m) u (w_now w)) w)"
  by (rule follows_step) (simp add: redisCall_eq rt_step.rt_other hash_combatDone)

lemma follows_handleCombatDone [follow_intros]: "follows m (handleCombatDone pt u m n)"
  unfolding handleCombatDone_def Let_def by (intro follow_intros)

lemma follows_markRoundReady [follow_intros]: "follows m (markRoundReady pt u m n)"
  unfolding markRoundReady_def Let_def by (intro follow_intros follows_hset) simp_all

lemma follows_surrender [follow_intros]: "follows m (surrender pt u m n)"
proof -
  have "follows m (if m_round rt \<noteq> n \<or> m_phase rt = Finished then ret False
       else andThen (lift (sideFor rt u)) (\<lambda>side w.
              case flipPhase pt m (n, m_phase rt) (n, Finished) w of (flipped, w2) \<Rightarrow>
                if \<not> flipped then (Inr False, w2)
                else finalize m (Some (case side of P1 \<Rightarrow> m_player2Id rt | P2 \<Rightarrow> m_player1Id rt)) Forfeit w2))" for rt
  proof (cases "m_phase rt = Finished")
    case False
    then have "legalFlip (n, m_phase rt) (n, Finished)" by (simp add: legalFlip_def)
    then show ?thesis by (intro follow_intros)
  qed (simp add: follows_quiet)
  then show ?thesis unfolding surrender_def Let_def by (intro follows_andThen follows_getRuntime)
qed

lemma follows_handleDisconnect [follow_intros]: "follows m (handleDisconnect pt (Some m) u)"
proof -
  have "follows m (\<lambda>w1. case sideFor rt u of Inl e \<Rightarrow> (Inl e, w1)
      | Inr _ \<Rightarrow> if m_phase rt = Finished then (Inr False, w1)
          else case flipPhase pt m (m_round rt, m_phase rt) (m_round rt, Finished) w1 of (flipped, w2) \<Rightarrow>
            if \<not> flipped then (Inr False, w2) else forfeitDisconnectedPlayer m u w2)" for rt
  proof (cases "m_phase rt = Finished \<or> (\<exists>e. sideFor rt u = Inl e)")
    case True
    then show ?thesis by (auto simp: follows_quiet split: sum.split)
  next
    case False
    then have "legalFlip (m_round rt, m_phase rt) (m_round rt, Finished)" by (simp add: legalFlip_def)
    then have "follows m (\<lambda>w1. case flipPhase pt m (m_round rt, m_phase rt) (m_round rt, Finished) w1 of (flipped, w2) \<Rightarrow>
            if \<not> flipped then (Inr False, w2) else forfeitDisconnectedPlayer m u w2)"
      by (intro follow_intros)
    with False show ?thesis by (cases "sideFor rt u") simp_all
  qed
  then show ?thesis unfolding handleDisconnect_def [abs_def] Let_def by (simp, intro follows_found follow_intros)
qed

lemma follows_commit [follow_intros]:
  assumes "f \<in> playerFields" and "m_matchId rt = m"
  shows "follows m (commitRuntimeAction rt u f v a ph)"
proof -
  have "rt_step m (w_redis w) (w_redis (snd (commitRuntimeAction rt u f v a ph w)))" for w
  proof -
    let ?a = "\<lparr>a_id = a, a_time = w_now w, a_field = f, a_value = v, a_phase = ph, a_round = m_round rt, a_shop = None\<rparr>"
    have "w_redis (snd (commitRuntimeAction rt u f v a ph w)) = snd (logAction (m_matchId rt) u ?a (w_redis w))"
      by (simp add: commitRuntimeAction_def Let_def split: prod.split)
    with assms show ?thesis by (simp add: rt_step.rt_commit)
  qed
  then show ?thesis by (rule follows_step)
qed

text \<open>A body under the player's lock.\<close>

lemma acquire_steps:
  assumes "\<And>k w. rt_steps m (w_redis w) (w_redis (env k w))"
  shows "rt_steps m (w_redis w) (w_redis (snd (acquireLock j env key owner ttl w)))"
proof (induction j arbitrary: w)
  case (Suc j)
  obtain ok r where set: "setNx key (HStr owner) ttl (w_redis w) = (ok, r)" by fastforce
  then have r: "rt_steps m (w_redis w) r" by (intro steps_other) (metis hash_setNx' snd_conv)
  have "rt_steps m (w_redis w) (w_redis (snd (acquireLock j env key owner ttl (env j (w\<lparr>w_redis := r\<rparr>)))))"
    using r assms [of "w\<lparr>w_redis := r\<rparr>" j] Suc.IH [of "env j (w\<lparr>w_redis := r\<rparr>)"] by simp
  with r set show ?case by (simp add: Let_def)
qed simp

lemma lockKey_runtime [simp]: "shopLockKey m u \<noteq> runtimeKey m"
  by (simp add: shopLockKey_def runtimeKey_def)

lemma follows_locked:
  assumes "\<And>k w. rt_steps m (w_redis w) (w_redis (env k w))" and "follows m f"
  shows "follows m (\<lambda>w. case acquireLock j env (shopLockKey m u) owner ttl w of (ok, w1) \<Rightarrow>
           if \<not> ok then (Inl e, w1) else finallyDo f (releaseLock (shopLockKey m u) owner) w1)"
proof -
  have "rt_steps m (w_redis w) (w_redis (releaseLock (shopLockKey m u) owner w))" for w
    unfolding releaseLock_def redis_frames by (intro steps_other hash_releaseOwned) simp
  then have body: "follows m (finallyDo f (releaseLock (shopLockKey m u) owner))"
    using assms(2) by (rule follows_finally [rotated])
  have "rt_steps m (w_redis w) (w_redis (snd (case acquireLock j env (shopLockKey m u) owner ttl w of (ok, w1) \<Rightarrow>
           if \<not> ok then (Inl e, w1) else finallyDo f (releaseLock (shopLockKey m u) owner) w1)))" for w
  proof -
    obtain ok w1 where lock: "acquireLock j env (shopLockKey m u) owner ttl w = (ok, w1)" by fastforce
    with acquire_steps [where m = m and env = env, OF assms(1)] have first: "rt_steps m (w_redis w) (w_redis w1)"
      by (metis snd_conv)
    with follows_before [OF first body] lock show ?thesis by simp
  qed
  then show ?thesis by (simp add: follows_def)
qed

lemma peersD: "peers m pt \<Longrightarrow> rt_steps m (w_redis w) (w_redis (pt_env pt k w))"
  by (simp add: peers_def)

lemma sideState_matchId [simp]: "m_matchId (rt\<lparr>m_p1State := a\<rparr>) = m_matchId rt"
  by simp

lemma follows_persist:
  assumes "m_matchId (ac_runtime ctx) = m"
  shows "follows m (persistAction ctx a)"
proof -
  have "rt_step m (w_redis w) (w_redis (snd (persistAction ctx a w)))" for w
  proof -
    obtain code r where run: "commitAction ctx a (w_now w) (w_redis w) = (code, r)" by fastforce
    have "rt_step m (w_redis w) (snd (commitAction ctx a (w_now w) (w_redis w)))"
      unfolding commitAction_def Let_def assms by (rule rt_step.rt_commit) simp
    with run have step: "rt_step m (w_redis w) r" by simp
    have "w_redis (snd (andThen (updateState k s j) (\<lambda>_. andThen (modify (publishState rt s' st)) (\<lambda>_. ret True))
        (w\<lparr>w_redis := r\<rparr>))) = r" for k s j rt s' st
      by (simp add: updateState_def matches_updateState_def matches_update_def publishState_def Let_def andThen_def)
    with step run show ?thesis by (simp add: persistAction_def Let_def del: method_simps)
  qed
  then show ?thesis by (rule follows_step)
qed

lemma context_matchId: "actionContext u m n r = Inr ctx \<Longrightarrow> m_matchId (ac_runtime ctx) = m"
  by (auto simp: actionContext_def Let_def parse_matchId split: option.splits if_splits)

lemma follows_lockedAction: "follows m (lockedAction u m n a f)"
proof -
  have "rt_steps m (w_redis w) (w_redis (snd (lockedAction u m n a f w)))" for w
  proof (cases "hexists (actionLogKey m u) a (w_redis w) \<or> (\<exists>e. actionContext u m n (w_redis w) = Inl e)")
    case True
    then show ?thesis by (auto simp: lockedAction_def)
  next
    case False
    then obtain ctx where ctx: "actionContext u m n (w_redis w) = Inr ctx" by (meson obj_sumE)
    have "follows m (andThen (persistAction (ctx\<lparr>ac_state := st, ac_shop := sh\<rparr>) a)
        (\<lambda>recorded. if \<not> recorded then ret True
           else andThen (modify (if emit then publishOffers (ac_runtime ctx) u (s_offers sh) else id)) (\<lambda>_. ret False)))"
      for st sh emit
      using context_matchId [OF ctx]
      by (intro follow_intros follows_persist) (simp_all add: follows_quiet publishOffers_def)
    then show ?thesis using False ctx
      by (auto simp: lockedAction_def follows_def split: sum.split prod.split)
  qed
  then show ?thesis by (simp add: follows_def)
qed

lemma follows_withAction [follow_intros]:
  assumes "peers m pt"
  shows "follows m (withAction (pt_env pt) owner u m n a f)"
  unfolding withAction_def [abs_def] Let_def
  by (intro follows_branches follows_locked peersD [OF assms] follows_lockedAction)

lemma follows_place [follow_intros]:
  assumes "peers m pt"
  shows "follows m (place pt u m n i t k a)"
proof -
  have "follows m (placeBody u m n i t k a)"
    unfolding placeBody_def [abs_def]
    by (intro follows_branches follows_require) (intro follow_intros; simp)
  then show ?thesis unfolding place_def withPlayerActionLock_def [abs_def] Let_def
    by (intro follows_locked peersD [OF assms])
qed

lemma follows_markReadyAction [follow_intros]:
  assumes "peers m pt"
  shows "follows m (markReadyAction pt u m n b a)"
  unfolding markReadyAction_def Let_def
  by (intro follows_require) (intro follow_intros follows_tryStartCombat [OF assms]; simp)

lemma follows_actions [follow_intros]:
  assumes "peers m pt"
  shows "follows m (buy (pt_env pt) owner uuid u m n i a)" and "follows m (sell (pt_env pt) owner u m n src k a)"
    and "follows m (refresh sha (pt_env pt) owner u m n a)" and "follows m (fuse (pt_env pt) owner u m n unit a x y)"
  unfolding buy_def sell_def refresh_def fuse_def by (rule follows_withAction [OF assms])+

text \<open>The match an action works on: the one it names, or the live match of the caller.\<close>

definition actsOn :: "RuntimeAction \<Rightarrow> string \<Rightarrow> string option \<Rightarrow> world \<Rightarrow> string option" where
  "actsOn action userId payloadMatchId w =
     (if namesMatch action then payloadMatchId else map_option mt_id (matches_findActiveByUserId userId w))"

lemma follows_handleAction:
  assumes "peers m pt" and "\<And>m'. actsOn action u pm w = Some m' \<Longrightarrow> m' = m"
  shows "rt_steps m (w_redis w) (w_redis (snd (handleAction pt u action n a pm w)))"
proof (cases "truthy (actsOn action u pm w)")
  case False
  then show ?thesis by (simp add: handleAction_def actsOn_def)
next
  case True
  then obtain m' where m': "actsOn action u pm w = Some m'" by (auto simp: truthy_def split: option.splits)
  with assms(2) have m: "actsOn action u pm w = Some m" by simp
  let ?dup = "\<lambda>d. ret (duplicateResult d)"
  have "follows m (case action of
                    ShopBuy i \<Rightarrow> andThen (buy (pt_env pt) (pt_owner pt) (pt_uuid pt) u m n i a) ?dup
                  | ShopSell src slot \<Rightarrow> andThen (sell (pt_env pt) (pt_owner pt) u m n src slot a) ?dup
                  | ShopRefresh \<Rightarrow> andThen (refresh (pt_sha pt) (pt_env pt) (pt_owner pt) u m n a) ?dup
                  | ShopFuse unit x y \<Rightarrow> andThen (fuse (pt_env pt) (pt_owner pt) u m n unit a x y) ?dup
                  | MatchPlace i target slot \<Rightarrow> place pt u m n i target slot a
                  | MatchReady ready \<Rightarrow> markReadyAction pt u m n (case ready of Some b \<Rightarrow> b | None \<Rightarrow> True) a
                  | MatchCombatDone \<Rightarrow> andThen (handleCombatDone pt u m n) (\<lambda>n. ret (noResult\<lparr>ra_ackCount := Some n\<rparr>))
                  | MatchRoundReady \<Rightarrow> markRoundReady pt u m n
                  | MatchSurrender \<Rightarrow> andThen (surrender pt u m n) (\<lambda>b. ret (noResult\<lparr>ra_forfeited := Some b\<rparr>)))"
    using assms(1) by (cases action) (simp_all add: follow_intros del: method_simps)
  then show ?thesis using True m
    by (simp add: handleAction_def actsOn_def Let_def follows_def del: method_simps)
qed

end
