(* ===== verification/Workers.thy ===== *)
theory Workers
  imports Runtime_Protocol "HOL-Library.Sublist"
begin

text \<open>
  The consumers of the BullMQ queues: \<open>queue/queue.processors.ts\<close> (round timers, disconnects) and the
  cleanup worker of \<open>queue/workers/queue.workers.ts\<close>; the producers of \<open>queue/queue.service.ts\<close> that
  register repeatable jobs; and \<open>queue/queue-retention.service.ts\<close>. A finished job leaves the queue, so
  its id may be used again (\<open>removeOnComplete\<close>).
\<close>

subsection \<open>Round timers\<close>

definition processPhaseTimer :: "ports \<Rightarrow> Job \<Rightarrow> world \<Rightarrow> unit result \<times> world" where
  "processPhaseTimer pt job = (case job of
      PhaseStart matchId rnd _ \<Rightarrow> andThen (tryStartCombat pt matchId rnd) (\<lambda>_. ret ())
    | _ \<Rightarrow> ret ())"

definition processCombatDoneTimeout :: "ports \<Rightarrow> Job \<Rightarrow> world \<Rightarrow> unit result \<times> world" where
  "processCombatDoneTimeout pt job = (case job of
      RoundReadyTimeout matchId rnd _ \<Rightarrow> andThen (advanceResolvedRound pt matchId rnd) (\<lambda>_. ret ())
    | CombatDoneTimeout matchId rnd _ \<Rightarrow> andThen (applyDamageAndAdvance pt matchId rnd) (\<lambda>_. ret ())
    | _ \<Rightarrow> ret ())"

definition processDisconnectDetect :: "ports \<Rightarrow> Job \<Rightarrow> world \<Rightarrow> unit result \<times> world" where
  "processDisconnectDetect pt job = (case job of
      DisconnectDetect matchId userId _ \<Rightarrow> andThen (handleDisconnect pt (Some matchId) userId) (\<lambda>_. ret ())
    | _ \<Rightarrow> ret ())"

subsection \<open>Cleanup of a finished match\<close>

definition hexDigit :: "char \<Rightarrow> bool" where
  "hexDigit c \<longleftrightarrow> c \<in> set ''0123456789abcdefABCDEF''"

text \<open>\<open>/^[0-9a-f]{8}-[0-9a-f]{4}-[0-9a-f]{4}-[0-9a-f]{4}-[0-9a-f]{12}$/i\<close>\<close>

definition isUuid :: "string \<Rightarrow> bool" where
  "isUuid s \<longleftrightarrow> length s = 36
     \<and> list_all (\<lambda>i. if i \<in> {8, 13, 18, 23} then s ! i = CHR ''-'' else hexDigit (s ! i)) [0..<36]"

text \<open>The cursor loop of \<open>SCAN MATCH match:<id>:* \<close> with \<open>UNLINK\<close>: every key with the prefix goes.\<close>

definition unlinkPrefix :: "string \<Rightarrow> world \<Rightarrow> world" where
  "unlinkPrefix pre w =
     (let r = w_redis w
      in w\<lparr>w_redis := r\<lparr>r_hash := (\<lambda>k. if prefix pre k then [] else r_hash r k),
                        r_str := (\<lambda>k. if prefix pre k then None else r_str r k),
                        r_zset := (\<lambda>k. if prefix pre k then [] else r_zset r k),
                        r_ttl := (\<lambda>k. if prefix pre k then None else r_ttl r k)\<rparr>,
           w_combatResult := (\<lambda>m. if prefix pre (combatResultKey m) then None else w_combatResult w m)\<rparr>)"

definition terminal :: "Match \<Rightarrow> bool" where
  "terminal m \<longleftrightarrow> mt_status m \<in> {MatchFinished, Forfeited} \<and> mt_finishedAt m \<noteq> None"

definition cleanupMatch :: "string \<Rightarrow> world \<Rightarrow> unit result \<times> world" where
  "cleanupMatch matchId w =
     (if \<not> isUuid matchId then (Inl ''Invalid match-cleanup matchId'', w)
      else case matches_findById matchId w of
             None \<Rightarrow> (Inr (), w)
           | Some m \<Rightarrow> if \<not> terminal m then (Inr (), w)
                       else (Inr (), unlinkPrefix (''match:'' @ matchId @ '':'') w))"

definition processMatchCleanup :: "Job \<Rightarrow> world \<Rightarrow> unit result \<times> world" where
  "processMatchCleanup job = (case job of MatchCleanup matchId _ \<Rightarrow> cleanupMatch matchId | _ \<Rightarrow> ret ())"

text \<open>The queue a job is in decides its processor; a processed job leaves its queue.\<close>

definition runJob :: "ports \<Rightarrow> Job \<Rightarrow> world \<Rightarrow> unit result \<times> world" where
  "runJob pt job =
     finallyDo (case job of
         PhaseStart _ _ _ \<Rightarrow> processPhaseTimer pt job
       | CombatDoneTimeout _ _ _ \<Rightarrow> processCombatDoneTimeout pt job
       | RoundReadyTimeout _ _ _ \<Rightarrow> processCombatDoneTimeout pt job
       | DisconnectDetect _ _ _ \<Rightarrow> processDisconnectDetect pt job
       | MatchCleanup _ _ \<Rightarrow> processMatchCleanup job)
     (\<lambda>w. w\<lparr>w_jobs := filter (\<lambda>j. jobId j \<noteq> jobId job) (w_jobs w)\<rparr>)"

subsection \<open>Repeatable jobs\<close>

definition QUEUE_NAMES :: "string list" where
  "QUEUE_NAMES = [''phase-timer'', ''combat-done-timeout'', ''disconnect-detect'', ''match-pair'', ''match-cleanup'']"

definition MATCH_RETENTION_RUN :: string where "MATCH_RETENTION_RUN = ''match-retention:run''"

definition MATCH_PAIR :: string where "MATCH_PAIR = ''match-pair:tick''"

type_synonym repeatable = "(string \<times> int) list"

definition ensureMatchRetentionRepeating :: "int \<Rightarrow> repeatable \<Rightarrow> repeatable" where
  "ensureMatchRetentionRepeating intervalMs existing =
     (if list_ex (\<lambda>(name, every). name = MATCH_RETENTION_RUN \<and> every = intervalMs) existing then existing
      else existing @ [(MATCH_RETENTION_RUN, intervalMs)])"

definition ensureMatchPairRepeating :: "int \<Rightarrow> repeatable \<Rightarrow> repeatable" where
  "ensureMatchPairRepeating intervalMs existing =
     (if list_ex (\<lambda>(name, every). name = MATCH_PAIR \<and> every = intervalMs) existing then existing
      else existing @ [(MATCH_PAIR, intervalMs)])"

subsection \<open>Retained jobs\<close>

definition COMPLETED_GRACE_MS :: int where "COMPLETED_GRACE_MS = 60 * 60 * 1000"

definition FAILED_GRACE_MS :: int where "FAILED_GRACE_MS = 7 * 24 * 60 * 60 * 1000"

definition BATCH_LIMIT :: nat where "BATCH_LIMIT = 1000"

text \<open>A queue's finished jobs, by the time they finished.\<close>

record RetainedQueue =
  rq_completed :: "int list"
  rq_failed :: "int list"

record CleanReport =
  cr_queue :: string
  cr_completed :: nat
  cr_failed :: nat
  cr_completedRemoved :: nat
  cr_failedRemoved :: nat
  cr_apply :: bool

text \<open>
  \<open>clean(grace, limit, type)\<close> is BullMQ's: it removes jobs of a type and returns their ids; the model
  takes it as an argument on the jobs of the type.
\<close>

type_synonym cleaner = "int \<Rightarrow> nat \<Rightarrow> int list \<Rightarrow> int list \<times> int list"

fun cleanRetainedJobs ::
  "cleaner \<Rightarrow> bool \<Rightarrow> string list \<Rightarrow> (string \<Rightarrow> RetainedQueue option) \<Rightarrow> CleanReport list result \<times> (string \<Rightarrow> RetainedQueue option)" where
  "cleanRetainedJobs clean apply [] queues = (Inr [], queues)"
| "cleanRetainedJobs clean apply (name # names) queues =
     (case queues name of
        None \<Rightarrow> (Inl (''Missing queue '' @ name), queues)
      | Some q \<Rightarrow>
          let (removedC, keptC) = (if apply then clean COMPLETED_GRACE_MS BATCH_LIMIT (rq_completed q) else ([], rq_completed q));
              (removedF, keptF) = (if apply then clean FAILED_GRACE_MS BATCH_LIMIT (rq_failed q) else ([], rq_failed q));
              report = \<lparr>cr_queue = name, cr_completed = length (rq_completed q), cr_failed = length (rq_failed q),
                cr_completedRemoved = length removedC, cr_failedRemoved = length removedF, cr_apply = apply\<rparr>;
              (rest, queues') = cleanRetainedJobs clean apply names
                (queues(name \<mapsto> \<lparr>rq_completed = keptC, rq_failed = keptF\<rparr>))
          in (map_sum id (Cons report) rest, queues'))"

subsection \<open>Requests and timers are sequences of atomic steps\<close>

datatype Task =
    Request string RuntimeAction nat string "string option"
  | Timer Job

fun runTask :: "ports \<Rightarrow> Task \<Rightarrow> world \<Rightarrow> world" where
  "runTask pt (Request userId action rnd clientActionId payloadMatchId) w =
     snd (handleAction pt userId action rnd clientActionId payloadMatchId w)"
| "runTask pt (Timer job) w = snd (runJob pt job w)"

text \<open>The task works on match \<open>m\<close>; the cleanup of an ended match is not part of its rounds.\<close>

fun taskOn :: "string \<Rightarrow> Task \<Rightarrow> world \<Rightarrow> bool" where
  "taskOn m (Request userId action _ _ payloadMatchId) w = (actsOn action userId payloadMatchId w \<in> {None, Some m})"
| "taskOn m (Timer (PhaseStart k _ _)) w = (k = m)"
| "taskOn m (Timer (CombatDoneTimeout k _ _)) w = (k = m)"
| "taskOn m (Timer (RoundReadyTimeout k _ _)) w = (k = m)"
| "taskOn m (Timer (DisconnectDetect k _ _)) w = (k = m)"
| "taskOn m (Timer (MatchCleanup _ _)) w = False"

lemma follows_runJob:
  assumes "peers m pt" and "taskOn m (Timer job) w"
  shows "follows m (runJob pt job)"
  using assms(2)
  by (cases job)
    (simp_all add: runJob_def processPhaseTimer_def processCombatDoneTimeout_def processDisconnectDetect_def
      follow_intros follows_tryStartCombat [OF assms(1)] del: method_simps)


subsection \<open>Cleanup\<close>

lemma prefix_other:
  assumes "length m = length m'" and "m \<noteq> m'"
  shows "\<not> prefix (''match:'' @ m @ '':'') (''match:'' @ m' @ '':'' @ sfx)"
  using assms by (auto simp: prefix_def)

lemma cleanup_cases:
  obtains (kept) "snd (cleanupMatch m w) = w" "\<And>mt. isUuid m \<Longrightarrow> matches_findById m w = Some mt \<Longrightarrow> \<not> terminal mt"
  | (removed) mt where "isUuid m" "matches_findById m w = Some mt" "terminal mt"
      "snd (cleanupMatch m w) = unlinkPrefix (''match:'' @ m @ '':'') w"
  by (cases "isUuid m"; cases "matches_findById m w") (auto simp: cleanupMatch_def split: if_splits)

text \<open>
  The cleanup worker removes the keys of an ended match and nothing else: a match whose row is not
  terminal keeps the whole keyspace as it was, no key of the ended match stays, and the keys of
  every other match are untouched.
\<close>

theorem cleanup_removes_ended_only:
  assumes "isUuid m'" and "m' \<noteq> m"
  shows "(\<forall>mt. isUuid m \<longrightarrow> matches_findById m w = Some mt \<longrightarrow>
           (if terminal mt then \<not> existsKey (''match:'' @ m @ '':'' @ sfx) (w_redis (snd (cleanupMatch m w)))
              \<and> getCombatResult m (snd (cleanupMatch m w)) = None
            else snd (cleanupMatch m w) = w))
     \<and> r_hash (w_redis (snd (cleanupMatch m w))) (''match:'' @ m' @ '':'' @ sfx) = r_hash (w_redis w) (''match:'' @ m' @ '':'' @ sfx)
     \<and> r_str (w_redis (snd (cleanupMatch m w))) (''match:'' @ m' @ '':'' @ sfx) = r_str (w_redis w) (''match:'' @ m' @ '':'' @ sfx)
     \<and> getCombatResult m' (snd (cleanupMatch m w)) = getCombatResult m' w
     \<and> database (snd (cleanupMatch m w)) = database w"
proof (cases rule: cleanup_cases [of m w])
  case kept
  then show ?thesis by (auto simp: cleanupMatch_def)
next
  case (removed mt)
  from assms removed(1) have "length m = length m'" "m \<noteq> m'" by (auto simp: isUuid_def)
  note other = prefix_other [OF this]
  have own: "prefix (''match:'' @ m @ '':'') (''match:'' @ m @ '':'' @ s)" for s by simp
  have results: "\<not> prefix (''match:'' @ m @ '':'') (combatResultKey m')" "prefix (''match:'' @ m @ '':'') (combatResultKey m)"
    unfolding combatResultKey_def using other [of "''combat-result''"] own [of "''combat-result''"] by simp_all
  from removed show ?thesis
    using other own results
    by (simp add: unlinkPrefix_def Let_def existsKey_def getCombatResult_def database_def del: append.simps append_Cons)
qed

subsection \<open>Example\<close>

definition demoId :: string where "demoId = ''0a1b2c3d-0000-4000-8000-00000000000a''"

definition demoOther :: string where "demoOther = ''0a1b2c3d-0000-4000-8000-00000000000b''"

definition endedMatch :: Match where
  "endedMatch = \<lparr>mt_id = demoId, mt_player1Id = ''u1'', mt_player2Id = ''u2'', mt_winnerId = Some ''u1'',
     mt_status = MatchFinished, mt_matchSeed = ''s'', mt_wipeIndexP1 = 0, mt_wipeIndexP2 = 4,
     mt_p1State = JNull, mt_p2State = JNull, mt_createdAt = 0, mt_finishedAt = Some 5\<rparr>"

definition endedWorld :: world where
  "endedWorld = \<lparr>w_redis = hset (runtimeKey demoOther) ''phase'' (HStr ''battle'')
        (hset (runtimeKey demoId) ''phase'' (HStr ''finished'') emptyRedis),
      w_matches = [endedMatch], w_rounds = [], w_users = [], w_jobs = [], w_pub = [],
      w_combatResult = (\<lambda>_. None), w_cacheUp = True, w_now = 6\<rparr>"

lemma cleanup_removes_ended_only_witness:
  "\<not> existsKey (runtimeKey demoId) (w_redis (snd (cleanupMatch demoId endedWorld)))
   \<and> r_hash (w_redis (snd (cleanupMatch demoId endedWorld))) (runtimeKey demoOther)
       = r_hash (w_redis endedWorld) (runtimeKey demoOther)
   \<and> r_hash (w_redis endedWorld) (runtimeKey demoOther) \<noteq> []"
proof -
  have uuids: "isUuid demoId" "isUuid demoOther" "demoOther \<noteq> demoId" by code_simp+
  have row: "matches_findById demoId endedWorld = Some endedMatch" "terminal endedMatch" by code_simp+
  have keys: "runtimeKey k = ''match:'' @ k @ '':'' @ ''runtime''" for k by (simp add: runtimeKey_def)
  have "r_hash (w_redis endedWorld) (runtimeKey demoOther) \<noteq> []" by code_simp
  with cleanup_removes_ended_only [OF uuids(2,3), of endedWorld "''runtime''"] uuids(1) row
  show ?thesis unfolding keys by (auto simp del: append.simps)
qed

text \<open>A replica alone: nothing happens while a handler waits.\<close>

definition demoPorts :: ports where
  "demoPorts = \<lparr>pt_sha = (\<lambda>_. []), pt_instance = ''i'', pt_owner = ''o'', pt_uuid = ''x'', pt_deadline = 60000,
     pt_env = (\<lambda>_ w. w), pt_during = (\<lambda>w. w)\<rparr>"

lemma demo_peers: "peers m demoPorts"
  by (simp add: peers_def demoPorts_def)


end
