(* ===== verification/Rounds.thy ===== *)
theory Rounds
  imports Workers
begin

text \<open>
  The rounds of a match as \<open>runtime/match.runtime.adapter.ts\<close> plays them: what a battle costs, and that the
  timers and one confirmation of the summary are enough to bring any match to its end.
\<close>

subsection \<open>What a battle costs\<close>

lemma damageFor_side:
  "dm_p1 (damageFor win a b) = (case win of None \<Rightarrow> 5 | Some P1 \<Rightarrow> 0 | Some P2 \<Rightarrow> 5 * int (min 5 (a + 1)))"
  "dm_p2 (damageFor win a b) = (case win of None \<Rightarrow> 5 | Some P1 \<Rightarrow> 5 * int (min 5 (b + 1)) | Some P2 \<Rightarrow> 0)"
  "dm_wipeIndexP1 (damageFor win a b) = (if win = Some P2 then min 5 (a + 1) else a)"
  "dm_wipeIndexP2 (damageFor win a b) = (if win = Some P1 then min 5 (b + 1) else b)"
  by (simp_all add: damageFor_def TIE_DAMAGE_def Let_def split: option.split Side.split)

lemma resolveRound_InrD:
  assumes "resolveRound rt n events = Inr res"
  obtains win where "battleWinner events = Inr win"
    "rs_damage res = damageFor win (m_wipeIndexP1 rt) (m_wipeIndexP2 rt)"
    "rs_p1 res = (m_p1State rt)\<lparr>p_hp := max 0 (p_hp (m_p1State rt) - dm_p1 (rs_damage res))\<rparr>"
    "rs_p2 res = (m_p2State rt)\<lparr>p_hp := max 0 (p_hp (m_p2State rt) - dm_p2 (rs_damage res))\<rparr>"
    "dp_p1 (rs_payload res) = \<lparr>sd_wiped = (win = Some P2), sd_tie = (win = None), sd_hpBefore = p_hp (m_p1State rt),
       sd_hpAfter = p_hp (rs_p1 res), sd_damageApplied = dm_p1 (rs_damage res)\<rparr>"
    "dp_p2 (rs_payload res) = \<lparr>sd_wiped = (win = Some P1), sd_tie = (win = None), sd_hpBefore = p_hp (m_p2State rt),
       sd_hpAfter = p_hp (rs_p2 res), sd_damageApplied = dm_p2 (rs_damage res)\<rparr>"
    "rs_winnerId res = (if p_hp (rs_p1 res) \<le> 0 \<and> p_hp (rs_p2 res) \<le> 0 then Some None
       else if p_hp (rs_p1 res) \<le> 0 then Some (Some (m_player2Id rt))
       else if p_hp (rs_p2 res) \<le> 0 then Some (Some (m_player1Id rt)) else None)"
  using assms by (auto simp: resolveRound_def Let_def split: sum.splits)


subsection \<open>The runtime after a write\<close>

text \<open>Each field of the runtime hash determines its part of the runtime.\<close>

named_theorems runtime_writes \<open>the runtime after a write to one field of its hash\<close>

lemma parse_ready [runtime_writes]:
  "parseRuntimeHash m (h(''readyP1'' \<mapsto> v)) = map_option (m_readyP1_update (\<lambda>_. v = HStr ''1'')) (parseRuntimeHash m h)"
  "parseRuntimeHash m (h(''readyP2'' \<mapsto> v)) = map_option (m_readyP2_update (\<lambda>_. v = HStr ''1'')) (parseRuntimeHash m h)"
  by (simp_all add: parseRuntimeHash_def split: option.split)

lemma parse_numbers [runtime_writes]:
  "parseRuntimeHash m (h(''wipeIndexP1'' \<mapsto> v)) = map_option (m_wipeIndexP1_update (\<lambda>_. nonNegativeInt (Some v))) (parseRuntimeHash m h)"
  "parseRuntimeHash m (h(''wipeIndexP2'' \<mapsto> v)) = map_option (m_wipeIndexP2_update (\<lambda>_. nonNegativeInt (Some v))) (parseRuntimeHash m h)"
  "parseRuntimeHash m (h(''combatRound'' \<mapsto> v)) = map_option (m_combatRound_update (\<lambda>_. positiveInt (Some v))) (parseRuntimeHash m h)"
  "parseRuntimeHash m (h(''scoutRound'' \<mapsto> v)) = map_option (m_scoutRound_update (\<lambda>_. positiveInt (Some v))) (parseRuntimeHash m h)"
  by (simp_all add: parseRuntimeHash_def split: option.split)

lemma parse_scouts [runtime_writes]:
  "parseRuntimeHash m (h(''scoutP1Board'' \<mapsto> v)) =
     map_option (m_scoutP1Board_update (\<lambda>_. normalizeBoardSummary (Some v))) (parseRuntimeHash m h)"
  "parseRuntimeHash m (h(''scoutP2Board'' \<mapsto> v)) =
     map_option (m_scoutP2Board_update (\<lambda>_. normalizeBoardSummary (Some v))) (parseRuntimeHash m h)"
  "parseRuntimeHash m (h(''combatLockInstance'' \<mapsto> v)) = parseRuntimeHash m h"
  by (simp_all add: parseRuntimeHash_def split: option.split)

lemma parse_states [runtime_writes]:
  assumes "parseRuntimeHash m h \<noteq> None" and "player_ok s"
  shows "parseRuntimeHash m (h(''p1State'' \<mapsto> HJson (playerJson s))) = map_option (m_p1State_update (\<lambda>_. s)) (parseRuntimeHash m h)"
    "parseRuntimeHash m (h(''p2State'' \<mapsto> HJson (playerJson s))) = map_option (m_p2State_update (\<lambda>_. s)) (parseRuntimeHash m h)"
  using assms by (auto simp: parseRuntimeHash_def split: if_splits option.splits)

lemma parse_phase [runtime_writes]:
  assumes "parseRuntimeHash m h \<noteq> None"
  shows "parseRuntimeHash m (h(''phase'' \<mapsto> HStr (phaseName p))) = map_option (m_phase_update (\<lambda>_. p)) (parseRuntimeHash m h)"
  using assms by (auto simp: parseRuntimeHash_def split: if_splits option.splits)

lemma parse_round [runtime_writes]:
  assumes "parseRuntimeHash m h \<noteq> None" and "0 < n"
  shows "parseRuntimeHash m (h(''round'' \<mapsto> HStr (showNat n))) = map_option (m_round_update (\<lambda>_. n)) (parseRuntimeHash m h)"
proof -
  have "positiveInt (Some (HStr (showNat n))) = Some n" using assms(2) by simp
  then show ?thesis using assms(1) by (auto simp: parseRuntimeHash_def split: if_splits option.splits)
qed

text \<open>A match that is loaded: its runtime reads as \<open>rt\<close>, with the names in place.\<close>

definition live :: "string \<Rightarrow> MatchRuntimeState \<Rightarrow> redis \<Rightarrow> bool" where
  "live m rt r \<longleftrightarrow> parseRuntimeHash m (hgetall (runtimeKey m) r) = Some rt
     \<and> hget (runtimeKey m) ''round'' r = Some (HStr (showNat (m_round rt)))
     \<and> hString (hget (runtimeKey m) ''player1Name'' r) \<noteq> [] \<and> hString (hget (runtimeKey m) ''player2Name'' r) \<noteq> []"

lemma live_frame: "r_hash r' (runtimeKey m) = r_hash r (runtimeKey m) \<Longrightarrow> live m rt r' = live m rt r"
  by (simp add: live_def hgetall_def hget_def)

lemma live_hset:
  assumes "live m rt r" and "f \<notin> {''round'', ''player1Name'', ''player2Name''}"
    and "parseRuntimeHash m ((hgetall (runtimeKey m) r)(f \<mapsto> v)) = Some rt'" and "m_round rt' = m_round rt"
  shows "live m rt' (hset (runtimeKey m) f v r)"
  using assms by (auto simp: live_def hgetall_hset)

lemma live_parse: "live m rt r \<Longrightarrow> parseRuntimeHash m (hgetall (runtimeKey m) r) = Some rt"
  by (simp add: live_def)

lemma live_round_pos: "live m rt r \<Longrightarrow> 0 < m_round rt"
  by (auto simp: live_def dest: parse_SomeD)

lemma live_matchId: "live m rt r \<Longrightarrow> m_matchId rt = m"
  by (auto simp: live_def dest: parse_SomeD)

lemma live_players: "live m rt r \<Longrightarrow> player_ok (m_p1State rt) \<and> player_ok (m_p2State rt)"
  by (auto simp: live_def dest: parse_SomeD)

lemma live_phaseAt: "live m rt r \<Longrightarrow> phaseAt (runtimeKey m) r = Some (m_round rt, m_phase rt)"
  by (auto simp: live_def hgetall_hget dest: parse_SomeD(1))

lemma findRuntime_live: "live m rt (w_redis w) \<Longrightarrow> findRuntime m w = (Some rt, w)"
  by (simp add: findRuntime_def live_def hgetall_hget Let_def)

lemma getRuntime_live: "live m rt (w_redis w) \<Longrightarrow> getRuntime m w = (Inr rt, w)"
  by (simp add: getRuntime_def findRuntime_live)

lemma live_writes:
  assumes "live m rt r"
  shows "live m (rt\<lparr>m_readyP1 := (v = HStr ''1'')\<rparr>) (hset (runtimeKey m) ''readyP1'' v r)"
    "live m (rt\<lparr>m_readyP2 := (v = HStr ''1'')\<rparr>) (hset (runtimeKey m) ''readyP2'' v r)"
    "live m (rt\<lparr>m_wipeIndexP1 := nonNegativeInt (Some v)\<rparr>) (hset (runtimeKey m) ''wipeIndexP1'' v r)"
    "live m (rt\<lparr>m_wipeIndexP2 := nonNegativeInt (Some v)\<rparr>) (hset (runtimeKey m) ''wipeIndexP2'' v r)"
    "live m (rt\<lparr>m_combatRound := positiveInt (Some v)\<rparr>) (hset (runtimeKey m) ''combatRound'' v r)"
    "live m (rt\<lparr>m_scoutRound := positiveInt (Some v)\<rparr>) (hset (runtimeKey m) ''scoutRound'' v r)"
    "live m (rt\<lparr>m_scoutP1Board := normalizeBoardSummary (Some v)\<rparr>) (hset (runtimeKey m) ''scoutP1Board'' v r)"
    "live m (rt\<lparr>m_scoutP2Board := normalizeBoardSummary (Some v)\<rparr>) (hset (runtimeKey m) ''scoutP2Board'' v r)"
    "live m rt (hset (runtimeKey m) ''combatLockInstance'' v r)"
    "live m (rt\<lparr>m_phase := p\<rparr>) (hset (runtimeKey m) ''phase'' (HStr (phaseName p)) r)"
    "player_ok s \<Longrightarrow> live m (rt\<lparr>m_p1State := s\<rparr>) (hset (runtimeKey m) ''p1State'' (HJson (playerJson s)) r)"
    "player_ok s \<Longrightarrow> live m (rt\<lparr>m_p2State := s\<rparr>) (hset (runtimeKey m) ''p2State'' (HJson (playerJson s)) r)"
  by (rule live_hset [OF assms]; simp add: runtime_writes live_parse [OF assms] del: phaseName.simps positiveInt.simps nonNegativeInt.simps)+

lemma live_round:
  assumes "live m rt r" and "0 < n"
  shows "live m (rt\<lparr>m_round := n\<rparr>) (hset (runtimeKey m) ''round'' (HStr (showNat n)) r)"
  using assms unfolding live_def by (simp add: hgetall_hset runtime_writes del: positiveInt.simps)

text \<open>A phase flip from the current phase and round succeeds.\<close>

lemma flip_live:
  assumes "live m rt r" and "0 < n"
  obtains r' where "flipTo (runtimeKey m) inst (m_round rt, m_phase rt) (n, p) r = (True, r')"
    "live m (rt\<lparr>m_phase := p, m_round := n\<rparr>) r'" "r_str r' = r_str r"
proof -
  let ?key = "runtimeKey m"
  define r1 where "r1 = hset ?key ''phase'' (HStr (phaseName p)) r"
  define r2 where "r2 = (if n = m_round rt then r1 else hset ?key ''round'' (HStr (showNat n)) r1)"
  define r3 where "r3 = (if phaseName p = ''battle'' then hset ?key ''combatLockInstance'' (HStr inst) r2 else r2)"
  have "live m (rt\<lparr>m_phase := p\<rparr>) r1" unfolding r1_def by (rule live_writes(10) [OF assms(1)])
  then have "live m (rt\<lparr>m_phase := p, m_round := n\<rparr>) r2"
    unfolding r2_def using live_round [OF _ assms(2), of m "rt\<lparr>m_phase := p\<rparr>" r1] by (cases "n = m_round rt") (cases rt; simp)+
  then have "live m (rt\<lparr>m_phase := p, m_round := n\<rparr>) r3"
    unfolding r3_def by (simp add: live_writes(9))
  moreover have "flipTo ?key inst (m_round rt, m_phase rt) (n, p) r = (True, r3)"
    using live_phaseAt [OF assms(1)]
    by (simp add: flipTo_def phaseFlip_def Let_def r3_def r2_def r1_def)
  moreover have "r_str r3 = r_str r" by (simp add: r3_def r2_def r1_def)
  ultimately show ?thesis using that by blast
qed

subsection \<open>A match that can be played\<close>

text \<open>Its row is in progress, both accounts exist, and no battle is being simulated.\<close>

definition backed :: "string \<Rightarrow> MatchRuntimeState \<Rightarrow> world \<Rightarrow> bool" where
  "backed m rt w \<longleftrightarrow> tables_ok w \<and> m_player1Id rt \<noteq> m_player2Id rt
     \<and> users_findById (m_player1Id rt) w \<noteq> None \<and> users_findById (m_player2Id rt) w \<noteq> None
     \<and> (\<exists>row. matches_findById m w = Some row \<and> mt_status row = InProgress
          \<and> mt_player1Id row = m_player1Id rt \<and> mt_player2Id row = m_player2Id rt)"

definition playable :: "string \<Rightarrow> MatchRuntimeState \<Rightarrow> world \<Rightarrow> bool" where
  "playable m rt w \<longleftrightarrow> live m rt (w_redis w) \<and> getStr (combatLockKey m) (w_redis w) = None \<and> backed m rt w"

lemma backed_frame:
  "w_matches w' = w_matches w \<Longrightarrow> w_users w' = w_users w \<Longrightarrow> m_player1Id rt' = m_player1Id rt \<Longrightarrow>
   m_player2Id rt' = m_player2Id rt \<Longrightarrow> backed m rt' w' = backed m rt w"
  by (simp add: backed_def tables_ok_def users_findById_def matches_findById_def)

lemma backed_row: "backed m rt w \<Longrightarrow> matches_findById m w \<noteq> None"
  by (auto simp: backed_def)

text \<open>The queue holds a job with the id of \<open>j\<close>.\<close>

definition due :: "Job \<Rightarrow> world \<Rightarrow> bool" where
  "due j w \<longleftrightarrow> jobId j \<in> jobId ` set (w_jobs w)"

lemma due_addJob: "due j (addJob j' w) \<longleftrightarrow> jobId j = jobId j' \<or> due j w"
  by (auto simp: due_def addJob_def)

lemma due_frame: "w_jobs w' = w_jobs w \<Longrightarrow> due j w' = due j w"
  by (simp add: due_def)

text \<open>What the messages of a handler leave alone.\<close>

lemma publishState_frames [simp]:
  "w_redis (publishState rt s st w) = w_redis w" "w_matches (publishState rt s st w) = w_matches w"
  "w_users (publishState rt s st w) = w_users w" "w_jobs (publishState rt s st w) = w_jobs w"
  "w_combatResult (publishState rt s st w) = w_combatResult w"
  by (simp_all add: publishState_def Let_def)

lemma rollOffers_frames [simp]:
  "r_hash (w_redis (rollOffersForMatch sha rt w)) = r_hash (w_redis w)"
  "getStr (combatLockKey m) (w_redis (rollOffersForMatch sha rt w)) = getStr (combatLockKey m) (w_redis w)"
  "w_matches (rollOffersForMatch sha rt w) = w_matches w" "w_users (rollOffersForMatch sha rt w) = w_users w"
  "w_jobs (rollOffersForMatch sha rt w) = w_jobs w"
  by (simp_all add: rollOffersForMatch_def resetShop_def publishOffers_def Let_def getStr_def combatLockKey_def shopKey_def)

lemma appendRoundEvents_ok:
  assumes "matches_findById m w \<noteq> None" and "0 < n"
  shows "appendRoundEvents m (int n) events w = (Inr (), saveRoundEvents m (int n) events w)"
  using assms by (auto simp: appendRoundEvents_def matches_findByIdForUpdate_def transaction_def)

lemma saveRoundEvents_frames [simp]:
  "w_redis (saveRoundEvents m n ev w) = w_redis w" "w_matches (saveRoundEvents m n ev w) = w_matches w"
  "w_users (saveRoundEvents m n ev w) = w_users w" "w_jobs (saveRoundEvents m n ev w) = w_jobs w"
  by (simp_all add: saveRoundEvents_def split: option.split)

lemma runtimeKey_other [simp]: "combatDoneKey m \<noteq> runtimeKey m" "combatLockKey m' \<noteq> runtimeKey m"
  "combatDoneKey m \<noteq> combatLockKey m'" "combatLockKey m' \<noteq> combatDoneKey m"
  by (simp_all add: combatDoneKey_def combatLockKey_def runtimeKey_def)

lemma hash_del_frame: "k \<noteq> k' \<Longrightarrow> r_hash (del k' r) k = r_hash r k"
  by (simp add: del_def)

lemma andThen_modify [simp]: "andThen (modify f) g w = g () (f w)" "andThen (\<lambda>w. modify (f' w) w) g w = g () (f' w w)"
  by (simp_all add: andThen_def)

text \<open>The simulation: nothing happens on other replicas while the engine runs.\<close>

lemma combatBody_runs:
  assumes "live m rt (w_redis w)" and "matches_findById m w \<noteq> None" and "m_phase rt = BattlePhase"
    and "m_combatRound rt \<noteq> Some (m_round rt)" and "battleEvents (pt_sha pt) rt = Inr events" and "\<forall>w. pt_during pt w = w"
  obtains w' where "combatBody pt m (m_round rt) w = (Inr True, w')"
    "live m (rt\<lparr>m_combatRound := Some (m_round rt)\<rparr>) (w_redis w')"
    "r_str (w_redis w') = (r_str (w_redis w))(combatDoneKey m := None)"
    "w_matches w' = w_matches w" "w_users w' = w_users w" "getCombatResult m w' = Some events"
    "\<And>j d. due j w' \<longleftrightarrow> jobId j = jobId (CombatDoneTimeout m (m_round rt) d) \<or> due j w"
proof -
  let ?n = "m_round rt" and ?key = "runtimeKey m"
  define w1 where "w1 = clearCombatResult m (onRedis (del (combatDoneKey m)) w)"
  have red1: "w_redis w1 = del (combatDoneKey m) (w_redis w)" by (simp add: w1_def)
  have live1: "live m rt (w_redis w1)" unfolding red1 using assms(1) by (subst live_frame) (simp_all add: hash_del_frame)
  note parse1 = live_parse [OF live1]
  have row: "matches_findById m w1 \<noteq> None" using assms(2) by (simp add: matches_findById_def w1_def)
  define t where "t = combatDoneTimeoutForEventCount (int (length (filter (\<lambda>e. visibleEvent (fst e)) events))) (pt_deadline pt)"
  define w2 where "w2 = writeCombatResult m events (combatResultTtlSeconds t) (saveRoundEvents m (int ?n) events w1)"
  define w3 where "w3 = onRedis (hset ?key ''combatRound'' (HStr (showNat ?n))) w2"
  define w4 where "w4 = publish m (CombatEvents \<lparr>cp_matchId = m, cp_round = ?n, cp_cycleCount = cycleCountOf events,
      cp_endedAt = w_now w3, cp_events = events, cp_board1 = p_board (m_p1State rt), cp_board2 = p_board (m_p2State rt)\<rparr>) w3"
  define w5 where "w5 = scheduleCombatDoneTimeout m ?n t w4"
  note append = appendRoundEvents_ok [OF row live_round_pos [OF assms(1)], of events]
  have "combatBody pt m ?n w = andThen (appendRoundEvents m (int ?n) events) (\<lambda>_.
      andThen (modify (writeCombatResult m events (combatResultTtlSeconds t))) (\<lambda>_.
      andThen (modify (onRedis (hset ?key ''combatRound'' (HStr (showNat ?n))))) (\<lambda>_.
      andThen (\<lambda>w. modify (publish m (CombatEvents \<lparr>cp_matchId = m, cp_round = ?n, cp_cycleCount = cycleCountOf events,
         cp_endedAt = w_now w, cp_events = events, cp_board1 = p_board (m_p1State rt), cp_board2 = p_board (m_p2State rt)\<rparr>)) w) (\<lambda>_.
      andThen (modify (scheduleCombatDoneTimeout m ?n t)) (\<lambda>_. ret True))))) w1"
    apply (simp only: combatBody_def live_parse [OF assms(1)] option.case assms(3,4))
    apply (simp only: simp_thms if_False Let_def assms(5) sum.case assms(6) [rule_format] parse1 option.case assms(3) w1_def [symmetric] t_def [symmetric])
    done
  also have "\<dots> = (Inr True, w5)"
    by (simp only: andThen_def [of "appendRoundEvents m (int ?n) events"] append prod.case sum.case andThen_modify w2_def [symmetric] w3_def [symmetric] w4_def [symmetric] w5_def [symmetric] ret_def)
  finally have run: "combatBody pt m ?n w = (Inr True, w5)" .
  have red: "w_redis w5 = hset ?key ''combatRound'' (HStr (showNat ?n)) (w_redis w1)"
    by (simp add: w5_def w4_def w3_def w2_def scheduleCombatDoneTimeout_def)
  have "live m (rt\<lparr>m_combatRound := Some ?n\<rparr>) (w_redis w5)"
    unfolding red using live_writes(5) [OF live1, of "HStr (showNat ?n)"] live_round_pos [OF assms(1)] by simp
  moreover have "r_str (w_redis w5) = (r_str (w_redis w))(combatDoneKey m := None)" unfolding red red1 by simp
  moreover have "w_matches w5 = w_matches w" "w_users w5 = w_users w" "getCombatResult m w5 = Some events"
    by (simp_all add: w5_def w4_def w3_def w2_def w1_def scheduleCombatDoneTimeout_def getCombatResult_def writeCombatResult_def)
  moreover have "due j w5 \<longleftrightarrow> jobId j = jobId (CombatDoneTimeout m ?n d) \<or> due j w" for j d
    by (simp add: w5_def scheduleCombatDoneTimeout_def due_addJob)
      (simp add: due_def w4_def w3_def w2_def w1_def)
  ultimately show ?thesis using run by (intro that)
qed

text \<open>A match in its battle, with the result of the battle stored for the round.\<close>

definition fought :: "string \<Rightarrow> MatchRuntimeState \<Rightarrow> SnapEvent list \<Rightarrow> world \<Rightarrow> bool" where
  "fought m rt events w \<longleftrightarrow> playable m rt w \<and> m_phase rt = BattlePhase \<and> m_combatRound rt = Some (m_round rt)
     \<and> getCombatResult m w = Some events"

lemma runCombat_runs:
  assumes "playable m rt w" and "m_phase rt = BattlePhase"
    and "m_combatRound rt \<noteq> Some (m_round rt)" and "battleEvents (pt_sha pt) rt = Inr events" and "\<forall>w. pt_during pt w = w"
  obtains w' where "runCombat pt m (m_round rt) w = (Inr True, w')"
    "fought m (rt\<lparr>m_combatRound := Some (m_round rt)\<rparr>) events w'"
    "\<And>j d. due j w' \<longleftrightarrow> jobId j = jobId (CombatDoneTimeout m (m_round rt) d) \<or> due j w"
proof -
  define owner where "owner = HStr (pt_instance pt @ '':'' @ pt_owner pt)"
  define w1 where "w1 = onRedis (setEx (combatLockKey m) owner COMBAT_LOCK_TTL_SECONDS) w"
  have free: "getStr (combatLockKey m) (w_redis w) = None" and live: "live m rt (w_redis w)" and bkd: "backed m rt w"
    using assms(1) by (simp_all add: playable_def)
  have live1: "live m rt (w_redis w1)" using live by (simp add: w1_def live_def hgetall_def hget_def setEx_def)
  have row: "matches_findById m w1 \<noteq> None" using backed_row [OF bkd] by (simp add: w1_def matches_findById_def)
  have lock: "setNx (combatLockKey m) owner COMBAT_LOCK_TTL_SECONDS (w_redis w) =
      (True, setEx (combatLockKey m) owner COMBAT_LOCK_TTL_SECONDS (w_redis w))"
    using free by (simp add: setNx_def getStr_def)
  have w1_redis: "w\<lparr>w_redis := setEx (combatLockKey m) owner COMBAT_LOCK_TTL_SECONDS (w_redis w)\<rparr> = w1"
    by (simp add: w1_def onRedis_def)
  obtain w2 where body: "combatBody pt m (m_round rt) w1 = (Inr True, w2)"
    and live2: "live m (rt\<lparr>m_combatRound := Some (m_round rt)\<rparr>) (w_redis w2)"
    and str2: "r_str (w_redis w2) = (r_str (w_redis w1))(combatDoneKey m := None)"
    and w2: "w_matches w2 = w_matches w1" "w_users w2 = w_users w1" "getCombatResult m w2 = Some events"
      "\<And>j d. due j w2 \<longleftrightarrow> jobId j = jobId (CombatDoneTimeout m (m_round rt) d) \<or> due j w1"
    using combatBody_runs [OF live1 row assms(2-5)] by blast
  define w' where "w' = onRedis (\<lambda>r. snd (releaseOwned (combatLockKey m) owner r)) w2"
  have own: "getStr (combatLockKey m) (w_redis w2) = Some owner"
    by (simp add: getStr_def str2 w1_def)
  have red: "w_redis w' = del (combatLockKey m) (w_redis w2)" using own by (simp add: w'_def releaseOwned_def)
  have run: "runCombat pt m (m_round rt) w = (Inr True, w')"
    by (simp only: runCombat_def Let_def owner_def [symmetric] lock prod.case simp_thms if_False w1_redis finallyDo_def body w'_def)
  have "live m (rt\<lparr>m_combatRound := Some (m_round rt)\<rparr>) (w_redis w')"
    unfolding red using live2 by (subst live_frame) (simp_all add: hash_del_frame)
  moreover have "getStr (combatLockKey m) (w_redis w') = None" by (simp add: red getStr_def)
  moreover have "backed m (rt\<lparr>m_combatRound := Some (m_round rt)\<rparr>) w'"
    using bkd by (subst backed_frame [of w' w _ rt]) (simp_all add: w'_def w2 w1_def)
  ultimately have "playable m (rt\<lparr>m_combatRound := Some (m_round rt)\<rparr>) w'" unfolding playable_def by (intro conjI)
  then have "fought m (rt\<lparr>m_combatRound := Some (m_round rt)\<rparr>) events w'"
    using assms(2) w2(3) by (simp add: fought_def w'_def getCombatResult_def)
  moreover have "due j w' \<longleftrightarrow> jobId j = jobId (CombatDoneTimeout m (m_round rt) d) \<or> due j w" for j d
    using w2(4) [of j d] by (simp add: due_def w'_def w1_def)
  ultimately show ?thesis using run by (intro that)
qed

lemma publishDamagePreview_frames [simp]:
  "w_redis (snd (publishDamagePreview rt n w)) = w_redis w" "w_matches (snd (publishDamagePreview rt n w)) = w_matches w"
  "w_users (snd (publishDamagePreview rt n w)) = w_users w" "w_jobs (snd (publishDamagePreview rt n w)) = w_jobs w"
  "w_combatResult (snd (publishDamagePreview rt n w)) = w_combatResult w"
  by (simp_all add: publishDamagePreview_def split: option.split sum.split)

lemma fought_frame:
  assumes "w_redis w' = w_redis w" and "w_matches w' = w_matches w" and "w_users w' = w_users w"
    and "w_combatResult w' = w_combatResult w"
  shows "fought m rt events w' = fought m rt events w"
  using assms backed_frame [of w' w rt rt m] by (simp add: fought_def playable_def getCombatResult_def)

lemma tryStartCombat_runs:
  assumes "playable m rt w" and "m_phase rt = ShopPlace"
    and "m_combatRound rt \<noteq> Some (m_round rt)" and "battleEvents (pt_sha pt) rt = Inr events" and "\<forall>w. pt_during pt w = w"
  obtains r w' where "tryStartCombat pt m (m_round rt) w = (r, w')"
    "fought m (rt\<lparr>m_phase := BattlePhase, m_combatRound := Some (m_round rt)\<rparr>) events w'"
    "\<And>d. due (CombatDoneTimeout m (m_round rt) d) w'"
proof -
  let ?n = "m_round rt" and ?rt = "rt\<lparr>m_phase := BattlePhase\<rparr>"
  have live: "live m rt (w_redis w)" and bkd: "backed m rt w" using assms(1) by (simp_all add: playable_def)
  obtain r1 where flip: "flipTo (runtimeKey m) (pt_instance pt) (?n, m_phase rt) (?n, BattlePhase) (w_redis w) = (True, r1)"
    and live1: "live m (rt\<lparr>m_phase := BattlePhase, m_round := ?n\<rparr>) r1" and str1: "r_str r1 = r_str (w_redis w)"
    using flip_live [OF live live_round_pos [OF live]] by blast
  define w1 where "w1 = w\<lparr>w_redis := r1\<rparr>"
  define w3 where "w3 = publishState ?rt P1 (m_p1State ?rt) (publish m (PhaseEvent (phasePayload ?rt 0)) w1)"
  have fl: "flipPhase pt m (?n, ShopPlace) (?n, BattlePhase) w = (True, w1)"
    using flip by (simp add: flipPhase_def w1_def assms(2))
  have play: "playable m ?rt w3"
    using assms(1) live1 str1 backed_frame [of w3 w ?rt rt m]
    by (simp add: playable_def w3_def w1_def getStr_def)
  have bat: "battleEvents (pt_sha pt) ?rt = Inr events" using assms(4) by (simp add: battleEvents_def cong: sum.case_cong)
  obtain w4 where comb: "runCombat pt m ?n w3 = (Inr True, w4)" and
    f: "fought m (?rt\<lparr>m_combatRound := Some ?n\<rparr>) events w4" and
    d: "\<And>j d. due j w4 \<longleftrightarrow> jobId j = jobId (CombatDoneTimeout m ?n d) \<or> due j w3"
    using runCombat_runs [OF play _ _ bat assms(5)] assms(3) by auto
  define w5 where "w5 = snd (publishDamagePreview ?rt ?n w4)"
  have "fought m (?rt\<lparr>m_combatRound := Some ?n\<rparr>) events w5"
    using f fought_frame [of w5 w4 m "?rt\<lparr>m_combatRound := Some ?n\<rparr>" events] by (simp add: w5_def)
  moreover have "due (CombatDoneTimeout m ?n d) w5" for d
    using d [of "CombatDoneTimeout m ?n d" d] by (simp add: due_def w5_def)
  moreover have "\<exists>r. tryStartCombat pt m ?n w = (r, w5)"
  proof -
    obtain x where prev: "publishDamagePreview ?rt ?n w4 = (x, w5)" by (cases "publishDamagePreview ?rt ?n w4") (simp add: w5_def)
    have "tryStartCombat pt m ?n w = andThen (runCombat pt m ?n) (\<lambda>ran.
        if ran then andThen (publishDamagePreview ?rt ?n) (\<lambda>_. ret True) else ret False) w3"
      unfolding tryStartCombat_def findRuntime_live [OF live] prod.case option.case Let_def fl
      by (simp add: assms(2) w3_def)
    also have "\<dots> = andThen (publishDamagePreview ?rt ?n) (\<lambda>_. ret True) w4"
      by (simp add: andThen_def comb)
    finally show ?thesis by (cases x) (simp_all add: prev)
  qed
  ultimately show ?thesis using that by auto
qed

lemma due_runJob:
  assumes "(case job of PhaseStart _ _ _ \<Rightarrow> processPhaseTimer pt job
       | CombatDoneTimeout _ _ _ \<Rightarrow> processCombatDoneTimeout pt job
       | RoundReadyTimeout _ _ _ \<Rightarrow> processCombatDoneTimeout pt job
       | DisconnectDetect _ _ _ \<Rightarrow> processDisconnectDetect pt job
       | MatchCleanup _ _ \<Rightarrow> processMatchCleanup job) w = (r, w')"
  shows "runTask pt (Timer job) w = w'\<lparr>w_jobs := filter (\<lambda>j. jobId j \<noteq> jobId job) (w_jobs w')\<rparr>"
  using assms by (simp add: runJob_def finallyDo_def)

subsection \<open>The end of a battle\<close>

lemma battle_has_winner:
  assumes "battleEvents sha rt = Inr events"
  obtains win where "battleWinner events = Inr win"
proof -
  have one: "1 \<le> Suc MAX_CYCLES" by simp
  from assms obtain st where st: "events = runBattle st"
    by (auto simp: battleEvents_def split: sum.splits)
  from runCycles_shape [OF refl one, of "initSideOf st" "cloneSim st" "[]"]
  obtain pre c win where "events = pre @ [attachSnapshot (fst (battleRun st)) (BattleEndEv c win)]"
    unfolding st runBattle_def battleRun_def append_Nil by blast
  then have "battleWinner events = Inr win" by (simp add: battleWinner_def attachSnapshot_def)
  then show ?thesis by (rule that)
qed

text \<open>Both accounts are found when their rows are locked.\<close>

lemma users_two:
  assumes "tables_ok w" and "a \<noteq> b" and "users_findById a w \<noteq> None" and "users_findById b w \<noteq> None"
  shows "length (users_findByIdsForUpdate [a, b] w) = 2"
proof -
  let ?ps = "filter (\<lambda>u. us_id u \<in> {a, b}) (w_users w)"
  have dist: "distinct (map us_id ?ps)" using assms(1) by (simp add: tables_ok_def distinct_map_filter)
  have "us_id ` set ?ps = {a, b}"
    using assms(3,4) users_findById_Some [of a w] users_findById_Some [of b w] by force
  with distinct_card [OF dist] assms(2) have "length ?ps = 2" by simp
  then show ?thesis by (simp add: users_findByIdsForUpdate_def)
qed

text \<open>The transaction ends a match whose row and accounts are in place.\<close>

lemma finalize_backed:
  assumes "backed m rt w" and "win \<in> {None, Some (m_player1Id rt), Some (m_player2Id rt)}"
  obtains w' where "finalize m win reason w = (Inr True, w')" "matchEnded m w'"
proof -
  obtain row where row: "matches_findById m w = Some row" "mt_status row = InProgress"
    and ids: "mt_player1Id row = m_player1Id rt" "mt_player2Id row = m_player2Id rt"
    and ok: "tables_ok w" "m_player1Id rt \<noteq> m_player2Id rt"
    and users: "users_findById (m_player1Id rt) w \<noteq> None" "users_findById (m_player2Id rt) w \<noteq> None"
    using assms(1) by (auto simp: backed_def)
  have rated: "\<exists>rc w1. applyRatings row x w = (Inr rc, w1)" for x
  proof -
    have two: "length (users_findByIdsForUpdate [mt_player1Id row, mt_player2Id row] w) = 2"
      using users_two [OF ok(1,2) users] by (simp add: ids)
    obtain u1 u2 where u: "users_findById (mt_player1Id row) w = Some u1" "users_findById (mt_player2Id row) w = Some u2"
      using users ids by auto
    have us: "us_id u1 = mt_player1Id row" "us_id u2 = mt_player2Id row"
      using users_findById_Some [OF u(1)] users_findById_Some [OF u(2)] by auto
    have ne: "mt_player1Id row \<noteq> mt_player2Id row" using ok(2) ids by simp
    define W where "W = (\<lambda>d. snd (users_update (mt_player1Id row) (\<lambda>u. u\<lparr>us_rating := max 0 (us_rating u + d)\<rparr>) w))"
    define V where "V = (\<lambda>d e. snd (users_update (mt_player2Id row) (\<lambda>u. u\<lparr>us_rating := max 0 (us_rating u + e)\<rparr>) (W d)))"
    have "users_findById (mt_player2Id row) (W d) = Some u2" for d using ne u(2) by (simp add: W_def)
    then have up2: "updateRating (mt_player2Id row) e (W d) = (Inr (), V d e)" for d e unfolding V_def by (rule updateRating_ok)
    have up1: "updateRating (mt_player1Id row) d w = (Inr (), W d)" for d unfolding W_def using u(1) by (rule updateRating_ok)
    show ?thesis
      unfolding applyRatings_def Let_def
      by (simp add: two find_players [OF ok(1)] u us andThen_def up1 up2)
  qed
  obtain res w1 where run: "finalizeTx m win reason w = (res, w1)" by fastforce
  have "\<exists>mt rc. res = Inr (Finalized mt rc)"
    using row run
  proof (cases rule: finalizeTx_live)
    case invalid
    with run row assms(2) ids rated [of "the win"] show ?thesis
      by (auto simp: finalizeTx_def matches_findByIdForUpdate_def andThen_def Let_def split: if_splits prod.splits)
  next
    case (failed e w1)
    with rated [of "the win"] show ?thesis by simp
  qed auto
  then obtain mt rc where tx: "finalizeTx m win reason w = (Inr (Finalized mt rc), w1)" using run by blast
  then have "\<exists>w'. finalize m win reason w = (Inr True, w')" by (simp add: finalize_def transaction_def)
  then obtain w' where fin: "finalize m win reason w = (Inr True, w')" by blast
  from finalization.win_ends [of m "(win, reason)" w] fin have "matchEnded m w'" by (simp add: tryFinalize_def)
  with fin that show ?thesis by blast
qed

text \<open>The summary of a round: nobody has confirmed it yet.\<close>

definition summarized :: "string \<Rightarrow> MatchRuntimeState \<Rightarrow> world \<Rightarrow> bool" where
  "summarized m rt w \<longleftrightarrow> playable m rt w \<and> m_phase rt = Resolved \<and> \<not> m_readyP1 rt \<and> \<not> m_readyP2 rt \<and> m_combatRound rt = None"

lemma persistSnapshot_ok:
  assumes "matches_findById (m_matchId rt) w \<noteq> None"
  obtains f where "persistSnapshot rt p1 p2 w = (Inr (), snd (matches_update (m_matchId rt) f w))"
    "\<And>mt. mt_id (f mt) = mt_id mt" "\<And>mt. mt_status (f mt) = mt_status mt"
    "\<And>mt. mt_player1Id (f mt) = mt_player1Id mt" "\<And>mt. mt_player2Id (f mt) = mt_player2Id mt"
    "\<And>mt. mt_matchSeed (f mt) = mt_matchSeed mt"
proof -
  let ?f = "\<lambda>m. m\<lparr>mt_p1State := playerJson p1, mt_p2State := playerJson p2,
                  mt_wipeIndexP1 := m_wipeIndexP1 rt, mt_wipeIndexP2 := m_wipeIndexP2 rt\<rparr>"
  have "m_matchId rt \<in> mt_id ` set (w_matches w)"
    using assms matches_findById_Some by force
  then have "persistSnapshot rt p1 p2 w = (Inr (), snd (matches_update (m_matchId rt) ?f w))"
    by (simp add: persistSnapshot_def updateRuntimeSnapshot_def matches_updateRuntimeSnapshot_def matches_update_def)
  then show ?thesis by (rule that) simp_all
qed

lemma backed_update:
  assumes "backed m rt w" and "\<And>mt. mt_id (f mt) = mt_id mt" and "\<And>mt. mt_status (f mt) = mt_status mt"
    and "\<And>mt. mt_player1Id (f mt) = mt_player1Id mt" and "\<And>mt. mt_player2Id (f mt) = mt_player2Id mt"
    and "\<And>mt. mt_matchSeed (f mt) = mt_matchSeed mt"
  shows "backed m rt (snd (matches_update m f w))"
proof -
  have "tables_ok (snd (matches_update m f w))"
  proof -
    have "map mt_matchSeed (w_matches (snd (matches_update m f w))) = map mt_matchSeed (w_matches w)"
      using assms(6) by (simp add: matches_update_def)
    then show ?thesis using assms(1) by (simp add: backed_def tables_ok_def assms(2))
  qed
  then show ?thesis using assms(1) by (auto simp: backed_def users_findById_def assms(2-5))
qed

text \<open>What a round costs both players together, and what stays of them when nobody is out.\<close>

lemma resolution_costs:
  assumes "resolveRound rt n events = Inr res" and "rs_winnerId res = None"
  shows "0 < p_hp (rs_p1 res) \<and> 0 < p_hp (rs_p2 res)
     \<and> p_hp (rs_p1 res) + p_hp (rs_p2 res) + 5 \<le> p_hp (m_p1State rt) + p_hp (m_p2State rt)
     \<and> p_board (rs_p1 res) = p_board (m_p1State rt) \<and> p_board (rs_p2 res) = p_board (m_p2State rt)
     \<and> p_bench (rs_p1 res) = p_bench (m_p1State rt) \<and> p_bench (rs_p2 res) = p_bench (m_p2State rt)
     \<and> p_gold (rs_p1 res) = p_gold (m_p1State rt) \<and> p_gold (rs_p2 res) = p_gold (m_p2State rt)"
  using assms(1)
proof (cases rule: resolveRound_InrD)
  case (1 win)
  have range: "5 \<le> 5 * int (min 5 (k + 1))" for k by simp
  have sum: "5 \<le> dm_p1 (rs_damage res) + dm_p2 (rs_damage res)"
    unfolding 1(2) damageFor_side using range [of "m_wipeIndexP1 rt"] range [of "m_wipeIndexP2 rt"]
    by (cases win; cases "the win"; simp del: of_nat_min)
  have pos: "0 < p_hp (rs_p1 res)" "0 < p_hp (rs_p2 res)" using 1(7) assms(2) by (auto split: if_splits)
  then have hp: "p_hp (rs_p1 res) = p_hp (m_p1State rt) - dm_p1 (rs_damage res)"
    "p_hp (rs_p2 res) = p_hp (m_p2State rt) - dm_p2 (rs_damage res)"
    using 1(3,4) by simp_all
  have "p_hp (rs_p1 res) + p_hp (rs_p2 res) + 5 \<le> p_hp (m_p1State rt) + p_hp (m_p2State rt)"
    unfolding hp using sum by simp
  moreover have "p_board (rs_p1 res) = p_board (m_p1State rt)" "p_board (rs_p2 res) = p_board (m_p2State rt)"
    "p_bench (rs_p1 res) = p_bench (m_p1State rt)" "p_bench (rs_p2 res) = p_bench (m_p2State rt)"
    "p_gold (rs_p1 res) = p_gold (m_p1State rt)" "p_gold (rs_p2 res) = p_gold (m_p2State rt)"
    unfolding 1(3,4) by simp_all
  ultimately show ?thesis using pos by (intro conjI)
qed

lemma player_okI: "0 \<le> p_hp s \<Longrightarrow> 0 \<le> p_gold s \<Longrightarrow> length (p_board s) = 9 \<Longrightarrow> length (p_bench s) = 8 \<Longrightarrow> player_ok s"
  by (simp add: player_ok_def)

text \<open>The first half, up to the won flip.\<close>

lemma applyDamage_unfold:
  assumes "fought m rt events w" and "resolveRound rt (m_round rt) events = Inr res"
  obtains w2 where "applyDamageAndAdvance pt m (m_round rt) w =
      (let rt' = rt\<lparr>m_wipeIndexP1 := dm_wipeIndexP1 (rs_damage res), m_wipeIndexP2 := dm_wipeIndexP2 (rs_damage res)\<rparr>
       in case rs_winnerId res of Some winnerId \<Rightarrow> finishMatch rt' res winnerId w2
                                | None \<Rightarrow> summarizeRound rt' res (m_round rt) w2)"
    "playable m (rt\<lparr>m_phase := Resolved\<rparr>) w2"
proof -
  let ?n = "m_round rt"
  have live: "live m rt (w_redis w)" and f: "m_phase rt = BattlePhase" "m_combatRound rt = Some ?n" "getCombatResult m w = Some events"
    using assms(1) by (simp_all add: fought_def playable_def)
  obtain r1 where flip: "flipTo (runtimeKey m) (pt_instance pt) (?n, m_phase rt) (?n, Resolved) (w_redis w) = (True, r1)"
    and live1: "live m (rt\<lparr>m_phase := Resolved, m_round := ?n\<rparr>) r1" and str1: "r_str r1 = r_str (w_redis w)"
    using flip_live [OF live live_round_pos [OF live]] by blast
  define w2 where "w2 = w\<lparr>w_redis := r1\<rparr>"
  have fl: "flipPhase pt m (?n, BattlePhase) (?n, Resolved) w = (True, w2)"
    using flip by (simp add: flipPhase_def w2_def f)
  have "playable m (rt\<lparr>m_phase := Resolved\<rparr>) w2"
    using assms(1) live1 str1 backed_frame [of w2 w "rt\<lparr>m_phase := Resolved\<rparr>" rt m]
    by (simp add: fought_def playable_def w2_def getStr_def)
  moreover have "applyDamageAndAdvance pt m ?n w =
      (let rt' = rt\<lparr>m_wipeIndexP1 := dm_wipeIndexP1 (rs_damage res), m_wipeIndexP2 := dm_wipeIndexP2 (rs_damage res)\<rparr>
       in case rs_winnerId res of Some winnerId \<Rightarrow> finishMatch rt' res winnerId w2
                                | None \<Rightarrow> summarizeRound rt' res ?n w2)"
    unfolding applyDamageAndAdvance_def findRuntime_live [OF live] prod.case option.case f(1,2,3) assms(2) sum.case Let_def fl
    by simp
  ultimately show ?thesis by (intro that)
qed

lemma finishMatch_ends:
  assumes "playable m rt w" and "m_matchId rt' = m" and "player_ok (rs_p1 res)" and "player_ok (rs_p2 res)"
    and "winnerId \<in> {None, Some (m_player1Id rt), Some (m_player2Id rt)}"
  obtains r w' where "finishMatch rt' res winnerId w = (r, w')" "matchEnded m w'"
    "phaseAt (runtimeKey m) (w_redis w') = Some (m_round rt, Finished)"
proof -
  let ?key = "runtimeKey m"
  have live: "live m rt (w_redis w)" and bkd: "backed m rt w" using assms(1) by (simp_all add: playable_def)
  have row: "matches_findById (m_matchId rt') w \<noteq> None" using backed_row [OF bkd] by (simp add: assms(2))
  obtain f where snap: "persistSnapshot rt' (rs_p1 res) (rs_p2 res) w = (Inr (), snd (matches_update m f w))"
    and keep: "\<And>mt. mt_id (f mt) = mt_id mt" "\<And>mt. mt_status (f mt) = mt_status mt"
    "\<And>mt. mt_player1Id (f mt) = mt_player1Id mt" "\<And>mt. mt_player2Id (f mt) = mt_player2Id mt"
    "\<And>mt. mt_matchSeed (f mt) = mt_matchSeed mt"
    using persistSnapshot_ok [OF row, of "rs_p1 res" "rs_p2 res"] assms(2) by auto
  define w1 where "w1 = snd (matches_update m f w)"
  define fvs where "fvs = [(''phase'', HStr ''finished''), (''p1State'', HJson (playerJson (rs_p1 res))),
           (''p2State'', HJson (playerJson (rs_p2 res))), (''wipeIndexP1'', HStr (showNat (m_wipeIndexP1 rt'))),
           (''wipeIndexP2'', HStr (showNat (m_wipeIndexP2 rt')))]"
  define w3 where "w3 = publish m (DamageEvent (rs_payload res)) (onRedis (hsets ?key fvs) w1)"
  have "w_redis w1 = w_redis w" by (simp add: w1_def)
  then have red3: "w_redis w3 = hsets ?key fvs (w_redis w)" by (simp add: w3_def)
  have "live m (rt\<lparr>m_phase := Finished\<rparr>) (hset ?key ''phase'' (HStr ''finished'') (w_redis w))"
    using live_writes(10) [OF live, of Finished] by simp
  note l1 = live_writes(11) [OF this assms(3)]
  note l2 = live_writes(12) [OF l1 assms(4)]
  note l3 = live_writes(3) [OF l2]
  note l4 = live_writes(4) [OF l3]
  have "\<exists>rt2. live m rt2 (w_redis w3) \<and> m_round rt2 = m_round rt \<and> m_phase rt2 = Finished"
    unfolding red3 fvs_def hsets_Cons hsets_Nil by (rule exI, rule conjI, rule l4) simp
  then have at: "phaseAt ?key (w_redis w3) = Some (m_round rt, Finished)" using live_phaseAt by fastforce
  have "backed m rt w1" unfolding w1_def by (rule backed_update [OF bkd keep])
  then have bkd3: "backed m rt w3" using backed_frame [of w3 w1 rt rt m] by (simp add: w3_def)
  obtain w4 where fin: "finalize m winnerId HpZero w3 = (Inr True, w4)" and ended: "matchEnded m w4"
    using finalize_backed [OF bkd3 assms(5)] by blast
  have "phaseAt ?key (w_redis w4) = phaseAt ?key (w_redis w3)"
    using finalize_hash [of m winnerId HpZero w3 m] fin by (intro phaseAt_hash) simp
  moreover have "finishMatch rt' res winnerId w = (Inr True, w4)"
    unfolding finishMatch_def Let_def assms(2) fvs_def [symmetric]
    by (simp only: andThen_def [of "persistSnapshot rt' (rs_p1 res) (rs_p2 res)"] snap prod.case sum.case andThen_modify
        w1_def [symmetric] w3_def [symmetric] andThen_def [of "finalize m winnerId HpZero"] fin ret_def)
  ultimately show ?thesis using ended at that by simp
qed

lemma summarizeRound_runs:
  assumes "playable m (rt\<lparr>m_phase := Resolved\<rparr>) w" and "m_matchId rt' = m" and "m_player1Id rt' = m_player1Id rt"
    and "player_ok (rs_p1 res)" and "player_ok (rs_p2 res)" and "0 < n"
  obtains r w' rt2 where "summarizeRound rt' res n w = (r, w')" "summarized m rt2 w'" "m_round rt2 = m_round rt"
    "p_hp (m_p1State rt2) = p_hp (rs_p1 res)" "p_hp (m_p2State rt2) = p_hp (rs_p2 res)"
    "p_board (m_p1State rt2) = p_board (rs_p1 res)" "p_board (m_p2State rt2) = p_board (rs_p2 res)"
    "m_player1Id rt2 = m_player1Id rt" "m_player2Id rt2 = m_player2Id rt"
proof -
  let ?key = "runtimeKey m" and ?rt = "rt\<lparr>m_phase := Resolved\<rparr>"
  define p1 where "p1 = (rs_p1 res)\<lparr>p_gold := p_gold (rs_p1 res) + ROUND_GOLD, p_ready := False\<rparr>"
  define p2 where "p2 = (rs_p2 res)\<lparr>p_gold := p_gold (rs_p2 res) + ROUND_GOLD, p_ready := False\<rparr>"
  have ok: "player_ok p1" "player_ok p2" using assms(4,5) by (simp_all add: player_ok_def p1_def p2_def ROUND_GOLD_def)
  have live: "live m ?rt (w_redis w)" and bkd: "backed m ?rt w" using assms(1) by (simp_all add: playable_def)
  have row: "matches_findById (m_matchId rt') w \<noteq> None" using backed_row [OF bkd] by (simp add: assms(2))
  obtain f where snap: "persistSnapshot rt' p1 p2 w = (Inr (), snd (matches_update m f w))"
    and keep: "\<And>mt. mt_id (f mt) = mt_id mt" "\<And>mt. mt_status (f mt) = mt_status mt"
    "\<And>mt. mt_player1Id (f mt) = mt_player1Id mt" "\<And>mt. mt_player2Id (f mt) = mt_player2Id mt"
    "\<And>mt. mt_matchSeed (f mt) = mt_matchSeed mt"
    using persistSnapshot_ok [OF row, of p1 p2] assms(2) by auto
  define w1 where "w1 = snd (matches_update m f w)"
  define fvs where "fvs = [(''p1State'', HJson (playerJson p1)), (''p2State'', HJson (playerJson p2)),
              (''readyP1'', HStr ''0''), (''readyP2'', HStr ''0''),
              (''wipeIndexP1'', HStr (showNat (m_wipeIndexP1 rt'))),
              (''wipeIndexP2'', HStr (showNat (m_wipeIndexP2 rt'))),
              (''combatRound'', HStr []), (''scoutRound'', HStr (showNat n)),
              (''scoutP1Board'', HJson (summaryJson (summarizeBoard (p_board p1)))),
              (''scoutP2Board'', HJson (summaryJson (summarizeBoard (p_board p2))))]"
  define w2 where "w2 = onRedis (expire ?key RUNTIME_TTL_SECONDS) (onRedis (hsets ?key fvs) w1)"
  have red2: "w_redis w2 = expire ?key RUNTIME_TTL_SECONDS (hsets ?key fvs (w_redis w))" by (simp add: w2_def w1_def)
  note l1 = live_writes(11) [OF live ok(1)]
  note l2 = live_writes(12) [OF l1 ok(2)]
  note l3 = live_writes(1) [OF l2, of "HStr ''0''"]
  note l4 = live_writes(2) [OF l3, of "HStr ''0''"]
  note l5 = live_writes(3) [OF l4]
  note l6 = live_writes(4) [OF l5]
  note l7 = live_writes(5) [OF l6, of "HStr []"]
  note l8 = live_writes(6) [OF l7]
  note l9 = live_writes(7) [OF l8]
  note l10 = live_writes(8) [OF l9]
  have "\<exists>rt2. live m rt2 (hsets ?key fvs (w_redis w)) \<and> m_round rt2 = m_round rt \<and> m_phase rt2 = Resolved
      \<and> \<not> m_readyP1 rt2 \<and> \<not> m_readyP2 rt2 \<and> m_combatRound rt2 = None \<and> m_p1State rt2 = p1 \<and> m_p2State rt2 = p2
      \<and> m_player1Id rt2 = m_player1Id rt \<and> m_player2Id rt2 = m_player2Id rt"
    unfolding fvs_def hsets_Cons hsets_Nil by (rule exI, rule conjI, rule l10) simp
  then obtain rt2 where live2: "live m rt2 (w_redis w2)" and rt2: "m_round rt2 = m_round rt" "m_phase rt2 = Resolved"
      "\<not> m_readyP1 rt2" "\<not> m_readyP2 rt2" "m_combatRound rt2 = None" "m_p1State rt2 = p1" "m_p2State rt2 = p2"
      "m_player1Id rt2 = m_player1Id rt" "m_player2Id rt2 = m_player2Id rt"
    unfolding red2 by (auto simp: live_def)
  have "\<exists>g. summarizeRound rt' res n w = (Inr True, g w2) \<and> w_redis (g w2) = w_redis w2
      \<and> w_matches (g w2) = w_matches w2 \<and> w_users (g w2) = w_users w2"
    unfolding summarizeRound_def Let_def assms(2) p1_def [symmetric] p2_def [symmetric] fvs_def [symmetric]
    apply (simp only: andThen_def [of "persistSnapshot rt' p1 p2"] snap prod.case sum.case andThen_modify
        w1_def [symmetric] w2_def [symmetric] ret_def prod.inject simp_thms)
    apply (rule exI, rule conjI, rule refl)
    apply simp
    done
  then obtain w' where run: "summarizeRound rt' res n w = (Inr True, w')" and
    w': "w_redis w' = w_redis w2" "w_matches w' = w_matches w2" "w_users w' = w_users w2" by blast
  have "backed m ?rt w1" unfolding w1_def by (rule backed_update [OF bkd keep])
  then have "backed m rt2 w'" using backed_frame [of w' w1 rt2 ?rt m] rt2 w' by (simp add: w2_def)
  moreover have "getStr (combatLockKey m) (w_redis w') = None"
    using assms(1) by (simp add: w' red2 playable_def getStr_def)
  ultimately have "summarized m rt2 w'" using live2 rt2 w' by (simp add: summarized_def playable_def)
  with run rt2 show ?thesis by (intro that [of _ w' rt2]) (simp_all add: p1_def p2_def)
qed

subsection \<open>From the summary to the next round\<close>

lemma advance_runs:
  assumes "playable m rt w" and "m_phase rt = Resolved"
  obtains w' where "advanceResolvedRound pt m (m_round rt) w = (Inr True, w')"
    "playable m (rt\<lparr>m_phase := ShopPlace, m_round := m_round rt + 1, m_readyP1 := False, m_readyP2 := False, m_combatRound := None\<rparr>) w'"
    "\<And>j d. due j w' \<longleftrightarrow> jobId j = jobId (PhaseStart m (m_round rt + 1) d) \<or> due j w"
proof -
  let ?n = "m_round rt" and ?key = "runtimeKey m"
  let ?rt = "rt\<lparr>m_phase := ShopPlace, m_round := ?n + 1, m_readyP1 := False, m_readyP2 := False, m_combatRound := None\<rparr>"
  have live: "live m rt (w_redis w)" and bkd: "backed m rt w" and no_lock: "getStr (combatLockKey m) (w_redis w) = None"
    using assms(1) by (simp_all add: playable_def)
  obtain r1 where flip: "flipTo ?key (pt_instance pt) (?n, m_phase rt) (?n + 1, ShopPlace) (w_redis w) = (True, r1)"
    and live1: "live m (rt\<lparr>m_phase := ShopPlace, m_round := ?n + 1\<rparr>) r1" and str1: "r_str r1 = r_str (w_redis w)"
    using flip_live [OF live, of "?n + 1"] by auto
  define w2 where "w2 = w\<lparr>w_redis := r1\<rparr>"
  have fl: "flipPhase pt m (?n, Resolved) (?n + 1, ShopPlace) w = (True, w2)"
    using flip by (simp add: flipPhase_def w2_def assms(2))
  define fvs where "fvs = [(''readyP1'', HStr ''0''), (''readyP2'', HStr ''0''), (''combatRound'', HStr [])]"
  define w4 where "w4 = schedulePhaseStart m (?n + 1) SHOP_PHASE_MS (onRedis (expire ?key RUNTIME_TTL_SECONDS) (onRedis (hsets ?key fvs) w2))"
  define w6 where "w6 = publishState ?rt P1 (m_p1State ?rt) (publish m (PhaseEvent (phasePayload ?rt SHOP_PHASE_SECONDS)) w4)"
  define w7 where "w7 = rollOffersForMatch (pt_sha pt) ?rt w6"
  have run: "advanceResolvedRound pt m ?n w = (Inr True, w7)"
    unfolding advanceResolvedRound_def findRuntime_live [OF live] prod.case option.case Let_def fl
    by (simp add: assms(2) w7_def w6_def w4_def fvs_def)
  note l1 = live_writes(1) [OF live1, of "HStr ''0''"]
  note l2 = live_writes(2) [OF l1, of "HStr ''0''"]
  note l3 = live_writes(5) [OF l2, of "HStr []"]
  have "live m ?rt (hsets ?key fvs r1)" unfolding fvs_def hsets_Cons hsets_Nil using l3 by simp
  moreover have "r_hash (w_redis w7) ?key = r_hash (hsets ?key fvs r1) ?key"
    by (simp add: w7_def w6_def w4_def schedulePhaseStart_def w2_def)
  ultimately have "live m ?rt (w_redis w7)" by (subst live_frame)
  moreover have "getStr (combatLockKey m) (w_redis w7) = None"
    using no_lock by (simp add: w7_def w6_def w4_def schedulePhaseStart_def w2_def getStr_def [of _ "expire _ _ _"] str1)
      (simp add: getStr_def)
  moreover have "backed m ?rt w7"
    using bkd backed_frame [of w7 w ?rt rt m] by (simp add: w7_def w6_def w4_def schedulePhaseStart_def w2_def)
  ultimately have "playable m ?rt w7" unfolding playable_def by (intro conjI)
  moreover have "due j w7 \<longleftrightarrow> jobId j = jobId (PhaseStart m (?n + 1) d) \<or> due j w" for j d
    using due_addJob [of j "PhaseStart m (?n + 1) SHOP_PHASE_MS" "onRedis (expire ?key RUNTIME_TTL_SECONDS) (onRedis (hsets ?key fvs) w2)"]
    by (simp add: due_def w7_def w6_def w4_def w2_def schedulePhaseStart_def)
  ultimately show ?thesis using run by (intro that)
qed

text \<open>The first confirmation of a summary schedules the start of the next round.\<close>

definition confirmed :: "string \<Rightarrow> MatchRuntimeState \<Rightarrow> world \<Rightarrow> bool" where
  "confirmed m rt w \<longleftrightarrow> playable m rt w \<and> m_phase rt = Resolved \<and> (\<forall>d. due (RoundReadyTimeout m (m_round rt) d) w)"

lemma markRoundReady_runs:
  assumes "summarized m rt w" and "sideFor rt u = Inr side"
  obtains r w' rt' where "markRoundReady pt u m (m_round rt) w = (r, w')" "confirmed m rt' w'"
    "m_round rt' = m_round rt" "m_p1State rt' = m_p1State rt" "m_p2State rt' = m_p2State rt"
    "m_player1Id rt' = m_player1Id rt" "m_player2Id rt' = m_player2Id rt"
proof -
  let ?n = "m_round rt" and ?key = "runtimeKey m"
  have live: "live m rt (w_redis w)" and ph: "m_phase rt = Resolved" and flags: "\<not> m_readyP1 rt" "\<not> m_readyP2 rt"
    using assms(1) by (simp_all add: summarized_def playable_def)
  define rt' where "rt' = (case side of P1 \<Rightarrow> rt\<lparr>m_readyP1 := True\<rparr> | P2 \<Rightarrow> rt\<lparr>m_readyP2 := True\<rparr>)"
  define w1 where "w1 = onRedis (hset ?key (readyField side) (HStr ''1'')) w"
  have live1: "live m rt' (w_redis w1)"
    using live_writes(1,2) [OF live, of "HStr ''1''"] by (cases side) (simp_all add: rt'_def w1_def readyField_def)
  have same: "m_round rt' = m_round rt" "m_p1State rt' = m_p1State rt" "m_p2State rt' = m_p2State rt"
    "m_player1Id rt' = m_player1Id rt" "m_player2Id rt' = m_player2Id rt" "m_phase rt' = Resolved" "readyCountOf rt' = 1"
    using flags ph by (cases side; simp add: rt'_def readyCountOf_def)+
  have req: "requireActionPhase m ?n Resolved w = (Inr rt, w)"
    by (simp add: requireActionPhase_def andThen_def getRuntime_live [OF live] ph)
  have notyet: "\<not> readyOf side rt" using flags by (cases side) (simp_all add: readyOf_def)
  define w3 where "w3 = publish m (PhaseEvent (phasePayload rt' ROUND_READY_GRACE_SECONDS))
      (scheduleRoundReadyTimeout m ?n ROUND_READY_GRACE_MS w1)"
  have "\<exists>r. markRoundReady pt u m ?n w = (r, w3)"
    unfolding markRoundReady_def Let_def
    by (simp add: andThen_def [of "requireActionPhase m ?n Resolved"] req andThen_def [of "lift _"] assms(2) notyet
        andThen_def [of "getRuntime m"] w1_def [symmetric] getRuntime_live [OF live1] same(7) w3_def)
  moreover have "due (RoundReadyTimeout m ?n d) w3" for d
    using due_addJob [of "RoundReadyTimeout m ?n d" "RoundReadyTimeout m ?n ROUND_READY_GRACE_MS" w1]
    by (simp add: due_def w3_def scheduleRoundReadyTimeout_def)
  moreover have "playable m rt' w3"
    using assms(1) live1 backed_frame [of w3 w rt' rt m]
    by (simp add: summarized_def playable_def same w3_def scheduleRoundReadyTimeout_def) (simp add: w1_def getStr_def)
  ultimately have "\<exists>r. markRoundReady pt u m ?n w = (r, w3)" "confirmed m rt' w3"
    by (simp_all add: confirmed_def same)
  then show ?thesis using same that by blast
qed

subsection \<open>Playing a match to its end\<close>

text \<open>
  A timer that fires: the worker runs the job the queue holds under its id. In a round the players shop (and do
  whatever else is allowed in the phase), the timer of the phase starts the battle, the timer of the battle resolves
  it, one player confirms the summary, and the timer of the confirmation starts the next round.
\<close>

definition fire :: "ports \<Rightarrow> Job \<Rightarrow> world \<Rightarrow> world" where
  "fire pt job w = (if due job w then runTask pt (Timer job) w else w)"

definition battlePhase :: "ports \<Rightarrow> string \<Rightarrow> nat \<Rightarrow> world \<Rightarrow> world" where
  "battlePhase pt m n w = fire pt (CombatDoneTimeout m n 0) (fire pt (PhaseStart m n 0) w)"

definition summaryPhase :: "ports \<Rightarrow> string \<Rightarrow> string \<Rightarrow> string \<Rightarrow> nat \<Rightarrow> world \<Rightarrow> world" where
  "summaryPhase pt m u a n w =
     fire pt (RoundReadyTimeout m n 0) (runTask pt (Request u MatchRoundReady n a (Some m)) w)"

fun playRounds :: "ports \<Rightarrow> (world \<Rightarrow> world) \<Rightarrow> string \<Rightarrow> string \<Rightarrow> string \<Rightarrow> nat \<Rightarrow> nat \<Rightarrow> world \<Rightarrow> world" where
  "playRounds pt shopping m u a 0 n w = w"
| "playRounds pt shopping m u a (Suc k) n w =
     (let w' = battlePhase pt m n (shopping w)
      in if matchEnded m w' then w' else playRounds pt shopping m u a k (n + 1) (summaryPhase pt m u a n w'))"

text \<open>
  Player \<open>u\<close> is in match \<open>m\<close>, which waits in the shop phase of round \<open>n\<close> for its timer; both players are alive, have
  \<open>hp\<close> hit points together and boards the engine can read.
\<close>

definition awaiting :: "string \<Rightarrow> string \<Rightarrow> nat \<Rightarrow> int \<Rightarrow> world \<Rightarrow> bool" where
  "awaiting m u n hp w \<longleftrightarrow> (\<exists>rt us1 us2. playable m rt w \<and> m_phase rt = ShopPlace \<and> m_round rt = n
     \<and> m_combatRound rt \<noteq> Some n \<and> u \<in> {m_player1Id rt, m_player2Id rt}
     \<and> 0 < p_hp (m_p1State rt) \<and> 0 < p_hp (m_p2State rt) \<and> p_hp (m_p1State rt) + p_hp (m_p2State rt) = hp
     \<and> unitsFromBoard (p_board (m_p1State rt)) P1 = Inr us1 \<and> unitsFromBoard (p_board (m_p2State rt)) P2 = Inr us2
     \<and> due (PhaseStart m n 0) w)"

lemma jobId_any: "due (PhaseStart m n d) w = due (PhaseStart m n 0) w"
  "due (CombatDoneTimeout m n d) w = due (CombatDoneTimeout m n 0) w"
  "due (RoundReadyTimeout m n d) w = due (RoundReadyTimeout m n 0) w"
  by (simp_all add: due_def)

definition finished :: "Job \<Rightarrow> world \<Rightarrow> world" where
  "finished job w = w\<lparr>w_jobs := filter (\<lambda>j. jobId j \<noteq> jobId job) (w_jobs w)\<rparr>"

lemma finished_frames [simp]:
  "w_redis (finished j w) = w_redis w" "w_matches (finished j w) = w_matches w" "w_users (finished j w) = w_users w"
  "w_combatResult (finished j w) = w_combatResult w" "matchEnded m (finished j w) = matchEnded m w"
  "due j' (finished j w) \<longleftrightarrow> due j' w \<and> jobId j' \<noteq> jobId j" "playable m rt (finished j w) = playable m rt w"
  "fought m rt events (finished j w) = fought m rt events w"
  by (auto simp: finished_def due_def matchEnded_def matches_findById_def playable_def backed_def tables_ok_def
      users_findById_def fought_def getCombatResult_def)

lemma fire_runs:
  "due (PhaseStart m n d) w \<Longrightarrow> tryStartCombat pt m n w = (r, w') \<Longrightarrow>
     fire pt (PhaseStart m n d) w = finished (PhaseStart m n d) w'"
  "due (CombatDoneTimeout m n d) w \<Longrightarrow> applyDamageAndAdvance pt m n w = (r, w') \<Longrightarrow>
     fire pt (CombatDoneTimeout m n d) w = finished (CombatDoneTimeout m n d) w'"
  "due (RoundReadyTimeout m n d) w \<Longrightarrow> advanceResolvedRound pt m n w = (r, w') \<Longrightarrow>
     fire pt (RoundReadyTimeout m n d) w = finished (RoundReadyTimeout m n d) w'"
  by (cases r; simp add: fire_def runJob_def finallyDo_def processPhaseTimer_def processCombatDoneTimeout_def finished_def
      del: jobId.simps)+

lemma summarized_finished [simp]: "summarized m rt (finished j w) = summarized m rt w"
  by (simp add: summarized_def)

lemma battlePhase_runs:
  assumes "awaiting m u n hp w" and "\<forall>w. pt_during pt w = w"
  obtains (over) "matchEnded m (battlePhase pt m n w)" "phaseAt (runtimeKey m) (w_redis (battlePhase pt m n w)) = Some (n, Finished)"
  | (on) rt us1 us2 where "summarized m rt (battlePhase pt m n w)" "m_round rt = n" "u \<in> {m_player1Id rt, m_player2Id rt}"
      "0 < p_hp (m_p1State rt)" "0 < p_hp (m_p2State rt)" "p_hp (m_p1State rt) + p_hp (m_p2State rt) + 5 \<le> hp"
      "unitsFromBoard (p_board (m_p1State rt)) P1 = Inr us1" "unitsFromBoard (p_board (m_p2State rt)) P2 = Inr us2"
proof -
  obtain rt us1 us2 where play: "playable m rt w" and ph: "m_phase rt = ShopPlace" and n: "m_round rt = n"
    and cr: "m_combatRound rt \<noteq> Some n" and u: "u \<in> {m_player1Id rt, m_player2Id rt}"
    and hp: "p_hp (m_p1State rt) + p_hp (m_p2State rt) = hp"
    and us: "unitsFromBoard (p_board (m_p1State rt)) P1 = Inr us1" "unitsFromBoard (p_board (m_p2State rt)) P2 = Inr us2"
    and start: "due (PhaseStart m n 0) w"
    using assms(1) unfolding awaiting_def by blast
  obtain events where bat: "battleEvents (pt_sha pt) rt = Inr events" using us by (simp add: battleEvents_def)
  obtain win where win: "battleWinner events = Inr win" using battle_has_winner [OF bat] by blast
  let ?rt = "rt\<lparr>m_phase := BattlePhase, m_combatRound := Some n\<rparr>"
  obtain r1 w1 where began: "tryStartCombat pt m n w = (r1, w1)" and f1: "fought m ?rt events w1"
    and due1: "\<And>d. due (CombatDoneTimeout m n d) w1"
    using tryStartCombat_runs [OF play ph _ bat assms(2)] cr n by auto
  define w2 where "w2 = finished (PhaseStart m n 0) w1"
  have fire1: "fire pt (PhaseStart m n 0) w = w2" unfolding w2_def by (rule fire_runs(1) [OF start began])
  have f2: "fought m ?rt events w2" and due2: "due (CombatDoneTimeout m n 0) w2"
    using f1 due1 [of 0] by (simp_all add: w2_def)
  obtain res where res: "resolveRound ?rt (m_round ?rt) events = Inr res" using win by (simp add: resolveRound_def Let_def)
  obtain w3 where app: "applyDamageAndAdvance pt m (m_round ?rt) w2 =
      (let rt' = ?rt\<lparr>m_wipeIndexP1 := dm_wipeIndexP1 (rs_damage res), m_wipeIndexP2 := dm_wipeIndexP2 (rs_damage res)\<rparr>
       in case rs_winnerId res of Some winnerId \<Rightarrow> finishMatch rt' res winnerId w3
                                | None \<Rightarrow> summarizeRound rt' res (m_round ?rt) w3)"
    and play3: "playable m (?rt\<lparr>m_phase := Resolved\<rparr>) w3"
    using applyDamage_unfold [OF f2 res] by blast
  have live: "live m rt (w_redis w)" using play by (simp add: playable_def)
  note ok = live_players [OF live] live_matchId [OF live] live_round_pos [OF live]
  have ok_res: "player_ok (rs_p1 res)" "player_ok (rs_p2 res)" and
    wid: "\<And>x. rs_winnerId res = Some x \<Longrightarrow> x \<in> {None, Some (m_player1Id rt), Some (m_player2Id rt)}"
    using res ok(1) by (auto elim!: resolveRound_InrD simp: player_ok_def split: if_splits)
  define w4 where "w4 = snd (applyDamageAndAdvance pt m n w2)"
  have phase: "battlePhase pt m n w = finished (CombatDoneTimeout m n 0) w4"
    using fire_runs(2) [OF due2, of pt] by (cases "applyDamageAndAdvance pt m n w2") (simp add: battlePhase_def fire1 w4_def)
  let ?rt' = "?rt\<lparr>m_wipeIndexP1 := dm_wipeIndexP1 (rs_damage res), m_wipeIndexP2 := dm_wipeIndexP2 (rs_damage res)\<rparr>"
  show ?thesis
  proof (cases "rs_winnerId res")
    case (Some winnerId)
    obtain r4 w4' where "finishMatch ?rt' res winnerId w3 = (r4, w4')" "matchEnded m w4'"
      "phaseAt (runtimeKey m) (w_redis w4') = Some (m_round (?rt\<lparr>m_phase := Resolved\<rparr>), Finished)"
      using finishMatch_ends [OF play3 _ ok_res, of ?rt' winnerId] wid [OF Some] ok(2) by auto
    with app Some n have "matchEnded m w4" "phaseAt (runtimeKey m) (w_redis w4) = Some (n, Finished)"
      by (simp_all add: w4_def Let_def)
    then show ?thesis by (intro over) (simp_all add: phase)
  next
    case None
    note costs = resolution_costs [OF res None]
    obtain r4 w4' rt2 where "summarizeRound ?rt' res (m_round ?rt) w3 = (r4, w4')" and s: "summarized m rt2 w4'"
      and rt2: "m_round rt2 = m_round ?rt" "p_hp (m_p1State rt2) = p_hp (rs_p1 res)" "p_hp (m_p2State rt2) = p_hp (rs_p2 res)"
      "p_board (m_p1State rt2) = p_board (rs_p1 res)" "p_board (m_p2State rt2) = p_board (rs_p2 res)"
      "m_player1Id rt2 = m_player1Id rt" "m_player2Id rt2 = m_player2Id rt"
      using summarizeRound_runs [OF play3, of ?rt' res "m_round ?rt"] ok ok_res n by auto
    with app None n have "w4 = w4'" by (simp add: w4_def Let_def)
    with s rt2 costs hp us u n show ?thesis by (intro on [of rt2]) (simp_all add: phase)
  qed
qed

lemma summaryPhase_runs:
  assumes "summarized m rt w" and "u \<in> {m_player1Id rt, m_player2Id rt}" and "m \<noteq> ''''"
    and "0 < p_hp (m_p1State rt)" and "0 < p_hp (m_p2State rt)"
    and "unitsFromBoard (p_board (m_p1State rt)) P1 = Inr us1" and "unitsFromBoard (p_board (m_p2State rt)) P2 = Inr us2"
  shows "awaiting m u (m_round rt + 1) (p_hp (m_p1State rt) + p_hp (m_p2State rt)) (summaryPhase pt m u a (m_round rt) w)"
proof -
  let ?n = "m_round rt"
  obtain side where side: "sideFor rt u = Inr side" using assms(2) by (cases "m_player1Id rt = u") (auto simp: sideFor_def)
  obtain r w1 rt1 where ack: "markRoundReady pt u m ?n w = (r, w1)" and conf: "confirmed m rt1 w1"
    and rt1: "m_round rt1 = ?n" "m_p1State rt1 = m_p1State rt" "m_p2State rt1 = m_p2State rt"
    "m_player1Id rt1 = m_player1Id rt" "m_player2Id rt1 = m_player2Id rt"
    using markRoundReady_runs [OF assms(1) side] by blast
  have task: "runTask pt (Request u MatchRoundReady ?n a (Some m)) w = w1"
    using assms(3) by (simp add: handleAction_def ack)
  have play1: "playable m rt1 w1" and ph1: "m_phase rt1 = Resolved" and due1: "due (RoundReadyTimeout m ?n 0) w1"
    using conf rt1(1) unfolding confirmed_def by simp_all
  let ?rt = "rt1\<lparr>m_phase := ShopPlace, m_round := ?n + 1, m_readyP1 := False, m_readyP2 := False, m_combatRound := None\<rparr>"
  obtain w2 where adv: "advanceResolvedRound pt m ?n w1 = (Inr True, w2)" and play2: "playable m ?rt w2"
    and due2: "\<And>j d. due j w2 \<longleftrightarrow> jobId j = jobId (PhaseStart m (?n + 1) d) \<or> due j w1"
    using advance_runs [OF play1 ph1] rt1(1) by metis
  have phase: "summaryPhase pt m u a ?n w = finished (RoundReadyTimeout m ?n 0) w2"
    unfolding summaryPhase_def task by (rule fire_runs(3) [OF due1 adv])
  have "due (PhaseStart m (?n + 1) 0) (finished (RoundReadyTimeout m ?n 0) w2)"
    using due2 by simp
  with play2 assms(2,4-7) rt1 show ?thesis unfolding phase awaiting_def by (intro exI [of _ ?rt]) simp
qed

text \<open>
  C7: Every match ends. A match that waits in a shop phase, with both players alive, is finished after at most
  one round per five hit points (forty rounds from 100 hit points each): whatever the players do in the shop
  phases, as long as the match is still waiting for its timer when they are done, the timers the handlers
  have queued and one confirmation of each round's summary by one of the two players carry it to a finished
  runtime and an ended row.
\<close>

theorem every_match_ends:
  assumes "awaiting m u n hp w" and "hp \<le> 5 * int k + 1" and "m \<noteq> ''''"
    and "\<And>w. pt_during pt w = w" and "\<And>n hp w. awaiting m u n hp w \<Longrightarrow> awaiting m u n hp (shopping w)"
  shows "matchEnded m (playRounds pt shopping m u a k n w)
     \<and> (\<exists>j < k. phaseAt (runtimeKey m) (w_redis (playRounds pt shopping m u a k n w)) = Some (n + j, Finished))"
  using assms(1,2)
proof (induction k arbitrary: n hp w)
  case 0
  then show ?case by (auto simp: awaiting_def)
next
  case (Suc k)
  let ?w = "battlePhase pt m n (shopping w)"
  have "\<forall>w. pt_during pt w = w" using assms(4) by blast
  from assms(5) [OF Suc.prems(1)] this show ?case
  proof (cases rule: battlePhase_runs)
    case over
    then show ?thesis by (auto simp: Let_def intro!: exI [of _ 0])
  next
    case (on rt us1 us2)
    have "\<not> matchEnded m ?w" using on(1)
      by (auto simp: summarized_def playable_def backed_def matchEnded_def)
    moreover note Suc.IH [OF summaryPhase_runs [OF on(1,3) assms(3) on(4,5,7,8), of pt a]]
    moreover have "p_hp (m_p1State rt) + p_hp (m_p2State rt) \<le> 5 * int k + 1" using on(6) Suc.prems(2) by simp
    ultimately have "matchEnded m (playRounds pt shopping m u a (Suc k) n w)"
      "\<exists>j < k. phaseAt (runtimeKey m) (w_redis (playRounds pt shopping m u a (Suc k) n w)) = Some (Suc n + j, Finished)"
      using on(2) by (simp_all add: Let_def)
    then show ?thesis by (auto intro: exI [of _ "Suc j" for j])
  qed
qed

subsection \<open>Examples\<close>

definition freshMatch :: Match where
  "freshMatch = \<lparr>mt_id = ''m1'', mt_player1Id = ''alice'', mt_player2Id = ''bob'', mt_winnerId = None,
     mt_status = InProgress, mt_matchSeed = ''seed'', mt_wipeIndexP1 = 0, mt_wipeIndexP2 = 0,
     mt_p1State = JNull, mt_p2State = JNull, mt_createdAt = 0, mt_finishedAt = None\<rparr>"

definition freshWorld :: world where
  "freshWorld = \<lparr>w_redis = emptyRedis, w_matches = [freshMatch], w_rounds = [],
     w_users = [\<lparr>us_id = ''alice'', us_email = ''a'', us_username = ''Alice'', us_passwordHash = [], us_rating = 1000, us_createdAt = 0\<rparr>,
                \<lparr>us_id = ''bob'', us_email = ''b'', us_username = ''Bob'', us_passwordHash = [], us_rating = 1000, us_createdAt = 0\<rparr>],
     w_jobs = [], w_pub = [], w_combatResult = (\<lambda>_. None), w_cacheUp = True, w_now = 5\<rparr>"

text \<open>A freshly initialised match waits for its first timer.\<close>

lemma unitsFromBoard_empty: "unitsFromBoard (replicate 9 None) side = Inr []"
  by (simp add: unitsFromBoard_def numeral_eq_Suc)

lemma fresh_runtime:
  obtains rt where "playable ''m1'' rt (snd (initializeMatch demoPorts freshMatch freshWorld))"
    "m_player1Id rt = ''alice''" "m_player2Id rt = ''bob''" "m_phase rt = ShopPlace" "m_round rt = 1" "m_combatRound rt = None"
    "p_hp (m_p1State rt) = 100" "p_hp (m_p2State rt) = 100"
    "p_board (m_p1State rt) = replicate 9 None" "p_board (m_p2State rt) = replicate 9 None"
    "w_jobs (snd (initializeMatch demoPorts freshMatch freshWorld)) = [PhaseStart ''m1'' 1 SHOP_PHASE_MS]"
    "w_matches (snd (initializeMatch demoPorts freshMatch freshWorld)) = [freshMatch]"
proof -
  define w where "w = snd (initializeMatch demoPorts freshMatch freshWorld)"
  let ?key = "runtimeKey ''m1''"
  have names: "usernamesForPlayers ''alice'' ''bob'' freshWorld = (''Alice'', ''Bob'')"
    by (simp add: usernamesForPlayers_def users_findByIds_def freshWorld_def)
  have ids: "mt_id freshMatch = ''m1''" "mt_player1Id freshMatch = ''alice''" "mt_player2Id freshMatch = ''bob''"
    by (simp_all add: freshMatch_def)
  have init: "w_redis freshWorld = emptyRedis" "w_jobs freshWorld = []" "w_matches freshWorld = [freshMatch]" by (simp_all add: freshWorld_def)
  have frames: "r_hash (w_redis w) = r_hash (hsets ?key (initialRuntimeHash freshMatch (''Alice'', ''Bob'')) emptyRedis)"
    "w_matches w = w_matches freshWorld" "w_users w = w_users freshWorld" "w_jobs w = [PhaseStart ''m1'' 1 SHOP_PHASE_MS]"
    "getStr (combatLockKey ''m1'') (w_redis w) = None"
    by (simp_all add: w_def initializeMatch_def Let_def names ids schedulePhaseStart_def init addJob_def)
      (simp add: getStr_def emptyRedis_def)
  have empty: "hgetall ?key emptyRedis = Map.empty" by (simp add: hgetall_def emptyRedis_def)
  have hash: "hgetall ?key (w_redis w) = map_of (initialRuntimeHash freshMatch (''Alice'', ''Bob''))"
    using hgetall_fresh [OF empty, of "initialRuntimeHash freshMatch (''Alice'', ''Bob'')"]
    by (simp add: hgetall_def frames(1)) (simp add: initialRuntimeHash_def Let_def)
  obtain rt where rt: "parseRuntimeHash ''m1'' (hgetall ?key (w_redis w)) = Some rt" "m_player1Id rt = ''alice''" "m_player2Id rt = ''bob''"
      "m_phase rt = ShopPlace" "m_round rt = 1" "m_combatRound rt = None"
      "p_hp (m_p1State rt) = 100" "p_hp (m_p2State rt) = 100"
      "p_board (m_p1State rt) = replicate 9 None" "p_board (m_p2State rt) = replicate 9 None"
    using runtime_hash_start [of freshMatch "''Alice''" "''Bob''"]
    by (simp add: hash freshMatch_def normalize_null)
  have get: "hget ?key f (w_redis w) = map_of (initialRuntimeHash freshMatch (''Alice'', ''Bob'')) f" for f
    using hash by (simp add: hgetall_hget [symmetric])
  have "live ''m1'' rt (w_redis w)"
    using rt by (simp add: live_def get) (simp add: initialRuntimeHash_def Let_def show_one)
  moreover have "backed ''m1'' rt w"
    using rt by (simp add: backed_def tables_ok_def users_findById_def matches_findById_def frames)
      (simp add: freshWorld_def freshMatch_def)
  ultimately have "playable ''m1'' rt w" using frames(5) by (simp add: playable_def)
  with rt show ?thesis
    by (intro that) (simp_all add: w_def [symmetric] frames(2,4) init)
qed

lemma fresh_awaiting: "awaiting ''m1'' ''bob'' 1 200 (snd (initializeMatch demoPorts freshMatch freshWorld))"
proof -
  obtain rt where "playable ''m1'' rt (snd (initializeMatch demoPorts freshMatch freshWorld))"
    "m_player1Id rt = ''alice''" "m_player2Id rt = ''bob''" "m_phase rt = ShopPlace" "m_round rt = 1" "m_combatRound rt = None"
    "p_hp (m_p1State rt) = 100" "p_hp (m_p2State rt) = 100"
    "p_board (m_p1State rt) = replicate 9 None" "p_board (m_p2State rt) = replicate 9 None"
    "w_jobs (snd (initializeMatch demoPorts freshMatch freshWorld)) = [PhaseStart ''m1'' 1 SHOP_PHASE_MS]"
    by (rule fresh_runtime)
  then show ?thesis unfolding awaiting_def
    by (intro exI [of _ rt] exI [of _ "[]"]) (simp add: unitsFromBoard_empty due_def)
qed

lemma every_match_ends_witness:
  "matchEnded ''m1'' (playRounds demoPorts (\<lambda>w. w) ''m1'' ''bob'' ''a'' 40 1 (snd (initializeMatch demoPorts freshMatch freshWorld)))"
  by (rule every_match_ends [THEN conjunct1, OF fresh_awaiting]) (simp_all add: demoPorts_def)

text \<open>The third wipe of player 1 costs 15 of the 12 points left, and the match.\<close>

definition lastStand :: MatchRuntimeState where
  "lastStand = \<lparr>m_matchId = ''m1'', m_player1Id = ''alice'', m_player2Id = ''bob'', m_player1Name = ''Alice'', m_player2Name = ''Bob'',
     m_matchSeed = ''seed'', m_phase = BattlePhase, m_round = 7,
     m_p1State = \<lparr>p_hp = 12, p_gold = 5, p_ready = False, p_board = replicate 9 None, p_bench = replicate 8 None\<rparr>,
     m_p2State = \<lparr>p_hp = 20, p_gold = 5, p_ready = False, p_board = replicate 9 None, p_bench = replicate 8 None\<rparr>,
     m_readyP1 = False, m_readyP2 = False, m_wipeIndexP1 = 2, m_wipeIndexP2 = 0, m_combatRound = Some 7, m_scoutRound = None,
     m_scoutP1Board = replicate 9 None, m_scoutP2Board = replicate 9 None\<rparr>"


end
