(* ===== verification/Matchmaking.thy ===== *)
theory Matchmaking
  imports Workers
begin

text \<open>
  FIFO matchmaking (\<open>matchmaking/matchmaking.service.ts\<close>, \<open>matchmaking.processor.ts\<close>): the queue is the
  sorted set \<open>matchmaking:queue\<close>, scored by the time of joining. The ids PostgreSQL and \<open>randomUUID\<close>
  generate are arguments.
\<close>

definition MATCHMAKING_QUEUE_KEY :: string where "MATCHMAKING_QUEUE_KEY = ''matchmaking:queue''"

text \<open>\<open>joinQueue\<close>: \<open>False\<close> means that the user was waiting already.\<close>

definition joinQueue :: "string \<Rightarrow> int \<Rightarrow> world \<Rightarrow> bool result \<times> world" where
  "joinQueue userId joinedAtMs w =
     (case matches_findActiveByUserId userId w of
        Some active \<Rightarrow> (Inl ''match.already_active'', w)
      | None \<Rightarrow> let (added, r) = zaddNx MATCHMAKING_QUEUE_KEY joinedAtMs userId (w_redis w)
                in (Inr (added = 1), w\<lparr>w_redis := r\<rparr>))"

definition leaveQueue :: "string \<Rightarrow> world \<Rightarrow> bool result \<times> world" where
  "leaveQueue userId w =
     (let (removed, r) = zrem MATCHMAKING_QUEUE_KEY userId (w_redis w) in (Inr (removed > 0), w\<lparr>w_redis := r\<rparr>))"

record MatchPairResult =
  mp_matchId :: string
  mp_player1Id :: string
  mp_player2Id :: string

definition startState :: json where
  "startState = JObj [(''hp'', JNum 100), (''gold'', JNum 5), (''ready'', JBool False),
     (''board'', JArr (replicate 9 JNull)), (''bench'', JArr (replicate 8 JNull))]"

definition createMatch :: "string \<Rightarrow> string \<Rightarrow> string \<Rightarrow> string \<Rightarrow> world \<Rightarrow> Match result \<times> world" where
  "createMatch newId seed player1Id player2Id =
     matches_create newId (player1Id, player2Id) seed startState startState None None None"

text \<open>One \<open>ZADD NX\<close> with the entries \<open>now + index\<close>.\<close>

fun zaddAll :: "string \<Rightarrow> int \<Rightarrow> string list \<Rightarrow> redis \<Rightarrow> redis" where
  "zaddAll key now [] r = r"
| "zaddAll key now (p # ps) r = zaddAll key (now + 1) ps (snd (zaddNx key now p r))"

definition requeueAfterFailure :: "string list \<Rightarrow> world \<Rightarrow> world" where
  "requeueAfterFailure playerIds w = onRedis (zaddAll MATCHMAKING_QUEUE_KEY (w_now w) playerIds) w"

definition tryPair :: "ports \<Rightarrow> string \<Rightarrow> string \<Rightarrow> world \<Rightarrow> MatchPairResult option result \<times> world" where
  "tryPair pt newId seed w =
     (let (players, r) = matchPair MATCHMAKING_QUEUE_KEY (w_redis w); w1 = w\<lparr>w_redis := r\<rparr>
      in case players of
           [player1Id, player2Id] \<Rightarrow>
             (let player1Active = matches_findActiveByUserId player1Id w1 \<noteq> None;
                  player2Active = matches_findActiveByUserId player2Id w1 \<noteq> None
              in if player1Active \<or> player2Active
                 then (Inr None, requeueAfterFailure
                        ((if player1Active then [] else [player1Id]) @ (if player2Active then [] else [player2Id])) w1)
                 else case createMatch newId seed player1Id player2Id w1 of
                        (Inl e, w2) \<Rightarrow> (Inl e, requeueAfterFailure [player1Id, player2Id] w2)
                      | (Inr match, w2) \<Rightarrow>
                          andThen (initializeMatch pt match)
                            (\<lambda>_. ret (Some \<lparr>mp_matchId = mt_id match, mp_player1Id = player1Id, mp_player2Id = player2Id\<rparr>)) w2)
         | _ \<Rightarrow> (Inr None, w1))"

definition createMatchForPlayers :: "ports \<Rightarrow> string \<Rightarrow> string \<Rightarrow> string \<Rightarrow> string \<Rightarrow> world \<Rightarrow> MatchPairResult result \<times> world" where
  "createMatchForPlayers pt newId seed player1Id player2Id =
     andThen (createMatch newId seed player1Id player2Id) (\<lambda>match.
     andThen (initializeMatch pt match) (\<lambda>_.
       ret \<lparr>mp_matchId = mt_id match, mp_player1Id = player1Id, mp_player2Id = player2Id\<rparr>))"

definition processMatchPair :: "ports \<Rightarrow> string \<Rightarrow> string \<Rightarrow> string \<Rightarrow> world \<Rightarrow> unit result \<times> world" where
  "processMatchPair pt newId seed jobName =
     (if jobName \<noteq> MATCH_PAIR then ret () else andThen (tryPair pt newId seed) (\<lambda>_. ret ()))"

subsection \<open>The queue\<close>

definition queue :: "world \<Rightarrow> (string \<times> int) list" where
  "queue w = r_zset (w_redis w) MATCHMAKING_QUEUE_KEY"

definition waiting :: "world \<Rightarrow> string set" where
  "waiting w = fst ` set (queue w)"

lemma zset_frames [simp]:
  "r_zset (hset k f v r) = r_zset r" "r_zset (hsets k fvs r) = r_zset r" "r_zset (setEx k v t r) = r_zset r"
  by (simp_all add: setEx_def) (induction fvs arbitrary: r; auto)

lemma waiting_effects [simp]:
  "queue (publish m p w) = queue w" "queue (publishToUser m u p w) = queue w" "queue (addJob j w) = queue w"
  by (simp_all add: queue_def)

lemma queue_initialize [simp]: "queue (snd (initializeMatch pt match w)) = queue w"
  by (simp add: queue_def initializeMatch_def Let_def rollOffersForMatch_def resetShop_def publishOffers_def
      publishState_def schedulePhaseStart_def)

lemma matches_initialize [simp]: "w_matches (snd (initializeMatch pt match w)) = w_matches w"
  by (simp add: initializeMatch_def Let_def rollOffersForMatch_def resetShop_def publishOffers_def
      publishState_def schedulePhaseStart_def)

lemma initialize_ok: "initializeMatch pt match w = (Inr (), snd (initializeMatch pt match w))"
  by (simp add: initializeMatch_def Let_def)

lemma zaddNx_members: "fst ` set (r_zset (snd (zaddNx k s m r)) k) = insert m (fst ` set (r_zset r k))"
  by (auto simp: zaddNx_def zadd_def zremList_def image_iff)

lemma zaddAll_members: "fst ` set (r_zset (zaddAll k s ms r) k) = set ms \<union> fst ` set (r_zset r k)"
  by (induction k s ms r rule: zaddAll.induct) (auto simp: zaddNx_members)

lemma waiting_requeue: "waiting (requeueAfterFailure us w) = set us \<union> waiting w"
  by (simp add: waiting_def queue_def requeueAfterFailure_def zaddAll_members)

lemma matches_requeue [simp]: "w_matches (requeueAfterFailure us w) = w_matches w"
  by (simp add: requeueAfterFailure_def)

lemma zremList_fold:
  "r_zset (fold (\<lambda>m s. snd (zrem k m s)) ms r) k = filter (\<lambda>(m', _). m' \<notin> set ms) (r_zset r k)"
proof (induction ms arbitrary: r)
  case (Cons m ms)
  have "r_zset (snd (zrem k m r)) k = zremList m (r_zset r k)" by (simp add: zrem_def)
  then show ?case by (simp add: Cons.IH zremList_def) (auto intro: filter_cong)
qed (simp add: case_prod_beta)

text \<open>What the script takes from the queue.\<close>

lemma matchPair_cases:
  obtains (few) "length (r_zset r k) < 2" "matchPair k r = ([], r)"
  | (pair) p q s t rest where "r_zset r k = (p, s) # (q, t) # rest"
      "fst (matchPair k r) = [p, q]"
      "r_zset (snd (matchPair k r)) k = filter (\<lambda>(m, _). m \<notin> {p, q}) rest"
proof (cases "length (r_zset r k) < 2")
  case True
  then show ?thesis using few by (simp add: matchPair_def Let_def)
next
  case False
  then obtain a b rest where "r_zset r k = a # b # rest"
    by (cases "r_zset r k" rule: remdups_adj.cases) auto
  then obtain p s q t where z: "r_zset r k = (p, s) # (q, t) # rest" by (cases a; cases b) simp
  show ?thesis
    using pair [OF z] zremList_fold [of k "[p, q]" r] z by (simp add: matchPair_def Let_def)
qed

subsection \<open>Pairing\<close>

lemma createMatch_active:
  assumes "createMatch i seed p q w = (Inr m, w')"
  shows "w_matches w' = w_matches w @ [m]" "mt_id m = i" "mt_player1Id m = p" "mt_player2Id m = q"
    "mt_status m = InProgress" "mt_winnerId m = None" "mt_finishedAt m = None" "w_redis w' = w_redis w"
  using assms by (auto simp: createMatch_def matches_create_def Let_def split: if_splits)

lemma createMatch_error: "createMatch i seed p q w = (Inl e, w') \<Longrightarrow> w' = w"
  by (auto simp: createMatch_def matches_create_def Let_def split: if_splits)

lemma active_append:
  "matches_findActiveByUserId u w \<noteq> None \<longleftrightarrow> (\<exists>m\<in>set (w_matches w). involves u m \<and> mt_status m = InProgress)"
proof -
  have "activeMatchQuery u (w_matches w) \<noteq> [] \<longleftrightarrow> (\<exists>m\<in>set (w_matches w). involves u m \<and> mt_status m = InProgress)"
    by (simp add: activeMatchQuery_def filter_empty_conv)
  moreover have "matches_findActiveByUserId u w \<noteq> None \<longleftrightarrow> activeMatchQuery u (w_matches w) \<noteq> []"
    by (simp add: matches_findActiveByUserId_def split: list.split)
  ultimately show ?thesis by simp
qed

lemma tryPair_cases:
  obtains (none) w1 where "tryPair pt i seed w = (Inr None, w1)" "queue w1 = queue w" "w_matches w1 = w_matches w" "length (queue w) < 2"
  | (stale) p q s t rest w1 where "queue w = (p, s) # (q, t) # rest" "tryPair pt i seed w = (Inr None, w1)"
      "matches_findActiveByUserId p w \<noteq> None \<or> matches_findActiveByUserId q w \<noteq> None"
      "w_matches w1 = w_matches w"
      "waiting w1 = {u\<in>{p, q}. matches_findActiveByUserId u w = None} \<union> fst ` set (filter (\<lambda>(m, _). m \<notin> {p, q}) rest)"
  | (failed) p q s t rest e w1 where "queue w = (p, s) # (q, t) # rest" "tryPair pt i seed w = (Inl e, w1)"
      "w_matches w1 = w_matches w" "waiting w1 = {p, q} \<union> fst ` set (filter (\<lambda>(m, _). m \<notin> {p, q}) rest)"
  | (paired) p q s t rest w1 m where "queue w = (p, s) # (q, t) # rest"
      "tryPair pt i seed w = (Inr (Some \<lparr>mp_matchId = i, mp_player1Id = p, mp_player2Id = q\<rparr>), w1)"
      "matches_findActiveByUserId p w = None" "matches_findActiveByUserId q w = None"
      "w_matches w1 = w_matches w @ [m]" "mt_id m = i" "mt_player1Id m = p" "mt_player2Id m = q" "mt_status m = InProgress"
      "queue w1 = filter (\<lambda>(m, _). m \<notin> {p, q}) rest"
proof (cases rule: matchPair_cases [of "w_redis w" MATCHMAKING_QUEUE_KEY])
  case few
  then show ?thesis using none by (simp add: tryPair_def queue_def)
next
  case (pair p q s t rest)
  obtain r where took: "matchPair MATCHMAKING_QUEUE_KEY (w_redis w) = ([p, q], r)"
    "r_zset r MATCHMAKING_QUEUE_KEY = filter (\<lambda>(m, _). m \<notin> {p, q}) rest"
    using pair(2,3) by (cases "matchPair MATCHMAKING_QUEUE_KEY (w_redis w)") auto
  have q: "queue w = (p, s) # (q, t) # rest" using pair(1) by (simp add: queue_def)
  let ?w1 = "w\<lparr>w_redis := r\<rparr>"
  have [simp]: "matches_findActiveByUserId u ?w1 = matches_findActiveByUserId u w" for u
    by (simp add: matches_findActiveByUserId_def)
  have w1: "waiting ?w1 = fst ` set (filter (\<lambda>(m, _). m \<notin> {p, q}) rest)"
    by (simp add: waiting_def queue_def took(2))
  show ?thesis
  proof (cases "matches_findActiveByUserId p w \<noteq> None \<or> matches_findActiveByUserId q w \<noteq> None")
    case True
    let ?free = "(if matches_findActiveByUserId p w \<noteq> None then [] else [p]) @ (if matches_findActiveByUserId q w \<noteq> None then [] else [q])"
    have run: "tryPair pt i seed w = (Inr None, requeueAfterFailure ?free ?w1)"
      using True took(1) by (simp add: tryPair_def split del: if_split)
    have "waiting (requeueAfterFailure ?free ?w1)
        = {u\<in>{p, q}. matches_findActiveByUserId u w = None} \<union> fst ` set (filter (\<lambda>(m, _). m \<notin> {p, q}) rest)"
      unfolding waiting_requeue w1 by (rule arg_cong [where f = "\<lambda>S. S \<union> _"]) auto
    then show ?thesis using stale [OF q run True] by simp
  next
    case free: False
    show ?thesis
    proof (cases "createMatch i seed p q ?w1")
      case (Pair res w2)
      show ?thesis
      proof (cases res)
        case (Inl e)
        with Pair createMatch_error have "w2 = ?w1" by blast
        with free Pair Inl took(1) w1 show ?thesis
          using failed [OF q] by (simp add: tryPair_def waiting_requeue)
      next
        case (Inr m)
        note m = createMatch_active [OF Pair [unfolded Inr]]
        have "queue w2 = filter (\<lambda>(m, _). m \<notin> {p, q}) rest" by (simp add: queue_def m took(2))
        moreover obtain w3 where init: "initializeMatch pt m w2 = (Inr (), w3)" using initialize_ok by blast
        ultimately have w3: "queue w3 = filter (\<lambda>(m, _). m \<notin> {p, q}) rest" "w_matches w3 = w_matches w @ [m]"
          using queue_initialize [of pt m w2] matches_initialize [of pt m w2] m by simp_all
        have "tryPair pt i seed w = (Inr (Some \<lparr>mp_matchId = i, mp_player1Id = p, mp_player2Id = q\<rparr>), w3)"
          using free Pair Inr took(1) m init by (simp add: tryPair_def)
        from paired [OF q this _ _ w3(2) m(2-5) w3(1)] free show ?thesis by simp
      qed
    qed
  qed
qed


text \<open>At most one live match for every player.\<close>

definition one_active :: "world \<Rightarrow> bool" where
  "one_active w \<longleftrightarrow> (\<forall>u. length (activeMatchQuery u (w_matches w)) \<le> 1)"

text \<open>
  Pairing is first come, first served and creates no second live match. A successful attempt takes the
  two players who have waited longest (ties broken by id), who are different people without a live match, gives them
  one new match in progress and leaves the rest of the queue in its order; everyone still has at
  most one live match.
\<close>

theorem pairing_is_fifo:
  assumes "tryPair pt i seed w = (Inr (Some res), w')" and "zset_ok (queue w)" and "one_active w"
  shows "\<exists>s t. queue w = (mp_player1Id res, s) # (mp_player2Id res, t) # queue w'
     \<and> list_all (\<lambda>(u, joined). s \<le> joined \<and> t \<le> joined) (queue w') \<and> s \<le> t
     \<and> mp_player1Id res \<noteq> mp_player2Id res
     \<and> matches_findActiveByUserId (mp_player1Id res) w = None \<and> matches_findActiveByUserId (mp_player2Id res) w = None
     \<and> (\<exists>m. w_matches w' = w_matches w @ [m] \<and> mt_id m = mp_matchId res \<and> mt_status m = InProgress
          \<and> mt_player1Id m = mp_player1Id res \<and> mt_player2Id m = mp_player2Id res)
     \<and> one_active w'"
proof (cases rule: tryPair_cases [of pt i seed w])
  case (paired p q s t rest w1 m)
  with assms(1) have res: "res = \<lparr>mp_matchId = i, mp_player1Id = p, mp_player2Id = q\<rparr>" and w1: "w1 = w'" by auto
  from assms(2) paired(1) have distinct: "p \<noteq> q" "p \<notin> fst ` set rest" "q \<notin> fst ` set rest"
    and order: "s \<le> t" "\<And>u x. (u, x) \<in> set rest \<Longrightarrow> s \<le> x \<and> t \<le> x"
    by (auto simp: zset_ok_def)
  have rest: "queue w' = rest"
    using paired(10) w1 distinct by (force intro: filter_True)
  have "length (activeMatchQuery u (w_matches w')) \<le> 1" for u
  proof (cases "u \<in> {p, q}")
    case True
    then have "activeMatchQuery u (w_matches w) = []"
      using paired(3,4) by (auto simp: matches_findActiveByUserId_def split: list.splits)
    then show ?thesis using paired(5) w1 by (simp add: activeMatchQuery_def)
  next
    case False
    then have "activeMatchQuery u (w_matches w') = activeMatchQuery u (w_matches w)"
      using paired(5-8) w1 by (auto simp: activeMatchQuery_def involves_def)
    with assms(3) show ?thesis by (simp add: one_active_def)
  qed
  then show ?thesis
    using paired(1,3-9) res w1 rest distinct order
    by (auto simp: one_active_def list_all_iff)
qed (use assms(1) in auto)

subsection \<open>Example\<close>

definition queueWorld :: world where
  "queueWorld = \<lparr>w_redis = zadd MATCHMAKING_QUEUE_KEY 30 ''u3'' (zadd MATCHMAKING_QUEUE_KEY 10 ''u2''
        (zadd MATCHMAKING_QUEUE_KEY 20 ''u1'' emptyRedis)),
      w_matches = [], w_rounds = [], w_users = [], w_jobs = [], w_pub = [],
      w_combatResult = (\<lambda>_. None), w_cacheUp = True, w_now = 40\<rparr>"

lemma andThen_initialize: "andThen (initializeMatch pt m) f w = f () (snd (initializeMatch pt m w))"
  by (simp add: andThen_simps(2) [OF initialize_ok])

lemma queueWorld_queue: "queue queueWorld = [(''u2'', 10), (''u1'', 20), (''u3'', 30)]"
  by code_simp

lemma queueWorld_pair:
  "tryPair demoPorts ''m1'' ''s1'' queueWorld
     = (Inr (Some \<lparr>mp_matchId = ''m1'', mp_player1Id = ''u2'', mp_player2Id = ''u1''\<rparr>),
        snd (tryPair demoPorts ''m1'' ''s1'' queueWorld))"
proof -
  have "fst (matchPair MATCHMAKING_QUEUE_KEY (w_redis queueWorld)) = [''u2'', ''u1'']" by code_simp
  then obtain r where took: "matchPair MATCHMAKING_QUEUE_KEY (w_redis queueWorld) = ([''u2'', ''u1''], r)"
    by (metis prod.collapse)
  have rows: "w_matches queueWorld = []" by (simp add: queueWorld_def)
  show ?thesis
    by (simp add: tryPair_def took rows matches_findActiveByUserId_def activeMatchQuery_def createMatch_def
        matches_create_def andThen_initialize Let_def)
qed

lemma pairing_is_fifo_witness:
  "queue queueWorld = (''u2'', 10) # (''u1'', 20) # queue (snd (tryPair demoPorts ''m1'' ''s1'' queueWorld))
   \<and> one_active (snd (tryPair demoPorts ''m1'' ''s1'' queueWorld))"
proof -
  have "zset_ok (queue queueWorld)" unfolding queueWorld_queue by (simp add: zset_ok_def)
  moreover have "one_active queueWorld" by (simp add: one_active_def activeMatchQuery_def queueWorld_def)
  ultimately show ?thesis
    using pairing_is_fifo [OF queueWorld_pair] by (auto simp: queueWorld_queue)
qed


end
