(* ===== verification/Rooms.thy ===== *)
theory Rooms
  imports Matchmaking
begin

text \<open>
  Private rooms (\<open>room/room.service.ts\<close>, \<open>room.types.ts\<close>): a two-player lobby that lives in Redis only and
  hands over to a match. Random bytes, ids and claim tokens are arguments. Errors carry the \<open>code\<close> of
  the exception.
\<close>

definition ROOM_HANDOFF_TTL_SECONDS :: int where "ROOM_HANDOFF_TTL_SECONDS = 120"

definition ROOM_MATCH_TOMBSTONE_TTL_SECONDS :: int where "ROOM_MATCH_TOMBSTONE_TTL_SECONDS = 300"

definition ROOM_TTL_SECONDS :: int where "ROOM_TTL_SECONDS = 45 * 60"

definition CODE_LENGTH :: nat where "CODE_LENGTH = 6"

definition CODE_ALPHABET :: string where "CODE_ALPHABET = ''ABCDEFGHJKLMNPQRSTUVWXYZ23456789''"

definition MAX_CODE_CLAIM_ATTEMPTS :: nat where "MAX_CODE_CLAIM_ATTEMPTS = 10"

definition roomKey :: "string \<Rightarrow> string" where "roomKey roomId = ''room:'' @ roomId"

definition roomHandoffKey :: "string \<Rightarrow> string" where "roomHandoffKey roomId = ''room:'' @ roomId @ '':handoff''"

text \<open>The code of six random bytes.\<close>

definition randomRoomCode :: "nat list \<Rightarrow> string" where
  "randomRoomCode bytes = map (\<lambda>b. CODE_ALPHABET ! (b mod length CODE_ALPHABET)) (take CODE_LENGTH bytes)"

definition roomHashToView :: "rhash \<Rightarrow> RoomView" where
  "roomHashToView hash =
     \<lparr>rm_roomId = hString (hash ''roomId''), rm_code = hString (hash ''code''), rm_ownerId = hString (hash ''ownerId''),
      rm_guestId = (if hString (hash ''guestId'') = [] then None else Some (hString (hash ''guestId''))),
      rm_status = hString (hash ''status''), rm_expiresAt = hString (hash ''expiresAt''),
      rm_matchId = (if hString (hash ''matchId'') = [] then None else Some (hString (hash ''matchId'')))\<rparr>"

text \<open>\<open>Date.prototype.toISOString\<close> on a time in milliseconds, for the years 0 to 9999.\<close>

definition padded :: "nat \<Rightarrow> int \<Rightarrow> string" where
  "padded k n = (let s = showNat (nat n) in replicate (k - length s) CHR ''0'' @ s)"

definition civilOf :: "int \<Rightarrow> int \<times> int \<times> int" where
  "civilOf days =
     (let z = days + 719468; era = z div 146097; doe = z mod 146097;
          yoe = (doe - doe div 1460 + doe div 36524 - doe div 146096) div 365;
          doy = doe - (365 * yoe + yoe div 4 - yoe div 100);
          mp = (5 * doy + 2) div 153;
          m = (if mp < 10 then mp + 3 else mp - 9)
      in (yoe + era * 400 + (if m \<le> 2 then 1 else 0), m, doy - (153 * mp + 2) div 5 + 1))"

definition toISOString :: "int \<Rightarrow> string" where
  "toISOString ms =
     (let (y, m, d) = civilOf (ms div 86400000); t = ms mod 86400000
      in padded 4 y @ ''-'' @ padded 2 m @ ''-'' @ padded 2 d @ ''T'' @ padded 2 (t div 3600000) @ '':''
         @ padded 2 (t div 60000 mod 60) @ '':'' @ padded 2 (t div 1000 mod 60) @ ''.'' @ padded 3 (t mod 1000) @ ''Z'')"

subsection \<open>Creating\<close>

text \<open>\<open>claimCode\<close>: the attempts draw the codes of the list.\<close>

fun claimCode :: "string list \<Rightarrow> string \<Rightarrow> world \<Rightarrow> string result \<times> world" where
  "claimCode [] roomId w = (Inl ''room.code_unavailable'', w)"
| "claimCode (code # codes) roomId w =
     (let (claimed, r) = setNx (roomCodeKey code) (HStr roomId) ROOM_TTL_SECONDS (w_redis w); w1 = w\<lparr>w_redis := r\<rparr>
      in if claimed then (Inr code, w1) else claimCode codes roomId w1)"

definition createBody :: "string \<Rightarrow> string list \<Rightarrow> string \<Rightarrow> world \<Rightarrow> RoomView result \<times> world" where
  "createBody roomId codes ownerId =
     andThen (\<lambda>w. guard (matches_findActiveByUserId ownerId w = None) ''match.already_active'' w) (\<lambda>_.
     andThen (\<lambda>w. guard (zscore MATCHMAKING_QUEUE_KEY ownerId (w_redis w) = None) ''room.in_matchmaking_queue'' w) (\<lambda>_.
     andThen (claimCode (take MAX_CODE_CLAIM_ATTEMPTS codes) roomId) (\<lambda>code w.
       let expiresAt = toISOString (w_now w + ROOM_TTL_SECONDS * 1000);
           w1 = onRedis (hsets (roomKey roomId)
                  [(''roomId'', HStr roomId), (''code'', HStr code), (''ownerId'', HStr ownerId), (''guestId'', HStr []),
                   (''status'', HStr ''waiting''), (''expiresAt'', HStr expiresAt), (''matchId'', HStr [])]) w;
           w2 = onRedis (expire (roomKey roomId) ROOM_TTL_SECONDS) w1;
           w3 = onRedis (setEx (userRoomKey ownerId) (HStr roomId) ROOM_TTL_SECONDS) w2
       in (Inr \<lparr>rm_roomId = roomId, rm_code = code, rm_ownerId = ownerId, rm_guestId = None, rm_status = ''waiting'',
                rm_expiresAt = expiresAt, rm_matchId = None\<rparr>, w3))))"

definition createRoom :: "string \<Rightarrow> string list \<Rightarrow> string \<Rightarrow> world \<Rightarrow> RoomView result \<times> world" where
  "createRoom roomId codes ownerId w =
     (let (slot, r) = setNx (userRoomKey ownerId) (HStr ''pending'') ROOM_TTL_SECONDS (w_redis w); w1 = w\<lparr>w_redis := r\<rparr>
      in if \<not> slot then (Inl ''room.already_in_room'', w1)
         else case createBody roomId codes ownerId w1 of
                (Inl e, w2) \<Rightarrow> (Inl e, onRedis (del (userRoomKey ownerId)) w2)
              | (Inr view, w2) \<Rightarrow> (Inr view, w2))"

subsection \<open>Reading\<close>

definition loadRoomIfExists :: "string option \<Rightarrow> world \<Rightarrow> RoomView option" where
  "loadRoomIfExists roomId w =
     (case roomId of None \<Rightarrow> None | Some i \<Rightarrow>
        if i = [] \<or> i = ''pending'' then None
        else let hash = hgetall (roomKey i) (w_redis w)
             in if hString (hash ''roomId'') = [] then None else Some (roomHashToView hash))"

definition loadRoom :: "string \<Rightarrow> world \<Rightarrow> RoomView result \<times> world" where
  "loadRoom roomId w =
     (let hash = hgetall (roomKey roomId) (w_redis w)
      in if hString (hash ''roomId'') = [] then (Inl ''room.not_found'', w) else (Inr (roomHashToView hash), w))"

text \<open>A string value of Redis, as \<open>GET\<close> replies it.\<close>

definition getString :: "string \<Rightarrow> redis \<Rightarrow> string option" where
  "getString k r = map_option (\<lambda>v. hString (Some v)) (getStr k r)"

definition getMyRoom :: "string \<Rightarrow> world \<Rightarrow> RoomView result \<times> world" where
  "getMyRoom userId w =
     (case getString (userRoomKey userId) (w_redis w) of
        None \<Rightarrow> (Inl ''room.not_in_room'', w)
      | Some roomId \<Rightarrow>
          if roomId = [] \<or> roomId = ''pending'' then (Inl ''room.not_in_room'', w)
          else let hash = hgetall (roomKey roomId) (w_redis w)
               in if hString (hash ''roomId'') = []
                  then (Inl ''room.not_found'', onRedis (del (userRoomKey userId)) w)
                  else (Inr (roomHashToView hash), w))"

subsection \<open>Joining\<close>

definition isSpace :: "char \<Rightarrow> bool" where
  "isSpace c \<longleftrightarrow> (of_char c :: nat) \<in> {9, 10, 11, 12, 13, 32, 160}"

definition trim :: "string \<Rightarrow> string" where
  "trim s = rev (dropWhile isSpace (rev (dropWhile isSpace s)))"

definition toUpper :: "char \<Rightarrow> char" where
  "toUpper c = (if 97 \<le> (of_char c :: nat) \<and> (of_char c :: nat) \<le> 122 then char_of ((of_char c :: nat) - 32) else c)"

text \<open>\<open>/^[A-Z2-9]{6}$/\<close>\<close>

definition codeShape :: "string \<Rightarrow> bool" where
  "codeShape s \<longleftrightarrow> length s = 6 \<and> list_all (\<lambda>c. c \<in> set ''ABCDEFGHIJKLMNOPQRSTUVWXYZ23456789'') s"

definition joinOutcome :: "int \<Rightarrow> unit result" where
  "joinOutcome result =
     (if result = 0 then Inl ''room.not_found''
      else if result = -1 then Inl ''room.full''
      else if result = -2 then Inl ''room.already_in_room''
      else if result = -3 then Inl ''room.not_waiting''
      else if result = -4 then Inl ''room.owner_cannot_join''
      else if result = 1 then Inr ()
      else Inl ''room.join_failed'')"

definition joinRoom :: "string \<Rightarrow> string \<Rightarrow> world \<Rightarrow> RoomView result \<times> world" where
  "joinRoom userId rawCode w =
     (let code = map toUpper (trim rawCode) in
      if \<not> codeShape code then (Inl ''room.invalid_code'', w)
      else let found = getString (roomCodeKey code) (w_redis w) in
      if \<not> truthy found then (Inl ''room.not_found'', w)
      else let roomId = the found; own = getString (userRoomKey userId) (w_redis w) in
      if truthy own then
        (case loadRoomIfExists own w of
           Some existing \<Rightarrow>
             if rm_guestId existing = Some userId \<and> rm_status existing = ''full'' then (Inr existing, w)
             else (Inl ''room.already_in_room'', w)
         | None \<Rightarrow> (Inl ''room.already_in_room'', w))
      else if matches_findActiveByUserId userId w \<noteq> None then (Inl ''match.already_active'', w)
      else if zscore MATCHMAKING_QUEUE_KEY userId (w_redis w) \<noteq> None then (Inl ''room.in_matchmaking_queue'', w)
      else let (result, r) = roomJoin (roomKey roomId) (userRoomKey userId) userId roomId ROOM_TTL_SECONDS (w_redis w);
               w1 = w\<lparr>w_redis := r\<rparr>
           in case joinOutcome result of
                Inl e \<Rightarrow> (Inl e, w1)
              | Inr _ \<Rightarrow>
                  (case loadRoomIfExists (Some roomId) w1 of
                     None \<Rightarrow> (Inl ''room.not_found'', w1)
                   | Some room \<Rightarrow> (Inr room, publishToRoom roomId (RoomStateEvent room) [rm_ownerId room, userId] w1)))"

subsection \<open>Hand-over to a match\<close>

definition finishRoomMatch :: "RoomView \<Rightarrow> string \<Rightarrow> world \<Rightarrow> RoomView result \<times> world" where
  "finishRoomMatch view matchId w =
     (let ownerId = rm_ownerId view; guestId = (case rm_guestId view of Some g \<Rightarrow> g | None \<Rightarrow> ''null'');
          (recorded, r) = roomMatchDone (roomKey (rm_roomId view)) (roomCodeKey (rm_code view)) (userRoomKey ownerId)
             (userRoomKey guestId) (roomHandoffKey (rm_roomId view)) (rm_roomId view) matchId
             ROOM_MATCH_TOMBSTONE_TTL_SECONDS (w_redis w);
          matched = \<lparr>rm_roomId = rm_roomId view, rm_code = rm_code view, rm_ownerId = ownerId,
             rm_guestId = rm_guestId view, rm_status = ''matched'', rm_expiresAt = rm_expiresAt view,
             rm_matchId = Some recorded\<rparr>
      in (Inr matched, publishToRoom (rm_roomId view) (RoomStateEvent matched) [ownerId, guestId] (w\<lparr>w_redis := r\<rparr>)))"

definition createRoomMatch :: "ports \<Rightarrow> string \<Rightarrow> string \<Rightarrow> string \<Rightarrow> string \<times> string \<Rightarrow> string \<Rightarrow> RoomView option \<Rightarrow>
    world \<Rightarrow> RoomView result \<times> world" where
  "createRoomMatch pt newId seed roomId players token view w =
     (let (ownerId, guestId) = players;
          orphan = (case matches_findActiveByUserId ownerId w of
                      Some m \<Rightarrow> Some m | None \<Rightarrow> matches_findActiveByUserId guestId w);
          (created, w1) = (case orphan of
              Some m \<Rightarrow> (Inr (mt_id m), w)
            | None \<Rightarrow> (case createMatchForPlayers pt newId seed ownerId guestId w of
                         (Inl e, w') \<Rightarrow> (Inl e, onRedis (\<lambda>r. snd (releaseOwned (roomHandoffKey roomId) (HStr token) r)) w')
                       | (Inr res, w') \<Rightarrow> (Inr (mp_matchId res), w')))
      in case created of
           Inl e \<Rightarrow> (Inl e, w1)
         | Inr matchId \<Rightarrow>
             finishRoomMatch \<lparr>rm_roomId = roomId, rm_code = (case view of Some v \<Rightarrow> rm_code v | None \<Rightarrow> []),
                rm_ownerId = ownerId, rm_guestId = Some guestId, rm_status = ''full'',
                rm_expiresAt = (case view of Some v \<Rightarrow> rm_expiresAt v | None \<Rightarrow> toISOString (w_now w1)),
                rm_matchId = None\<rparr> matchId w1)"

definition startRoomMatch :: "ports \<Rightarrow> string \<Rightarrow> string \<Rightarrow> string \<Rightarrow> string \<Rightarrow> world \<Rightarrow> RoomView result \<times> world" where
  "startRoomMatch pt newId seed token roomId w =
     (let view = loadRoomIfExists (Some roomId) w;
          (claim, r) = roomStartMatch (roomKey roomId) (roomHandoffKey roomId) token ROOM_HANDOFF_TTL_SECONDS (w_redis w);
          w1 = w\<lparr>w_redis := r\<rparr>
      in case claim of
           Inr players \<Rightarrow> createRoomMatch pt newId seed roomId players token view w1
         | Inl code \<Rightarrow>
             (case view of
                None \<Rightarrow> (Inl ''room.not_found'', w1)
              | Some v \<Rightarrow>
                  if code = 0 then (Inl ''room.not_found'', w1)
                  else case rm_matchId v of
                         Some m \<Rightarrow> finishRoomMatch v m w1
                       | None \<Rightarrow> if code = -3 then (Inl ''room.match_starting'', w1) else (Inl ''room.not_waiting'', w1)))"

definition startRoomForOwner :: "ports \<Rightarrow> string \<Rightarrow> string \<Rightarrow> string \<Rightarrow> string \<Rightarrow> world \<Rightarrow> RoomView result \<times> world" where
  "startRoomForOwner pt newId seed token ownerId w =
     (case loadRoomIfExists (getString (userRoomKey ownerId) (w_redis w)) w of
        None \<Rightarrow> (Inl ''room.not_found'', w)
      | Some room \<Rightarrow>
          if rm_ownerId room \<noteq> ownerId then (Inl ''room.owner_only'', w)
          else if rm_status room \<noteq> ''full'' \<or> rm_guestId room = None then (Inl ''room.not_full'', w)
          else startRoomMatch pt newId seed token (rm_roomId room) w)"

subsection \<open>Leaving\<close>

text \<open>The result is the room that is left over, or \<open>None\<close> for a closed room.\<close>

definition leaveRoom :: "string \<Rightarrow> world \<Rightarrow> RoomView option result \<times> world" where
  "leaveRoom userId w =
     (case getString (userRoomKey userId) (w_redis w) of
        None \<Rightarrow> (Inl ''room.not_in_room'', w)
      | Some roomId \<Rightarrow>
          if roomId = [] \<or> roomId = ''pending'' then (Inl ''room.not_in_room'', w)
          else let before = hgetall (roomKey roomId) (w_redis w);
                   (result, r) = roomLeave (roomKey roomId) (userRoomKey userId) userId (w_redis w);
                   w1 = w\<lparr>w_redis := r\<rparr>
               in if result = 0 then (Inl ''room.not_in_room'', onRedis (del (userRoomKey userId)) w1)
                  else if result = 2 then
                    let guestId = hString (before ''guestId'') in
                    (Inr None, if guestId = [] then w1
                       else publishToRoom roomId (RoomStateEvent
                              \<lparr>rm_roomId = roomId, rm_code = hString (before ''code''), rm_ownerId = hString (before ''ownerId''),
                               rm_guestId = Some guestId, rm_status = ''closed'', rm_expiresAt = hString (before ''expiresAt''),
                               rm_matchId = None\<rparr>) [guestId] w1)
                  else andThen (loadRoom roomId) (\<lambda>room.
                       andThen (modify (publishToRoom roomId (RoomStateEvent room) [rm_ownerId room])) (\<lambda>_. ret (Some room))) w1)"

text \<open>\<open>room.controller.ts\<close> adds the two names.\<close>

definition withNames :: "RoomView \<Rightarrow> world \<Rightarrow> RoomView \<times> string option \<times> string option" where
  "withNames room w =
     (room, map_option us_username (users_findById (rm_ownerId room) w),
      case rm_guestId room of None \<Rightarrow> None | Some g \<Rightarrow> map_option us_username (users_findById g w))"

end
