(* ===== verification/Room_Props.thy ===== *)
theory Room_Props
  imports Rooms
begin

text \<open>
  What the room service guarantees: a room hands over to at most one match, it admits one guest, a
  failed creation leaves nothing behind, and creating and leaving a room cancel out.
\<close>

subsection \<open>Keys\<close>

lemma room_keys [simp]:
  "roomHandoffKey i \<noteq> roomKey i" "roomKey i \<noteq> roomHandoffKey i" "userRoomKey u \<noteq> roomKey i" "roomKey i \<noteq> userRoomKey u"
  "runtimeKey m \<noteq> roomKey i" "roomKey i \<noteq> runtimeKey m" "userRoomKey u \<noteq> roomCodeKey c" "roomCodeKey c \<noteq> userRoomKey u"
  by (simp_all add: roomHandoffKey_def roomKey_def userRoomKey_def runtimeKey_def roomCodeKey_def)

lemma room_code_key:
  assumes "isUuid i"
  shows "roomCodeKey c \<noteq> roomKey i"
proof
  assume "roomCodeKey c = roomKey i"
  then have "i ! 1 = CHR ''o''" by (auto simp: roomCodeKey_def roomKey_def)
  moreover from assms have "hexDigit (i ! 1)" by (simp add: isUuid_def list_all_iff)
  ultimately show False by (simp add: hexDigit_def)
qed

lemma hget_initialize: "hget (roomKey i) f (w_redis (snd (initializeMatch pt m w))) = hget (roomKey i) f (w_redis w)"
  by (simp add: initializeMatch_def Let_def rollOffersForMatch_def resetShop_def publishOffers_def
      publishState_def schedulePhaseStart_def hget_hsets)

lemma hget_releaseOwned: "k \<noteq> k' \<Longrightarrow> hget k f (snd (releaseOwned k' v r)) = hget k f r"
  by (simp add: releaseOwned_def)

subsection \<open>A room hands over once\<close>

definition field :: "string \<Rightarrow> string \<Rightarrow> world \<Rightarrow> hval option" where
  "field i f w = hget (roomKey i) f (w_redis w)"

text \<open>A start attempt with the ids it would use; it wins if it creates a match.\<close>

definition handover :: "ports \<Rightarrow> string \<Rightarrow> string \<times> string \<times> string \<Rightarrow> world \<Rightarrow> bool \<times> world" where
  "handover pt i a w =
     (let w' = snd (startRoomMatch pt (fst a) (fst (snd a)) (snd (snd a)) i w)
      in (length (w_matches w') > length (w_matches w), w'))"

definition room_ok :: "string \<Rightarrow> world \<Rightarrow> bool" where
  "room_ok i w \<longleftrightarrow> isUuid i \<and> field i ''roomId'' w \<in> {None, Some (HStr i)}
     \<and> (present (field i ''matchId'' w) \<longrightarrow> field i ''status'' w \<noteq> Some (HStr ''full''))"

definition handedOver :: "string \<Rightarrow> world \<Rightarrow> bool" where
  "handedOver i w \<longleftrightarrow> field i ''status'' w \<noteq> Some (HStr ''full'')"

lemma roomMatchDone_fields:
  assumes "isUuid i" and "roomMatchDone (roomKey i) (roomCodeKey c) (userRoomKey o') (userRoomKey g) (roomHandoffKey i) i m t r = (x, r')"
  shows "hget (roomKey i) f r' =
    (if present (hget (roomKey i) ''matchId'' r) then hget (roomKey i) f r
     else if f = ''status'' then Some (HStr ''matched'') else if f = ''matchId'' then Some (HStr m) else hget (roomKey i) f r)"
  using assms(2) room_code_key [OF assms(1), of c]
  by (auto simp: roomMatchDone_def Let_def split: if_splits)

lemma finish_fields:
  assumes "isUuid i" and "rm_roomId v = i" and "finishRoomMatch v m w = (res, w')"
  shows "field i f w' =
      (if present (field i ''matchId'' w) then field i f w
       else if f = ''status'' then Some (HStr ''matched'') else if f = ''matchId'' then Some (HStr m) else field i f w)"
    and "w_matches w' = w_matches w" and "\<exists>v'. res = Inr v' \<and> rm_status v' = ''matched''"
proof -
  obtain x r where run: "roomMatchDone (roomKey i) (roomCodeKey (rm_code v)) (userRoomKey (rm_ownerId v))
      (userRoomKey (case rm_guestId v of Some g \<Rightarrow> g | None \<Rightarrow> ''null'')) (roomHandoffKey i) i m ROOM_MATCH_TOMBSTONE_TTL_SECONDS (w_redis w) = (x, r)"
    by fastforce
  show "field i f w' =
      (if present (field i ''matchId'' w) then field i f w
       else if f = ''status'' then Some (HStr ''matched'') else if f = ''matchId'' then Some (HStr m) else field i f w)"
    using assms(3) run roomMatchDone_fields [OF assms(1) run, of f]
    by (auto simp: finishRoomMatch_def Let_def assms(2) field_def)
  show "w_matches w' = w_matches w" "\<exists>v'. res = Inr v' \<and> rm_status v' = ''matched''"
    using assms(3) run by (auto simp: finishRoomMatch_def Let_def assms(2) publishToRoom_def)
qed

lemma createPlayers_cases:
  obtains (failed) e where "createMatchForPlayers pt n seed p q w = (Inl e, w)"
  | (made) m w' where "createMatchForPlayers pt n seed p q w = (Inr \<lparr>mp_matchId = n, mp_player1Id = p, mp_player2Id = q\<rparr>, w')"
      "w_matches w' = w_matches w @ [m]" "mt_id m = n" "\<And>i f. field i f w' = field i f w"
proof (cases "createMatch n seed p q w")
  case (Pair res w1)
  show ?thesis
  proof (cases res)
    case (Inl e)
    with Pair createMatch_error failed show ?thesis by (simp add: createMatchForPlayers_def)
  next
    case (Inr m)
    note m = createMatch_active [OF Pair [unfolded Inr]]
    let ?w = "snd (initializeMatch pt m w1)"
    have "createMatchForPlayers pt n seed p q w = (Inr \<lparr>mp_matchId = n, mp_player1Id = p, mp_player2Id = q\<rparr>, ?w)"
      using Pair Inr m by (simp add: createMatchForPlayers_def andThen_initialize)
    from made [OF this, of m] show ?thesis using m by (simp add: field_def hget_initialize)
  qed
qed

lemma loadRoom_id: "loadRoomIfExists (Some i) w = Some v \<Longrightarrow> field i ''roomId'' w = Some (HStr (rm_roomId v))"
  by (cases "hget (roomKey i) ''roomId'' (w_redis w)" rule: hString.cases)
    (auto simp: loadRoomIfExists_def Let_def roomHashToView_def field_def hgetall_hget split: if_splits)

lemma roomStartMatch_cases:
  obtains (refused) code where "roomStartMatch rk ck token ttl r = (Inl code, r)"
  | (claimed) own g r' where "roomStartMatch rk ck token ttl r = (Inr (own, g), r')"
      "hget rk ''status'' r = Some (HStr ''full'')" "\<And>k f. hget k f r' = hget k f r"
proof (cases "setNx ck (HStr token) ttl r")
  case (Pair ok r')
  then have "hget k f r' = hget k f r" for k f by (metis hget_setNx snd_conv)
  note frame = this
  show ?thesis
  proof (cases "hexists rk ''roomId'' r \<and> hget rk ''status'' r = Some (HStr ''full'')
      \<and> present (hget rk ''ownerId'' r) \<and> present (hget rk ''guestId'' r) \<and> ok")
    case True
    with Pair have "roomStartMatch rk ck token ttl r = (Inr (hvalStr (hget rk ''ownerId'' r), hvalStr (hget rk ''guestId'' r)), r')"
      by (simp add: roomStartMatch_def Let_def)
    from claimed [OF this] True frame show ?thesis by blast
  next
    case False
    with Pair have "\<exists>code. roomStartMatch rk ck token ttl r = (Inl code, r)"
      by (auto simp: roomStartMatch_def Let_def)
    with refused show ?thesis by blast
  qed
qed

lemma startRoom_cases:
  assumes ok: "room_ok i w"
  obtains (unchanged) res w' where "startRoomMatch pt n seed token i w = (res, w')" "w_matches w' = w_matches w" "\<And>f. field i f w' = field i f w"
  | (over) res w' where "startRoomMatch pt n seed token i w = (res, w')" "field i ''status'' w = Some (HStr ''full'')"
      "\<And>f. field i f w' = (if f = ''status'' then Some (HStr ''matched'') else if f = ''matchId'' then field i f w' else field i f w)"
      "length (w_matches w') \<le> Suc (length (w_matches w))"
proof (cases rule: roomStartMatch_cases [of "roomKey i" "roomHandoffKey i" token ROOM_HANDOFF_TTL_SECONDS "w_redis w"])
  case (refused code)
  from ok have uuid: "isUuid i" by (simp add: room_ok_def)
  show ?thesis
  proof (cases "loadRoomIfExists (Some i) w")
    case None
    with refused have "startRoomMatch pt n seed token i w = (Inl ''room.not_found'', w)"
      by (simp add: startRoomMatch_def Let_def)
    with unchanged show ?thesis by blast
  next
    case (Some v)
    from loadRoom_id [OF Some] ok have "rm_roomId v = i" by (auto simp: room_ok_def)
    show ?thesis
    proof (cases "code \<noteq> 0 \<and> rm_matchId v \<noteq> None")
      case True
      then obtain m where m: "rm_matchId v = Some m" by blast
      then have present: "present (field i ''matchId'' w)"
        using Some by (cases "hget (roomKey i) ''matchId'' (w_redis w)" rule: hString.cases)
          (auto simp: loadRoomIfExists_def Let_def roomHashToView_def field_def hgetall_hget present_def split: if_splits)
      obtain res w' where fin: "finishRoomMatch v m w = (res, w')" by fastforce
      note effect = finish_fields [OF uuid \<open>rm_roomId v = i\<close> fin]
      have "startRoomMatch pt n seed token i w = (res, w')"
        using True refused Some m fin by (simp add: startRoomMatch_def Let_def)
      then show ?thesis using unchanged effect present by simp
    next
      case False
      with refused Some have "\<exists>e. startRoomMatch pt n seed token i w = (Inl e, w)"
        by (auto simp: startRoomMatch_def Let_def)
      with unchanged show ?thesis by blast
    qed
  qed
next
  case (claimed own g r)
  from ok have uuid: "isUuid i" by (simp add: room_ok_def)
  let ?w1 = "w\<lparr>w_redis := r\<rparr>"
  let ?view = "loadRoomIfExists (Some i) w"
  have same: "field i f ?w1 = field i f w" for f using claimed(3) by (simp add: field_def)
  have full: "field i ''status'' w = Some (HStr ''full'')" using claimed(2) by (simp add: field_def)
  with ok have fresh: "\<not> present (field i ''matchId'' w)" by (auto simp: room_ok_def)
  have run: "startRoomMatch pt n seed token i w = createRoomMatch pt n seed i (own, g) token ?view ?w1"
    using claimed(1) by (simp add: startRoomMatch_def)
  let ?v = "\<lambda>w1. \<lparr>rm_roomId = i, rm_code = (case ?view of Some v \<Rightarrow> rm_code v | None \<Rightarrow> []),
                rm_ownerId = own, rm_guestId = Some g, rm_status = ''full'',
                rm_expiresAt = (case ?view of Some v \<Rightarrow> rm_expiresAt v | None \<Rightarrow> toISOString (w_now w1)), rm_matchId = None\<rparr>"
  have finish: thesis if "createRoomMatch pt n seed i (own, g) token ?view ?w1 = finishRoomMatch (?v w2) m w2"
      "\<And>f. field i f w2 = field i f w" "length (w_matches w2) \<le> Suc (length (w_matches w))" for m w2
  proof -
    obtain res w' where fin: "finishRoomMatch (?v w2) m w2 = (res, w')" by fastforce
    note effect = finish_fields [OF uuid _ fin]
    have "field i f w' = (if f = ''status'' then Some (HStr ''matched'') else if f = ''matchId'' then field i f w' else field i f w)" for f
      using effect(1) [of f] that(2) fresh by (cases "f = ''matchId''") simp_all
    with run that fin full effect(2) show thesis by (intro over [of res w']) simp_all
  qed
  show ?thesis
  proof (cases "case matches_findActiveByUserId own ?w1 of Some m \<Rightarrow> Some m | None \<Rightarrow> matches_findActiveByUserId g ?w1")
    case (Some m)
    then show ?thesis using same by (intro finish [of ?w1 "mt_id m"]) (simp_all add: createRoomMatch_def)
  next
    case None
    show ?thesis
    proof (cases rule: createPlayers_cases [of pt n seed own g ?w1])
      case (failed e)
      let ?w2 = "onRedis (\<lambda>r. snd (releaseOwned (roomHandoffKey i) (HStr token) r)) ?w1"
      have "field i f ?w2 = field i f w" for f
        using same [of f] by (simp add: field_def hget_releaseOwned)
      with None failed run show ?thesis by (intro unchanged [of "Inl e" ?w2]) (simp_all add: createRoomMatch_def)
    next
      case (made m w2)
      with None show ?thesis using same by (intro finish [of w2 n]) (simp_all add: createRoomMatch_def)
    qed
  qed
qed

interpretation room: once_action "room_ok i" "handedOver i" "handover pt i"
proof
  fix w a
  assume ok: "room_ok i w"
  have "room_ok i (snd (handover pt i a w)) \<and>
    (fst (handover pt i a w) \<longrightarrow> handedOver i (snd (handover pt i a w))) \<and>
    (handedOver i w \<longrightarrow> \<not> fst (handover pt i a w) \<and> handedOver i (snd (handover pt i a w)))"
    using ok
  proof (cases rule: startRoom_cases [where pt = pt and n = "fst a" and seed = "fst (snd a)" and token = "snd (snd a)"])
    case (unchanged res w')
    with ok show ?thesis by (simp add: handover_def room_ok_def handedOver_def Let_def)
  next
    case (over res w')
    from over(3) [of "''status''"] over(3) [of "''roomId''"] over(1,2) ok show ?thesis
      by (simp add: handover_def room_ok_def handedOver_def)
  qed
  then show "room_ok i (snd (handover pt i a w))"
    and "fst (handover pt i a w) \<Longrightarrow> handedOver i (snd (handover pt i a w))"
    and "handedOver i w \<Longrightarrow> \<not> fst (handover pt i a w) \<and> handedOver i (snd (handover pt i a w))"
    by blast+
qed

text \<open>Any sequence of start requests for one room.\<close>

fun startAll :: "ports \<Rightarrow> string \<Rightarrow> (string \<times> string \<times> string) list \<Rightarrow> world \<Rightarrow> world" where
  "startAll pt i [] w = w"
| "startAll pt i (a # as) w = startAll pt i as (snd (startRoomMatch pt (fst a) (fst (snd a)) (snd (snd a)) i w))"

lemma startAll_grows:
  assumes "room_ok i w"
  shows "length (w_matches (startAll pt i as w)) \<le> length (w_matches w) + count_list (fst (room.attempts pt i as w)) True"
  using assms
proof (induction as arbitrary: w)
  case (Cons a as)
  obtain b w' where at: "handover pt i a w = (b, w')" by fastforce
  have "length (w_matches w') \<le> length (w_matches w) + of_bool b"
    using Cons.prems
    by (cases rule: startRoom_cases [where pt = pt and n = "fst a" and seed = "fst (snd a)" and token = "snd (snd a)"])
      (use at in \<open>auto simp: handover_def Let_def\<close>)
  moreover from room.keeps [OF Cons.prems, of pt a] at have "room_ok i w'" by simp
  note Cons.IH [OF this]
  moreover from at have "startAll pt i (a # as) w = startAll pt i as w'" by (simp add: handover_def Let_def)
  moreover from at have "fst (room.attempts pt i (a # as) w) = b # fst (room.attempts pt i as w')"
    by (simp add: case_prod_unfold Let_def)
  ultimately show ?case by (cases b) simp_all
qed simp


subsection \<open>A room admits one guest\<close>

lemma roomJoin_1:
  assumes "roomJoin rk uk g i t r = (1, r')" and "uk \<noteq> rk"
  shows "hexists rk ''roomId'' r" "hget rk ''ownerId'' r \<noteq> Some (HStr g)" "\<not> present (hget rk ''guestId'' r)"
    "hget rk ''status'' r = Some (HStr ''waiting'')"
    "hget rk f r' = (if f = ''status'' then Some (HStr ''full'') else if f = ''guestId'' then Some (HStr g) else hget rk f r)"
    "r_str r' = (r_str r)(uk := Some (HStr i))"
  using assms by (auto simp: roomJoin_def split: if_splits)

lemma joinOutcome_negative: "x < 0 \<Longrightarrow> \<exists>e. joinOutcome x = Inl e"
  by (simp add: joinOutcome_def)

text \<open>What a join without an earlier room comes down to.\<close>

lemma joinRoom_fresh:
  assumes "joinRoom u c w = (Inr room, w')" and "\<not> truthy (getString (userRoomKey u) (w_redis w))"
  obtains i where "getString (roomCodeKey (map toUpper (trim c))) (w_redis w) = Some i" "codeShape (map toUpper (trim c))"
    "truthy (Some i)" "roomJoin (roomKey i) (userRoomKey u) u i ROOM_TTL_SECONDS (w_redis w) = (1, w_redis w')"
    "w_matches w' = w_matches w" "loadRoomIfExists (Some i) w' = Some room"
proof -
  let ?code = "map toUpper (trim c)"
  let ?found = "getString (roomCodeKey ?code) (w_redis w)"
  have shape: "codeShape ?code" "truthy ?found"
    using assms(1) by (auto simp: joinRoom_def Let_def split: if_splits)
  then obtain i where i: "?found = Some i" by (auto simp: truthy_def split: option.splits)
  obtain x r where run: "roomJoin (roomKey i) (userRoomKey u) u i ROOM_TTL_SECONDS (w_redis w) = (x, r)" by fastforce
  let ?w1 = "w\<lparr>w_redis := r\<rparr>"
  have outcome: "(case joinOutcome x of Inl e \<Rightarrow> (Inl e, ?w1)
      | Inr _ \<Rightarrow> (case loadRoomIfExists (Some i) ?w1 of None \<Rightarrow> (Inl ''room.not_found'', ?w1)
          | Some room \<Rightarrow> (Inr room, publishToRoom i (RoomStateEvent room) [rm_ownerId room, u] ?w1))) = (Inr room, w')"
    using assms shape i run by (simp add: joinRoom_def Let_def split: if_splits)
  then have "x = 1" by (auto simp: joinOutcome_def split: if_splits)
  with outcome have "loadRoomIfExists (Some i) ?w1 = Some room"
    "w' = publishToRoom i (RoomStateEvent room) [rm_ownerId room, u] ?w1"
    by (auto simp: joinOutcome_def split: option.splits)
  moreover from this(2) have "w_redis w' = r" "w_matches w' = w_matches w" by (simp_all add: publishToRoom_def)
  moreover have "loadRoomIfExists (Some i) w' = loadRoomIfExists (Some i) ?w1"
    using \<open>w_redis w' = r\<close> by (simp add: loadRoomIfExists_def)
  ultimately show ?thesis using that [OF i shape(1)] shape(2) i run \<open>x = 1\<close> by simp
qed


subsection \<open>Creating and leaving\<close>

text \<open>Room keys hold what the service stores under them, and a fresh room id has no keys.\<close>

definition rooms_typed :: "redis \<Rightarrow> bool" where
  "rooms_typed r \<longleftrightarrow> (\<forall>x. r_hash r (roomCodeKey x) = [] \<and> r_zset r (roomCodeKey x) = []
     \<and> r_hash r (userRoomKey x) = [] \<and> r_zset r (userRoomKey x) = [])"

text \<open>The stored values, expiry times apart.\<close>

definition contents :: "redis \<Rightarrow> (string \<Rightarrow> (string \<times> hval) list) \<times> (string \<Rightarrow> hval option) \<times> (string \<Rightarrow> (string \<times> int) list)" where
  "contents r = (r_hash r, r_str r, r_zset r)"

lemma claimCode_Cons:
  "claimCode (code # codes) i w =
     (if r_str (w_redis w) (roomCodeKey code) = None
      then (Inr code, onRedis (setEx (roomCodeKey code) (HStr i) ROOM_TTL_SECONDS) w) else claimCode codes i w)"
  by (simp add: setNx_def onRedis_def Let_def)

lemma claimCode_Inl: "claimCode cs i w = (Inl e, w') \<Longrightarrow> w' = w"
  by (induction cs) (auto simp: claimCode_Cons simp del: claimCode.simps(2) split: if_splits)

lemma claimCode_Inr:
  "claimCode cs i w = (Inr c, w') \<Longrightarrow> c \<in> set cs \<and> r_str (w_redis w) (roomCodeKey c) = None
     \<and> w' = onRedis (setEx (roomCodeKey c) (HStr i) ROOM_TTL_SECONDS) w"
  by (induction cs) (auto simp: claimCode_Cons simp del: claimCode.simps(2) split: if_splits)

lemma hash_hsets_other: "k' \<noteq> k \<Longrightarrow> r_hash (hsets k fvs r) k' = r_hash r k'"
  by (induction fvs arbitrary: r) (auto simp: hset_def)

text \<open>The keyspace a created room leaves, and what leaving takes away again.\<close>

definition roomFields :: "string \<Rightarrow> string \<Rightarrow> string \<Rightarrow> string \<Rightarrow> (string \<times> hval) list" where
  "roomFields i c u e = [(''roomId'', HStr i), (''code'', HStr c), (''ownerId'', HStr u), (''guestId'', HStr []),
     (''status'', HStr ''waiting''), (''expiresAt'', HStr e), (''matchId'', HStr [])]"

definition createdRedis :: "string \<Rightarrow> string \<Rightarrow> string \<Rightarrow> string \<Rightarrow> redis \<Rightarrow> redis" where
  "createdRedis i c u e r = setEx (userRoomKey u) (HStr i) ROOM_TTL_SECONDS (expire (roomKey i) ROOM_TTL_SECONDS
     (hsets (roomKey i) (roomFields i c u e) (setEx (roomCodeKey c) (HStr i) ROOM_TTL_SECONDS
       (setEx (userRoomKey u) (HStr ''pending'') ROOM_TTL_SECONDS r))))"

lemma createRoom_cases:
  assumes "createRoom i codes u w = (res, w')" and "rooms_typed (w_redis w)"
  obtains (failed) e where "res = Inl e" "contents (w_redis w') = contents (w_redis w)"
  | (made) c e where "res = Inr \<lparr>rm_roomId = i, rm_code = c, rm_ownerId = u, rm_guestId = None, rm_status = ''waiting'',
        rm_expiresAt = e, rm_matchId = None\<rparr>" "c \<in> set codes"
      "w_redis w' = createdRedis i c u e (w_redis w)" "r_str (w_redis w) (userRoomKey u) = None" "r_str (w_redis w) (roomCodeKey c) = None"
proof (cases "r_str (w_redis w) (userRoomKey u)")
  case (Some v)
  with assms(1) have "res = Inl ''room.already_in_room''" "w' = w" by (auto simp: createRoom_def setNx_def)
  then show ?thesis using failed by simp
next
  case None
  let ?r1 = "setEx (userRoomKey u) (HStr ''pending'') ROOM_TTL_SECONDS (w_redis w)"
  let ?w1 = "w\<lparr>w_redis := ?r1\<rparr>"
  have undo: "contents (del (userRoomKey u) ?r1) = contents (w_redis w)"
    using assms(2) None by (auto simp: contents_def del_def setEx_def rooms_typed_def fun_eq_iff)
  have body: "createRoom i codes u w = (case createBody i codes u ?w1 of
      (Inl e, w2) \<Rightarrow> (Inl e, onRedis (del (userRoomKey u)) w2) | (Inr view, w2) \<Rightarrow> (Inr view, w2))"
    using None by (simp add: createRoom_def setNx_def)
  obtain x w2 where run: "createBody i codes u ?w1 = (x, w2)" by fastforce
  show ?thesis
  proof (cases x)
    case (Inl e)
    with run have "w2 = ?w1"
      by (auto simp: createBody_def andThen_def Let_def split: if_splits prod.splits sum.splits dest: claimCode_Inl)
    with Inl run body assms(1) undo show ?thesis using failed by auto
  next
    case (Inr view)
    with run obtain c w3 where claim: "claimCode (take MAX_CODE_CLAIM_ATTEMPTS codes) i ?w1 = (Inr c, w3)"
      and rest: "view = \<lparr>rm_roomId = i, rm_code = c, rm_ownerId = u, rm_guestId = None, rm_status = ''waiting'',
          rm_expiresAt = toISOString (w_now w3 + ROOM_TTL_SECONDS * 1000), rm_matchId = None\<rparr>"
        "w_redis w2 = setEx (userRoomKey u) (HStr i) ROOM_TTL_SECONDS (expire (roomKey i) ROOM_TTL_SECONDS
           (hsets (roomKey i) (roomFields i c u (toISOString (w_now w3 + ROOM_TTL_SECONDS * 1000))) (w_redis w3)))"
      unfolding createBody_def roomFields_def
      by (auto simp: andThen_def Let_def split: if_splits prod.splits sum.splits)
    from claimCode_Inr [OF claim] have "c \<in> set codes" "r_str (w_redis w) (roomCodeKey c) = None"
      "w_redis w3 = setEx (roomCodeKey c) (HStr i) ROOM_TTL_SECONDS ?r1"
      by (auto dest: in_set_takeD)
    with Inr run body assms(1) rest None show ?thesis
      by (intro made) (auto simp: createdRedis_def)
  qed
qed

lemma created_fields:
  assumes "\<not> existsKey (roomKey i) r"
  shows "hget (roomKey i) f (createdRedis i c u e r) = map_of (rev (roomFields i c u e)) f"
proof -
  have "hget (roomKey i) f r = None" using assms by (simp add: hget_def existsKey_def)
  then show ?thesis by (simp add: createdRedis_def hget_hsets split: option.split)
qed

lemma leave_created:
  assumes "rooms_typed r" and "\<not> existsKey (roomKey i) r" and "c \<noteq> []" and "isUuid i"
    and "r_str r (userRoomKey u) = None" and "r_str r (roomCodeKey c) = None"
  shows "\<exists>r'. roomLeave (roomKey i) (userRoomKey u) u (createdRedis i c u e r) = (2, r') \<and> contents r' = contents r"
proof -
  let ?r = "createdRedis i c u e r"
  note hash = created_fields [OF assms(2)]
  have fields: "hexists (roomKey i) ''roomId'' ?r" "hget (roomKey i) ''ownerId'' ?r = Some (HStr u)"
    "hget (roomKey i) ''guestId'' ?r = Some (HStr [])" "hget (roomKey i) ''code'' ?r = Some (HStr c)"
    by (simp_all add: hexists_def hash roomFields_def)
  let ?r' = "del (userRoomKey u) (del (roomCodeKey c) (del (roomKey i) ?r))"
  have "roomLeave (roomKey i) (userRoomKey u) u ?r = (2, ?r')"
    using assms(3) by (simp add: roomLeave_def fields present_def)
  moreover have "contents ?r' = contents r"
    using assms by (auto simp: contents_def createdRedis_def del_def setEx_def expire_def fun_eq_iff hash_hsets_other
        rooms_typed_def existsKey_def)
  ultimately show ?thesis by blast
qed

text \<open>
  Creating a room either fails without a trace or gives a waiting room that its owner can leave
  without a trace. After an error (the player is in a room, in a match or in the queue, or no code was
  free) the stored values are the ones before; after a success the room is open under its code, and when
  the owner leaves it at once all of its keys are gone again.
\<close>

theorem create_room_atomic:
  assumes "rooms_typed (w_redis w)" and "isUuid i" and "\<not> existsKey (roomKey i) (w_redis w)" and "[] \<notin> set codes"
    and "createRoom i codes u w = (res, w')"
  shows "case res of
      Inl e \<Rightarrow> contents (w_redis w') = contents (w_redis w)
    | Inr view \<Rightarrow> getMyRoom u w' = (Inr view, w') \<and> rm_status view = ''waiting'' \<and> rm_ownerId view = u
        \<and> getString (roomCodeKey (rm_code view)) (w_redis w') = Some i
        \<and> fst (leaveRoom u w') = Inr None
        \<and> contents (w_redis (snd (leaveRoom u w'))) = contents (w_redis w)"
  using assms(5,1)
proof (cases rule: createRoom_cases)
  case (failed e)
  then show ?thesis by simp
next
  case (made c e)
  have c: "c \<noteq> []" using made(2) assms(4) by auto
  obtain r' where leave: "roomLeave (roomKey i) (userRoomKey u) u (w_redis w') = (2, r')" "contents r' = contents (w_redis w)"
    using leave_created [OF assms(1,3) c assms(2) made(4,5)] made(3) by auto
  have own: "getString (userRoomKey u) (w_redis w') = Some i" "i \<noteq> []" "i \<noteq> ''pending''"
    using assms(2) by (auto simp: made(3) createdRedis_def getString_def getStr_def isUuid_def)
  have hash: "hgetall (roomKey i) (w_redis w') f = map_of (rev (roomFields i c u e)) f" for f
    by (simp add: made(3) hgetall_hget created_fields [OF assms(3)])
  have "getMyRoom u w' = (res, w')"
    using own made(1) by (simp add: getMyRoom_def hash roomFields_def roomHashToView_def)
  moreover have "getString (roomCodeKey c) (w_redis w') = Some i"
    by (simp add: made(3) createdRedis_def getString_def getStr_def)
  moreover have "fst (leaveRoom u w') = Inr None \<and> contents (w_redis (snd (leaveRoom u w'))) = contents (w_redis w)"
    using own leave by (simp add: leaveRoom_def Let_def hash roomFields_def)
  ultimately show ?thesis using made(1) by simp
qed

subsection \<open>Example\<close>

definition roomWorld :: world where
  "roomWorld = \<lparr>w_redis = emptyRedis, w_matches = [], w_rounds = [], w_users = [], w_jobs = [], w_pub = [],
      w_combatResult = (\<lambda>_. None), w_cacheUp = True, w_now = 0\<rparr>"

definition openRoom :: world where
  "openRoom = roomWorld\<lparr>w_redis := createdRedis demoId ''ABC234'' ''u1'' ''t'' emptyRedis\<rparr>"

lemma demoId_uuid: "isUuid demoId"
  by code_simp

lemma create_room_atomic_witness:
  "\<exists>w'. createRoom demoId [''ABC234''] ''u1'' roomWorld = (fst (createRoom demoId [''ABC234''] ''u1'' roomWorld), w') \<and>
   (case fst (createRoom demoId [''ABC234''] ''u1'' roomWorld) of
      Inl e \<Rightarrow> contents (w_redis w') = contents (w_redis roomWorld)
    | Inr view \<Rightarrow> getString (roomCodeKey (rm_code view)) (w_redis w') = Some demoId
        \<and> contents (w_redis (snd (leaveRoom ''u1'' w'))) = contents (w_redis roomWorld))"
proof -
  have "rooms_typed (w_redis roomWorld)" "\<not> existsKey (roomKey demoId) (w_redis roomWorld)"
    by (simp_all add: rooms_typed_def roomWorld_def emptyRedis_def existsKey_def)
  moreover obtain w' where "createRoom demoId [''ABC234''] ''u1'' roomWorld = (fst (createRoom demoId [''ABC234''] ''u1'' roomWorld), w')"
    by (metis prod.collapse)
  ultimately show ?thesis
    using create_room_atomic [of roomWorld demoId "[''ABC234'']" "''u1''"] demoId_uuid by (auto split: sum.splits)
qed

lemma openRoom_keys:
  "getString (roomCodeKey ''ABC234'') (w_redis openRoom) = Some demoId" "getString (userRoomKey ''u1'') (w_redis openRoom) = Some demoId"
  "getString (userRoomKey ''u2'') (w_redis openRoom) = None" "getString (userRoomKey ''u3'') (w_redis openRoom) = None"
  "hget (roomKey demoId) f (w_redis openRoom) = map_of (rev (roomFields demoId ''ABC234'' ''u1'' ''t'')) f"
  by (simp_all add: openRoom_def created_fields existsKey_def emptyRedis_def)
    (simp_all add: getString_def getStr_def createdRedis_def userRoomKey_def roomCodeKey_def)

lemma demo_code: "map toUpper (trim '' abc234 '') = ''ABC234''" "codeShape ''ABC234''" "truthy (Some demoId)"
  by code_simp+

lemma openRoom_join:
  "\<exists>room. joinRoom ''u2'' '' abc234 '' openRoom = (Inr room, snd (joinRoom ''u2'' '' abc234 '' openRoom))
     \<and> field demoId ''matchId'' (snd (joinRoom ''u2'' '' abc234 '' openRoom)) = Some (HStr [])
     \<and> field demoId ''roomId'' (snd (joinRoom ''u2'' '' abc234 '' openRoom)) = Some (HStr demoId)
     \<and> w_matches (snd (joinRoom ''u2'' '' abc234 '' openRoom)) = []
     \<and> getString (userRoomKey ''u3'') (w_redis (snd (joinRoom ''u2'' '' abc234 '' openRoom))) = None"
proof -
  obtain x r where join: "roomJoin (roomKey demoId) (userRoomKey ''u2'') ''u2'' demoId ROOM_TTL_SECONDS (w_redis openRoom) = (x, r)"
    by fastforce
  have "existsKey (userRoomKey ''u2'') (w_redis openRoom) = False"
    using openRoom_keys(3)
    by (simp add: existsKey_def getString_def getStr_def openRoom_def createdRedis_def hash_hsets_other setEx_def expire_def emptyRedis_def)
  with join have x: "x = 1"
    by (simp add: roomJoin_def hexists_def openRoom_keys(5) roomFields_def present_def split: if_splits)
  note after = roomJoin_1 [OF join [unfolded x] room_keys(3)]
  have load: "hget (roomKey demoId) ''roomId'' r = Some (HStr demoId)" "hget (roomKey demoId) ''matchId'' r = Some (HStr [])"
    by (simp_all add: after(5) openRoom_keys(5) roomFields_def)
  have demo: "demoId \<noteq> []" "demoId \<noteq> ''pending''" by code_simp+
  have "w_matches openRoom = []" "zscore MATCHMAKING_QUEUE_KEY ''u2'' (w_redis openRoom) = None"
    by (simp_all add: openRoom_def roomWorld_def zscore_def createdRedis_def emptyRedis_def)
  moreover let ?w1 = "openRoom\<lparr>w_redis := r\<rparr>" and ?room = "roomHashToView (hgetall (roomKey demoId) r)"
  have "loadRoomIfExists (Some demoId) ?w1 = Some ?room"
    using demo load by (simp add: loadRoomIfExists_def Let_def hgetall_hget)
  ultimately have run: "joinRoom ''u2'' '' abc234 '' openRoom
      = (Inr ?room, publishToRoom demoId (RoomStateEvent ?room) [rm_ownerId ?room, ''u2''] ?w1)"
    using demo(1) join x
    by (simp add: joinRoom_def Let_def demo_code(1,2) openRoom_keys(1,3) truthy_def joinOutcome_def
        matches_findActiveByUserId_def activeMatchQuery_def)
  have "getString (userRoomKey ''u3'') r = None"
    using openRoom_keys(4) by (simp add: getString_def getStr_def after(6) userRoomKey_def)
  with \<open>w_matches openRoom = []\<close> load show ?thesis
    by (simp add: run publishToRoom_def field_def)
qed



end
