(* ===== verification/Room_Matches.thy ===== *)
theory Room_Matches
  imports Room_Props
begin

text \<open>
  What the players of a full room get when one of them starts it (\<open>startRoomMatch\<close>, \<open>createRoomMatch\<close> and
  \<open>finishRoomMatch\<close> of \<open>room/room.service.ts\<close>): which match is handed over, what is written for it, and who hears of it.
\<close>

text \<open>A room with its two players, and nobody at work on it.\<close>

definition ready_room :: "string \<Rightarrow> string \<Rightarrow> string \<Rightarrow> world \<Rightarrow> bool" where
  "ready_room i own g w \<longleftrightarrow> room_ok i w \<and> field i ''roomId'' w = Some (HStr i) \<and> field i ''status'' w = Some (HStr ''full'')
     \<and> field i ''ownerId'' w = Some (HStr own) \<and> own \<noteq> [] \<and> field i ''guestId'' w = Some (HStr g) \<and> g \<noteq> []
     \<and> getStr (roomHandoffKey i) (w_redis w) = None"

text \<open>The match the code takes for a leftover of an earlier attempt.\<close>

definition adopted :: "string \<Rightarrow> string \<Rightarrow> world \<Rightarrow> Match option" where
  "adopted own g w = (case matches_findActiveByUserId own w of Some m \<Rightarrow> Some m | None \<Rightarrow> matches_findActiveByUserId g w)"

text \<open>A room is done with a match: recorded in the room, the players free for other rooms, and both told.\<close>

definition handed :: "string \<Rightarrow> string \<Rightarrow> string \<Rightarrow> string \<Rightarrow> RoomView \<Rightarrow> world \<Rightarrow> bool" where
  "handed i own g matchId room w \<longleftrightarrow>
     rm_matchId room = Some matchId \<and> rm_ownerId room = own \<and> rm_guestId room = Some g \<and> rm_status room = ''matched''
     \<and> field i ''matchId'' w = Some (HStr matchId) \<and> field i ''status'' w = Some (HStr ''matched'')
     \<and> getStr (userRoomKey own) (w_redis w) \<noteq> Some (HStr i) \<and> getStr (userRoomKey g) (w_redis w) \<noteq> Some (HStr i)
     \<and> w_pub w \<noteq> [] \<and> last (w_pub w) = ToRoom i (RoomStateEvent room) [own, g]"

lemma ready_claims:
  assumes "ready_room i own g w"
  obtains r where "roomStartMatch (roomKey i) (roomHandoffKey i) token ttl (w_redis w) = (Inr (own, g), r)"
    "r = setEx (roomHandoffKey i) (HStr token) ttl (w_redis w)"
  using assms
  by (auto simp: ready_room_def field_def roomStartMatch_def setNx_def getStr_def present_def hexists_def Let_def)

lemma getStr_frames [simp]:
  "getStr k (del k' r) = (if k = k' then None else getStr k r)" "getStr k (hset k' f v r) = getStr k r"
  "getStr k (expire k' t r) = getStr k r"
  by (simp_all add: getStr_def del_def hset_def expire_def)

lemma roomMatchDone_frees:
  assumes "\<not> present (hget rk ''matchId'' r)"
  shows "fst (roomMatchDone rk ck uk gk hk i m t r) = m"
    and "getStr uk (snd (roomMatchDone rk ck uk gk hk i m t r)) \<noteq> Some (HStr i)"
    and "getStr gk (snd (roomMatchDone rk ck uk gk hk i m t r)) \<noteq> Some (HStr i)"
  using assms by (simp_all add: roomMatchDone_def Let_def)

lemma finish_handed:
  assumes "isUuid i" and "\<not> present (field i ''matchId'' w)"
    and "v = \<lparr>rm_roomId = i, rm_code = c, rm_ownerId = own, rm_guestId = Some g, rm_status = s, rm_expiresAt = t, rm_matchId = x\<rparr>"
  shows "\<exists>room w'. finishRoomMatch v m w = (Inr room, w') \<and> handed i own g m room w' \<and> w_matches w' = w_matches w"
proof -
  let ?done = "roomMatchDone (roomKey i) (roomCodeKey c) (userRoomKey own) (userRoomKey g) (roomHandoffKey i) i m
    ROOM_MATCH_TOMBSTONE_TTL_SECONDS (w_redis w)"
  let ?room = "v\<lparr>rm_status := ''matched'', rm_matchId := Some m\<rparr>"
  let ?w = "publishToRoom i (RoomStateEvent ?room) [own, g] (w\<lparr>w_redis := snd ?done\<rparr>)"
  note free = roomMatchDone_frees [OF assms(2) [unfolded field_def], where ck = "roomCodeKey c" and uk = "userRoomKey own"
      and gk = "userRoomKey g" and hk = "roomHandoffKey i" and i = i and m = m and t = ROOM_MATCH_TOMBSTONE_TTL_SECONDS]
  have fin: "finishRoomMatch v m w = (Inr ?room, ?w)"
    using free(1) by (simp add: finishRoomMatch_def assms(3) case_prod_unfold Let_def)
  have "rm_roomId v = i" by (simp add: assms(3))
  note fields = finish_fields [OF assms(1) this fin]
  have "field i ''matchId'' ?w = Some (HStr m)" "field i ''status'' ?w = Some (HStr ''matched'')"
    using fields(1) [of "''matchId''"] fields(1) [of "''status''"] assms(2) by simp_all
  moreover have "w_redis ?w = snd ?done" "w_pub ?w = w_pub w @ [ToRoom i (RoomStateEvent ?room) [own, g]]"
    by (simp_all add: publishToRoom_def)
  ultimately have "handed i own g m ?room ?w"
    using free(2,3) by (simp add: handed_def) (simp add: assms(3))
  with fin fields(2) show ?thesis by blast
qed

lemma findActive_frame: "matches_findActiveByUserId u (w\<lparr>w_redis := r\<rparr>) = matches_findActiveByUserId u w"
  by (simp add: matches_findActiveByUserId_def)

lemma findActive_in: "matches_findActiveByUserId u w = Some m \<Longrightarrow> m \<in> set (w_matches w) \<and> involves u m \<and> mt_status m = InProgress"
proof -
  assume "matches_findActiveByUserId u w = Some m"
  then have "m \<in> set (activeMatchQuery u (w_matches w))" by (auto simp: matches_findActiveByUserId_def split: list.splits)
  then show ?thesis by (simp add: activeMatchQuery_def)
qed

text \<open>The row written for two players who are both free.\<close>

lemma createPlayers_row:
  "createMatchForPlayers pt n seed p q w =
     (if seed \<in> mt_matchSeed ` set (w_matches w) then (Inl ''23505'', w)
      else (Inr \<lparr>mp_matchId = n, mp_player1Id = p, mp_player2Id = q\<rparr>, snd (createMatchForPlayers pt n seed p q w)))"
  "seed \<notin> mt_matchSeed ` set (w_matches w) \<Longrightarrow> \<exists>m. w_matches (snd (createMatchForPlayers pt n seed p q w)) = w_matches w @ [m]
     \<and> mt_id m = n \<and> mt_player1Id m = p \<and> mt_player2Id m = q \<and> mt_matchSeed m = seed \<and> mt_status m = InProgress"
  by (simp_all add: createMatchForPlayers_def createMatch_def matches_create_def Let_def andThen_initialize andThen_simps
      ret_def)

lemma createPlayers_field: "field i f (snd (createMatchForPlayers pt n seed p q w)) = field i f w"
  by (cases rule: createPlayers_cases [of pt n seed p q w]) simp_all

text \<open>The three ways a start can go, from the moment the room is claimed.\<close>

lemma ready_start:
  assumes "ready_room i own g w"
  obtains w1 where "startRoomMatch pt n seed token i w = createRoomMatch pt n seed i (own, g) token (loadRoomIfExists (Some i) w) w1"
    "w1 = w\<lparr>w_redis := setEx (roomHandoffKey i) (HStr token) ROOM_HANDOFF_TTL_SECONDS (w_redis w)\<rparr>"
    "adopted own g w1 = adopted own g w" "\<And>f. field i f w1 = field i f w"
proof -
  let ?w1 = "w\<lparr>w_redis := setEx (roomHandoffKey i) (HStr token) ROOM_HANDOFF_TTL_SECONDS (w_redis w)\<rparr>"
  obtain r where "roomStartMatch (roomKey i) (roomHandoffKey i) token ROOM_HANDOFF_TTL_SECONDS (w_redis w) = (Inr (own, g), r)"
    and "r = setEx (roomHandoffKey i) (HStr token) ROOM_HANDOFF_TTL_SECONDS (w_redis w)"
    using assms by (rule ready_claims)
  then have "startRoomMatch pt n seed token i w = createRoomMatch pt n seed i (own, g) token (loadRoomIfExists (Some i) w) ?w1"
    by (simp add: startRoomMatch_def Let_def)
  moreover have "field i f ?w1 = field i f w" "adopted own g ?w1 = adopted own g w" for f
    by (simp_all add: field_def adopted_def findActive_frame cong: option.case_cong)
  ultimately show ?thesis using that [OF _ refl] by blast
qed

lemma ready_fresh: "ready_room i own g w \<Longrightarrow> isUuid i \<and> \<not> present (field i ''matchId'' w)"
  by (auto simp: ready_room_def room_ok_def)

lemma start_adopts:
  assumes "ready_room i own g w" and "adopted own g w = Some m"
  shows "\<exists>room w'. startRoomMatch pt n seed token i w = (Inr room, w') \<and> handed i own g (mt_id m) room w' \<and> w_matches w' = w_matches w"
proof -
  obtain w1 where run: "startRoomMatch pt n seed token i w = createRoomMatch pt n seed i (own, g) token (loadRoomIfExists (Some i) w) w1"
    and w1: "w1 = w\<lparr>w_redis := setEx (roomHandoffKey i) (HStr token) ROOM_HANDOFF_TTL_SECONDS (w_redis w)\<rparr>"
    and same: "adopted own g w1 = adopted own g w" "\<And>f. field i f w1 = field i f w"
    using ready_start [OF assms(1)] by blast
  have "w_matches w1 = w_matches w" by (simp add: w1)
  with finish_handed [of i w1 _ _ own g] ready_fresh [OF assms(1)] same assms(2) show ?thesis
    by (simp add: run createRoomMatch_def adopted_def Let_def)
qed

lemma start_creates:
  assumes "ready_room i own g w" and "adopted own g w = None" and "seed \<notin> mt_matchSeed ` set (w_matches w)"
  shows "\<exists>room w' m. startRoomMatch pt n seed token i w = (Inr room, w') \<and> handed i own g n room w' \<and> w_matches w' = w_matches w @ [m]
     \<and> mt_id m = n \<and> mt_player1Id m = own \<and> mt_player2Id m = g \<and> mt_matchSeed m = seed \<and> mt_status m = InProgress"
proof -
  obtain w1 where run: "startRoomMatch pt n seed token i w = createRoomMatch pt n seed i (own, g) token (loadRoomIfExists (Some i) w) w1"
    and w1: "w1 = w\<lparr>w_redis := setEx (roomHandoffKey i) (HStr token) ROOM_HANDOFF_TTL_SECONDS (w_redis w)\<rparr>"
    and same: "adopted own g w1 = adopted own g w" "\<And>f. field i f w1 = field i f w"
    using ready_start [OF assms(1)] by blast
  have matches: "w_matches w1 = w_matches w" by (simp add: w1)
  with assms(3) obtain w2 where made: "createMatchForPlayers pt n seed own g w1 = (Inr \<lparr>mp_matchId = n, mp_player1Id = own, mp_player2Id = g\<rparr>, w2)"
    using createPlayers_row(1) [of pt n seed own g w1] by simp
  then have w2: "snd (createMatchForPlayers pt n seed own g w1) = w2" by simp
  obtain m where m: "w_matches w2 = w_matches w @ [m]" "mt_id m = n \<and> mt_player1Id m = own \<and> mt_player2Id m = g \<and> mt_matchSeed m = seed \<and> mt_status m = InProgress"
    using createPlayers_row(2) [of seed w1 pt n own g] assms(3) unfolding w2 matches by blast
  have fresh: "\<not> present (field i ''matchId'' w2)"
    using createPlayers_field [of i "''matchId''" pt n seed own g w1] ready_fresh [OF assms(1)] same(2) by (simp add: w2)
  obtain c t where "startRoomMatch pt n seed token i w = finishRoomMatch \<lparr>rm_roomId = i, rm_code = c, rm_ownerId = own,
      rm_guestId = Some g, rm_status = ''full'', rm_expiresAt = t, rm_matchId = None\<rparr> n w2"
    using same made assms(2) by (simp add: run createRoomMatch_def adopted_def Let_def)
  moreover obtain room w' where "finishRoomMatch \<lparr>rm_roomId = i, rm_code = c, rm_ownerId = own,
      rm_guestId = Some g, rm_status = ''full'', rm_expiresAt = t, rm_matchId = None\<rparr> n w2 = (Inr room, w')"
    "handed i own g n room w'" "w_matches w' = w_matches w2"
    using finish_handed [OF _ fresh refl] ready_fresh [OF assms(1)] by blast
  ultimately show ?thesis using m by (intro exI [of _ room] exI [of _ w'] exI [of _ m]) simp
qed

lemma start_refused:
  assumes "ready_room i own g w" and "adopted own g w = None" and "seed \<in> mt_matchSeed ` set (w_matches w)"
  shows "\<exists>w'. startRoomMatch pt n seed token i w = (Inl ''23505'', w') \<and> w_matches w' = w_matches w \<and> ready_room i own g w'"
proof -
  obtain w1 where run: "startRoomMatch pt n seed token i w = createRoomMatch pt n seed i (own, g) token (loadRoomIfExists (Some i) w) w1"
    and w1: "w1 = w\<lparr>w_redis := setEx (roomHandoffKey i) (HStr token) ROOM_HANDOFF_TTL_SECONDS (w_redis w)\<rparr>"
    and same: "adopted own g w1 = adopted own g w" "\<And>f. field i f w1 = field i f w"
    using ready_start [OF assms(1)] by blast
  let ?w' = "onRedis (\<lambda>r. snd (releaseOwned (roomHandoffKey i) (HStr token) r)) w1"
  have "createMatchForPlayers pt n seed own g w1 = (Inl ''23505'', w1)"
    using createPlayers_row(1) [of pt n seed own g w1] assms(3) by (simp add: w1)
  then have "startRoomMatch pt n seed token i w = (Inl ''23505'', ?w')"
    using same(1) assms(2) by (simp add: run createRoomMatch_def adopted_def)
  moreover have "getStr (roomHandoffKey i) (w_redis ?w') = None"
    by (simp add: releaseOwned_def w1) (simp add: getStr_def setEx_def)
  moreover have "field i f ?w' = field i f w" for f
    using same(2) [of f] by (simp add: field_def hget_releaseOwned)
  moreover have "w_matches ?w' = w_matches w" by (simp add: w1)
  ultimately show ?thesis using assms(1) by (auto simp: ready_room_def room_ok_def)
qed


subsection \<open>Example\<close>

text \<open>
  The players u1 and u2 have filled a room; then u1 joined the queue, which does not look at rooms, and was paired with u3.
  When the room is started, u2 is handed the match of u1 and u3.
\<close>

definition fullRoom :: "Match list \<Rightarrow> world" where
  "fullRoom ms = \<lparr>w_redis = hsets (roomKey demoId) [(''roomId'', HStr demoId), (''status'', HStr ''full''),
       (''ownerId'', HStr ''u1''), (''guestId'', HStr ''u2'')] emptyRedis,
     w_matches = ms, w_rounds = [], w_users = [], w_jobs = [], w_pub = [],
     w_combatResult = (\<lambda>_. None), w_cacheUp = True, w_now = 0\<rparr>"

definition queuedMatch :: Match where
  "queuedMatch = \<lparr>mt_id = ''q1'', mt_player1Id = ''u1'', mt_player2Id = ''u3'', mt_winnerId = None, mt_status = InProgress,
     mt_matchSeed = ''s0'', mt_wipeIndexP1 = 0, mt_wipeIndexP2 = 0, mt_p1State = JNull, mt_p2State = JNull,
     mt_createdAt = 0, mt_finishedAt = None\<rparr>"

lemma fullRoom_ready: "ready_room demoId ''u1'' ''u2'' (fullRoom ms)"
proof -
  have "hget k f emptyRedis = None" for k f by (simp add: hget_def emptyRedis_def)
  then show ?thesis
    by (simp add: ready_room_def room_ok_def demoId_uuid field_def fullRoom_def hget_hsets present_def getStr_def) (simp add: emptyRedis_def)
qed


end
