(* ===== verification/Auth.thy ===== *)
theory Auth
  imports Rankings "HOL-Library.Sublist"
begin

text \<open>
  Accounts and sessions: \<open>auth/auth.service.ts\<close>, the two guards (\<open>auth/guards/jwt-access.guard.ts\<close>,
  \<open>ws/guards/ws-auth.guard.ts\<close>) and \<open>user/user.controller.ts\<close>. bcrypt and the JWT library are arguments:
  \<open>hash\<close> and \<open>compare\<close>, \<open>sign\<close> (claims and time to live) and \<open>verify\<close> (\<open>None\<close> for a throw).
\<close>

record JwtPayload =
  jw_sub :: string
  jw_type :: string

record tokens =
  tk_hash :: "string \<Rightarrow> string"
  tk_compare :: "string \<Rightarrow> string \<Rightarrow> bool"
  tk_sign :: "JwtPayload \<Rightarrow> string \<Rightarrow> string"
  tk_verify :: "string \<Rightarrow> JwtPayload option"
  tk_accessTtl :: "string option"
  tk_refreshTtl :: "string option"

record AuthResponse =
  au_userId :: string
  au_accessToken :: string
  au_refreshToken :: string

subsection \<open>The service\<close>

definition signTokens :: "tokens \<Rightarrow> string \<Rightarrow> string \<times> string" where
  "signTokens tk userId =
     (tk_sign tk \<lparr>jw_sub = userId, jw_type = ''access''\<rparr> (case tk_accessTtl tk of Some t \<Rightarrow> t | None \<Rightarrow> ''7d''),
      tk_sign tk \<lparr>jw_sub = userId, jw_type = ''refresh''\<rparr> (case tk_refreshTtl tk of Some t \<Rightarrow> t | None \<Rightarrow> ''30d''))"

definition authResponse :: "tokens \<Rightarrow> UserRow \<Rightarrow> AuthResponse" where
  "authResponse tk user =
     (let (a, r) = signTokens tk (us_id user) in \<lparr>au_userId = us_id user, au_accessToken = a, au_refreshToken = r\<rparr>)"

text \<open>PostgreSQL's \<open>detail\<close> of a unique violation quotes the column and the value.\<close>

definition pgDetail :: "string \<Rightarrow> string \<Rightarrow> string \<Rightarrow> string" where
  "pgDetail e email username =
     (if e = EMAIL_TAKEN then ''Key (email)=('' @ toLowerCase email @ '') already exists.''
      else ''Key (username)=('' @ username @ '') already exists.'')"

definition takenField :: "string \<Rightarrow> string" where
  "takenField detail =
     (if sublist ''email'' detail then ''email'' else if sublist ''username'' detail then ''username'' else ''field'')"

definition register :: "tokens \<Rightarrow> string \<Rightarrow> string \<Rightarrow> string \<Rightarrow> string \<Rightarrow> world \<Rightarrow> AuthResponse result \<times> world" where
  "register tk newId email username password w =
     (case users_create newId email username (tk_hash tk password) w of
        (Inl e, w') \<Rightarrow> (if e \<in> {EMAIL_TAKEN, USERNAME_TAKEN}
                        then (Inl (takenField (pgDetail e email username) @ '' already in use''), w') else (Inl e, w'))
      | (Inr user, w') \<Rightarrow> (Inr (authResponse tk user), w'))"

definition login :: "tokens \<Rightarrow> string \<Rightarrow> string \<Rightarrow> world \<Rightarrow> AuthResponse result" where
  "login tk email password w =
     (case users_findByEmail email w of
        None \<Rightarrow> Inl ''invalid credentials''
      | Some user \<Rightarrow> if tk_compare tk password (us_passwordHash user) then Inr (authResponse tk user)
                     else Inl ''invalid credentials'')"

definition refreshTokens :: "tokens \<Rightarrow> string \<Rightarrow> world \<Rightarrow> AuthResponse result" where
  "refreshTokens tk refreshToken w =
     (case tk_verify tk refreshToken of
        None \<Rightarrow> Inl ''invalid or expired refresh token''
      | Some payload \<Rightarrow>
          if jw_type payload \<noteq> ''refresh'' then Inl ''refresh token required''
          else case users_findById (jw_sub payload) w of
                 None \<Rightarrow> Inl ''user no longer exists''
               | Some user \<Rightarrow> Inr (authResponse tk user))"

subsection \<open>The guards\<close>

text \<open>\<open>split(' ')\<close>: the words between single spaces.\<close>

fun splitOn :: "char \<Rightarrow> string \<Rightarrow> string list" where
  "splitOn d [] = [[]]"
| "splitOn d (c # cs) =
     (if c = d then [] # splitOn d cs
      else case splitOn d cs of [] \<Rightarrow> [[c]] | p # ps \<Rightarrow> (c # p) # ps)"

text \<open>\<open>JwtAccessGuard.canActivate\<close> on the \<open>Authorization\<close> header; the result is \<open>request.user\<close>.\<close>

definition jwtAccess :: "tokens \<Rightarrow> string option \<Rightarrow> JwtPayload result" where
  "jwtAccess tk header =
     (if \<not> truthy header then Inl ''missing Authorization header''
      else let parts = splitOn CHR '' '' (the header) in
           if hd parts \<noteq> ''Bearer'' \<or> length parts < 2 \<or> parts ! 1 = []
           then Inl ''Authorization must be: Bearer <token>''
           else case tk_verify tk (parts ! 1) of
                  None \<Rightarrow> Inl ''invalid or expired token''
                | Some payload \<Rightarrow> if jw_type payload \<noteq> ''access'' then Inl ''access token required (got refresh?)''
                                  else Inr payload)"

text \<open>\<open>WsAuthGuard.authenticate\<close> on the handshake token.\<close>

definition authenticate :: "tokens \<Rightarrow> string option \<Rightarrow> JwtPayload result" where
  "authenticate tk token =
     (if \<not> truthy token then Inl ''auth.invalid''
      else case tk_verify tk (the token) of
             None \<Rightarrow> Inl ''auth.expired''
           | Some payload \<Rightarrow> if jw_type payload \<noteq> ''access'' \<or> jw_sub payload = [] then Inl ''auth.invalid'' else Inr payload)"

subsection \<open>The account of the caller\<close>

record UserDto =
  ud_id :: string
  ud_email :: string
  ud_username :: string
  ud_rating :: int

definition userDto :: "UserRow \<Rightarrow> UserDto" where
  "userDto u = \<lparr>ud_id = us_id u, ud_email = us_email u, ud_username = us_username u, ud_rating = us_rating u\<rparr>"

definition me :: "JwtPayload \<Rightarrow> world \<Rightarrow> UserDto result" where
  "me jwt w = (case users_findById (jw_sub jwt) w of None \<Rightarrow> Inl ''user not found'' | Some u \<Rightarrow> Inr (userDto u))"

definition updateMe :: "JwtPayload \<Rightarrow> string \<Rightarrow> world \<Rightarrow> UserDto result \<times> world" where
  "updateMe jwt username w =
     (case updateUsername (jw_sub jwt) username w of
        (Inl e, w') \<Rightarrow> (Inl (if e = USERNAME_TAKEN then ''username already in use'' else e), w')
      | (Inr u, w') \<Rightarrow> (Inr (userDto u), w'))"

text \<open>The rules of \<open>RegisterDto\<close> on the user name and the password.\<close>

definition nameChar :: "char \<Rightarrow> bool" where
  "nameChar c \<longleftrightarrow> c \<in> set ''abcdefghijklmnopqrstuvwxyzABCDEFGHIJKLMNOPQRSTUVWXYZ0123456789_''"

definition registerValid :: "string \<Rightarrow> string \<Rightarrow> bool" where
  "registerValid username password \<longleftrightarrow>
     3 \<le> length username \<and> length username \<le> 20 \<and> list_all nameChar username \<and> 8 \<le> length password"

subsection \<open>Sessions\<close>

text \<open>What the code relies on: a fresh hash accepts its password, and a signed token verifies to its claims.\<close>

definition tokens_ok :: "tokens \<Rightarrow> bool" where
  "tokens_ok tk \<longleftrightarrow> (\<forall>p. tk_compare tk p (tk_hash tk p)) \<and> (\<forall>c ttl. tk_verify tk (tk_sign tk c ttl) = Some c)"

lemma authResponse_simps [simp]:
  "au_userId (authResponse tk u) = us_id u"
  "au_accessToken (authResponse tk u) = fst (signTokens tk (us_id u))"
  "au_refreshToken (authResponse tk u) = snd (signTokens tk (us_id u))"
  by (simp_all add: authResponse_def case_prod_unfold Let_def)

lemma verify_sign:
  assumes "tokens_ok tk"
  shows "tk_verify tk (fst (signTokens tk u)) = Some \<lparr>jw_sub = u, jw_type = ''access''\<rparr>"
    and "tk_verify tk (snd (signTokens tk u)) = Some \<lparr>jw_sub = u, jw_type = ''refresh''\<rparr>"
  using assms by (simp_all add: tokens_ok_def signTokens_def)

lemma find_appended: "List.find P (xs @ [x]) = (case List.find P xs of None \<Rightarrow> (if P x then Some x else None) | Some y \<Rightarrow> Some y)"
  by (induction xs) auto

lemma splitOn_token:
  assumes "CHR '' '' \<notin> set t" and "t \<noteq> []"
  shows "splitOn CHR '' '' (''Bearer '' @ t) = [''Bearer'', t]"
proof -
  have "splitOn CHR '' '' t = [t]" using assms(1) by (induction t) auto
  then show ?thesis by simp
qed

text \<open>
  C34: An account can be used as it was registered. After a successful registration the same email (in
  any case) and password log in to the same account, both guards accept the access token as that
  user and the refresh token renews the session; the account starts at rating 1000 under a name and
  an email no other account has.
\<close>

theorem register_then_login:
  assumes "tokens_ok tk" and "tables_ok w" and "newId \<notin> us_id ` set (w_users w)" and "newId \<noteq> []"
    and "register tk newId email username password w = (Inr res, w')"
    and "CHR '' '' \<notin> set (au_accessToken res)" and "au_accessToken res \<noteq> []"
  shows "login tk (map toLower email) password w' = Inr res \<and> login tk email password w' = Inr res
     \<and> authenticate tk (Some (au_accessToken res)) = Inr \<lparr>jw_sub = newId, jw_type = ''access''\<rparr>
     \<and> jwtAccess tk (Some (''Bearer '' @ au_accessToken res)) = Inr \<lparr>jw_sub = newId, jw_type = ''access''\<rparr>
     \<and> refreshTokens tk (au_refreshToken res) w' = Inr res
     \<and> me \<lparr>jw_sub = newId, jw_type = ''access''\<rparr> w'
         = Inr \<lparr>ud_id = newId, ud_email = toLowerCase email, ud_username = username, ud_rating = 1000\<rparr>
     \<and> tables_ok w'"
proof -
  let ?u = "\<lparr>us_id = newId, us_email = toLowerCase email, us_username = username,
      us_passwordHash = tk_hash tk password, us_rating = 1000, us_createdAt = w_now w\<rparr>"
  from assms(5) have fresh: "toLowerCase email \<notin> us_email ` set (w_users w)" "username \<notin> us_username ` set (w_users w)"
    and res: "res = authResponse tk ?u" and w': "w' = w\<lparr>w_users := w_users w @ [?u]\<rparr>"
    by (auto simp: register_def users_create_def Let_def split: if_splits)
  have lower: "toLowerCase (map toLower email) = toLowerCase email"
    by (simp add: toLowerCase_def toLower_def Let_def)
  have "List.find (\<lambda>u. us_email u = toLowerCase email) (w_users w) = None"
    using fresh(1) by (force simp: find_None_iff)
  then have mail: "users_findByEmail email w' = Some ?u" "users_findByEmail (map toLower email) w' = Some ?u"
    by (simp_all add: users_findByEmail_def w' find_appended lower)
  have "List.find (\<lambda>u. us_id u = newId) (w_users w) = None"
    using assms(3) by (force simp: find_None_iff)
  then have row: "users_findById newId w' = Some ?u" by (simp add: users_findById_def w' find_appended)
  from assms(1) have cmp: "tk_compare tk password (tk_hash tk password)" by (simp add: tokens_ok_def)
  note tk = verify_sign [OF assms(1), of newId]
  have "login tk email password w' = Inr res" "login tk (map toLower email) password w' = Inr res"
    using mail cmp by (simp_all add: login_def res)
  moreover have "refreshTokens tk (au_refreshToken res) w' = Inr res"
    using row by (simp add: refreshTokens_def res tk)
  moreover have "authenticate tk (Some (au_accessToken res)) = Inr \<lparr>jw_sub = newId, jw_type = ''access''\<rparr>"
    using assms(4,7) by (simp add: authenticate_def truthy_def res tk)
  moreover have "jwtAccess tk (Some (''Bearer '' @ au_accessToken res)) = Inr \<lparr>jw_sub = newId, jw_type = ''access''\<rparr>"
    using splitOn_token [OF assms(6,7)] assms(7) by (simp add: jwtAccess_def truthy_def res tk)
  moreover have "me \<lparr>jw_sub = newId, jw_type = ''access''\<rparr> w'
         = Inr \<lparr>ud_id = newId, ud_email = toLowerCase email, ud_username = username, ud_rating = 1000\<rparr>"
    using row by (simp add: me_def userDto_def)
  moreover have "tables_ok w'"
    using assms(2,3) fresh by (auto simp: tables_ok_def w')
  ultimately show ?thesis by blast
qed


subsection \<open>Examples\<close>

text \<open>
  A stand-in for the libraries: a hash is its password, and a token spells out the kind letter by
  letter behind a mark and then the user.
\<close>

fun decodeToken :: "string \<Rightarrow> string \<Rightarrow> JwtPayload option" where
  "decodeToken kind [] = None"
| "decodeToken kind (c # r) =
     (if c = CHR ''.'' then Some \<lparr>jw_sub = r, jw_type = kind\<rparr>
      else case r of [] \<Rightarrow> None | d # r' \<Rightarrow> decodeToken (kind @ [d]) r')"

definition encodeToken :: "JwtPayload \<Rightarrow> string" where
  "encodeToken c = concat (map (\<lambda>d. [CHR ''-'', d]) (jw_type c)) @ CHR ''.'' # jw_sub c"

lemma decode_encode: "decodeToken [] (encodeToken c) = Some c"
proof -
  have "decodeToken kind (concat (map (\<lambda>d. [CHR ''-'', d]) ks) @ CHR ''.'' # u) = Some \<lparr>jw_sub = u, jw_type = kind @ ks\<rparr>"
    for kind ks u by (induction ks arbitrary: kind) simp_all
  then show ?thesis by (simp add: encodeToken_def)
qed

definition demoTokens :: tokens where
  "demoTokens = \<lparr>tk_hash = (\<lambda>p. p), tk_compare = (\<lambda>p h. p = h), tk_sign = (\<lambda>c ttl. encodeToken c),
     tk_verify = decodeToken [], tk_accessTtl = None, tk_refreshTtl = None\<rparr>"

lemma demoTokens_ok: "tokens_ok demoTokens"
  by (simp add: tokens_ok_def demoTokens_def decode_encode)

definition noUsers :: world where
  "noUsers = \<lparr>w_redis = emptyRedis, w_matches = [], w_rounds = [], w_users = [], w_jobs = [], w_pub = [],
      w_combatResult = (\<lambda>_. None), w_cacheUp = True, w_now = 0\<rparr>"

lemma register_then_login_witness:
  "\<exists>res w'. register demoTokens ''u1'' ''Ann@X.org'' ''ann'' ''secret12'' noUsers = (Inr res, w')
     \<and> login demoTokens ''Ann@X.org'' ''secret12'' w' = Inr res
     \<and> refreshTokens demoTokens (au_refreshToken res) w' = Inr res"
proof -
  have eq: "authResponse demoTokens u = \<lparr>au_userId = us_id u, au_accessToken = encodeToken \<lparr>jw_sub = us_id u, jw_type = ''access''\<rparr>,
      au_refreshToken = encodeToken \<lparr>jw_sub = us_id u, jw_type = ''refresh''\<rparr>\<rparr>" for u
    by (simp add: authResponse_def signTokens_def demoTokens_def)
  obtain res w' where run: "register demoTokens ''u1'' ''Ann@X.org'' ''ann'' ''secret12'' noUsers = (Inr res, w')"
    and tok: "au_accessToken res = encodeToken \<lparr>jw_sub = ''u1'', jw_type = ''access''\<rparr>"
    by (simp add: register_def users_create_def noUsers_def eq Let_def)
  have "CHR '' '' \<notin> set (au_accessToken res)" "au_accessToken res \<noteq> []"
    by (simp_all add: tok encodeToken_def)
  moreover have "tables_ok noUsers" "''u1'' \<notin> us_id ` set (w_users noUsers)"
    by (simp_all add: tables_ok_def noUsers_def)
  ultimately show ?thesis
    using register_then_login [OF demoTokens_ok _ _ _ run] run by auto
qed


text \<open>
  A taken user name that contains the word email is reported as a taken email address: the column is
  searched for in the whole of PostgreSQL's detail, which quotes the value too.
\<close>

definition fanUser :: UserRow where
  "fanUser = \<lparr>us_id = ''u1'', us_email = ''a@x.org'', us_username = ''email_fan'', us_passwordHash = [],
     us_rating = 1000, us_createdAt = 0\<rparr>"

lemma username_reported_as_email:
  "fst (register tk ''u2'' ''b@x.org'' ''email_fan'' ''secret12'' (noUsers\<lparr>w_users := [fanUser]\<rparr>)) = Inl ''email already in use''"
proof -
  have "sublist ''email'' ''Key (username)=(email_fan) already exists.''" by code_simp
  moreover have "EMAIL_TAKEN \<noteq> USERNAME_TAKEN" by (simp add: EMAIL_TAKEN_def USERNAME_TAKEN_def)
  moreover have "toLowerCase ''b@x.org'' \<noteq> ''a@x.org''" by code_simp
  ultimately show ?thesis
    by (simp add: register_def users_create_def fanUser_def takenField_def pgDetail_def)
qed

end
