(* ===== verification/Pubsub.thy ===== *)
theory Pubsub
  imports Auth
begin

text \<open>
  The Pub/Sub bridge (\<open>runtime/pubsub.bridge.ts\<close>): every replica keeps a routing table from matches and
  users to the sockets connected to it, and hands each message of the bus to the right ones. JavaScript's
  \<open>Map\<close> and \<open>Set\<close> iterate in insertion order, so a bucket is an association list.
\<close>

definition eventType :: "Payload \<Rightarrow> string" where
  "eventType p = (case p of
      PhaseEvent _ \<Rightarrow> ''game:match:phase''
    | StateEvent _ \<Rightarrow> ''game:match:state''
    | ShopOfferEvent _ _ _ \<Rightarrow> ''game:shop:offer''
    | DamageEvent _ \<Rightarrow> ''game:match:damage''
    | MatchEndEvent _ \<Rightarrow> ''game:match:end''
    | CombatEvents _ \<Rightarrow> ''game:combat:events''
    | RoomStateEvent _ \<Rightarrow> ''game:room:state'')"

record PubSubEnvelope =
  en_type :: string
  en_payload :: Payload
  en_targetUserId :: "string option"
  en_targetUserIds :: "string list"

text \<open>\<open>br_sent\<close> is what the replica emitted to its sockets, in order.\<close>

record bridge =
  br_subs :: "string \<rightharpoonup> (string \<times> string option) list"
  br_users :: "string \<rightharpoonup> string list"
  br_server :: bool
  br_sent :: "(string \<times> Payload) list"

definition emptyBridge :: bridge where
  "emptyBridge = \<lparr>br_subs = Map.empty, br_users = Map.empty, br_server = False, br_sent = []\<rparr>"

definition setServer :: "bridge \<Rightarrow> bridge" where
  "setServer b = b\<lparr>br_server := True\<rparr>"

subsection \<open>Registration\<close>

definition orEmpty :: "'a list option \<Rightarrow> 'a list" where
  "orEmpty x = (case x of Some xs \<Rightarrow> xs | None \<Rightarrow> [])"

lemma orEmpty_simps [simp]: "orEmpty None = []" "orEmpty (Some xs) = xs" "orEmpty (if b then x else y) = (if b then orEmpty x else orEmpty y)"
  by (simp_all add: orEmpty_def)

definition registerUserSocket :: "string \<Rightarrow> string \<Rightarrow> bridge \<Rightarrow> bridge" where
  "registerUserSocket userId socketId b =
     (let sockets = orEmpty (br_users b userId)
      in b\<lparr>br_users := (br_users b)(userId \<mapsto> if socketId \<in> set sockets then sockets else sockets @ [socketId])\<rparr>)"

definition unregisterUserSocket :: "string \<Rightarrow> string \<Rightarrow> bridge \<Rightarrow> bridge" where
  "unregisterUserSocket userId socketId b =
     (case br_users b userId of
        None \<Rightarrow> b
      | Some sockets \<Rightarrow> let rest = filter (\<lambda>s. s \<noteq> socketId) sockets
                        in b\<lparr>br_users := (br_users b)(userId := if rest = [] then None else Some rest)\<rparr>)"

definition subscribe :: "string \<Rightarrow> string \<Rightarrow> string option \<Rightarrow> bridge \<Rightarrow> bridge" where
  "subscribe matchId socketId userId b =
     b\<lparr>br_subs := (br_subs b)(matchId \<mapsto> AList.update socketId userId (orEmpty (br_subs b matchId)))\<rparr>"

definition unsubscribe :: "string \<Rightarrow> string \<Rightarrow> bridge \<Rightarrow> bridge" where
  "unsubscribe matchId socketId b =
     (case br_subs b matchId of
        None \<Rightarrow> b
      | Some bucket \<Rightarrow> let rest = AList.delete socketId bucket
                       in b\<lparr>br_subs := (br_subs b)(matchId := if rest = [] then None else Some rest)\<rparr>)"

subsection \<open>Messages on the bus\<close>

text \<open>Channel and envelope of the three producers.\<close>

fun onChannel :: "Envelope \<Rightarrow> string \<times> PubSubEnvelope" where
  "onChannel (ToMatch m p) = (''match:'' @ m @ '':events'',
     \<lparr>en_type = eventType p, en_payload = p, en_targetUserId = None, en_targetUserIds = []\<rparr>)"
| "onChannel (ToUser m u p) = (''match:'' @ m @ '':events'',
     \<lparr>en_type = eventType p, en_payload = p, en_targetUserId = Some u, en_targetUserIds = []\<rparr>)"
| "onChannel (ToRoom r p us) = (''room:'' @ r @ '':events'',
     \<lparr>en_type = eventType p, en_payload = p, en_targetUserId = None, en_targetUserIds = us\<rparr>)"

definition playerIdsFromPhase :: "Payload \<Rightarrow> string list" where
  "playerIdsFromPhase p = (case p of PhaseEvent ph \<Rightarrow> map pv_id (ph_players ph) | _ \<Rightarrow> [])"

definition deliverToUsers :: "PubSubEnvelope \<Rightarrow> bridge \<Rightarrow> bridge" where
  "deliverToUsers e b =
     (if \<not> br_server b then b
      else b\<lparr>br_sent := br_sent b @ concat (map (\<lambda>u. map (\<lambda>s. (s, en_payload e)) (orEmpty (br_users b u))) (en_targetUserIds e))\<rparr>)"

definition attachPlayers :: "string \<Rightarrow> Payload \<Rightarrow> bridge \<Rightarrow> bridge" where
  "attachPlayers matchId p b =
     fold (\<lambda>u b. fold (\<lambda>s. subscribe matchId s (Some u)) (orEmpty (br_users b u)) b) (playerIdsFromPhase p) b"

text \<open>The message handler; \<open>None\<close> is an envelope that is not JSON.\<close>

definition handleMessage :: "string \<Rightarrow> PubSubEnvelope option \<Rightarrow> bridge \<Rightarrow> bridge" where
  "handleMessage channel envelope b =
     (let parts = splitOn CHR '':'' channel in
      if length parts \<noteq> 3 \<or> parts ! 2 \<noteq> ''events'' then b
      else case envelope of
             None \<Rightarrow> b
           | Some e \<Rightarrow>
               if en_type e = [] then b
               else if parts ! 0 = ''room'' then deliverToUsers e b
               else if parts ! 0 \<noteq> ''match'' then b
               else let matchId = parts ! 1;
                        b1 = (if en_type e = ''game:match:phase'' then attachPlayers matchId (en_payload e) b else b)
                    in case br_subs b1 matchId of
                         None \<Rightarrow> b1
                       | Some bucket \<Rightarrow>
                           if bucket = [] \<or> \<not> br_server b1 then b1
                           else b1\<lparr>br_sent := br_sent b1 @
                                map (\<lambda>(sid, _). (sid, en_payload e))
                                  (filter (\<lambda>(_, u). \<not> (truthy (en_targetUserId e) \<and> en_targetUserId e \<noteq> u)) bucket)\<rparr>)"

text \<open>The bus hands a message to the replica.\<close>

definition receive :: "Envelope \<Rightarrow> bridge \<Rightarrow> bridge" where
  "receive env = (case onChannel env of (channel, e) \<Rightarrow> handleMessage channel (Some e))"

subsection \<open>Routing tables\<close>

lemma splitOn_nonempty: "splitOn d s \<noteq> []"
  by (cases s) (auto split: list.split)

lemma splitOn_word: "d \<notin> set s \<Longrightarrow> splitOn d s = [s]"
  by (induction s) auto

lemma splitOn_append: "d \<notin> set s \<Longrightarrow> splitOn d (s @ d # r) = s # splitOn d r"
  by (induction s) auto

lemma split_channel:
  assumes "CHR '':'' \<notin> set m"
  shows "splitOn CHR '':'' (''match:'' @ m @ '':events'') = [''match'', m, ''events'']"
    and "splitOn CHR '':'' (''room:'' @ m @ '':events'') = [''room'', m, ''events'']"
proof -
  have "splitOn CHR '':'' (m @ '':events'') = [m, ''events'']"
    using splitOn_append [OF assms, of "''events''"] by simp
  then show "splitOn CHR '':'' (''match:'' @ m @ '':events'') = [''match'', m, ''events'']"
    "splitOn CHR '':'' (''room:'' @ m @ '':events'') = [''room'', m, ''events'']" by simp_all
qed

text \<open>A routing table is consistent with the users of the sockets: no socket is listed under someone else.\<close>

definition routes_ok :: "(string \<Rightarrow> string option) \<Rightarrow> bridge \<Rightarrow> bool" where
  "routes_ok owner b \<longleftrightarrow>
     (\<forall>u s. s \<in> set (orEmpty (br_users b u)) \<longrightarrow> owner s = Some u)
     \<and> (\<forall>m s u. (s, Some u) \<in> set (orEmpty (br_subs b m)) \<longrightarrow> owner s = Some u)"

named_theorems routes \<open>operations that keep the routing tables consistent\<close>

lemma set_update_subset: "set (AList.update k v al) \<subseteq> insert (k, v) (set al)"
  by (induction al) auto

lemma set_delete_subset: "set (AList.delete k al) \<subseteq> set al"
  by (auto simp: AList.delete_eq)

lemma routes_register [routes]: "routes_ok owner b \<Longrightarrow> owner s = Some u \<Longrightarrow> routes_ok owner (registerUserSocket u s b)"
  by (auto simp: routes_ok_def registerUserSocket_def Let_def split: if_splits)

lemma routes_unregister [routes]: "routes_ok owner b \<Longrightarrow> routes_ok owner (unregisterUserSocket u s b)"
  by (auto simp: routes_ok_def unregisterUserSocket_def Let_def split: if_splits option.split)

lemma routes_subscribe [routes]:
  assumes "routes_ok owner b" and "u = None \<or> owner s = u"
  shows "routes_ok owner (subscribe m s u b)"
proof -
  have "owner s' = Some v" if "(s', Some v) \<in> set (AList.update s u (orEmpty (br_subs b m)))" for s' v
  proof -
    from that set_update_subset have "(s', Some v) = (s, u) \<or> (s', Some v) \<in> set (orEmpty (br_subs b m))" by fast
    with assms show ?thesis by (auto simp: routes_ok_def)
  qed
  with assms(1) show ?thesis by (auto simp: routes_ok_def subscribe_def split: if_splits)
qed

lemma routes_unsubscribe [routes]: "routes_ok owner b \<Longrightarrow> routes_ok owner (unsubscribe m s b)"
proof -
  assume ok: "routes_ok owner b"
  have "x \<in> set (orEmpty (br_subs b k))" if "x \<in> set (orEmpty (br_subs (unsubscribe m s b) k))" for k x
    using that set_delete_subset [of s "orEmpty (br_subs b m)"] by (cases "br_subs b m") (auto simp: unsubscribe_def Let_def split: if_splits)
  moreover have "br_users (unsubscribe m s b) = br_users b"
    by (simp add: unsubscribe_def Let_def split: option.split)
  ultimately show ?thesis using ok unfolding routes_ok_def by metis
qed

lemma subscribe_frames [simp]:
  "br_users (subscribe m s u b) = br_users b" "br_server (subscribe m s u b) = br_server b" "br_sent (subscribe m s u b) = br_sent b"
  by (simp_all add: subscribe_def)

lemma fold_subscribe_frames [simp]:
  "br_users (fold (\<lambda>s. subscribe m s u) ss b) = br_users b" "br_server (fold (\<lambda>s. subscribe m s u) ss b) = br_server b"
  "br_sent (fold (\<lambda>s. subscribe m s u) ss b) = br_sent b"
  by (induction ss arbitrary: b) auto

lemma attach_frames [simp]:
  "br_users (attachPlayers m p b) = br_users b" "br_server (attachPlayers m p b) = br_server b"
  "br_sent (attachPlayers m p b) = br_sent b"
proof -
  have "br_users (fold (\<lambda>u b. fold (\<lambda>s. subscribe m s (Some u)) (orEmpty (br_users b u)) b) us b) = br_users b
    \<and> br_server (fold (\<lambda>u b. fold (\<lambda>s. subscribe m s (Some u)) (orEmpty (br_users b u)) b) us b) = br_server b
    \<and> br_sent (fold (\<lambda>u b. fold (\<lambda>s. subscribe m s (Some u)) (orEmpty (br_users b u)) b) us b) = br_sent b" for us
    by (induction us arbitrary: b) auto
  then show "br_users (attachPlayers m p b) = br_users b" "br_server (attachPlayers m p b) = br_server b"
    "br_sent (attachPlayers m p b) = br_sent b" by (simp_all add: attachPlayers_def)
qed

lemma routes_attach [routes]:
  assumes "routes_ok owner b"
  shows "routes_ok owner (attachPlayers m p b)"
proof -
  have inner: "routes_ok owner (fold (\<lambda>s. subscribe m s (Some u)) ss b)"
    if "routes_ok owner b" "\<forall>s\<in>set ss. owner s = Some u" for u ss b
    using that by (induction ss arbitrary: b) (auto simp: routes_subscribe)
  have "routes_ok owner (fold (\<lambda>u b. fold (\<lambda>s. subscribe m s (Some u)) (orEmpty (br_users b u)) b) us b)" for us
    using assms
  proof (induction us arbitrary: b)
    case (Cons u us)
    have "\<forall>s\<in>set (orEmpty (br_users b u)). owner s = Some u"
      using Cons.prems by (auto simp: routes_ok_def)
    then show ?case using Cons.IH inner Cons.prems by simp
  qed simp
  then show ?thesis by (simp add: attachPlayers_def)
qed

lemma routes_sent [routes]: "routes_ok owner b \<Longrightarrow> routes_ok owner (b\<lparr>br_sent := x\<rparr>)"
  by (simp add: routes_ok_def)

lemma routes_handle [routes]:
  assumes "routes_ok owner b"
  shows "routes_ok owner (handleMessage ch e b)"
  using assms
  by (auto simp: handleMessage_def deliverToUsers_def Let_def routes split: option.split)

subsection \<open>Delivery\<close>

lemma handle_match:
  assumes "CHR '':'' \<notin> set m" and "en_type e \<noteq> []"
  shows "handleMessage (''match:'' @ m @ '':events'') (Some e) b =
    (let b1 = (if en_type e = ''game:match:phase'' then attachPlayers m (en_payload e) b else b)
     in b1\<lparr>br_sent := br_sent b1 @ (if br_server b1 then map (\<lambda>(sid, _). (sid, en_payload e))
          (filter (\<lambda>(_, u). \<not> (truthy (en_targetUserId e) \<and> en_targetUserId e \<noteq> u)) (orEmpty (br_subs b1 m))) else [])\<rparr>)"
proof -
  define b1 where "b1 = (if en_type e = ''game:match:phase'' then attachPlayers m (en_payload e) b else b)"
  have parts: "[''match'', m, ''events''] ! 0 = ''match''" "[''match'', m, ''events''] ! 1 = m" "[''match'', m, ''events''] ! 2 = ''events''"
    by simp_all
  have "handleMessage (''match:'' @ m @ '':events'') (Some e) b = (case br_subs b1 m of
      None \<Rightarrow> b1
    | Some bucket \<Rightarrow> if bucket = [] \<or> \<not> br_server b1 then b1
        else b1\<lparr>br_sent := br_sent b1 @ map (\<lambda>(sid, _). (sid, en_payload e))
          (filter (\<lambda>(_, u). \<not> (truthy (en_targetUserId e) \<and> en_targetUserId e \<noteq> u)) bucket)\<rparr>)"
    unfolding handleMessage_def split_channel(1) [OF assms(1)] Let_def parts
    using assms(2) by (cases "en_type e = ''game:match:phase''") (simp_all add: b1_def cong: option.case_cong if_cong)
  then show ?thesis unfolding b1_def [symmetric] Let_def by (cases "br_subs b1 m") simp_all
qed

lemma eventType_nonempty [simp]: "eventType p \<noteq> []"
  by (cases p) (simp_all add: eventType_def)

lemma receive_ToUser:
  assumes "CHR '':'' \<notin> set m" and "u \<noteq> []"
  shows "\<exists>b1. (b1 = b \<or> b1 = attachPlayers m p b) \<and>
    br_sent (receive (ToUser m u p) b) = br_sent b @ (if br_server b then
       map (\<lambda>(sid, _). (sid, p)) (filter (\<lambda>(_, v). v = Some u) (orEmpty (br_subs b1 m))) else [])"
proof -
  let ?b1 = "if eventType p = ''game:match:phase'' then attachPlayers m p b else b"
  have "(\<lambda>(_ :: string, v). \<not> (truthy (Some u) \<and> Some u \<noteq> v)) = (\<lambda>(_, v). v = Some u)"
    using assms(2) by (auto simp: truthy_def fun_eq_iff)
  then have "br_sent (receive (ToUser m u p) b) = br_sent b @ (if br_server b then
       map (\<lambda>(sid, _). (sid, p)) (filter (\<lambda>(_, v). v = Some u) (orEmpty (br_subs ?b1 m))) else [])"
    by (simp add: receive_def handle_match [OF assms(1)] Let_def del: append.simps append_Cons)
  then show ?thesis by (intro exI [of _ ?b1]) simp
qed

text \<open>
  C30: A private message stays private. On every replica, an event published to one player of a match
  (state, shop offers) is emitted only to sockets of that player, whatever sockets are subscribed to
  the match, and handling any message keeps the routing tables that guarantee it.
\<close>

theorem private_message_stays_private:
  assumes "routes_ok owner b" and "CHR '':'' \<notin> set m" and "u \<noteq> []"
  shows "\<exists>sent. br_sent (receive (ToUser m u p) b) = br_sent b @ sent
      \<and> list_all (\<lambda>(s, q). q = p \<and> owner s = Some u) sent
    \<and> routes_ok owner (receive (ToUser m u p) b)"
proof -
  obtain b1 where b1: "b1 = b \<or> b1 = attachPlayers m p b"
    and sent: "br_sent (receive (ToUser m u p) b) = br_sent b @ (if br_server b then
       map (\<lambda>(sid, _). (sid, p)) (filter (\<lambda>(_, v). v = Some u) (orEmpty (br_subs b1 m))) else [])"
    using receive_ToUser [OF assms(2,3)] by metis
  from b1 assms(1) have "routes_ok owner b1" by (auto simp: routes)
  then have "list_all (\<lambda>(s, q). q = p \<and> owner s = Some u)
     (if br_server b then map (\<lambda>(sid, _). (sid, p)) (filter (\<lambda>(_, v). v = Some u) (orEmpty (br_subs b1 m))) else [])"
    by (auto simp: list_all_iff routes_ok_def)
  moreover have "routes_ok owner (receive (ToUser m u p) b)"
    using assms(1) by (simp add: receive_def routes)
  ultimately show ?thesis using sent by blast
qed

text \<open>A replica with a socket of each player; the first one has subscribed to a match already.\<close>

definition demoBridge :: bridge where
  "demoBridge = setServer (registerUserSocket ''bob'' ''t'' (registerUserSocket ''ann'' ''s'' emptyBridge))"

definition demoOwner :: "string \<Rightarrow> string option" where
  "demoOwner = [''s'' \<mapsto> ''ann'', ''t'' \<mapsto> ''bob'']"

lemma demoBridge_routes: "routes_ok demoOwner demoBridge"
  unfolding demoBridge_def setServer_def
  by (auto simp: routes_ok_def registerUserSocket_def emptyBridge_def demoOwner_def)

theorem private_message_stays_private_witness:
  "\<exists>sent. br_sent (receive (ToUser ''m'' ''ann'' (ShopOfferEvent ''m'' 1 [])) (subscribe ''m'' ''s'' (Some ''ann'') demoBridge))
        = br_sent (subscribe ''m'' ''s'' (Some ''ann'') demoBridge) @ sent
      \<and> list_all (\<lambda>(s, q). q = ShopOfferEvent ''m'' 1 [] \<and> demoOwner s = Some ''ann'') sent
    \<and> routes_ok demoOwner (receive (ToUser ''m'' ''ann'' (ShopOfferEvent ''m'' 1 []))
        (subscribe ''m'' ''s'' (Some ''ann'') demoBridge))"
  by (rule private_message_stays_private [OF routes_subscribe [OF demoBridge_routes]]) (simp_all add: demoOwner_def)

text \<open>The subscription of a socket.\<close>

definition listed :: "string \<Rightarrow> string \<Rightarrow> string \<Rightarrow> bridge \<Rightarrow> bool" where
  "listed m s u b \<longleftrightarrow> (s, Some u) \<in> set (orEmpty (br_subs b m))"

lemma update_keeps: "(s, v) \<in> set al \<Longrightarrow> s \<noteq> k \<or> v = w \<Longrightarrow> (s, v) \<in> set (AList.update k w al)"
  by (induction al) auto

lemma update_puts: "(k, w) \<in> set (AList.update k w al)"
  by (induction al) auto

lemma listed_subscribe: "listed m s u b \<Longrightarrow> s \<noteq> k \<or> v = Some u \<Longrightarrow> listed m s u (subscribe m k v b)"
  by (simp add: listed_def subscribe_def update_keeps)

lemma listed_fold:
  assumes "\<forall>k\<in>set ss. owner k = Some v" and "owner s = Some u"
  shows "listed m s u b \<or> v = u \<and> s \<in> set ss \<Longrightarrow> listed m s u (fold (\<lambda>k. subscribe m k (Some v)) ss b)"
  using assms(1)
proof (induction ss arbitrary: b)
  case (Cons k ss)
  have "listed m s u (subscribe m k (Some v) b) \<or> v = u \<and> s \<in> set ss"
  proof (cases "s = k")
    case True
    with Cons.prems assms(2) have "v = u" by simp
    with True show ?thesis by (simp add: listed_def subscribe_def update_puts)
  next
    case False
    with Cons.prems show ?thesis by (auto intro: listed_subscribe)
  qed
  then show ?case using Cons by simp
qed simp

lemma listed_attach:
  assumes "routes_ok owner b" and "owner s = Some u"
    and "listed m s u b \<or> u \<in> set (playerIdsFromPhase p) \<and> s \<in> set (orEmpty (br_users b u))"
  shows "listed m s u (attachPlayers m p b)"
proof -
  have owner: "\<forall>k\<in>set (orEmpty (br_users b v)). owner k = Some v" for v
    using assms(1) by (auto simp: routes_ok_def)
  have "listed m s u (fold (\<lambda>v b. fold (\<lambda>k. subscribe m k (Some v)) (orEmpty (br_users b v)) b) us b')"
    if "listed m s u b' \<or> u \<in> set us \<and> s \<in> set (orEmpty (br_users b u))" "br_users b' = br_users b" for us b'
    using that
  proof (induction us arbitrary: b')
    case (Cons v us)
    let ?b = "fold (\<lambda>k. subscribe m k (Some v)) (orEmpty (br_users b' v)) b'"
    have "listed m s u ?b \<or> u \<in> set us \<and> s \<in> set (orEmpty (br_users b u))"
    proof (cases "listed m s u b' \<or> v = u \<and> s \<in> set (orEmpty (br_users b' v))")
      case True
      have "\<forall>k\<in>set (orEmpty (br_users b' v)). owner k = Some v" using owner Cons.prems(2) by simp
      from listed_fold [where owner = owner, OF this assms(2) True] show ?thesis by simp
    next
      case False
      with Cons.prems show ?thesis by auto
    qed
    then show ?case using Cons by simp
  qed simp
  with assms(3) show ?thesis by (simp add: attachPlayers_def)
qed

text \<open>
  The first phase event finds its players. When a match starts, every replica delivers the phase
  event to every socket of either player that is connected to it, although no socket has subscribed
  yet, and from then on their private messages arrive on the same sockets.
\<close>

theorem first_phase_reaches_players:
  assumes "routes_ok owner b" and "br_server b" and "CHR '':'' \<notin> set m" and "u \<noteq> []"
    and "u \<in> set (map pv_id (ph_players ph))" and "s \<in> set (orEmpty (br_users b u))"
  shows "(s, PhaseEvent ph) \<in> set (br_sent (receive (ToMatch m (PhaseEvent ph)) b))
    \<and> (s, p) \<in> set (br_sent (receive (ToUser m u p) (receive (ToMatch m (PhaseEvent ph)) b)))"
proof -
  let ?b = "attachPlayers m (PhaseEvent ph) b"
  let ?r = "receive (ToMatch m (PhaseEvent ph)) b"
  from assms(5) have "u \<in> set (playerIdsFromPhase (PhaseEvent ph))" by (simp add: playerIdsFromPhase_def)
  have own: "owner s = Some u" using assms(1,6) by (auto simp: routes_ok_def)
  from listed_attach [where owner = owner, OF assms(1) own] \<open>u \<in> set (playerIdsFromPhase (PhaseEvent ph))\<close> assms(6)
  have listed: "listed m s u ?b" by blast
  then obtain bucket where bucket: "br_subs ?b m = Some bucket" "(s, Some u) \<in> set bucket"
    by (cases "br_subs ?b m") (auto simp: listed_def)
  then have r: "?r = ?b\<lparr>br_sent := br_sent b @ map (\<lambda>(sid, _). (sid, PhaseEvent ph)) bucket\<rparr>"
    using assms(2)
    by (simp add: receive_def handle_match [OF assms(3)] truthy_def Let_def eventType_def case_prod_unfold
        del: append.simps append_Cons)
  then have "(s, PhaseEvent ph) \<in> set (br_sent ?r)" using bucket(2) by force
  moreover have "(s, p) \<in> set (br_sent (receive (ToUser m u p) ?r))"
  proof -
    obtain b1 where b1: "b1 = ?r \<or> b1 = attachPlayers m p ?r"
      and sent: "br_sent (receive (ToUser m u p) ?r) = br_sent ?r @ (if br_server ?r then
         map (\<lambda>(sid, _). (sid, p)) (filter (\<lambda>(_, v). v = Some u) (orEmpty (br_subs b1 m))) else [])"
      using receive_ToUser [OF assms(3,4)] by metis
    have "listed m s u ?r" using listed r by (simp add: listed_def)
    moreover have "routes_ok owner ?r" using assms(1) by (simp add: receive_def routes)
    ultimately have "listed m s u b1" using b1 listed_attach [where owner = owner, OF _ own] by blast
    with sent r assms(2) show ?thesis by (force simp: listed_def)
  qed
  ultimately show ?thesis by blast
qed

theorem first_phase_reaches_players_witness:
  "(''s'', PhaseEvent \<lparr>ph_matchId = ''m'', ph_phase = ShopPlace, ph_round = 1, ph_timer = 40,
      ph_players = [\<lparr>pv_id = ''ann'', pv_username = ''Ann'', pv_hp = 100, pv_gold = 5, pv_ready = False\<rparr>]\<rparr>)
     \<in> set (br_sent (receive (ToMatch ''m'' (PhaseEvent \<lparr>ph_matchId = ''m'', ph_phase = ShopPlace, ph_round = 1, ph_timer = 40,
      ph_players = [\<lparr>pv_id = ''ann'', pv_username = ''Ann'', pv_hp = 100, pv_gold = 5, pv_ready = False\<rparr>]\<rparr>)) demoBridge))"
  using first_phase_reaches_players [OF demoBridge_routes, of "''m''" "''ann''"
    "\<lparr>ph_matchId = ''m'', ph_phase = ShopPlace, ph_round = 1, ph_timer = 40,
      ph_players = [\<lparr>pv_id = ''ann'', pv_username = ''Ann'', pv_hp = 100, pv_gold = 5, pv_ready = False\<rparr>]\<rparr>" "''s''"]
  by (simp add: demoBridge_def setServer_def registerUserSocket_def emptyBridge_def)

end
