(* ===== verification/Errors.thy ===== *)
theory Errors
  imports Pubsub
begin

text \<open>
  The exception filters: \<open>common/filters/all-exceptions.filter.ts\<close> for REST and
  \<open>ws/ws-exception.filter.ts\<close> for the sockets.

  An exception is one of: a \<open>WsException\<close> (its error value and message), an \<open>HttpException\<close> (status,
  response, message), another \<open>Error\<close> (with the \<open>code\<close> property that driver and system errors carry), or a
  thrown value that is no \<open>Error\<close>.
\<close>

datatype Exception =
    WsError json string
  | HttpError nat json string
  | JsError "string option" string
  | NonError json

subsection \<open>Sockets\<close>

record GameErrorEnvelope =
  ge_code :: string
  ge_message :: string
  ge_clientActionId :: "string option"

fun errorRecord :: "Exception \<Rightarrow> jobj option" where
  "errorRecord (WsError v _) = asObj (Some v)"
| "errorRecord (HttpError _ v _) = asObj (Some v)"
| "errorRecord (JsError c m) = Some ((case c of Some s \<Rightarrow> [(''code'', JStr s)] | None \<Rightarrow> []) @ [(''message'', JStr m)])"
| "errorRecord (NonError v) = asObj (Some v)"

fun errorMessage :: "Exception \<Rightarrow> string option" where
  "errorMessage (WsError _ m) = Some m"
| "errorMessage (HttpError _ _ m) = Some m"
| "errorMessage (JsError _ m) = Some m"
| "errorMessage (NonError _) = None"

definition propStr :: "jobj option \<Rightarrow> string \<Rightarrow> string option" where
  "propStr r k = Option.bind r (\<lambda>kvs. asStr (getProp kvs k))"

definition toGameError :: "Exception \<Rightarrow> string \<Rightarrow> string option \<Rightarrow> GameErrorEnvelope" where
  "toGameError exception fallbackCode clientActionId =
     (let rec = errorRecord exception;
          code = (case propStr rec ''code'' of Some c \<Rightarrow> c
                  | None \<Rightarrow> if errorMessage exception \<noteq> None then ''internal'' else fallbackCode);
          domainMessage = (case propStr rec ''message'' of Some m \<Rightarrow> m
                  | None \<Rightarrow> (case errorMessage exception of Some m \<Rightarrow> m
                           | None \<Rightarrow> (case exception of NonError (JStr s) \<Rightarrow> s | _ \<Rightarrow> [])));
          message = (if code = ''internal'' then ''unexpected error'' else if domainMessage \<noteq> [] then domainMessage else code)
      in \<lparr>ge_code = code, ge_message = message,
          ge_clientActionId = (if truthy clientActionId then clientActionId else None)\<rparr>)"

text \<open>\<open>WsGameExceptionFilter.catch\<close> reads the id of the action off the message.\<close>

definition wsCatch :: "Exception \<Rightarrow> json option \<Rightarrow> GameErrorEnvelope" where
  "wsCatch exception msg =
     toGameError exception ''internal'' (Option.bind (asObj msg) (\<lambda>kvs. asStr (getProp kvs ''clientActionId'')))"

subsection \<open>REST\<close>

definition codeForStatus :: "nat \<Rightarrow> string" where
  "codeForStatus status =
     (case map_of [(400, ''bad_request''), (401, ''unauthorized''), (403, ''forbidden''), (404, ''not_found''),
        (409, ''conflict''), (422, ''unprocessable_entity''), (429, ''rate_limited'')] status of
        Some c \<Rightarrow> c
      | None \<Rightarrow> if status \<ge> 500 then ''internal'' else ''error'')"

text \<open>\<open>String(x)\<close> of a JSON value; an array prints its elements, an object its tag.\<close>

fun commaJoin :: "string list \<Rightarrow> string" where
  "commaJoin [] = []"
| "commaJoin [s] = s"
| "commaJoin (s # ss) = s @ '','' @ commaJoin ss"

fun jsString :: "json \<Rightarrow> string" where
  "jsString JNull = ''null''"
| "jsString (JBool b) = (if b then ''true'' else ''false'')"
| "jsString (JNum n) = showInt n"
| "jsString (JStr s) = s"
| "jsString (JArr xs) = commaJoin (map (\<lambda>x. if x = JNull then [] else jsString x) xs)"
| "jsString (JObj _) = ''[object Object]''"

record RestEnvelope =
  re_code :: string
  re_message :: string
  re_details :: "json option"
  re_retryAfter :: "int option"

text \<open>\<open>retryEnv\<close> is \<open>Number(process.env.RATE_LIMIT_RETRY_AFTER ?? 1)\<close>.\<close>

definition toEnvelope :: "int \<Rightarrow> Exception \<Rightarrow> nat \<Rightarrow> RestEnvelope" where
  "toEnvelope retryEnv exception status =
     (case exception of
        HttpError _ raw msg \<Rightarrow>
          (let rec = asObj (Some raw);
               prop = (\<lambda>k. Option.bind rec (\<lambda>kvs. getProp kvs k));
               code = (case asStr (prop ''code'') of Some c \<Rightarrow> c | None \<Rightarrow> codeForStatus status);
               message = (case prop ''message'' of
                   Some (JStr m) \<Rightarrow> m
                 | Some (JArr xs) \<Rightarrow> (case xs of [] \<Rightarrow> ''undefined'' | x # _ \<Rightarrow> jsString x)
                 | _ \<Rightarrow> (case raw of JStr s \<Rightarrow> s | _ \<Rightarrow> if msg \<noteq> [] then msg else codeForStatus status))
           in \<lparr>re_code = code, re_message = message, re_details = prop ''details'',
               re_retryAfter = (if status = 429
                  then Some (case prop ''retryAfter'' of Some (JNum n) \<Rightarrow> n | _ \<Rightarrow> retryEnv) else None)\<rparr>)
      | _ \<Rightarrow> \<lparr>re_code = ''internal'', re_message = ''internal server error'', re_details = None, re_retryAfter = None\<rparr>)"

record reply =
  rp_status :: nat
  rp_body :: RestEnvelope
  rp_retryHeader :: "int option"

text \<open>The filter on an HTTP request; another kind of request rethrows.\<close>

definition restCatch :: "int \<Rightarrow> Exception \<Rightarrow> reply" where
  "restCatch retryEnv exception =
     (let status = (case exception of HttpError s _ _ \<Rightarrow> s | _ \<Rightarrow> 500);
          body = toEnvelope retryEnv exception status
      in \<lparr>rp_status = status, rp_body = body,
          rp_retryHeader = (if status = 429 then re_retryAfter body else None)\<rparr>)"



text \<open>A driver or system error has a code of its own, and the socket passes its text on to the client.\<close>

lemma driver_error_is_forwarded:
  "toGameError (JsError (Some ''ECONNREFUSED'') ''connect ECONNREFUSED 10.0.0.5:5432'') fallback None
     = \<lparr>ge_code = ''ECONNREFUSED'', ge_message = ''connect ECONNREFUSED 10.0.0.5:5432'', ge_clientActionId = None\<rparr>"
  by (simp add: toGameError_def propStr_def getProp_def truthy_def)

end
