(* ===== verification/Gateway.thy ===== *)
theory Gateway
  imports Errors Room_Props
begin

text \<open>
  The WebSocket gateway of one replica (\<open>ws/ws.gateway.ts\<close>) with the guard and the pipe in front of its
  handlers (\<open>common/throttle/ws-throttle.guard.ts\<close>, \<open>ws/ws.pipes.ts\<close>, \<open>ws/ws.dto.ts\<close>). Sockets are their ids;
  socket.io calls \<open>handleDisconnect\<close> as part of \<open>disconnect(true)\<close>. The checks of class-validator on the
  shape of a UUID are the argument \<open>uuid\<close>.

  An error of a service is its code, or the message of an exception without code; only messages
  contain blanks.
\<close>

subsection \<open>Incoming messages\<close>

record Request =
  rq_action :: RuntimeAction
  rq_round :: nat
  rq_clientActionId :: string
  rq_matchId :: "string option"

datatype Incoming = QueueJoin | QueueLeave | Act Request

definition SLOT_MAX :: int where "SLOT_MAX = 8"

definition OFFER_INDEX_MAX :: int where "OFFER_INDEX_MAX = 4"

definition intIn :: "jobj \<Rightarrow> string \<Rightarrow> int \<Rightarrow> int option \<Rightarrow> int option" where
  "intIn kvs k lo hi = (case getProp kvs k of
      Some (JNum n) \<Rightarrow> if lo \<le> n \<and> (case hi of Some h \<Rightarrow> n \<le> h | None \<Rightarrow> True) then Some n else None
    | _ \<Rightarrow> None)"

definition uuidField :: "(string \<Rightarrow> bool) \<Rightarrow> jobj \<Rightarrow> string \<Rightarrow> string option" where
  "uuidField uuid kvs k = (case getProp kvs k of Some (JStr s) \<Rightarrow> if uuid s then Some s else None | _ \<Rightarrow> None)"

text \<open>\<open>@IsOptional\<close>: an absent or null property passes; the outer option is the verdict.\<close>

definition optField :: "(jobj \<Rightarrow> string \<Rightarrow> 'a option) \<Rightarrow> jobj \<Rightarrow> string \<Rightarrow> 'a option option" where
  "optField f kvs k = (case getProp kvs k of None \<Rightarrow> Some None | Some JNull \<Rightarrow> Some None | _ \<Rightarrow> map_option Some (f kvs k))"

definition sourceField :: "jobj \<Rightarrow> string \<Rightarrow> Source option" where
  "sourceField kvs k = (case getProp kvs k of
      Some (JStr s) \<Rightarrow> if s = ''board'' then Some Board else if s = ''bench'' then Some Bench else None
    | _ \<Rightarrow> None)"

definition boolField :: "jobj \<Rightarrow> string \<Rightarrow> bool option" where
  "boolField kvs k = (case getProp kvs k of Some (JBool b) \<Rightarrow> Some b | _ \<Rightarrow> None)"

text \<open>The fields every game action has, and the request made of them.\<close>

definition actionRequest :: "(string \<Rightarrow> bool) \<Rightarrow> jobj \<Rightarrow> RuntimeAction option \<Rightarrow> string option \<Rightarrow> Incoming option" where
  "actionRequest uuid kvs action matchId =
     (case (action, intIn kvs ''round'' 1 None, uuidField uuid kvs ''clientActionId'') of
        (Some a, Some r, Some c) \<Rightarrow> Some (Act \<lparr>rq_action = a, rq_round = nat r, rq_clientActionId = c, rq_matchId = matchId\<rparr>)
      | _ \<Rightarrow> None)"

definition matchRequest :: "(string \<Rightarrow> bool) \<Rightarrow> jobj \<Rightarrow> RuntimeAction \<Rightarrow> Incoming option" where
  "matchRequest uuid kvs action =
     (case uuidField uuid kvs ''matchId'' of None \<Rightarrow> None | Some m \<Rightarrow> actionRequest uuid kvs (Some action) (Some m))"

text \<open>The rules of the class of each event; \<open>None\<close> for an object that breaks one.\<close>

definition decode :: "(string \<Rightarrow> bool) \<Rightarrow> string \<Rightarrow> jobj \<Rightarrow> Incoming option" where
  "decode uuid event kvs =
     (if event = ''game:matchmaking:join'' then Some QueueJoin
      else if event = ''game:matchmaking:leave'' then Some QueueLeave
      else if event = ''game:shop:buy'' then
        actionRequest uuid kvs (map_option (\<lambda>i. ShopBuy (nat i)) (intIn kvs ''offerIndex'' 0 (Some OFFER_INDEX_MAX))) None
      else if event = ''game:shop:sell'' then
        actionRequest uuid kvs (case (sourceField kvs ''source'', intIn kvs ''slot'' 0 (Some SLOT_MAX)) of
          (Some src, Some s) \<Rightarrow> Some (ShopSell src s) | _ \<Rightarrow> None) None
      else if event = ''game:shop:refresh'' then actionRequest uuid kvs (Some ShopRefresh) None
      else if event = ''game:shop:fuse'' then
        actionRequest uuid kvs (case (isUnitId (getProp kvs ''unitId''), optField (uuidField uuid) kvs ''sourceInstanceId'',
            optField (uuidField uuid) kvs ''targetInstanceId'') of
          (Some u, Some a, Some b) \<Rightarrow> Some (ShopFuse u a b) | _ \<Rightarrow> None) None
      else if event = ''game:match:place'' then
        actionRequest uuid kvs (case (uuidField uuid kvs ''unitInstanceId'', sourceField kvs ''target'',
            intIn kvs ''slot'' 0 (Some SLOT_MAX)) of
          (Some i, Some t, Some s) \<Rightarrow> Some (MatchPlace i t s) | _ \<Rightarrow> None) None
      else if event = ''game:match:ready'' then
        actionRequest uuid kvs (map_option MatchReady (optField boolField kvs ''ready'')) None
      else if event = ''game:match:combat_done'' then matchRequest uuid kvs MatchCombatDone
      else if event = ''game:match:round_ready'' then matchRequest uuid kvs MatchRoundReady
      else if event = ''game:match:surrender'' then matchRequest uuid kvs MatchSurrender
      else None)"

text \<open>\<open>WsValidationPipe.transform\<close>: a payload that is no object counts as an empty one.\<close>

definition transform :: "(string \<Rightarrow> bool) \<Rightarrow> string \<Rightarrow> json option \<Rightarrow> Incoming result" where
  "transform uuid event payload =
     (let raw = (case asObj payload of Some kvs \<Rightarrow> kvs | None \<Rightarrow> [])
      in case decode uuid event raw of None \<Rightarrow> Inl ''invalid_payload'' | Some i \<Rightarrow> Inr i)"

subsection \<open>The rate limit\<close>

definition WINDOW_MS :: int where "WINDOW_MS = 1000"

text \<open>\<open>positiveInt\<close> of the number in \<open>WS_MSG_PER_SEC\<close>.\<close>

definition positiveIntOr :: "int option \<Rightarrow> int \<Rightarrow> int" where
  "positiveIntOr parsed fallback = (case parsed of Some n \<Rightarrow> if n > 0 then n else fallback | None \<Rightarrow> fallback)"

definition hitsKey :: "string \<Rightarrow> string" where "hitsKey userId = ''rate:ws:{'' @ userId @ ''}:hits''"

definition seqKey :: "string \<Rightarrow> string" where "seqKey userId = ''rate:ws:{'' @ userId @ ''}:seq''"

definition throttle :: "int \<Rightarrow> string \<Rightarrow> int \<Rightarrow> redis \<Rightarrow> bool \<times> redis" where
  "throttle limit userId now r =
     (let (recent, r') = wsRateLimit (hitsKey userId) (seqKey userId) WINDOW_MS now r in (\<not> int recent > limit, r'))"

subsection \<open>The gateway\<close>

datatype Direct =
    GameError string "string option"
  | Resume Payload
  | ResumeCombat string nat nat int "SnapEvent list"

record gateway =
  gw_bridge :: bridge
  gw_sockets :: "string \<rightharpoonup> string list"
  gw_matches :: "string \<rightharpoonup> string list"
  gw_user :: "string \<rightharpoonup> string"
  gw_superseded :: "string list"
  gw_connected :: "string list"
  gw_out :: "(string \<times> Direct) list"

definition emit :: "string \<Rightarrow> Direct \<Rightarrow> gateway \<Rightarrow> gateway" where
  "emit client d g = g\<lparr>gw_out := gw_out g @ [(client, d)]\<rparr>"

definition onBridge :: "(bridge \<Rightarrow> bridge) \<Rightarrow> gateway \<Rightarrow> gateway" where
  "onBridge f g = g\<lparr>gw_bridge := f (gw_bridge g)\<rparr>"

definition subscribeToMatch :: "string \<Rightarrow> string \<Rightarrow> gateway \<Rightarrow> gateway" where
  "subscribeToMatch client matchId g =
     (let g1 = onBridge (subscribe matchId client (gw_user g client)) g; ms = orEmpty (gw_matches g1 client)
      in g1\<lparr>gw_matches := (gw_matches g1)(client \<mapsto> if matchId \<in> set ms then ms else ms @ [matchId])\<rparr>)"

definition unsubscribeFromMatch :: "string \<Rightarrow> string \<Rightarrow> gateway \<Rightarrow> gateway" where
  "unsubscribeFromMatch client matchId g =
     (let g1 = onBridge (unsubscribe matchId client) g
      in g1\<lparr>gw_matches := (gw_matches g1)(client := map_option (filter (\<lambda>m. m \<noteq> matchId)) (gw_matches g1 client))\<rparr>)"

definition handleClientDisconnect :: "ports \<Rightarrow> string \<Rightarrow> world \<Rightarrow> world" where
  "handleClientDisconnect pt userId w =
     snd (andThen (leaveQueue userId) (\<lambda>_. handleDisconnect pt None userId) w)"

text \<open>The bookkeeping half of \<open>handleDisconnect\<close>.\<close>

definition forgetSocket :: "string \<Rightarrow> string \<Rightarrow> gateway \<Rightarrow> gateway" where
  "forgetSocket userId client g =
     (let rest = filter (\<lambda>s. s \<noteq> client) (orEmpty (gw_sockets g userId));
          g1 = g\<lparr>gw_sockets := (gw_sockets g)(userId := if rest = [] then None else Some rest),
                 gw_connected := filter (\<lambda>s. s \<noteq> client) (gw_connected g)\<rparr>;
          g2 = onBridge (unregisterUserSocket userId client) g1;
          g3 = onBridge (fold (\<lambda>m. unsubscribe m client) (orEmpty (gw_matches g client))) g2
      in g3\<lparr>gw_matches := (gw_matches g3)(client := None)\<rparr>)"

definition gwDisconnect :: "ports \<Rightarrow> string \<Rightarrow> gateway \<times> world \<Rightarrow> gateway \<times> world" where
  "gwDisconnect pt client gw =
     (case gw of (g, w) \<Rightarrow>
        (case gw_user g client of
           None \<Rightarrow> (g\<lparr>gw_connected := filter (\<lambda>s. s \<noteq> client) (gw_connected g)\<rparr>, w)
         | Some userId \<Rightarrow>
             (forgetSocket userId client g,
              if client \<in> set (gw_superseded g) then w else handleClientDisconnect pt userId w)))"

definition dedupePreviousSockets :: "ports \<Rightarrow> string \<Rightarrow> string \<Rightarrow> gateway \<times> world \<Rightarrow> gateway \<times> world" where
  "dedupePreviousSockets pt userId current gw =
     fold (\<lambda>old (g, w). if old = current then (g, w)
             else gwDisconnect pt old (g\<lparr>gw_superseded := old # gw_superseded g\<rparr>, w))
       (orEmpty (gw_sockets (fst gw) userId)) gw"

definition resumeActiveMatch :: "string \<Rightarrow> string \<Rightarrow> gateway \<times> world \<Rightarrow> gateway \<times> world" where
  "resumeActiveMatch client userId gw =
     (case gw of (g, w) \<Rightarrow>
        (case matches_findActiveByUserId userId w of
           None \<Rightarrow> (g, w)
         | Some match \<Rightarrow>
             if client \<notin> set (gw_connected g) then (g, w)
             else let g1 = subscribeToMatch client (mt_id match) g in
               (case statePayloadForUser (mt_id match) userId w of
                  (Inl _, w1) \<Rightarrow> (g1, w1)
                | (Inr state, w1) \<Rightarrow>
                    let g2 = emit client (Resume (StateEvent state)) g1 in
                    (case getCombatResultForReconnect (mt_id match) w1 of
                       (None, w2) \<Rightarrow> (g2, w2)
                     | (Some (rnd, events), w2) \<Rightarrow>
                         (emit client (ResumeCombat (mt_id match) rnd (cycleCountOf events) (w_now w2) events) g2, w2)))))"

definition handleConnection :: "ports \<Rightarrow> tokens \<Rightarrow> string option \<Rightarrow> string \<Rightarrow> gateway \<times> world \<Rightarrow> gateway \<times> world" where
  "handleConnection pt tk token client gw =
     (case authenticate tk token of
        Inl code \<Rightarrow>
          (case gw of (g, w) \<Rightarrow>
             gwDisconnect pt client (emit client (GameError code None) g, w))
      | Inr payload \<Rightarrow>
          (case gw of (g, w) \<Rightarrow>
             let userId = jw_sub payload;
                 g0 = g\<lparr>gw_user := (gw_user g)(client \<mapsto> userId), gw_connected := client # gw_connected g\<rparr>;
                 (g1, w1) = dedupePreviousSockets pt userId client (g0, w);
                 bucket = orEmpty (gw_sockets g1 userId);
                 g2 = g1\<lparr>gw_sockets := (gw_sockets g1)(userId \<mapsto> if client \<in> set bucket then bucket else bucket @ [client])\<rparr>;
                 g3 = onBridge (registerUserSocket userId client) g2
             in resumeActiveMatch client userId (g3, w1)))"

subsection \<open>Handling a message\<close>

definition coded :: "string \<Rightarrow> bool" where
  "coded e \<longleftrightarrow> CHR '' '' \<notin> set e"

text \<open>\<open>runHandler\<close>: a result is the acknowledgement, an error goes to the client as \<open>game:error\<close>.\<close>

definition runHandler :: "string \<Rightarrow> string option \<Rightarrow> (world \<Rightarrow> 'a result \<times> world) \<Rightarrow> gateway \<times> world \<Rightarrow> gateway \<times> world" where
  "runHandler client clientActionId operation gw =
     (case gw of (g, w) \<Rightarrow>
        (case operation w of
           (Inr _, w') \<Rightarrow> (g, w')
         | (Inl e, w') \<Rightarrow> (emit client (GameError (if coded e then e else ''internal'') clientActionId) g, w')))"

definition onMessage :: "ports \<Rightarrow> (string \<Rightarrow> bool) \<Rightarrow> int \<Rightarrow> string \<Rightarrow> string \<Rightarrow> json option \<Rightarrow> gateway \<times> world \<Rightarrow> gateway \<times> world" where
  "onMessage pt uuid limit client event payload gw =
     (case gw of (g, w) \<Rightarrow>
        (case gw_user g client of
           None \<Rightarrow> (g, w)
         | Some userId \<Rightarrow>
             let (pass, r) = throttle limit userId (w_now w) (w_redis w); w1 = w\<lparr>w_redis := r\<rparr>;
                 actionId = ge_clientActionId (wsCatch (WsError JNull []) payload)
             in if \<not> pass then (emit client (GameError ''rate.limited'' actionId) g, w1)
                else case transform uuid event payload of
                       Inl code \<Rightarrow> (emit client (GameError code actionId) g, w1)
                     | Inr QueueJoin \<Rightarrow> runHandler client None (joinQueue userId (w_now w1)) (g, w1)
                     | Inr QueueLeave \<Rightarrow> runHandler client None (leaveQueue userId) (g, w1)
                     | Inr (Act rq) \<Rightarrow>
                         runHandler client (Some (rq_clientActionId rq))
                           (handleAction pt userId (rq_action rq) (rq_round rq) (rq_clientActionId rq) (rq_matchId rq)) (g, w1)))"

end
