(* ===== verification/Messages.thy ===== *)
theory Messages
  imports Gateway
begin

text \<open>
  The types of the socket messages. The DTO classes of \<open>ws/ws.dto.ts\<close> say what a message of each event may carry;
  here that is a predicate on the decoded request, with the message a client sends for it. Validation accepts
  exactly what has the type, and a request survives the way over the wire.
\<close>

subsection \<open>Well-typed requests\<close>

fun action_typed :: "(string \<Rightarrow> bool) \<Rightarrow> RuntimeAction \<Rightarrow> bool" where
  "action_typed uuid (ShopBuy i) = (int i \<le> OFFER_INDEX_MAX)"
| "action_typed uuid (ShopSell src s) = (0 \<le> s \<and> s \<le> SLOT_MAX)"
| "action_typed uuid (ShopFuse u a b) = (pred_option uuid a \<and> pred_option uuid b)"
| "action_typed uuid (MatchPlace i t s) = (uuid i \<and> 0 \<le> s \<and> s \<le> SLOT_MAX)"
| "action_typed uuid _ = True"

fun typed :: "(string \<Rightarrow> bool) \<Rightarrow> Incoming \<Rightarrow> bool" where
  "typed uuid (Act rq) =
     (1 \<le> rq_round rq \<and> uuid (rq_clientActionId rq) \<and> action_typed uuid (rq_action rq)
      \<and> (case rq_matchId rq of None \<Rightarrow> \<not> namesMatch (rq_action rq) | Some m \<Rightarrow> namesMatch (rq_action rq) \<and> uuid m))"
| "typed uuid _ = True"

subsection \<open>What a client sends\<close>

fun actionEvent :: "RuntimeAction \<Rightarrow> string" where
  "actionEvent (ShopBuy _) = ''game:shop:buy''"
| "actionEvent (ShopSell _ _) = ''game:shop:sell''"
| "actionEvent ShopRefresh = ''game:shop:refresh''"
| "actionEvent (ShopFuse _ _ _) = ''game:shop:fuse''"
| "actionEvent (MatchPlace _ _ _) = ''game:match:place''"
| "actionEvent (MatchReady _) = ''game:match:ready''"
| "actionEvent MatchCombatDone = ''game:match:combat_done''"
| "actionEvent MatchRoundReady = ''game:match:round_ready''"
| "actionEvent MatchSurrender = ''game:match:surrender''"

fun incomingEvent :: "Incoming \<Rightarrow> string" where
  "incomingEvent QueueJoin = ''game:matchmaking:join''"
| "incomingEvent QueueLeave = ''game:matchmaking:leave''"
| "incomingEvent (Act rq) = actionEvent (rq_action rq)"

definition sourceName :: "Source \<Rightarrow> string" where
  "sourceName src = (case src of Board \<Rightarrow> ''board'' | Bench \<Rightarrow> ''bench'')"

definition optPair :: "string \<Rightarrow> ('a \<Rightarrow> json) \<Rightarrow> 'a option \<Rightarrow> jobj" where
  "optPair k f v = (case v of None \<Rightarrow> [] | Some x \<Rightarrow> [(k, f x)])"

fun actionFields :: "RuntimeAction \<Rightarrow> jobj" where
  "actionFields (ShopBuy i) = [(''offerIndex'', JNum (int i))]"
| "actionFields (ShopSell src s) = [(''source'', JStr (sourceName src)), (''slot'', JNum s)]"
| "actionFields (ShopFuse u a b) =
     (''unitId'', JStr (unitIdName u)) # optPair ''sourceInstanceId'' JStr a @ optPair ''targetInstanceId'' JStr b"
| "actionFields (MatchPlace i t s) =
     [(''unitInstanceId'', JStr i), (''target'', JStr (sourceName t)), (''slot'', JNum s)]"
| "actionFields (MatchReady ready) = optPair ''ready'' JBool ready"
| "actionFields _ = []"

fun incomingFields :: "Incoming \<Rightarrow> jobj" where
  "incomingFields (Act rq) =
     (''round'', JNum (int (rq_round rq))) # (''clientActionId'', JStr (rq_clientActionId rq))
       # optPair ''matchId'' JStr (rq_matchId rq) @ actionFields (rq_action rq)"
| "incomingFields _ = []"

subsection \<open>Validation is exact\<close>

lemmas field_simps' = intIn_def uuidField_def optField_def sourceField_def boolField_def getProp_def

lemma intIn_Some: "intIn kvs k lo hi = Some n \<longleftrightarrow>
    getProp kvs k = Some (JNum n) \<and> lo \<le> n \<and> (case hi of Some h \<Rightarrow> n \<le> h | None \<Rightarrow> True)"
  by (auto simp: intIn_def split: option.splits json.splits if_splits)

lemma uuidField_Some: "uuidField uuid kvs k = Some s \<longleftrightarrow> getProp kvs k = Some (JStr s) \<and> uuid s"
  by (auto simp: uuidField_def split: option.splits json.splits if_splits)

lemma optField_uuid: "optField (uuidField uuid) kvs k = Some a \<Longrightarrow> pred_option uuid a"
  by (auto simp: optField_def uuidField_Some split: option.splits json.splits)

lemma actionRequest_typed:
  assumes "actionRequest uuid kvs a m = Some i" and "\<And>x. a = Some x \<Longrightarrow> action_typed uuid x"
    and "\<And>x. a = Some x \<Longrightarrow> (case m of None \<Rightarrow> \<not> namesMatch x | Some k \<Rightarrow> namesMatch x \<and> uuid k)"
  shows "typed uuid i \<and> (\<exists>x. a = Some x \<and> incomingEvent i = actionEvent x)"
  using assms
  by (auto simp: actionRequest_def intIn_Some uuidField_Some nat_le_iff le_nat_iff split: option.splits)

lemma plainRequest_typed:
  assumes "actionRequest uuid kvs a None = Some i"
    and "\<And>x. a = Some x \<Longrightarrow> action_typed uuid x \<and> \<not> namesMatch x \<and> actionEvent x = event"
  shows "typed uuid i \<and> event = incomingEvent i"
proof -
  from assms(1) obtain x where "a = Some x" by (auto simp: actionRequest_def split: option.splits)
  with assms(2) actionRequest_typed [OF assms(1)] show ?thesis by auto
qed

lemma matchRequest_typed:
  assumes "matchRequest uuid kvs a = Some i" and "namesMatch a"
  shows "typed uuid i \<and> incomingEvent i = actionEvent a"
proof -
  from assms(1) obtain m where m: "uuidField uuid kvs ''matchId'' = Some m" "actionRequest uuid kvs (Some a) (Some m) = Some i"
    by (auto simp: matchRequest_def split: option.splits)
  have "action_typed uuid a" using assms(2) by (cases a) simp_all
  with actionRequest_typed [OF m(2)] m(1) assms(2) show ?thesis by (simp add: uuidField_Some)
qed

lemma decode_typed:
  assumes "decode uuid event kvs = Some i"
  shows "typed uuid i \<and> event = incomingEvent i"
proof -
  note plain = plainRequest_typed [where uuid = uuid and kvs = kvs and i = i]
  have buy: "typed uuid i \<and> ''game:shop:buy'' = incomingEvent i"
    if "actionRequest uuid kvs (map_option (\<lambda>i. ShopBuy (nat i)) (intIn kvs ''offerIndex'' 0 (Some OFFER_INDEX_MAX))) None = Some i"
    by (rule plain [OF that]) (auto simp: intIn_Some)
  have sell: "typed uuid i \<and> ''game:shop:sell'' = incomingEvent i"
    if "actionRequest uuid kvs (case (sourceField kvs ''source'', intIn kvs ''slot'' 0 (Some SLOT_MAX)) of
          (Some src, Some s) \<Rightarrow> Some (ShopSell src s) | _ \<Rightarrow> None) None = Some i"
    by (rule plain [OF that]) (auto simp: intIn_Some split: option.splits)
  have refresh: "typed uuid i \<and> ''game:shop:refresh'' = incomingEvent i" if "actionRequest uuid kvs (Some ShopRefresh) None = Some i"
    by (rule plain [OF that]) auto
  have fuse: "typed uuid i \<and> ''game:shop:fuse'' = incomingEvent i"
    if "actionRequest uuid kvs (case (isUnitId (getProp kvs ''unitId''), optField (uuidField uuid) kvs ''sourceInstanceId'',
            optField (uuidField uuid) kvs ''targetInstanceId'') of
          (Some u, Some a, Some b) \<Rightarrow> Some (ShopFuse u a b) | _ \<Rightarrow> None) None = Some i"
    by (rule plain [OF that]) (auto split: option.splits dest!: optField_uuid)
  have place: "typed uuid i \<and> ''game:match:place'' = incomingEvent i"
    if "actionRequest uuid kvs (case (uuidField uuid kvs ''unitInstanceId'', sourceField kvs ''target'',
            intIn kvs ''slot'' 0 (Some SLOT_MAX)) of
          (Some i, Some t, Some s) \<Rightarrow> Some (MatchPlace i t s) | _ \<Rightarrow> None) None = Some i"
    by (rule plain [OF that]) (auto simp: intIn_Some uuidField_Some split: option.splits)
  have ready: "typed uuid i \<and> ''game:match:ready'' = incomingEvent i"
    if "actionRequest uuid kvs (map_option MatchReady (optField boolField kvs ''ready'')) None = Some i"
    by (rule plain [OF that]) auto
  from assms buy sell refresh fuse place ready
    matchRequest_typed [of uuid kvs MatchCombatDone i] matchRequest_typed [of uuid kvs MatchRoundReady i]
    matchRequest_typed [of uuid kvs MatchSurrender i]
  show ?thesis
    unfolding decode_def by (simp only: split: if_splits) auto
qed

lemma sourceField_name: "getProp kvs k = Some (JStr (sourceName t)) \<Longrightarrow> sourceField kvs k = Some t"
  by (cases t) (simp_all add: sourceField_def sourceName_def)

lemma optField_pair:
  "getProp kvs k = map_option JStr a \<Longrightarrow> pred_option uuid a \<Longrightarrow> optField (uuidField uuid) kvs k = Some a"
  "getProp kvs k = map_option JBool b \<Longrightarrow> optField boolField kvs k = Some b"
  by (cases a; simp add: optField_def uuidField_def) (cases b; simp add: optField_def boolField_def)

lemma optPair_get [simp]:
  "map_of (optPair k f v) k' = (if k' = k then map_option f v else None)"
  by (simp add: optPair_def split: option.split)

lemma optPair_none [simp]: "optPair k f None = []"
  by (simp add: optPair_def)

lemma encode_decode:
  assumes "typed uuid i"
  shows "decode uuid (incomingEvent i) (incomingFields i) = Some i"
proof (cases i)
  case (Act rq)
  obtain a r c m where rq: "rq = \<lparr>rq_action = a, rq_round = r, rq_clientActionId = c, rq_matchId = m\<rparr>" by (cases rq)
  have head: "intIn (incomingFields i) ''round'' 1 None = Some (int r)" "uuidField uuid (incomingFields i) ''clientActionId'' = Some c"
    using assms by (simp_all add: Act rq intIn_Some uuidField_Some getProp_def)
  then have request: "actionRequest uuid (incomingFields i) (Some a) m = Some i"
    by (simp add: actionRequest_def Act rq)
  have plain: "m = None" if "\<not> namesMatch a" using assms that by (auto simp: Act rq split: option.splits)
  have named: "matchRequest uuid (incomingFields i) a = Some i" if "namesMatch a"
  proof -
    from assms that obtain k where "m = Some k" "uuid k" by (auto simp: Act rq split: option.splits)
    then have "uuidField uuid (incomingFields i) ''matchId'' = Some k"
      by (simp add: uuidField_Some Act rq getProp_def)
    with request \<open>m = Some k\<close> show ?thesis by (simp add: matchRequest_def)
  qed
  show ?thesis
  proof (cases a)
    case (ShopBuy n)
    with assms have "intIn (incomingFields i) ''offerIndex'' 0 (Some OFFER_INDEX_MAX) = Some (int n)"
      by (simp add: Act rq intIn_Some getProp_def plain)
    with request plain ShopBuy show ?thesis by (simp add: Act rq decode_def)
  next
    case (ShopSell src s)
    with assms have "intIn (incomingFields i) ''slot'' 0 (Some SLOT_MAX) = Some s" "sourceField (incomingFields i) ''source'' = Some src"
      by (simp_all add: Act rq intIn_Some getProp_def plain sourceField_name)
    with request plain ShopSell show ?thesis by (simp add: Act rq decode_def)
  next
    case ShopRefresh
    with request plain show ?thesis by (simp add: Act rq decode_def)
  next
    case (ShopFuse u x y)
    with assms have "getProp (incomingFields i) ''unitId'' = Some (JStr (unitIdName u))"
      by (simp add: Act rq getProp_def plain)
    then have "isUnitId (getProp (incomingFields i) ''unitId'') = Some u" by (simp only: isUnitId_name)
    moreover from ShopFuse assms have "optField (uuidField uuid) (incomingFields i) ''sourceInstanceId'' = Some x"
        "optField (uuidField uuid) (incomingFields i) ''targetInstanceId'' = Some y"
      by (auto simp: Act rq getProp_def plain map_add_def intro!: optField_pair split: option.split)
    ultimately show ?thesis using request plain ShopFuse by (simp add: Act rq decode_def)
  next
    case (MatchPlace k t s)
    with assms have "uuidField uuid (incomingFields i) ''unitInstanceId'' = Some k"
        "intIn (incomingFields i) ''slot'' 0 (Some SLOT_MAX) = Some s" "sourceField (incomingFields i) ''target'' = Some t"
      by (simp_all add: Act rq intIn_Some uuidField_Some getProp_def plain sourceField_name)
    with request plain MatchPlace show ?thesis by (simp add: Act rq decode_def)
  next
    case (MatchReady b)
    then have "optField boolField (incomingFields i) ''ready'' = Some b"
      by (intro optField_pair) (simp add: Act rq getProp_def plain)
    with request plain MatchReady show ?thesis by (simp add: Act rq decode_def)
  qed (use named in \<open>simp_all add: Act rq decode_def\<close>)
qed (simp_all add: decode_def)

text \<open>
  C28: Every message that passes validation has the type of its event, and every request of that type passes. Accepted
  means: one of the eleven events, a round from 1, ids that are UUIDs, an offer index from 0 to 4, a slot from 0 to 8,
  a known unit, board or bench, and a match id exactly for the three events that name their match; and what a client
  sends for such a request is decoded to that request.
\<close>

theorem validation_is_exact:
  "(decode uuid event kvs = Some i \<longrightarrow> typed uuid i \<and> event = incomingEvent i)
   \<and> (typed uuid i \<longrightarrow> transform uuid (incomingEvent i) (Some (JObj (incomingFields i))) = Inr i)"
  using decode_typed [of uuid event kvs i] encode_decode [of uuid i]
  by (auto simp: transform_def)

lemma validation_is_exact_witness:
  "decode (\<lambda>s. s = ''u'') ''game:shop:sell'' [(''slot'', JNum 8), (''source'', JStr ''board''), (''round'', JNum 1),
      (''clientActionId'', JStr ''u''), (''extra'', JNull)]
     = Some (Act \<lparr>rq_action = ShopSell Board 8, rq_round = 1, rq_clientActionId = ''u'', rq_matchId = None\<rparr>)
   \<and> typed (\<lambda>s. s = ''u'') (Act \<lparr>rq_action = ShopSell Board 8, rq_round = 1, rq_clientActionId = ''u'', rq_matchId = None\<rparr>)
   \<and> decode (\<lambda>s. s = ''u'') ''game:shop:sell'' [(''slot'', JNum 9), (''source'', JStr ''board''), (''round'', JNum 1),
      (''clientActionId'', JStr ''u'')] = None"
proof -
  have "decode (\<lambda>s. s = ''u'') ''game:shop:sell'' [(''slot'', JNum 8), (''source'', JStr ''board''), (''round'', JNum 1),
      (''clientActionId'', JStr ''u''), (''extra'', JNull)]
     = Some (Act \<lparr>rq_action = ShopSell Board 8, rq_round = 1, rq_clientActionId = ''u'', rq_matchId = None\<rparr>)"
    "decode (\<lambda>s. s = ''u'') ''game:shop:sell'' [(''slot'', JNum 9), (''source'', JStr ''board''), (''round'', JNum 1),
      (''clientActionId'', JStr ''u'')] = None" by code_simp+
  with validation_is_exact show ?thesis by blast
qed

text \<open>A message that is not valid reaches no service: the sender is told, and nothing but the rate limit has counted it.\<close>

lemma invalid_message_inert:
  assumes "transform uuid event payload = Inl code" and "onMessage pt uuid limit c event payload (g, w) = (g', w')"
  shows "\<exists>r. w' = w\<lparr>w_redis := r\<rparr>" and "gw_sockets g' = gw_sockets g \<and> gw_user g' = gw_user g \<and> gw_bridge g' = gw_bridge g"
proof -
  have "(\<exists>r. w' = w\<lparr>w_redis := r\<rparr>) \<and> gw_sockets g' = gw_sockets g \<and> gw_user g' = gw_user g \<and> gw_bridge g' = gw_bridge g"
  proof (cases "gw_user g c")
    case None
    with assms(2) have "w' = w\<lparr>w_redis := w_redis w\<rparr>" "g' = g" by (simp_all add: onMessage_def)
    then show ?thesis by blast
  next
    case (Some u)
    obtain pass r where "throttle limit u (w_now w) (w_redis w) = (pass, r)" by fastforce
    with assms Some show ?thesis by (auto simp: onMessage_def Let_def emit_def split: if_splits)
  qed
  then show "\<exists>r. w' = w\<lparr>w_redis := r\<rparr>" and "gw_sockets g' = gw_sockets g \<and> gw_user g' = gw_user g \<and> gw_bridge g' = gw_bridge g"
    by blast+
qed

end
