(* ===== verification/Rest.thy ===== *)
theory Rest
  imports Auth Errors Room_Props
begin

text \<open>
  The REST edge: the controllers of \<open>auth/\<close>, \<open>user/\<close>, \<open>match/\<close> and \<open>room/\<close> with their routes, guards, DTOs and
  status codes. A request goes through the guard of its controller, then through the validation of its
  input, then to one service call; what that throws goes through \<open>AllExceptionsFilter\<close>.

  The validators of class-validator that are not plain comparisons (\<open>isEmail\<close>, \<open>isJWT\<close>, \<open>isUUID\<close>) and the
  bodies that NestJS gives its own exceptions are arguments. The body of a request is the object the body
  parser delivers, the empty object when there is none.
\<close>

subsection \<open>Routes\<close>

datatype Route =
    PostRegister | PostLogin | PostRefresh
  | GetMe | GetMyStats | PatchMe
  | GetLeaderboard
  | GetHistory | GetMatch string
  | PostRoom | GetRoom | PostJoin | PostLeave | PostStart

text \<open>
  The decorators of the controllers, in the order in which the routes are registered: \<open>match/history\<close>
  comes before \<open>match/:matchId\<close>, which would match it too.
\<close>

definition authRoutes :: "string \<Rightarrow> string list \<Rightarrow> Route option" where
  "authRoutes verb path =
     (if verb = ''POST'' \<and> path = [''auth'', ''register''] then Some PostRegister
      else if verb = ''POST'' \<and> path = [''auth'', ''login''] then Some PostLogin
      else if verb = ''POST'' \<and> path = [''auth'', ''refresh''] then Some PostRefresh
      else None)"

definition userRoutes :: "string \<Rightarrow> string list \<Rightarrow> Route option" where
  "userRoutes verb path =
     (if verb = ''GET'' \<and> path = [''user'', ''me''] then Some GetMe
      else if verb = ''GET'' \<and> path = [''user'', ''me'', ''stats''] then Some GetMyStats
      else if verb = ''PATCH'' \<and> path = [''user'', ''me''] then Some PatchMe
      else if verb = ''GET'' \<and> path = [''leaderboard''] then Some GetLeaderboard
      else None)"

definition matchRoutes :: "string \<Rightarrow> string list \<Rightarrow> Route option" where
  "matchRoutes verb path =
     (if verb = ''GET'' \<and> path = [''match'', ''history''] then Some GetHistory
      else case path of
             [c, matchId] \<Rightarrow> if verb = ''GET'' \<and> c = ''match'' then Some (GetMatch matchId) else None
           | _ \<Rightarrow> None)"

definition roomRoutes :: "string \<Rightarrow> string list \<Rightarrow> Route option" where
  "roomRoutes verb path =
     (if verb = ''POST'' \<and> path = [''rooms''] then Some PostRoom
      else if verb = ''GET'' \<and> path = [''rooms'', ''mine''] then Some GetRoom
      else if verb = ''POST'' \<and> path = [''rooms'', ''join''] then Some PostJoin
      else if verb = ''POST'' \<and> path = [''rooms'', ''leave''] then Some PostLeave
      else if verb = ''POST'' \<and> path = [''rooms'', ''start''] then Some PostStart
      else None)"

definition routeOf :: "string \<Rightarrow> string list \<Rightarrow> Route option" where
  "routeOf verb path =
     orElse (authRoutes verb path) (orElse (userRoutes verb path) (orElse (matchRoutes verb path) (roomRoutes verb path)))"

text \<open>The controllers with \<open>@UseGuards(JwtAccessGuard)\<close>: all but \<open>AuthController\<close>.\<close>

definition guarded :: "Route \<Rightarrow> bool" where
  "guarded r \<longleftrightarrow> r \<notin> {PostRegister, PostLogin, PostRefresh}"

text \<open>NestJS answers a POST with 201 and the other methods with 200; login and refresh override it.\<close>

definition okStatus :: "Route \<Rightarrow> nat" where
  "okStatus r = (if r \<in> {PostRegister, PostRoom, PostJoin, PostLeave, PostStart} then 201 else 200)"

subsection \<open>Input\<close>

record libs =
  lb_isEmail :: "string \<Rightarrow> bool"
  lb_isJwt :: "string \<Rightarrow> bool"
  lb_isUuid4 :: "string \<Rightarrow> bool"
  lb_invalidBody :: "jobj \<Rightarrow> json"
  lb_invalidParam :: "string \<Rightarrow> json"

definition strField :: "jobj \<Rightarrow> string \<Rightarrow> string option" where
  "strField body k = asStr (getProp body k)"

definition loginDto :: "libs \<Rightarrow> jobj \<Rightarrow> (string \<times> string) option" where
  "loginDto lb body =
     (case (strField body ''email'', strField body ''password'') of
        (Some email, Some password) \<Rightarrow>
          if lb_isEmail lb email \<and> 1 \<le> length password then Some (email, password) else None
      | _ \<Rightarrow> None)"

definition registerDto :: "libs \<Rightarrow> jobj \<Rightarrow> (string \<times> string \<times> string) option" where
  "registerDto lb body =
     (case (strField body ''email'', strField body ''username'', strField body ''password'') of
        (Some email, Some username, Some password) \<Rightarrow>
          if lb_isEmail lb email \<and> registerValid username password then Some (email, username, password) else None
      | _ \<Rightarrow> None)"

definition refreshDto :: "libs \<Rightarrow> jobj \<Rightarrow> string option" where
  "refreshDto lb body =
     Option.bind (strField body ''refreshToken'') (\<lambda>t. if lb_isJwt lb t then Some t else None)"

definition nameValid :: "string \<Rightarrow> bool" where
  "nameValid username \<longleftrightarrow> 3 \<le> length username \<and> length username \<le> 20 \<and> list_all nameChar username"

definition updateUserDto :: "jobj \<Rightarrow> string option" where
  "updateUserDto body = Option.bind (strField body ''username'') (\<lambda>u. if nameValid u then Some u else None)"

definition roomJoinDto :: "jobj \<Rightarrow> string option" where
  "roomJoinDto body = Option.bind (strField body ''code'') (\<lambda>c. if c \<noteq> [] then Some c else None)"

text \<open>
  \<open>Number(s)\<close> followed by \<open>IsInt\<close>: the integer that the literal \<open>s\<close> denotes, if it denotes one. A literal
  is surrounded by white space at most and is empty (0), hexadecimal, octal or binary, or decimal with a sign, a
  fraction and an exponent; what rounds to \<open>Infinity\<close> is no integer. Digits beyond the precision of a
  double are not rounded.
\<close>

definition digitValue :: "char \<Rightarrow> nat" where
  "digitValue c =
     (let n = of_char c :: nat in
      if 48 \<le> n \<and> n \<le> 57 then n - 48
      else if 65 \<le> n \<and> n \<le> 90 then n - 55
      else if 97 \<le> n \<and> n \<le> 122 then n - 87
      else 36)"

definition digitsOf :: "nat \<Rightarrow> string \<Rightarrow> int option" where
  "digitsOf b s =
     (if s \<noteq> [] \<and> list_all (\<lambda>c. digitValue c < b) s
      then Some (int (foldl (\<lambda>n c. b * n + digitValue c) 0 s)) else None)"

text \<open>A sign in front, and what follows it.\<close>

definition signed :: "(string \<Rightarrow> int option) \<Rightarrow> string \<Rightarrow> int option" where
  "signed f s =
     (case s of
        [] \<Rightarrow> f []
      | c # cs \<Rightarrow> if c = CHR ''-'' then map_option uminus (f cs) else if c = CHR ''+'' then f cs else f s)"

text \<open>\<open>m\<close> divided by \<open>10 ^ k\<close>, or multiplied for negative \<open>k\<close>, when that is an integer.\<close>

definition scaled :: "int \<Rightarrow> int \<Rightarrow> int option" where
  "scaled m k =
     (if k \<le> 0 then Some (m * 10 ^ nat (- k)) else if m mod 10 ^ nat k = 0 then Some (m div 10 ^ nat k) else None)"

definition decimalInt :: "string \<Rightarrow> int option" where
  "decimalInt s =
     (let isE = (\<lambda>c. c = CHR ''e'' \<or> c = CHR ''E'');
          mant = takeWhile (\<lambda>c. \<not> isE c) s;
          expo = dropWhile (\<lambda>c. \<not> isE c) s;
          whole = takeWhile (\<lambda>c. c \<noteq> CHR ''.'') mant;
          frac = drop 1 (dropWhile (\<lambda>c. c \<noteq> CHR ''.'') mant)
      in case (digitsOf 10 (whole @ frac), if expo = [] then Some 0 else signed (digitsOf 10) (drop 1 expo)) of
           (Some m, Some e) \<Rightarrow> scaled m (int (length frac) - e)
         | _ \<Rightarrow> None)"

definition queryInt :: "string \<Rightarrow> int option" where
  "queryInt raw =
     (let s = trim raw; b = map toLower (take 2 s);
          n = (if s = [] then Some 0
               else if b = ''0x'' then digitsOf 16 (drop 2 s)
               else if b = ''0o'' then digitsOf 8 (drop 2 s)
               else if b = ''0b'' then digitsOf 2 (drop 2 s)
               else signed decimalInt s)
      in Option.bind n (\<lambda>v. if \<bar>v\<bar> < 2 ^ 1024 - 2 ^ 970 then Some v else None))"

definition LEADERBOARD_DEFAULT_LIMIT :: nat where "LEADERBOARD_DEFAULT_LIMIT = 20"

definition LEADERBOARD_DEFAULT_OFFSET :: nat where "LEADERBOARD_DEFAULT_OFFSET = 0"

definition LEADERBOARD_MAX_LIMIT :: nat where "LEADERBOARD_MAX_LIMIT = 100"

text \<open>A parameter that is absent keeps the default of its property.\<close>

definition leaderboardQueryDto :: "(string \<rightharpoonup> string) \<Rightarrow> (nat \<times> nat) option" where
  "leaderboardQueryDto query =
     (let limit = (case query ''limit'' of None \<Rightarrow> Some (int LEADERBOARD_DEFAULT_LIMIT) | Some s \<Rightarrow> queryInt s);
          offset = (case query ''offset'' of None \<Rightarrow> Some (int LEADERBOARD_DEFAULT_OFFSET) | Some s \<Rightarrow> queryInt s)
      in case (limit, offset) of
           (Some l, Some off) \<Rightarrow>
             if 1 \<le> l \<and> l \<le> int LEADERBOARD_MAX_LIMIT \<and> 0 \<le> off then Some (nat l, nat off) else None
         | _ \<Rightarrow> None)"

subsection \<open>Exceptions\<close>

text \<open>
  What a handler throws. NestJS gives an exception constructed with a message the response
  \<open>{ message, error, statusCode }\<close>; one constructed with an object has the object as its response.
\<close>

definition reasonPhrase :: "nat \<Rightarrow> string" where
  "reasonPhrase status =
     (case map_of [(400, ''Bad Request''), (401, ''Unauthorized''), (403, ''Forbidden''), (404, ''Not Found''),
        (409, ''Conflict''), (503, ''Service Unavailable'')] status of Some p \<Rightarrow> p | None \<Rightarrow> [])"

definition withMessage :: "nat \<Rightarrow> string \<Rightarrow> Exception" where
  "withMessage status m =
     HttpError status (JObj [(''message'', JStr m), (''error'', JStr (reasonPhrase status)), (''statusCode'', JNum (int status))]) m"

definition withCode :: "nat \<Rightarrow> string \<Rightarrow> string \<Rightarrow> Exception" where
  "withCode status code m = HttpError status (JObj [(''code'', JStr code), (''message'', JStr m)]) m"

text \<open>\<open>AuthService\<close>: a unique violation it names is a 409, other database errors pass through.\<close>

definition registerError :: "string \<Rightarrow> Exception" where
  "registerError e =
     (if e \<in> {''email already in use'', ''username already in use'', ''field already in use''}
      then withMessage 409 e else JsError None e)"

definition renameError :: "string \<Rightarrow> string \<Rightarrow> Exception" where
  "renameError uid e =
     (if e = ''username already in use'' then withMessage 409 e
      else if e = ''user not found'' then withMessage 404 (''user '' @ uid @ '' not found'')
      else withMessage 404 (''user '' @ uid @ '' not found after update''))"

definition matchError :: "string \<Rightarrow> string \<Rightarrow> Exception" where
  "matchError matchId e =
     (if e = ''match.not_found'' then withCode 404 e (''Match '' @ matchId @ '' not found'')
      else withCode 403 e ''You are not a participant in this match'')"

text \<open>
  \<open>RoomService\<close>. Two texts depend on the place: \<open>missing\<close> is the one for a room that is not found, \<open>queued\<close>
  what a caller in the queue cannot do. Other errors are those of the database.
\<close>

definition roomErrors :: "string \<Rightarrow> string \<Rightarrow> (string \<times> nat \<times> string) list" where
  "roomErrors missing queued =
     [(''room.already_in_room'', 409, ''You are already in a room''),
      (''match.already_active'', 409, ''You already have an active match''),
      (''room.in_matchmaking_queue'', 409, ''Leave the matchmaking queue before '' @ queued @ '' a room''),
      (''room.not_in_room'', 404, ''You are not currently in a room''),
      (''room.not_found'', 404, missing),
      (''room.invalid_code'', 400, ''Room code must be 6 characters A-Z/2-9''),
      (''room.full'', 409, ''Room already has two players''),
      (''room.not_waiting'', 409, ''Room is no longer accepting players''),
      (''room.owner_cannot_join'', 400, ''The room owner is already in the room''),
      (''room.join_failed'', 503, ''Could not join the room, please retry''),
      (''room.owner_only'', 403, ''Only the room owner can start the match''),
      (''room.not_full'', 409, ''A guest must join before the match can start''),
      (''room.match_starting'', 409, ''Match creation already in progress, please retry''),
      (''room.code_unavailable'', 503, ''Could not allocate a room code, please retry'')]"

definition roomError :: "string \<Rightarrow> string \<Rightarrow> string \<Rightarrow> Exception" where
  "roomError missing queued e =
     (case map_of (roomErrors missing queued) e of
        Some (status, m) \<Rightarrow> withCode status e m
      | None \<Rightarrow> JsError None e)"

text \<open>Joining tells a code that no room has from a room that has gone since.\<close>

definition missingText :: "string \<Rightarrow> world \<Rightarrow> string" where
  "missingText rawCode w =
     (if truthy (getString (roomCodeKey (map toUpper (trim rawCode))) (w_redis w))
      then ''Room no longer exists'' else ''No room exists for this code'')"

subsection \<open>Handlers\<close>

datatype RestBody =
    SessionBody AuthResponse
  | AccountBody UserDto
  | StatsBody PlayerStats
  | BoardBody LeaderboardResponse
  | HistoryBody "MatchHistoryDto list"
  | DetailBody MatchDetailDto
  | NamedRoomBody "RoomView \<times> string option \<times> string option"
  | RoomBody RoomView
  | LeftBody "RoomView option"

datatype RestReply = Served nat RestBody | Refused reply

record httpRequest =
  hq_authorization :: "string option"
  hq_query :: "string \<rightharpoonup> string"
  hq_body :: jobj

text \<open>
  What a replica has at hand: the libraries, the ports of the match runtime, the rows of the read
  replica, whether the caches can be read and written, and the random values drawn for this request.
\<close>

record restEnv =
  rv_libs :: libs
  rv_tokens :: tokens
  rv_ports :: ports
  rv_replica :: "Match list \<times> MatchRound list \<times> UserRow list"
  rv_getUp :: bool
  rv_setUp :: bool
  rv_retryEnv :: int
  rv_newId :: string
  rv_seed :: string
  rv_claim :: string
  rv_codes :: "string list"

definition refuse :: "restEnv \<Rightarrow> Exception \<Rightarrow> world \<Rightarrow> RestReply \<times> world" where
  "refuse env e w = (Refused (restCatch (rv_retryEnv env) e), w)"

definition answer :: "restEnv \<Rightarrow> nat \<Rightarrow> (string \<Rightarrow> Exception) \<Rightarrow> ('a \<Rightarrow> RestBody) \<Rightarrow> 'a result \<times> world \<Rightarrow> RestReply \<times> world" where
  "answer env status exc body res =
     (case res of
        (Inl e, w) \<Rightarrow> refuse env (exc e) w
      | (Inr x, w) \<Rightarrow> (Served status (body x), w))"

text \<open>The global \<open>ValidationPipe\<close>.\<close>

definition validated :: "restEnv \<Rightarrow> jobj \<Rightarrow> 'a option \<Rightarrow> ('a \<Rightarrow> world \<Rightarrow> RestReply \<times> world) \<Rightarrow> world \<Rightarrow> RestReply \<times> world" where
  "validated env input dto f w =
     (case dto of
        None \<Rightarrow> refuse env (HttpError 400 (lb_invalidBody (rv_libs env) input) ''Bad Request Exception'') w
      | Some d \<Rightarrow> f d w)"

definition authController :: "restEnv \<Rightarrow> Route \<Rightarrow> httpRequest \<Rightarrow> world \<Rightarrow> RestReply \<times> world" where
  "authController env r rq w =
     (let tk = rv_tokens env; lb = rv_libs env; body = hq_body rq in
      if r = PostRegister then
        validated env body (registerDto lb body) (\<lambda>(email, username, password) w.
          answer env (okStatus r) registerError SessionBody (register tk (rv_newId env) email username password w)) w
      else if r = PostLogin then
        validated env body (loginDto lb body) (\<lambda>(email, password) w.
          answer env (okStatus r) (withMessage 401) SessionBody (login tk email password w, w)) w
      else
        validated env body (refreshDto lb body) (\<lambda>t w.
          answer env (okStatus r) (withMessage 401) SessionBody (refreshTokens tk t w, w)) w)"

text \<open>The string pairs of a query, as the validation pipe reports them.\<close>

definition queryObj :: "(string \<rightharpoonup> string) \<Rightarrow> jobj" where
  "queryObj q = concat (map (\<lambda>k. case q k of Some s \<Rightarrow> [(k, JStr s)] | None \<Rightarrow> []) [''limit'', ''offset''])"

definition userController :: "restEnv \<Rightarrow> Route \<Rightarrow> httpRequest \<Rightarrow> JwtPayload \<Rightarrow> world \<Rightarrow> RestReply \<times> world" where
  "userController env r rq jwt w =
     (let (ms, rounds, us) = rv_replica env in
      if r = GetMe then answer env (okStatus r) (withMessage 409) AccountBody (me jwt w, w)
      else if r = GetMyStats then
        (let (s, w') = getStats (rv_getUp env) (rv_setUp env) ms us (jw_sub jwt) w in (Served (okStatus r) (StatsBody s), w'))
      else if r = PatchMe then
        validated env (hq_body rq) (updateUserDto (hq_body rq)) (\<lambda>username w.
          answer env (okStatus r) (renameError (jw_sub jwt)) AccountBody (updateMe jwt username w)) w
      else
        validated env (queryObj (hq_query rq)) (leaderboardQueryDto (hq_query rq)) (\<lambda>(limit, offset) w.
          answer env (okStatus r) (withMessage 409) BoardBody
            (getLeaderboard (rv_getUp env) (rv_setUp env) us (jw_sub jwt) limit offset w)) w)"

definition matchController :: "restEnv \<Rightarrow> Route \<Rightarrow> JwtPayload \<Rightarrow> world \<Rightarrow> RestReply \<times> world" where
  "matchController env r jwt w =
     (let (ms, rounds, us) = rv_replica env in
      case r of
        GetMatch matchId \<Rightarrow>
          if \<not> lb_isUuid4 (rv_libs env) matchId
          then refuse env (HttpError 400 (lb_invalidParam (rv_libs env) matchId) ''Bad Request Exception'') w
          else answer env (okStatus r) (matchError matchId) DetailBody (getDetail ms rounds us matchId (jw_sub jwt), w)
      | _ \<Rightarrow> (Served (okStatus r) (HistoryBody (getHistory ms rounds us (jw_sub jwt))), w))"

definition roomController :: "restEnv \<Rightarrow> Route \<Rightarrow> httpRequest \<Rightarrow> JwtPayload \<Rightarrow> world \<Rightarrow> RestReply \<times> world" where
  "roomController env r rq jwt w =
     (let u = jw_sub jwt; gone = ''Room no longer exists''; joining = roomError gone ''joining'';
          named = (\<lambda>(res, w'). (map_sum id (\<lambda>room. withNames room w') res, w')) in
      if r = PostRoom then
        answer env (okStatus r) (roomError gone ''creating'') NamedRoomBody (named (createRoom (rv_newId env) (rv_codes env) u w))
      else if r = GetRoom then answer env (okStatus r) joining NamedRoomBody (named (getMyRoom u w))
      else if r = PostJoin then
        validated env (hq_body rq) (roomJoinDto (hq_body rq)) (\<lambda>code w.
          answer env (okStatus r) (roomError (missingText code w) ''joining'') NamedRoomBody (named (joinRoom u code w))) w
      else if r = PostLeave then answer env (okStatus r) joining LeftBody (leaveRoom u w)
      else answer env (okStatus r) joining RoomBody
             (startRoomForOwner (rv_ports env) (rv_newId env) (rv_seed env) (rv_claim env) u w))"

text \<open>The guard comes first, then the pipes, then the handler.\<close>

definition rest :: "restEnv \<Rightarrow> Route \<Rightarrow> httpRequest \<Rightarrow> world \<Rightarrow> RestReply \<times> world" where
  "rest env r rq w =
     (if \<not> guarded r then authController env r rq w
      else case jwtAccess (rv_tokens env) (hq_authorization rq) of
             Inl e \<Rightarrow> refuse env (withMessage 401 e) w
           | Inr jwt \<Rightarrow>
               if r \<in> {GetMe, GetMyStats, PatchMe, GetLeaderboard} then userController env r rq jwt w
               else if r \<in> {PostRoom, GetRoom, PostJoin, PostLeave, PostStart} then roomController env r rq jwt w
               else matchController env r jwt w)"

subsection \<open>What a request may change\<close>

text \<open>The service calls of the room routes touch no table, except that a start may add a match.\<close>

lemma with_redis_tables [simp]: "database (w\<lparr>w_redis := r\<rparr>) = database w"
  by (simp add: database_def)

lemma claimCode_tables: "claimCode cs i w = (res, w') \<Longrightarrow> database w' = database w"
  by (induction cs arbitrary: w) (auto simp: setNx_def Let_def split: prod.splits if_splits)

lemma createBody_tables: "createBody i codes u w = (res, w') \<Longrightarrow> database w' = database w"
  by (auto simp: createBody_def andThen_def guard_def Let_def dest: claimCode_tables split: prod.splits sum.splits if_splits)

lemma createRoom_tables [simp]: "database (snd (createRoom i codes u w)) = database w"
  by (auto simp: createRoom_def Let_def dest: createBody_tables split: prod.splits sum.splits)

lemma getMyRoom_tables [simp]: "database (snd (getMyRoom u w)) = database w"
  by (simp add: getMyRoom_def Let_def split: option.split)

lemma joinRoom_tables [simp]: "database (snd (joinRoom u c w)) = database w"
  by (simp add: joinRoom_def Let_def split: option.split prod.split sum.split)

lemma leaveRoom_tables [simp]: "database (snd (leaveRoom u w)) = database w"
  by (simp add: leaveRoom_def Let_def loadRoom_def modify_def ret_def andThen_def split: option.split prod.split sum.split)

lemma finishRoom_ok: "finishRoomMatch v m w = (res, w') \<Longrightarrow> database w' = database w \<and> (\<forall>e. res \<noteq> Inl e)"
  by (auto simp: finishRoomMatch_def Let_def split: prod.splits)

lemma createPlayers_tables:
  assumes "createMatchForPlayers pt n seed p q w = (res, w')"
  obtains new where "w_matches w' = w_matches w @ new" "length new \<le> 1" "\<forall>m \<in> set new. mt_player1Id m = p \<and> mt_player2Id m = q"
    "w_rounds w' = w_rounds w" "w_users w' = w_users w"
proof -
  have init: "database (snd (initializeMatch pt m v)) = database v" for m v
    by (simp add: initializeMatch_def Let_def rollOffersForMatch_def resetShop_def publishOffers_def
        publishState_def schedulePhaseStart_def)
  show ?thesis
  proof (cases "createMatch n seed p q w")
    case (Pair made w1)
    show ?thesis
    proof (cases made)
      case (Inl e)
      with Pair assms have "w' = w" by (simp add: createMatchForPlayers_def createMatch_def matches_create_def Let_def split: if_splits)
      then show ?thesis using that [of "[]"] by simp
    next
      case (Inr m)
      with Pair have m: "w_matches w1 = w_matches w @ [m]" "mt_player1Id m = p" "mt_player2Id m = q"
          "w_rounds w1 = w_rounds w" "w_users w1 = w_users w"
        by (auto simp: createMatch_def matches_create_def Let_def split: if_splits)
      have "w' = snd (initializeMatch pt m w1)"
        using assms Pair Inr initialize_ok [of pt m w1]
        by (simp add: createMatchForPlayers_def andThen_def ret_def split: prod.splits sum.splits)
      with init [of m w1] m show ?thesis using that [of "[m]"] databaseD [of w' w1] by simp
    qed
  qed
qed

text \<open>The hash of a room carries its own id.\<close>

definition rooms_named :: "redis \<Rightarrow> bool" where
  "rooms_named r \<longleftrightarrow> (\<forall>i j. hget (roomKey i) ''roomId'' r = Some (HStr j) \<longrightarrow> j = i)"

lemma hString_hvalStr: "hString v = hvalStr v"
  by (cases v rule: hString.cases) simp_all

lemma hString_nonempty: "hString v \<noteq> [] \<Longrightarrow> v = Some (HStr (hString v))"
  by (cases v rule: hString.cases) simp_all

lemma loadRoom_hash:
  assumes "loadRoomIfExists k w = Some room" and "rooms_named (w_redis w)"
  obtains i where "rm_roomId room = i" "rm_ownerId room = hvalStr (hget (roomKey i) ''ownerId'' (w_redis w))"
proof -
  from assms(1) obtain i where id: "hString (hgetall (roomKey i) (w_redis w) ''roomId'') \<noteq> []"
      and room: "room = roomHashToView (hgetall (roomKey i) (w_redis w))"
    by (auto simp: loadRoomIfExists_def Let_def split: option.splits if_splits)
  have "hget (roomKey i) ''roomId'' (w_redis w) = Some (HStr (rm_roomId room))"
    using hString_nonempty [OF id] by (simp add: hgetall_hget room roomHashToView_def)
  then have "rm_roomId room = i" using assms(2) unfolding rooms_named_def by blast
  then show ?thesis using that [of i] by (simp add: room roomHashToView_def hgetall_hget hString_hvalStr)
qed

lemma roomStartMatch_owner:
  "roomStartMatch rk ck token ttl r = (Inr (own, g), r') \<Longrightarrow> own = hvalStr (hget rk ''ownerId'' r)"
  by (auto simp: roomStartMatch_def Let_def split: if_splits prod.splits)

text \<open>
  What a start leaves of the tables: at most one match more, of the caller; none more if it fails.
\<close>

lemma createRoomMatch_tables:
  assumes "createRoomMatch pt n seed i (own, g) token view w = (res, w')"
  obtains new where "w_matches w' = w_matches w @ new" "length new \<le> 1" "\<forall>m \<in> set new. mt_player1Id m = own"
    "w_rounds w' = w_rounds w" "w_users w' = w_users w" "\<And>e. res = Inl e \<Longrightarrow> new = []"
proof (cases "orElse (matches_findActiveByUserId own w) (matches_findActiveByUserId g w)")
  case (Some m)
  have "database w' = database w \<and> (\<forall>e. res \<noteq> Inl e)"
  proof -
    from assms have "\<exists>v. finishRoomMatch v (mt_id m) w = (res, w')"
      by (simp add: createRoomMatch_def Some [unfolded orElse_def] Let_def) blast
    then show ?thesis using finishRoom_ok by blast
  qed
  then show ?thesis using that [of "[]"] databaseD [of w' w] by simp
next
  case None
  obtain made w1 where made: "createMatchForPlayers pt n seed own g w = (made, w1)" by fastforce
  from createPlayers_tables [OF this] obtain new where new: "w_matches w1 = w_matches w @ new" "length new \<le> 1"
      "\<forall>m \<in> set new. mt_player1Id m = own \<and> mt_player2Id m = g" "w_rounds w1 = w_rounds w" "w_users w1 = w_users w" by blast
  show ?thesis
  proof (cases made)
    case (Inl e)
    have "w1 = w" by (rule createPlayers_cases [of pt n seed own g w]) (simp_all add: made Inl)
    with assms have "database w' = database w"
      by (auto simp: createRoomMatch_def None [unfolded orElse_def] made Inl Let_def)
    then show ?thesis using that [of "[]"] databaseD [of w' w] by simp
  next
    case (Inr mp)
    from assms have "\<exists>v. finishRoomMatch v (mp_matchId mp) w1 = (res, w')"
      by (simp add: createRoomMatch_def None [unfolded orElse_def] made Inr Let_def) blast
    then have "database w' = database w1" "\<forall>e. res \<noteq> Inl e" using finishRoom_ok by blast+
    then show ?thesis using that [of new] new databaseD [of w' w1] by simp
  qed
qed

lemma startRoom_tables:
  assumes "rooms_named (w_redis w)" and "startRoomForOwner pt n seed token u w = (res, w')"
  obtains new where "w_matches w' = w_matches w @ new" "length new \<le> 1" "\<forall>m \<in> set new. mt_player1Id m = u"
    "w_rounds w' = w_rounds w" "w_users w' = w_users w" "\<And>e. res = Inl e \<Longrightarrow> new = []"
proof -
  note rule = that
  have same: thesis if db: "database w' = database w"
    using rule [of "[]"] databaseD [OF db] by simp
  show ?thesis
  proof (cases "loadRoomIfExists (getString (userRoomKey u) (w_redis w)) w")
    case None
    with assms(2) same show ?thesis by (simp add: startRoomForOwner_def)
  next
    case (Some room)
    show ?thesis
    proof (cases "rm_ownerId room = u \<and> rm_status room = ''full'' \<and> rm_guestId room \<noteq> None")
      case False
      with assms(2) Some same show ?thesis by (auto simp: startRoomForOwner_def split: if_splits)
    next
      case True
      with assms(2) Some have run: "startRoomMatch pt n seed token (rm_roomId room) w = (res, w')"
        by (simp add: startRoomForOwner_def)
      obtain claim r where claim: "roomStartMatch (roomKey (rm_roomId room)) (roomHandoffKey (rm_roomId room)) token
          ROOM_HANDOFF_TTL_SECONDS (w_redis w) = (claim, r)" by fastforce
      show ?thesis
      proof (cases claim)
        case (Inl code)
        have "database w' = database w"
        proof (cases "\<exists>v m. finishRoomMatch v m (w\<lparr>w_redis := r\<rparr>) = (res, w')")
          case True
          then show ?thesis using finishRoom_ok by fastforce
        next
          case False
          with run claim Inl show ?thesis
            by (auto simp: startRoomMatch_def Let_def split: option.splits if_splits)
        qed
        then show ?thesis by (rule same)
      next
        case (Inr players)
        obtain own g where players: "players = (own, g)" by fastforce
        from loadRoom_hash [OF Some assms(1)] True roomStartMatch_owner [OF claim [unfolded Inr players]]
        have "own = u" by metis
        with run claim Inr players have "createRoomMatch pt n seed (rm_roomId room) (u, g) token
            (loadRoomIfExists (Some (rm_roomId room)) w) (w\<lparr>w_redis := r\<rparr>) = (res, w')"
          by (simp add: startRoomMatch_def Let_def)
        from createRoomMatch_tables [OF this] rule show ?thesis by auto
      qed
    qed
  qed
qed

text \<open>
  What the holder of \<open>caller\<close> may change by a request: the own user name, on the one route for it; a new
  account, by registering; a match with the caller as first player, by starting a room.
\<close>

definition within_rights :: "Route \<Rightarrow> string option \<Rightarrow> world \<Rightarrow> world \<Rightarrow> bool" where
  "within_rights r caller w w' \<longleftrightarrow>
     (\<exists>f new. w_users w' = map f (w_users w) @ new
        \<and> (\<forall>u. f u = u \<or> r = PatchMe \<and> caller = Some (us_id u) \<and> f u = u\<lparr>us_username := us_username (f u)\<rparr>)
        \<and> (new = [] \<or> r = PostRegister \<and> length new = 1))
     \<and> (\<exists>new. w_matches w' = w_matches w @ new
        \<and> (new = [] \<or> r = PostStart \<and> length new = 1 \<and> caller = Some (mt_player1Id (hd new))))
     \<and> w_rounds w' = w_rounds w"

definition discloses :: "RestBody \<Rightarrow> string set" where
  "discloses b =
     (case b of AccountBody u \<Rightarrow> {ud_id u} | SessionBody s \<Rightarrow> {au_userId s} | _ \<Rightarrow> {})"

lemma within_rights_same: "database w' = database w \<Longrightarrow> within_rights r c w w'"
  by (drule databaseD) (auto simp: within_rights_def intro: exI [of _ "\<lambda>u. u"] exI [of _ "[]"])

lemma refuse_simps [simp]: "refuse env e w = (rep, w') \<longleftrightarrow> rep = Refused (restCatch (rv_retryEnv env) e) \<and> w' = w"
  by (auto simp: refuse_def)

lemma answer_cases:
  assumes "answer env st exc body (res, v) = (rep, w')"
  obtains (failed) e where "res = Inl e" "rep = Refused (restCatch (rv_retryEnv env) (exc e))" "w' = v"
  | (served) x where "res = Inr x" "rep = Served st (body x)" "w' = v"
  using assms by (cases res) (auto simp: answer_def)

lemma validated_cases:
  assumes "validated env input dto f w = (rep, w')"
  obtains (invalid) "dto = None" "rep = Refused (restCatch (rv_retryEnv env) (HttpError 400 (lb_invalidBody (rv_libs env) input) ''Bad Request Exception''))" "w' = w"
  | (valid) d where "dto = Some d" "f d w = (rep, w')"
  using assms by (cases dto) (auto simp: validated_def)

lemma register_tables:
  assumes "register tk n email name pw w = (res, w')"
  shows "within_rights PostRegister c w w'" and "res = Inl e \<Longrightarrow> database w' = database w"
proof -
  have "w' = w \<or> (\<exists>u. w' = w\<lparr>w_users := w_users w @ [u]\<rparr>)" and err: "res = Inl e \<Longrightarrow> w' = w"
    using assms by (auto simp: register_def users_create_def Let_def split: if_splits)
  then show "within_rights PostRegister c w w'"
    by (auto simp: within_rights_same) (auto simp: within_rights_def intro: exI [of _ "\<lambda>u. u"] exI [of _ "[]"])
  show "res = Inl e \<Longrightarrow> database w' = database w" using err by blast
qed

lemma updateMe_tables:
  assumes "updateMe jwt name w = (res, w')"
  shows "within_rights PatchMe (Some (jw_sub jwt)) w w'" and "res = Inl e \<Longrightarrow> database w' = database w"
    and "res = Inr u \<Longrightarrow> ud_id u = jw_sub jwt"
proof -
  let ?f = "\<lambda>u. if us_id u = jw_sub jwt then u\<lparr>us_username := name\<rparr> else u"
  let ?w = "w\<lparr>w_users := map ?f (w_users w)\<rparr>"
  have upd: "snd (users_update (jw_sub jwt) (\<lambda>u. u\<lparr>us_username := name\<rparr>) w) = ?w" by (simp add: users_update_def)
  have "w' = w \<or> w' = ?w"
    using assms by (auto simp: updateMe_def updateUsername_def users_update_def Let_def split: if_splits option.splits)
  moreover have "within_rights PatchMe (Some (jw_sub jwt)) w ?w"
    unfolding within_rights_def by (intro conjI exI [of _ ?f] exI [of _ "[]"]) auto
  ultimately show "within_rights PatchMe (Some (jw_sub jwt)) w w'" by (auto simp: within_rights_same)
  show "res = Inr u \<Longrightarrow> ud_id u = jw_sub jwt"
    using assms users_findById_Some [of "jw_sub jwt"]
    by (auto simp: updateMe_def updateUsername_def userDto_def Let_def split: if_splits option.splits prod.splits)
  show "database w' = database w" if "res = Inl e"
  proof (cases "jw_sub jwt \<in> us_id ` set (w_users w)")
    case False
    then have "map ?f (w_users w) = w_users w" by (intro map_idI) (metis image_eqI)
    then have "?w = w" by simp
    with \<open>w' = w \<or> w' = ?w\<close> show ?thesis by metis
  next
    case True
    then obtain u where "users_findById (jw_sub jwt) w = Some u"
      using users_update_affected [of "jw_sub jwt" id w] by (auto simp: users_update_def)
    then have "users_findById (jw_sub jwt) ?w = Some (u\<lparr>us_username := name\<rparr>)"
      using users_findById_update [of "\<lambda>u. u\<lparr>us_username := name\<rparr>" "jw_sub jwt" "jw_sub jwt" w] by (simp add: upd)
    with assms that True show ?thesis
      by (auto simp: updateMe_def updateUsername_def users_update_def Let_def split: if_splits)
  qed
qed

definition caller :: "restEnv \<Rightarrow> httpRequest \<Rightarrow> string option" where
  "caller env rq = (case jwtAccess (rv_tokens env) (hq_authorization rq) of Inl _ \<Rightarrow> None | Inr p \<Rightarrow> Some (jw_sub p))"

text \<open>Whatever a controller answers, it stays within the rights of the caller; a refusal changes no table.\<close>

definition proper :: "Route \<Rightarrow> string option \<Rightarrow> world \<Rightarrow> RestReply \<times> world \<Rightarrow> bool" where
  "proper r c w res \<longleftrightarrow> within_rights r c w (snd res)
     \<and> (\<forall>body. fst res = Refused body \<longrightarrow> database (snd res) = database w)
     \<and> (\<forall>st b. fst res = Served st b \<longrightarrow> (guarded r \<longrightarrow> (\<forall>i \<in> discloses b. c = Some i))
          \<and> (\<forall>d. b = DetailBody d \<longrightarrow> c \<in> (Some \<circ> fst) ` set (md_players d)))"

lemma proper_refuse [simp]: "proper r c w (refuse env e w)"
  by (simp add: proper_def refuse_def within_rights_same)

lemma proper_validated: "(\<And>d. dto = Some d \<Longrightarrow> proper r c w (f d w)) \<Longrightarrow> proper r c w (validated env input dto f w)"
  by (simp add: validated_def split: option.split)

lemma proper_answer:
  assumes "within_rights r c w v" and "\<And>e. res = Inl e \<Longrightarrow> database v = database w"
    and "\<And>x. res = Inr x \<Longrightarrow> (guarded r \<longrightarrow> (\<forall>i \<in> discloses (body x). c = Some i))
           \<and> (\<forall>d. body x = DetailBody d \<longrightarrow> c \<in> (Some \<circ> fst) ` set (md_players d))"
  shows "proper r c w (answer env st exc body (res, v))"
  using assms by (cases res) (auto simp: proper_def answer_def refuse_def)

lemma proper_read:
  assumes "database v = database w"
    and "\<And>x. res = Inr x \<Longrightarrow> (guarded r \<longrightarrow> (\<forall>i \<in> discloses (body x). c = Some i))
           \<and> (\<forall>d. body x = DetailBody d \<longrightarrow> c \<in> (Some \<circ> fst) ` set (md_players d))"
  shows "proper r c w (answer env st exc body (res, v))"
  by (rule proper_answer) (use assms within_rights_same in auto)

lemma proper_register: "proper PostRegister c w (answer env st exc SessionBody (register tk n email name pw w))"
proof -
  obtain res v where run: "register tk n email name pw w = (res, v)" by fastforce
  show ?thesis
    unfolding run by (rule proper_answer) (use register_tables [OF run] in \<open>simp_all add: guarded_def\<close>)
qed

lemma proper_rename: "proper PatchMe (Some (jw_sub jwt)) w (answer env st exc AccountBody (updateMe jwt name w))"
proof -
  obtain res v where run: "updateMe jwt name w = (res, v)" by fastforce
  show ?thesis
    unfolding run by (rule proper_answer) (use updateMe_tables [OF run] in \<open>simp_all add: discloses_def\<close>)
qed

lemma proper_auth:
  assumes "\<not> guarded r"
  shows "proper r c w (authController env r rq w)"
proof -
  from assms consider "r = PostRegister" | "r = PostLogin" | "r = PostRefresh" by (auto simp: guarded_def)
  then show ?thesis
  proof cases
    case 1
    then show ?thesis by (simp add: authController_def Let_def proper_validated proper_register split: prod.split)
  next
    case 2
    then show ?thesis
      by (simp add: authController_def Let_def proper_validated proper_read guarded_def split: prod.split)
  next
    case 3
    then show ?thesis by (simp add: authController_def Let_def proper_validated proper_read guarded_def)
  qed
qed

lemma proper_user:
  assumes "r \<in> {GetMe, GetMyStats, PatchMe, GetLeaderboard}"
  shows "proper r (Some (jw_sub jwt)) w (userController env r rq jwt w)"
proof -
  obtain ms rounds us where rows: "rv_replica env = (ms, rounds, us)" by (cases "rv_replica env") auto
  have stats: "database v = database w" if "getStats g p ms us (jw_sub jwt) w = (x, v)" for g p x v
    using that by (auto simp: getStats_def Let_def split: option.splits if_splits)
  have board: "database v = database w" if "getLeaderboard g p us (jw_sub jwt) l k w = (res, v)" for g p l k res v
    using that by (auto simp: getLeaderboard_def Let_def split: option.splits sum.splits if_splits)
  from assms consider "r = GetMe" | "r = GetMyStats" | "r = PatchMe" | "r = GetLeaderboard" by auto
  then show ?thesis
  proof cases
    case 1
    have "ud_id x = jw_sub jwt" if "me jwt w = Inr x" for x
      using that users_findById_Some [of "jw_sub jwt" w] by (auto simp: me_def userDto_def split: option.splits)
    with 1 show ?thesis by (simp add: userController_def rows proper_read discloses_def)
  next
    case 2
    then show ?thesis
      by (simp add: userController_def rows proper_def discloses_def within_rights_same stats split: prod.split)
  next
    case 3
    then show ?thesis by (simp add: userController_def rows proper_validated proper_rename)
  next
    case 4
    have "proper GetLeaderboard (Some (jw_sub jwt)) w (answer env st exc BoardBody
        (getLeaderboard g p us (jw_sub jwt) l k w))" for st exc g p l k
      using board by (cases "getLeaderboard g p us (jw_sub jwt) l k w") (simp add: proper_read discloses_def)
    with 4 show ?thesis by (simp add: userController_def rows proper_validated split: prod.split)
  qed
qed

lemma proper_match: "proper r (Some (jw_sub jwt)) w (matchController env r jwt w)"
proof -
  obtain ms rounds us where rows: "rv_replica env = (ms, rounds, us)" by (cases "rv_replica env") auto
  have "Some (jw_sub jwt) \<in> (\<lambda>x. Some (fst x)) ` set (md_players d)" if "getDetail ms rounds us i (jw_sub jwt) = Inr d" for i d
    using that by (auto simp: getDetail_def Let_def split: option.splits if_splits)
  moreover have "proper r c w (Served st (HistoryBody h), w)" for c st h
    by (simp add: proper_def discloses_def within_rights_same)
  ultimately show ?thesis
    by (auto simp: matchController_def rows discloses_def intro!: proper_read split: Route.split)
qed

lemma proper_room:
  assumes "r \<in> {PostRoom, GetRoom, PostJoin, PostLeave, PostStart}" and "rooms_named (w_redis w)"
  shows "proper r (Some (jw_sub jwt)) w (roomController env r rq jwt w)"
proof -
  let ?u = "jw_sub jwt" and ?named = "\<lambda>(res, w'). (map_sum id (\<lambda>room. withNames room w') res, w')"
  have named: "proper r c w (answer env st exc NamedRoomBody (?named (res, v)))" if "database v = database w" for c st exc res v r
    using that by (simp add: proper_read discloses_def)
  have made: "database v = database w" if "createRoom i cs ?u w = (res, v)" for i cs res v
    using createRoom_tables [of i cs ?u w] that by simp
  have mine: "database v = database w" if "getMyRoom ?u w = (res, v)" for res v
    using getMyRoom_tables [of ?u w] that by simp
  have joined: "database v = database w" if "joinRoom ?u code w = (res, v)" for code res v
    using joinRoom_tables [of ?u code w] that by simp
  have left: "database v = database w" if "leaveRoom ?u w = (res, v)" for res v
    using leaveRoom_tables [of ?u w] that by simp
  from assms(1) consider "r = PostRoom" | "r = GetRoom" | "r = PostJoin" | "r = PostLeave" | "r = PostStart" by auto
  then show ?thesis
  proof cases
    case 1
    obtain res v where run: "createRoom (rv_newId env) (rv_codes env) ?u w = (res, v)" by fastforce
    show ?thesis using named [OF made [OF run]] unfolding 1 roomController_def Let_def run by simp
  next
    case 2
    obtain res v where run: "getMyRoom ?u w = (res, v)" by fastforce
    show ?thesis using named [OF mine [OF run]] unfolding 2 roomController_def Let_def run by simp
  next
    case 3
    have "proper PostJoin (Some ?u) w (answer env st exc NamedRoomBody (?named (joinRoom ?u code w)))" for st exc code
    proof -
      obtain res v where run: "joinRoom ?u code w = (res, v)" by fastforce
      show ?thesis unfolding run by (rule named [OF joined [OF run]])
    qed
    with 3 show ?thesis by (simp add: roomController_def Let_def proper_validated)
  next
    case 4
    obtain res v where run: "leaveRoom ?u w = (res, v)" by fastforce
    show ?thesis unfolding 4 roomController_def Let_def run using left [OF run] by (simp add: proper_read discloses_def)
  next
    case 5
    obtain res v where run: "startRoomForOwner (rv_ports env) (rv_newId env) (rv_seed env) (rv_claim env) ?u w = (res, v)" by fastforce
    from startRoom_tables [OF assms(2) run] obtain new where new: "w_matches v = w_matches w @ new" "length new \<le> 1"
        "\<forall>m \<in> set new. mt_player1Id m = ?u" "w_rounds v = w_rounds w" "w_users v = w_users w" "\<And>e. res = Inl e \<Longrightarrow> new = []"
      by blast
    have "within_rights PostStart (Some ?u) w v"
      unfolding within_rights_def
    proof (intro conjI)
      show "\<exists>f n. w_users v = map f (w_users w) @ n
          \<and> (\<forall>x. f x = x \<or> PostStart = PatchMe \<and> Some ?u = Some (us_id x) \<and> f x = x\<lparr>us_username := us_username (f x)\<rparr>)
          \<and> (n = [] \<or> PostStart = PostRegister \<and> length n = 1)"
        by (rule exI [of _ "\<lambda>x. x"], rule exI [of _ "[]"]) (simp add: new(5))
      show "\<exists>n. w_matches v = w_matches w @ n \<and> (n = [] \<or> PostStart = PostStart \<and> length n = 1 \<and> Some ?u = Some (mt_player1Id (hd n)))"
        by (rule exI [of _ new]) (use new(1-3) in \<open>cases new; simp\<close>)
    qed (rule new(4))
    moreover have "database v = database w" if "res = Inl e" for e
      using new that by (simp add: database_def)
    ultimately show ?thesis using 5 by (simp add: roomController_def run proper_answer discloses_def)
  qed
qed

lemma rest_proper:
  assumes "rooms_named (w_redis w)"
  shows "proper r (caller env rq) w (rest env r rq w)"
proof (cases "guarded r")
  case False
  then show ?thesis by (simp add: rest_def proper_auth)
next
  case True
  show ?thesis
  proof (cases "jwtAccess (rv_tokens env) (hq_authorization rq)")
    case (Inl e)
    with True show ?thesis by (simp add: rest_def)
  next
    case (Inr jwt)
    then have c: "caller env rq = Some (jw_sub jwt)" by (simp add: caller_def)
    from Inr True assms show ?thesis
      using proper_user [of r jwt w env rq] proper_room [of r w jwt env rq] proper_match [of r jwt w env]
      by (simp add: rest_def c)
  qed
qed

lemma rest_unauthorized:
  assumes "guarded r" and "caller env rq = None"
  obtains e where "rest env r rq w = (Refused (restCatch (rv_retryEnv env) (withMessage 401 e)), w)"
  using assms by (auto simp: rest_def caller_def refuse_def split: sum.splits)

text \<open>
  C32: A request acts for the holder of its token and for nobody else. On every route but the three of
  \<open>/auth\<close>, a request without a verified access token is answered 401 and changes nothing. Otherwise the
  request changes at most the caller's own user name, adds at most one account (by registering) and at most
  one match, with the caller as a player (by starting the caller's room), and no other row of a table; a
  refused request changes no row; the account it shows is the caller's, and a match it shows has the caller
  among its players.
\<close>

theorem rest_acts_for_caller:
  assumes "rooms_named (w_redis w)" and "rest env r rq w = (rep, w')"
  shows "within_rights r (caller env rq) w w'
     \<and> (guarded r \<and> caller env rq = None \<longrightarrow> w' = w \<and> (\<exists>body. rep = Refused body \<and> rp_status body = 401))
     \<and> (\<forall>body. rep = Refused body \<longrightarrow> database w' = database w)
     \<and> (\<forall>st b. rep = Served st b \<longrightarrow> (guarded r \<longrightarrow> (\<forall>i \<in> discloses b. caller env rq = Some i))
          \<and> (\<forall>d. b = DetailBody d \<longrightarrow> caller env rq \<in> (Some \<circ> fst) ` set (md_players d)))"
proof -
  have "w' = w \<and> (\<exists>body. rep = Refused body \<and> rp_status body = 401)" if "guarded r" "caller env rq = None"
    by (rule rest_unauthorized [OF that, of w]) (use assms(2) in \<open>simp add: restCatch_def withMessage_def Let_def\<close>)
  then show ?thesis using rest_proper [OF assms(1), of r env rq] assms(2) unfolding proper_def by simp
qed

subsection \<open>The accounts stay well formed\<close>

text \<open>The unique keys, and the rules of the DTOs on what is stored.\<close>

definition accounts_ok :: "world \<Rightarrow> bool" where
  "accounts_ok w \<longleftrightarrow> distinct (map us_id (w_users w)) \<and> distinct (map us_email (w_users w))
     \<and> distinct (map us_username (w_users w))
     \<and> (\<forall>u \<in> set (w_users w). nameValid (us_username u) \<and> toLowerCase (us_email u) = us_email u \<and> 0 \<le> us_rating u)"

lemma lower_lower: "toLowerCase (toLowerCase e) = toLowerCase e"
  by (simp add: toLowerCase_def toLower_def Let_def)

lemma accounts_register:
  assumes "accounts_ok w" and "newId \<notin> us_id ` set (w_users w)" and "nameValid name"
    and "register tk newId email name pw w = (res, w')"
  shows "accounts_ok w'"
proof -
  have "w' = w \<or> (toLowerCase email \<notin> us_email ` set (w_users w) \<and> name \<notin> us_username ` set (w_users w)
      \<and> w' = w\<lparr>w_users := w_users w @ [\<lparr>us_id = newId, us_email = toLowerCase email, us_username = name,
           us_passwordHash = tk_hash tk pw, us_rating = 1000, us_createdAt = w_now w\<rparr>]\<rparr>)"
    using assms(4) by (auto simp: register_def users_create_def Let_def split: if_splits)
  with assms(1-3) show ?thesis by (auto simp: accounts_ok_def lower_lower)
qed

lemma renamed_distinct:
  assumes "distinct (map us_username us)" and "distinct (map us_id us)"
    and "\<And>u. u \<in> set us \<Longrightarrow> us_username u = name \<Longrightarrow> us_id u = i"
  shows "distinct (map (\<lambda>u. if us_id u = i then name else us_username u) us)"
proof -
  have "inj_on (\<lambda>u. if us_id u = i then name else us_username u) (set us)"
  proof (rule inj_onI)
    fix u v
    assume uv: "u \<in> set us" "v \<in> set us" "(if us_id u = i then name else us_username u) = (if us_id v = i then name else us_username v)"
    then have "us_id u = us_id v \<or> us_username u = us_username v" using assms(3) by (metis (full_types))
    with uv(1,2) assms(1,2) show "u = v" by (auto simp: distinct_map dest: inj_onD)
  qed
  with assms(1) show ?thesis by (simp add: distinct_map)
qed

lemma accounts_rename:
  assumes "accounts_ok w" and "nameValid name" and "updateMe jwt name w = (res, w')"
  shows "accounts_ok w'"
proof -
  let ?i = "jw_sub jwt"
  let ?f = "\<lambda>u. if us_id u = ?i then u\<lparr>us_username := name\<rparr> else u"
  consider "w' = w" | "w' = w\<lparr>w_users := map ?f (w_users w)\<rparr>"
    "\<not> (\<exists>u \<in> set (w_users w). us_username u = name \<and> us_id u \<noteq> ?i \<and> ?i \<in> us_id ` set (w_users w))"
    using assms(3) by (auto simp: updateMe_def updateUsername_def users_update_def Let_def split: if_splits option.splits)
  then show ?thesis
  proof cases
    case 2
    have same: "map us_id (map ?f (w_users w)) = map us_id (w_users w)" "map us_email (map ?f (w_users w)) = map us_email (w_users w)"
      by (simp_all cong: map_cong)
    have "distinct (map us_username (map ?f (w_users w)))"
    proof (cases "?i \<in> us_id ` set (w_users w)")
      case True
      have "map us_username (map ?f (w_users w)) = map (\<lambda>u. if us_id u = ?i then name else us_username u) (w_users w)"
        by (rule nth_equalityI) auto
      moreover have "distinct (map (\<lambda>u. if us_id u = ?i then name else us_username u) (w_users w))"
        by (rule renamed_distinct) (use assms(1) 2 True in \<open>auto simp: accounts_ok_def\<close>)
      ultimately show ?thesis by (simp only:)
    next
      case False
      then have "map ?f (w_users w) = w_users w" by (intro map_idI) (metis image_eqI)
      with assms(1) show ?thesis by (simp add: accounts_ok_def)
    qed
    moreover have w': "w_users w' = map ?f (w_users w)" by (simp add: 2(1))
    moreover have "nameValid (us_username v) \<and> toLowerCase (us_email v) = us_email v \<and> 0 \<le> us_rating v"
      if "v \<in> set (map ?f (w_users w))" for v using that assms(1,2) by (auto simp: accounts_ok_def)
    ultimately show ?thesis using assms(1) unfolding accounts_ok_def w' same by blast
  qed (use assms(1) in simp)
qed

lemma registerDto_valid: "registerDto lb b = Some (email, name, pw) \<Longrightarrow> nameValid name"
  by (auto simp: registerDto_def registerValid_def nameValid_def split: option.splits if_splits)

lemma updateUserDto_valid: "updateUserDto b = Some name \<Longrightarrow> nameValid name"
  by (auto simp: updateUserDto_def split: bind_splits if_splits)

lemma answer_world: "answer env st exc body (res, v) = (rep, w') \<Longrightarrow> w' = v"
  by (auto elim: answer_cases)

lemma accounts_postRegister:
  assumes "accounts_ok w" and "rv_newId env \<notin> us_id ` set (w_users w)" and "rest env PostRegister rq w = (rep, w')"
  shows "accounts_ok w'"
proof -
  from assms(3) have "validated env (hq_body rq) (registerDto (rv_libs env) (hq_body rq)) (\<lambda>(email, username, password) w.
      answer env 201 registerError SessionBody (register (rv_tokens env) (rv_newId env) email username password w)) w = (rep, w')"
    by (simp add: rest_def guarded_def authController_def okStatus_def Let_def)
  then show ?thesis
  proof (cases rule: validated_cases)
    case (valid d)
    obtain email name pw where d: "d = (email, name, pw)" by (cases d) auto
    obtain res v where run: "register (rv_tokens env) (rv_newId env) email name pw w = (res, v)" by fastforce
    from valid(2) have "w' = v" by (simp add: d run answer_world)
    then show ?thesis
      using accounts_register [OF assms(1,2) registerDto_valid [OF valid(1) [unfolded d]] run] by simp
  qed (use assms(1) in simp)
qed

lemma accounts_patchMe:
  assumes "accounts_ok w" and "rest env PatchMe rq w = (rep, w')"
  shows "accounts_ok w'"
proof (cases "jwtAccess (rv_tokens env) (hq_authorization rq)")
  case (Inl e)
  with assms show ?thesis by (simp add: rest_def guarded_def)
next
  case (Inr jwt)
  with assms(2) have "validated env (hq_body rq) (updateUserDto (hq_body rq)) (\<lambda>username w.
      answer env 200 (renameError (jw_sub jwt)) AccountBody (updateMe jwt username w)) w = (rep, w')"
    by (simp add: rest_def guarded_def userController_def okStatus_def Let_def split: prod.splits)
  then show ?thesis
  proof (cases rule: validated_cases)
    case (valid name)
    obtain res v where run: "updateMe jwt name w = (res, v)" by fastforce
    from valid(2) have "w' = v" by (simp add: run answer_world)
    then show ?thesis using accounts_rename [OF assms(1) updateUserDto_valid [OF valid(1)] run] by simp
  qed (use assms(1) in simp)
qed

text \<open>
  Whatever requests arrive over REST, the accounts stay well formed: ids, email addresses and user
  names are unique, every user name keeps the rules of the DTOs, every email address is stored in lower
  case and no rating is negative.
\<close>

theorem rest_keeps_accounts_ok:
  assumes "accounts_ok w" and "rooms_named (w_redis w)" and "rv_newId env \<notin> us_id ` set (w_users w)"
    and "rest env r rq w = (rep, w')"
  shows "accounts_ok w'"
proof -
  consider "r = PostRegister" | "r = PatchMe" | "r \<notin> {PostRegister, PatchMe}" by blast
  then show ?thesis
  proof cases
    case 1
    with accounts_postRegister [OF assms(1,3)] assms(4) show ?thesis by blast
  next
    case 2
    with accounts_patchMe [OF assms(1)] assms(4) show ?thesis by blast
  next
    case 3
    have "within_rights r (caller env rq) w w'"
      using rest_proper [OF assms(2), of r env rq] assms(4) by (simp add: proper_def)
    with 3 obtain f where f: "w_users w' = map f (w_users w)" "\<And>u. f u = u" unfolding within_rights_def by auto
    then have "w_users w' = w_users w" by (simp add: map_idI)
    with assms(1) show ?thesis by (simp add: accounts_ok_def)
  qed
qed

subsection \<open>Examples\<close>

definition demoLibs :: libs where
  "demoLibs = \<lparr>lb_isEmail = (\<lambda>e. CHR ''@'' \<in> set e), lb_isJwt = (\<lambda>_. True), lb_isUuid4 = isUuid,
     lb_invalidBody = JObj, lb_invalidParam = JStr\<rparr>"

definition demoEnv :: restEnv where
  "demoEnv = \<lparr>rv_libs = demoLibs, rv_tokens = demoTokens, rv_ports = demoPorts, rv_replica = ([], [], []),
     rv_getUp = True, rv_setUp = True, rv_retryEnv = 1, rv_newId = ''u3'', rv_seed = ''s'', rv_claim = ''t'',
     rv_codes = [''ABC234'']\<rparr>"

definition twoUsers :: world where
  "twoUsers = noUsers\<lparr>w_users := [fanUser, fanUser\<lparr>us_id := ''u2'', us_email := ''b@x.org'', us_username := ''bob''\<rparr>]\<rparr>"

definition renameRq :: httpRequest where
  "renameRq = \<lparr>hq_authorization = Some (''Bearer '' @ encodeToken \<lparr>jw_sub = ''u1'', jw_type = ''access''\<rparr>),
     hq_query = Map.empty, hq_body = [(''username'', JStr ''zed_1''), (''rating'', JNum 9999)]\<rparr>"

lemma renameRq_names: "map us_username (w_users (snd (rest demoEnv PatchMe renameRq twoUsers))) = [''zed_1'', ''bob'']"
  by code_simp

lemma renameRq_caller: "caller demoEnv renameRq = Some ''u1''"
  by code_simp

lemma twoUsers_rooms: "rooms_named (w_redis twoUsers)"
  by (simp add: rooms_named_def twoUsers_def noUsers_def emptyRedis_def hget_def)

text \<open>The first user takes a new name; the request that also asks for a rating does not get it.\<close>

lemma rest_acts_for_caller_witness:
  "\<exists>rep w'. rest demoEnv PatchMe renameRq twoUsers = (rep, w') \<and> within_rights PatchMe (Some ''u1'') twoUsers w'
     \<and> map us_username (w_users w') = [''zed_1'', ''bob'']"
proof -
  obtain rep w' where run: "rest demoEnv PatchMe renameRq twoUsers = (rep, w')" by fastforce
  with rest_acts_for_caller [OF twoUsers_rooms run] renameRq_names renameRq_caller show ?thesis by auto
qed

lemma rest_keeps_accounts_ok_witness:
  "\<exists>rep w'. rest demoEnv PatchMe renameRq twoUsers = (rep, w') \<and> accounts_ok w'
     \<and> map us_username (w_users w') = [''zed_1'', ''bob'']"
proof -
  obtain rep w' where run: "rest demoEnv PatchMe renameRq twoUsers = (rep, w')" by fastforce
  have "accounts_ok twoUsers" "rv_newId demoEnv \<notin> us_id ` set (w_users twoUsers)" by code_simp+
  with rest_keeps_accounts_ok [OF _ twoUsers_rooms _ run] run renameRq_names show ?thesis by auto
qed

lemma query_forms:
  "queryInt '' 12 '' = Some 12" "queryInt ''1.5e1'' = Some 15" "queryInt ''0x10'' = Some 16" "queryInt [] = Some 0"
  "queryInt ''1.5'' = None" "queryInt ''12px'' = None" "queryInt ''-3'' = Some (-3)" "queryInt ''1e400'' = None"
  by code_simp+

end
