(* ===== verification/Database_Steps.thy ===== *)
theory Database_Steps
  imports Rest
begin

text \<open>
  What the tables promise. \<open>db_step\<close> is the abstract machine of the database: one rule for each way in which the
  running system changes a row of \<open>matches\<close>, \<open>match_rounds\<close> or \<open>users\<close>, with the guards the code relies on. \<open>db_retire\<close> is
  what retention may do on top. \<open>db_ok\<close> is the integrity the steps keep: the keys of the schema, and rules that no
  constraint of the schema states (a round is logged once, a live match has no winner and no end, only a player
  wins). \<open>Persistence\<close> shows that every service method is a sequence of these steps.
\<close>

type_synonym tables = "Match list \<times> MatchRound list \<times> UserRow list"

subsection \<open>Integrity\<close>

definition match_ok :: "Match \<Rightarrow> bool" where
  "match_ok m \<longleftrightarrow>
     (if mt_status m = InProgress then mt_winnerId m = None \<and> mt_finishedAt m = None
      else mt_finishedAt m \<noteq> None \<and>
        (truthy (mt_winnerId m) \<longrightarrow> mt_player1Id m \<noteq> mt_player2Id m \<and> involves (the (mt_winnerId m)) m))"

definition user_ok :: "UserRow \<Rightarrow> bool" where
  "user_ok u \<longleftrightarrow> nameValid (us_username u) \<and> toLowerCase (us_email u) = us_email u \<and> 0 \<le> us_rating u"

definition roundKey :: "MatchRound \<Rightarrow> string \<times> int" where
  "roundKey r = (mr_matchId r, mr_roundNumber r)"

text \<open>Nobody is a player of two live matches.\<close>

definition one_live :: "Match list \<Rightarrow> bool" where
  "one_live ms \<longleftrightarrow> (\<forall>m \<in> set ms. \<forall>u \<in> {mt_player1Id m, mt_player2Id m}. length (activeMatchQuery u ms) \<le> 1)"

definition db_ok :: "tables \<Rightarrow> bool" where
  "db_ok d \<longleftrightarrow> (case d of (ms, rs, us) \<Rightarrow>
     distinct (map mt_id ms) \<and> distinct (map mt_matchSeed ms) \<and> list_all match_ok ms \<and> one_live ms \<and>
     distinct (map roundKey rs) \<and> list_all (\<lambda>r. 1 \<le> mr_roundNumber r \<and> mr_matchId r \<in> mt_id ` set ms) rs \<and>
     distinct (map us_id us) \<and> distinct (map us_email us) \<and> distinct (map us_username us) \<and> list_all user_ok us)"

lemma db_ok_tables: "db_ok (database w) \<Longrightarrow> tables_ok w"
  by (auto simp: db_ok_def database_def tables_ok_def user_ok_def list_all_iff)

lemma db_ok_accounts: "db_ok (database w) \<Longrightarrow> accounts_ok w"
  by (auto simp: db_ok_def database_def accounts_ok_def user_ok_def list_all_iff)

subsection \<open>The steps\<close>

text \<open>A snapshot of a match in play leaves the rest of its row alone.\<close>

definition same_result :: "Match \<Rightarrow> Match \<Rightarrow> bool" where
  "same_result m m' \<longleftrightarrow> mt_id m' = mt_id m \<and> mt_player1Id m' = mt_player1Id m \<and> mt_player2Id m' = mt_player2Id m
     \<and> mt_winnerId m' = mt_winnerId m \<and> mt_status m' = mt_status m \<and> mt_matchSeed m' = mt_matchSeed m
     \<and> mt_createdAt m' = mt_createdAt m \<and> mt_finishedAt m' = mt_finishedAt m"

definition resultRow :: "MatchStatus \<Rightarrow> string option \<Rightarrow> int \<Rightarrow> Match \<Rightarrow> Match" where
  "resultRow st win t m = m\<lparr>mt_status := st, mt_winnerId := win, mt_finishedAt := Some t\<rparr>"

text \<open>The rating move that goes with a result: none for a draw, at most 32 points towards the winner.\<close>

definition rating_move :: "Match \<Rightarrow> string option \<Rightarrow> UserRow list \<Rightarrow> UserRow list \<Rightarrow> bool" where
  "rating_move m win us us' \<longleftrightarrow>
     (if truthy win
      then mt_player1Id m \<noteq> mt_player2Id m \<and> {mt_player1Id m, mt_player2Id m} \<subseteq> us_id ` set us \<and>
        (\<exists>d. us' = ratedUsers (mt_player1Id m) (mt_player2Id m) d us \<and>
          (the win = mt_player1Id m \<and> 0 \<le> d \<and> d \<le> 32 \<or> the win = mt_player2Id m \<and> - 32 \<le> d \<and> d \<le> 0))
      else us' = us)"

inductive db_step :: "tables \<Rightarrow> tables \<Rightarrow> bool" where
  db_register: "us_id u \<notin> us_id ` set us \<Longrightarrow> us_email u \<notin> us_email ` set us \<Longrightarrow> us_username u \<notin> us_username ` set us \<Longrightarrow>
    user_ok u \<Longrightarrow> us_rating u = 1000 \<Longrightarrow> db_step (ms, rs, us) (ms, rs, us @ [u])"
| db_rename: "nameValid name \<Longrightarrow> (\<And>u. u \<in> set us \<Longrightarrow> us_username u = name \<Longrightarrow> us_id u = i) \<Longrightarrow>
    db_step (ms, rs, us) (ms, rs, map (\<lambda>u. if us_id u = i then u\<lparr>us_username := name\<rparr> else u) us)"
| db_create: "mt_id m \<notin> mt_id ` set ms \<Longrightarrow> mt_matchSeed m \<notin> mt_matchSeed ` set ms \<Longrightarrow> mt_status m = InProgress \<Longrightarrow>
    match_ok m \<Longrightarrow> activeMatchQuery (mt_player1Id m) ms = [] \<Longrightarrow> activeMatchQuery (mt_player2Id m) ms = [] \<Longrightarrow>
    db_step (ms, rs, us) (ms @ [m], rs, us)"
| db_snapshot: "list_all2 same_result ms ms' \<Longrightarrow> db_step (ms, rs, us) (ms', rs, us)"
| db_log: "1 \<le> mr_roundNumber r \<Longrightarrow> mr_matchId r \<in> mt_id ` set ms \<Longrightarrow> roundKey r \<notin> roundKey ` set rs \<Longrightarrow>
    db_step (ms, rs, us) (ms, rs @ [r], us)"
| db_relog: "i < length rs \<Longrightarrow> db_step (ms, rs, us) (ms, rs[i := (rs ! i)\<lparr>mr_events := Some evs\<rparr>], us)"
| db_end: "m \<in> set ms \<Longrightarrow> mt_status m = InProgress \<Longrightarrow> st \<in> {MatchFinished, Forfeited} \<Longrightarrow> rating_move m win us us' \<Longrightarrow>
    db_step (ms, rs, us) (map (\<lambda>x. if mt_id x = mt_id m then resultRow st win t x else x) ms, rs, us')"

inductive_cases db_stepE: "db_step d d'"

inductive db_retire :: "tables \<Rightarrow> tables \<Rightarrow> bool" where
  db_clear: "list_all2 (\<lambda>r r'. r' = r \<or> r' = r\<lparr>mr_events := None\<rparr>) rs rs' \<Longrightarrow> db_retire (ms, rs, us) (ms, rs', us)"
| db_purge: "(\<And>m. m \<in> set ms \<Longrightarrow> mt_id m \<in> S \<Longrightarrow> mt_status m \<noteq> InProgress) \<Longrightarrow>
    db_retire (ms, rs, us) (filter (\<lambda>m. mt_id m \<notin> S) ms, filter (\<lambda>r. mr_matchId r \<notin> S) rs, us)"

abbreviation db_steps :: "tables \<Rightarrow> tables \<Rightarrow> bool" where
  "db_steps \<equiv> db_step\<^sup>*\<^sup>*"

subsection \<open>Every step keeps the integrity\<close>

lemma one_live_iff: "one_live ms \<longleftrightarrow> (\<forall>u. length (activeMatchQuery u ms) \<le> 1)"
proof -
  have "length (activeMatchQuery u ms) \<le> 1" if "one_live ms" for u
  proof (cases "activeMatchQuery u ms")
    case (Cons m rest)
    then have "m \<in> set (activeMatchQuery u ms)" by simp
    then have "m \<in> set ms" "u \<in> {mt_player1Id m, mt_player2Id m}" by (auto simp: activeMatchQuery_def involves_def)
    with that show ?thesis unfolding one_live_def by blast
  qed simp
  moreover have "one_live ms" if "\<forall>u. length (activeMatchQuery u ms) \<le> 1" using that unfolding one_live_def by blast
  ultimately show ?thesis by blast
qed

lemma one_live_fewer: "one_live ms \<Longrightarrow> (\<And>u. length (activeMatchQuery u ms') \<le> length (activeMatchQuery u ms)) \<Longrightarrow> one_live ms'"
  unfolding one_live_iff by (meson le_trans)

lemma live_result: "st \<noteq> InProgress \<Longrightarrow>
    length (activeMatchQuery u (map (\<lambda>x. if mt_id x = i then resultRow st win t x else x) ms)) \<le> length (activeMatchQuery u ms)"
  by (induction ms) (auto simp: activeMatchQuery_def resultRow_def involves_def)

lemma live_purge: "length (activeMatchQuery u (filter p ms)) \<le> length (activeMatchQuery u ms)"
  by (induction ms) (auto simp: activeMatchQuery_def)

lemma same_maps:
  assumes "list_all2 same_result ms ms'"
  shows "map mt_id ms' = map mt_id ms" "map mt_matchSeed ms' = map mt_matchSeed ms"
    "list_all match_ok ms \<Longrightarrow> list_all match_ok ms'" "length (activeMatchQuery u ms') = length (activeMatchQuery u ms)"
proof -
  have one: "mt_id m' = mt_id m" "mt_matchSeed m' = mt_matchSeed m" "match_ok m \<Longrightarrow> match_ok m'" if "same_result m m'" for m m'
    using that by (auto simp: same_result_def match_ok_def involves_def split: if_splits)
  from assms show "map mt_id ms' = map mt_id ms" "map mt_matchSeed ms' = map mt_matchSeed ms"
    "list_all match_ok ms \<Longrightarrow> list_all match_ok ms'"
    by (induction rule: list_all2_induct) (auto simp: one)
  have "involves u m' \<and> mt_status m' = InProgress \<longleftrightarrow> involves u m \<and> mt_status m = InProgress" if "same_result m m'" for m m'
    using that by (simp add: same_result_def involves_def)
  with assms show "length (activeMatchQuery u ms') = length (activeMatchQuery u ms)"
    unfolding activeMatchQuery_def by (induction rule: list_all2_induct) simp_all
qed

lemma rated_maps [simp]:
  "map us_id (ratedUsers a b d us) = map us_id us" "map us_email (ratedUsers a b d us) = map us_email us"
  "map us_username (ratedUsers a b d us) = map us_username us" "map us_passwordHash (ratedUsers a b d us) = map us_passwordHash us"
  by (auto simp: ratedUsers_def)

lemma rated_ok: "list_all user_ok us \<Longrightarrow> list_all user_ok (ratedUsers a b d us)"
  by (auto simp: ratedUsers_def list_all_iff user_ok_def)

lemma move_users:
  assumes "rating_move m win us us'"
  shows "map us_id us' = map us_id us" "map us_email us' = map us_email us" "map us_username us' = map us_username us"
    "list_all user_ok us \<Longrightarrow> list_all user_ok us'"
  using assms by (auto simp: rating_move_def rated_ok split: if_splits)

lemma result_maps [simp]:
  "map mt_id (map (\<lambda>x. if mt_id x = i then resultRow st win t x else x) ms) = map mt_id ms"
  "map mt_matchSeed (map (\<lambda>x. if mt_id x = i then resultRow st win t x else x) ms) = map mt_matchSeed ms"
  by (auto simp: resultRow_def)

lemma step_keeps_ok:
  assumes "db_step d d'" and "db_ok d"
  shows "db_ok d'"
  using assms
proof cases
  case (db_rename name us i ms rs)
  let ?f = "\<lambda>u. if us_id u = i then u\<lparr>us_username := name\<rparr> else u"
  have "map us_id (map ?f us) = map us_id us" "map us_email (map ?f us) = map us_email us" by auto
  moreover have "map us_username (map ?f us) = map (\<lambda>u. if us_id u = i then name else us_username u) us" by auto
  moreover have "distinct (map (\<lambda>u. if us_id u = i then name else us_username u) us)"
    by (rule renamed_distinct) (use db_rename(4) assms(2) in \<open>auto simp: db_ok_def db_rename(1)\<close>)
  moreover have "list_all user_ok (map ?f us)"
    using assms(2) db_rename(3) by (auto simp: db_ok_def db_rename(1) list_all_iff user_ok_def)
  ultimately show ?thesis using assms(2) unfolding db_ok_def db_rename(1,2) prod.case by (simp only:)
next
  case (db_snapshot ms ms' rs us)
  from same_maps(1) [OF this(3)] have "mt_id ` set ms' = mt_id ` set ms" by (metis set_map)
  with same_maps [OF db_snapshot(3)] assms(2) show ?thesis by (simp add: db_ok_def db_snapshot(1,2) one_live_iff)
next
  case (db_create m ms rs us)
  have "one_live (ms @ [m])" if "one_live ms"
    using that db_create(7,8) by (auto simp: one_live_iff activeMatchQuery_def involves_def)
  with assms(2) db_create(3-6) show ?thesis by (auto simp: db_ok_def db_create(1,2) list_all_iff)
next
  case (db_relog i rs ms us evs)
  have "roundKey ((rs ! i)\<lparr>mr_events := Some evs\<rparr>) = map roundKey rs ! i" using db_relog(3) by (simp add: roundKey_def)
  then have "map roundKey (rs[i := (rs ! i)\<lparr>mr_events := Some evs\<rparr>]) = map roundKey rs"
    by (simp only: map_update list_update_id)
  moreover have "list_all (\<lambda>r. 1 \<le> mr_roundNumber r \<and> mr_matchId r \<in> mt_id ` set ms) (rs[i := (rs ! i)\<lparr>mr_events := Some evs\<rparr>])"
    if "list_all (\<lambda>r. 1 \<le> mr_roundNumber r \<and> mr_matchId r \<in> mt_id ` set ms) rs"
    using that db_relog(3) by (auto simp: list_all_length nth_list_update)
  ultimately show ?thesis using assms(2) by (simp add: db_ok_def db_relog(1,2))
next
  case (db_end m ms st win us us' rs t)
  let ?f = "\<lambda>x. if mt_id x = mt_id m then resultRow st win t x else x"
  have ids: "mt_id ` set (map ?f ms) = mt_id ` set ms" by (metis result_maps(1) set_map)
  have only: "x = m" if "x \<in> set ms" "mt_id x = mt_id m" for x
    using that db_end(3) assms(2) by (auto simp: db_ok_def db_end(1) distinct_map dest: inj_onD)
  have "match_ok (resultRow st win t m)"
    using db_end(5,6) by (auto simp: match_ok_def resultRow_def rating_move_def involves_def split: if_splits)
  with only have "list_all match_ok (map ?f ms)" if "list_all match_ok ms" using that by (auto simp: list_all_iff)
  moreover have "one_live (map ?f ms)" if "one_live ms" using that live_result db_end(5) by (blast intro: one_live_fewer)
  ultimately show ?thesis using move_users [OF db_end(6)] ids assms(2) by (simp add: db_ok_def db_end(1,2) del: set_map map_map)
qed (auto simp: db_ok_def list_all_iff)

lemma steps_keep_ok: "db_steps d d' \<Longrightarrow> db_ok d \<Longrightarrow> db_ok d'"
  by (induction rule: rtranclp_induct) (auto intro: step_keeps_ok)

lemma retire_keeps_ok:
  assumes "db_retire d d'" and "db_ok d"
  shows "db_ok d'"
  using assms
proof cases
  case (db_clear rs rs' ms us)
  have "map roundKey rs' = map roundKey rs \<and>
      (list_all (\<lambda>r. 1 \<le> mr_roundNumber r \<and> mr_matchId r \<in> mt_id ` set ms) rs \<longrightarrow>
       list_all (\<lambda>r. 1 \<le> mr_roundNumber r \<and> mr_matchId r \<in> mt_id ` set ms) rs')"
    using db_clear(3) by (induction rule: list_all2_induct) (auto simp: roundKey_def)
  with assms(2) show ?thesis by (simp add: db_ok_def db_clear(1,2))
next
  case (db_purge ms S rs us)
  have "mr_matchId r \<in> mt_id ` {m \<in> set ms. mt_id m \<notin> S}" if "mr_matchId r \<in> mt_id ` set ms" "mr_matchId r \<notin> S" for r
    using that by auto
  with assms(2) show ?thesis
    by (auto simp: db_ok_def db_purge(1,2) distinct_map_filter list_all_iff intro: one_live_fewer [OF _ live_purge])
qed

subsection \<open>What the steps never undo\<close>

text \<open>Who plays a match never changes, and once it is over nothing of its result does.\<close>

definition keeps_match :: "Match \<Rightarrow> Match \<Rightarrow> bool" where
  "keeps_match m m' \<longleftrightarrow> mt_id m' = mt_id m \<and> mt_player1Id m' = mt_player1Id m \<and> mt_player2Id m' = mt_player2Id m
     \<and> mt_matchSeed m' = mt_matchSeed m \<and> mt_createdAt m' = mt_createdAt m
     \<and> (mt_status m \<noteq> InProgress \<longrightarrow> same_result m m')"

lemma keeps_match_refl [simp]: "keeps_match m m"
  by (simp add: keeps_match_def same_result_def)

lemma keeps_match_trans: "keeps_match a b \<Longrightarrow> keeps_match b c \<Longrightarrow> keeps_match a c"
  by (auto simp: keeps_match_def same_result_def)

lemma step_match:
  assumes "db_step d d'" and "db_ok d" and "m \<in> set (fst d)"
  obtains m' where "m' \<in> set (fst d')" "keeps_match m m'"
  using assms(1)
proof cases
  case (db_snapshot ms ms' rs us)
  with assms(3) obtain i where "i < length ms" "ms ! i = m" by (auto simp: in_set_conv_nth)
  then obtain m' where "m' \<in> set ms'" "same_result m m'"
    using list_all2_nthD [OF db_snapshot(3)] list_all2_lengthD [OF db_snapshot(3)] by (metis nth_mem)
  moreover from this(2) have "keeps_match m m'" by (simp add: keeps_match_def same_result_def)
  ultimately show ?thesis using that db_snapshot by simp
next
  case (db_end n ms st win us us' rs t)
  let ?f = "\<lambda>x. if mt_id x = mt_id n then resultRow st win t x else x"
  have "mt_status m \<noteq> InProgress \<longrightarrow> mt_id m \<noteq> mt_id n"
    using assms(2,3) db_end(3,4) by (auto simp: db_ok_def db_end(1) distinct_map dest: inj_onD)
  then have "keeps_match m (?f m)" by (simp add: keeps_match_def resultRow_def same_result_def)
  moreover have "?f m \<in> set (fst d')" using assms(3) by (simp add: db_end(1,2))
  ultimately show ?thesis using that by blast
qed (use assms(3) that [of m] in auto)

lemma steps_match:
  assumes "db_steps d d'" and "db_ok d" and "m \<in> set (fst d)"
  shows "\<exists>m' \<in> set (fst d'). keeps_match m m'"
  using assms(1)
proof (induction rule: rtranclp_induct)
  case base
  show ?case using assms(3) keeps_match_refl by blast
next
  case (step d1 d2)
  from step.IH obtain m1 where "m1 \<in> set (fst d1)" "keeps_match m m1" by blast
  moreover obtain m2 where "m2 \<in> set (fst d2)" "keeps_match m1 m2"
    using step_match [OF step.hyps(2) steps_keep_ok [OF step.hyps(1) assms(2)] calculation(1)] .
  ultimately show ?case using keeps_match_trans by blast
qed

text \<open>An account keeps everything but its user name and rating.\<close>

definition keeps_user :: "UserRow \<Rightarrow> UserRow \<Rightarrow> bool" where
  "keeps_user u u' \<longleftrightarrow> us_id u' = us_id u \<and> us_email u' = us_email u \<and> us_passwordHash u' = us_passwordHash u
     \<and> us_createdAt u' = us_createdAt u"

text \<open>Wins and losses of a player, and how far the rating may have moved for them.\<close>

definition wins :: "string \<Rightarrow> Match list \<Rightarrow> int" where
  "wins i ms = int (length (filter (\<lambda>m. truthy (mt_winnerId m) \<and> the (mt_winnerId m) = i) ms))"

definition losses :: "string \<Rightarrow> Match list \<Rightarrow> int" where
  "losses i ms = int (length (filter (\<lambda>m. truthy (mt_winnerId m) \<and> involves i m \<and> the (mt_winnerId m) \<noteq> i) ms))"

definition rating_earned :: "Match list \<Rightarrow> Match list \<Rightarrow> UserRow \<Rightarrow> UserRow \<Rightarrow> bool" where
  "rating_earned ms ms' u u' \<longleftrightarrow>
     us_rating u' \<le> us_rating u + 32 * (wins (us_id u) ms' - wins (us_id u) ms)
     \<and> us_rating u - 32 * (losses (us_id u) ms' - losses (us_id u) ms) \<le> us_rating u'"

lemma filter_update:
  assumes "distinct (map k xs)" and "x \<in> set xs" and "\<not> P x"
  shows "length (filter P (map (\<lambda>y. if k y = k x then f y else y) xs)) = length (filter P xs) + of_bool (P (f x))"
  using assms
proof (induction xs)
  case (Cons y ys)
  show ?case
  proof (cases "x = y")
    case True
    with Cons.prems have "k z \<noteq> k x" if "z \<in> set ys" for z using that by (auto simp: image_iff)
    then have "map (\<lambda>y. if k y = k x then f y else y) ys = ys" by (simp add: map_idI)
    with True Cons.prems show ?thesis by simp
  next
    case False
    with Cons.prems have "k y \<noteq> k x" by (metis distinct.simps(2) image_eqI list.map(2) list.set_map set_ConsD)
    with False Cons show ?thesis by simp
  qed
qed simp

lemma same_filters:
  assumes "list_all2 same_result ms ms'"
  shows "wins i ms' = wins i ms" "losses i ms' = losses i ms"
proof -
  have "length (filter (\<lambda>m. truthy (mt_winnerId m) \<and> the (mt_winnerId m) = i) ms') =
      length (filter (\<lambda>m. truthy (mt_winnerId m) \<and> the (mt_winnerId m) = i) ms)"
    "length (filter (\<lambda>m. truthy (mt_winnerId m) \<and> involves i m \<and> the (mt_winnerId m) \<noteq> i) ms') =
      length (filter (\<lambda>m. truthy (mt_winnerId m) \<and> involves i m \<and> the (mt_winnerId m) \<noteq> i) ms)"
    using assms by (induction rule: list_all2_induct) (auto simp: same_result_def involves_def)
  then show "wins i ms' = wins i ms" "losses i ms' = losses i ms" by (simp_all add: wins_def losses_def)
qed

lemma same_earned: "wins (us_id u) ms' = wins (us_id u) ms \<Longrightarrow> losses (us_id u) ms' = losses (us_id u) ms \<Longrightarrow>
    us_rating u' = us_rating u \<Longrightarrow> rating_earned ms ms' u u'"
  by (simp add: rating_earned_def)

lemma end_earned:
  assumes ok: "db_ok (ms, rs, us)" and m: "m \<in> set ms" "mt_status m = InProgress"
    and move: "rating_move m win us us'" and u: "u \<in> set us"
  obtains u' where "u' \<in> set us'" "keeps_user u u'"
    "rating_earned ms (map (\<lambda>x. if mt_id x = mt_id m then resultRow st win t x else x) ms) u u'"
proof -
  let ?ms = "map (\<lambda>x. if mt_id x = mt_id m then resultRow st win t x else x) ms"
  have "mt_winnerId m = None" using ok m by (auto simp: db_ok_def list_all_iff match_ok_def)
  then have free: "\<not> truthy (mt_winnerId m)" by (simp add: truthy_def)
  have ids: "distinct (map mt_id ms)" using ok by (simp add: db_ok_def)
  have w: "wins i ?ms = wins i ms + of_bool (truthy win \<and> the win = i)" for i
    using filter_update [OF ids m(1), of "\<lambda>m. truthy (mt_winnerId m) \<and> the (mt_winnerId m) = i" "resultRow st win t"] free
    by (simp add: wins_def resultRow_def)
  have l: "losses i ?ms = losses i ms + of_bool (truthy win \<and> involves i m \<and> the win \<noteq> i)" for i
    using filter_update [OF ids m(1), of "\<lambda>m. truthy (mt_winnerId m) \<and> involves i m \<and> the (mt_winnerId m) \<noteq> i"
        "resultRow st win t"] free
    by (simp add: losses_def resultRow_def involves_def)
  show ?thesis
  proof (cases "truthy win")
    case False
    with move u that [of u] w l show ?thesis by (simp add: rating_move_def keeps_user_def rating_earned_def)
  next
    case True
    let ?a = "mt_player1Id m" and ?b = "mt_player2Id m"
    from move True obtain d where us': "us' = ratedUsers ?a ?b d us" and ab: "?a \<noteq> ?b"
      and d: "the win = ?a \<and> 0 \<le> d \<and> d \<le> 32 \<or> the win = ?b \<and> - 32 \<le> d \<and> d \<le> 0"
      by (auto simp: rating_move_def)
    let ?g = "\<lambda>u. if us_id u = ?a then u\<lparr>us_rating := max 0 (us_rating u + d)\<rparr>
      else if us_id u = ?b then u\<lparr>us_rating := max 0 (us_rating u - d)\<rparr> else u"
    have pos: "0 \<le> us_rating u" using ok u by (auto simp: db_ok_def list_all_iff user_ok_def)
    have "rating_earned ms ?ms u (?g u)"
      using d ab pos True unfolding rating_earned_def w l by (auto simp: involves_def)
    moreover have "?g u \<in> set us'" using u by (auto simp: us' ratedUsers_def)
    moreover have "keeps_user u (?g u)" by (simp add: keeps_user_def)
    ultimately show ?thesis using that by blast
  qed
qed

lemma step_user:
  assumes "db_step d d'" and "db_ok d" and "u \<in> set (snd (snd d))"
  obtains u' where "u' \<in> set (snd (snd d'))" "keeps_user u u'" "rating_earned (fst d) (fst d') u u'"
  using assms(1)
proof cases
  case (db_rename name us i ms rs)
  let ?f = "\<lambda>u. if us_id u = i then u\<lparr>us_username := name\<rparr> else u"
  have "?f u \<in> set (snd (snd d'))" using assms(3) by (simp add: db_rename(1,2))
  moreover have "keeps_user u (?f u)" "rating_earned (fst d) (fst d') u (?f u)"
    by (simp_all add: keeps_user_def rating_earned_def db_rename(1,2))
  ultimately show ?thesis using that by blast
next
  case (db_create m ms rs us)
  have "wins i (ms @ [m]) = wins i ms" "losses i (ms @ [m]) = losses i ms" for i
    using db_create(5,6) by (simp_all add: wins_def losses_def match_ok_def truthy_def)
  then show ?thesis using that [of u] assms(3) by (simp add: db_create(1,2) keeps_user_def same_earned)
next
  case (db_snapshot ms ms' rs us)
  from same_filters [OF this(3)] that [of u] assms(3) show ?thesis
    by (simp add: db_snapshot(1,2) keeps_user_def same_earned)
next
  case (db_end m ms st win us us' rs t)
  with assms(2,3) show ?thesis using end_earned [of ms rs us m win us' u st t] that by auto
qed (use assms(3) that [of u] in \<open>auto simp: keeps_user_def rating_earned_def\<close>)

lemma steps_user:
  assumes "db_steps d d'" and "db_ok d" and "u \<in> set (snd (snd d))"
  shows "\<exists>u' \<in> set (snd (snd d')). keeps_user u u' \<and> rating_earned (fst d) (fst d') u u'"
  using assms(1)
proof (induction rule: rtranclp_induct)
  case base
  show ?case using assms(3) by (intro bexI [of _ u]) (simp_all add: keeps_user_def rating_earned_def)
next
  case (step d1 d2)
  from step.IH obtain u1 where u1: "u1 \<in> set (snd (snd d1))" "keeps_user u u1" "rating_earned (fst d) (fst d1) u u1" by blast
  obtain u2 where u2: "u2 \<in> set (snd (snd d2))" "keeps_user u1 u2" "rating_earned (fst d1) (fst d2) u1 u2"
    using step_user [OF step.hyps(2) steps_keep_ok [OF step.hyps(1) assms(2)] u1(1)] .
  with u1 have "keeps_user u u2" "rating_earned (fst d) (fst d2) u u2" by (simp_all add: keeps_user_def rating_earned_def)
  with u2(1) show ?case by blast
qed

lemma retire_user: "db_retire d d' \<Longrightarrow> snd (snd d') = snd (snd d)"
  by (erule db_retire.cases) simp_all

end
