(* ===== verification/Persistence.thy ===== *)
theory Persistence
  imports Database_Steps
begin

text \<open>
  Every service method that touches the tables is a sequence of the steps of \<open>Database_Steps\<close>: the repositories, the
  match service, the handlers of the orchestrator, the shop, the queue processors, matchmaking, rooms and
  the REST edge. Generated ids are assumed fresh; whatever other replicas do meanwhile is itself a
  sequence of steps.
\<close>

interpretation tables: stepwise database db_step db_ok
  by unfold_locales (rule step_keeps_ok)

abbreviation persists :: "(world \<Rightarrow> 'a \<times> world) \<Rightarrow> bool" where
  "persists \<equiv> tables.moves"

named_theorems persist_intros \<open>methods that change the tables by steps of the database only\<close>

declare tables.basic [persist_intros] tables.chain [persist_intros] tables.either [persist_intros]

lemma persists_if [persist_intros]: "persists f \<Longrightarrow> persists g \<Longrightarrow> persists (if b then f else g)"
  by simp

lemma persists_lift [persist_intros]: "persists (lift r)"
  by (rule tables.quiet) simp

lemma persists_modify: "(\<And>w. database (f w) = database w) \<Longrightarrow> persists (modify f)"
  by (rule tables.quiet) simp

lemma publish_frames [simp]:
  "database (publishState rt s st w) = database w" "database (publishOffers rt u os w) = database w"
  "database (schedulePhaseStart m n d w) = database w" "database (scheduleCombatDoneTimeout m n d w) = database w"
  "database (scheduleRoundReadyTimeout m n d w) = database w" "database (scheduleDisconnectDetect m u d w) = database w"
  by (simp_all add: publishState_def publishOffers_def schedulePhaseStart_def scheduleCombatDoneTimeout_def
      scheduleRoundReadyTimeout_def scheduleDisconnectDetect_def Let_def)

lemma roll_frames [simp]: "database (rollOffersForMatch sha rt w) = database w"
  by (simp add: rollOffersForMatch_def resetShop_def)

lemma initialize_frames [simp]: "database (snd (initializeMatch pt m w)) = database w"
  by (simp add: initializeMatch_def Let_def)

lemma runtime_frames [simp]:
  "database (snd (findRuntime m w)) = database w" "database (snd (getRuntime m w)) = database w"
  "database (snd (flipPhase pt m v v' w)) = database w"
  by (auto simp: findRuntime_def getRuntime_def flipPhase_def Let_def split: option.split prod.split)

lemma quiet_methods [persist_intros]:
  "persists (modify (publish k p))" "persists (modify (publishToUser k u p))" "persists (modify (addJob j))"
  "persists (modify (writeCombatResult k e t))" "persists (modify (clearCombatResult k))"
  "persists (modify (publishState rt s st))" "persists (modify (onRedis h))"
  "persists (modify (scheduleCombatDoneTimeout k n d))" "persists (modify (scheduleRoundReadyTimeout k n d))"
  "persists (initializeMatch pt m)" "persists (getRuntime k)" "persists (redisCall c)"
  by (rule tables.quiet; simp add: redisCall_eq)+

lemma persists_require [persist_intros]: "persists (requireActionPhase m n ph)"
  unfolding requireActionPhase_def by (intro persist_intros)

lemma persists_found [persist_intros]:
  assumes "persists g" and "\<And>rt. persists (f rt)"
  shows "persists (\<lambda>w. case findRuntime m w of (None, w1) \<Rightarrow> g w1 | (Some rt, w1) \<Rightarrow> f rt w1)"
proof -
  have on: "persists (case x of None \<Rightarrow> g | Some rt \<Rightarrow> f rt)" for x using assms by (cases x) simp_all
  have "persists (\<lambda>w. case findRuntime m w of (x, w1) \<Rightarrow> (case x of None \<Rightarrow> g | Some rt \<Rightarrow> f rt) w1)"
    by (rule tables.branch [where P = "\<lambda>_. True", OF tables.quiet [OF runtime_frames(1)]]) (simp_all add: on)
  then show ?thesis by (simp add: case_prod_unfold option.case_distrib [of "\<lambda>h. h _"] cong: option.case_cong)
qed

lemma persists_flip [persist_intros]:
  "(\<And>b. persists (g b)) \<Longrightarrow> persists (\<lambda>w. case flipPhase pt m v v' w of (b, w2) \<Rightarrow> g b w2)"
  by (rule tables.branch [where P = "\<lambda>_. True"]) (simp_all add: tables.quiet)

subsection \<open>The repositories and the match service\<close>

lemma update_step:
  assumes "\<And>m. same_result m (f m)"
  shows "db_step (database w) (database (snd (matches_update i f w)))"
proof -
  have "list_all2 same_result ms (map (\<lambda>m. if mt_id m = i then f m else m) ms)" for ms
    using assms by (induction ms) (auto simp: same_result_def)
  then show ?thesis by (simp add: database_def matches_update_def db_step.db_snapshot)
qed

lemma persists_snapshots [persist_intros]:
  "persists (updateState k s j)" "persists (updateRuntimeSnapshot k j1 j2 n1 n2)" "persists (persistSnapshot rt st1 st2)"
proof -
  have "db_step (database w) (database (snd (matches_updateState k s j w)))" for k s j w
    unfolding matches_updateState_def by (rule update_step) (simp add: same_result_def split: Side.split)
  then show "persists (updateState k s j)"
    by (intro tables.single) (simp add: updateState_def case_prod_unfold Let_def)
  have "db_step (database w) (database (snd (matches_updateRuntimeSnapshot k j1 j2 n1 n2 w)))" for k j1 j2 n1 n2 w
    unfolding matches_updateRuntimeSnapshot_def by (rule update_step) (simp add: same_result_def)
  then have *: "persists (updateRuntimeSnapshot k j1 j2 n1 n2)" for k j1 j2 n1 n2
    by (intro tables.single) (simp add: updateRuntimeSnapshot_def case_prod_unfold Let_def)
  show "persists (updateRuntimeSnapshot k j1 j2 n1 n2)" "persists (persistSnapshot rt st1 st2)"
    unfolding persistSnapshot_def by (rule *)+
qed

lemma saveRound_step:
  assumes "1 \<le> n" and "m \<in> mt_id ` set (w_matches w)"
  shows "db_step (database w) (database (saveRoundEvents m n evs w))"
proof (cases "findIndex (\<lambda>r. mr_matchId r = m \<and> mr_roundNumber r = n) (w_rounds w)")
  case None
  then have "(m, n) \<notin> roundKey ` set (w_rounds w)" by (auto simp: findIndex_None_iff roundKey_def)
  with assms db_step.db_log [of "\<lparr>mr_matchId = m, mr_roundNumber = n, mr_events = Some evs\<rparr>" "w_matches w" "w_rounds w" "w_users w"]
  show ?thesis by (simp add: saveRoundEvents_def None database_def roundKey_def)
next
  case (Some i)
  with findIndex_SomeD [OF Some] show ?thesis by (simp add: saveRoundEvents_def database_def db_step.db_relog)
qed

lemma persists_appendRound [persist_intros]: "persists (appendRoundEvents m n evs)"
  unfolding tables.moves_def
proof (intro allI impI)
  fix w
  show "db_steps (database w) (database (snd (appendRoundEvents m n evs w)))"
  proof (cases "n < 1 \<or> matches_findById m w = None")
    case True
    then show ?thesis
      by (auto simp: appendRoundEvents_def transaction_def matches_findByIdForUpdate_def database_def)
  next
    case False
    then obtain mt where "matches_findById m w = Some mt" by blast
    with matches_findById_Some have "m \<in> mt_id ` set (w_matches w)" by force
    with False have "db_step (database w) (database (saveRoundEvents m n evs w))" by (intro saveRound_step) auto
    with False show ?thesis by (auto simp: appendRoundEvents_def transaction_def matches_findByIdForUpdate_def)
  qed
qed

lemma eloDelta_move:
  "d = eloDelta a b (if win = p then 1 else 0) \<Longrightarrow> win = p \<or> win = q \<Longrightarrow>
   win = p \<and> 0 \<le> d \<and> d \<le> 32 \<or> win = q \<and> - 32 \<le> d \<and> d \<le> 0"
  using eloDelta_win [of a b] eloDelta_loss [of a b] by auto

text \<open>The transaction that ends a match is one step, or leaves the tables alone.\<close>

lemma end_step:
  assumes ok: "db_ok (database w)" and tx: "finalizeTx m win reason w = (Inr (Finalized mt rc), w')"
  shows "db_step (database w) (database w')"
proof -
  from finalizeTx_Finalized [OF tx] obtain m0 where m0: "matches_findById m w = Some m0" "mt_status m0 = InProgress" by blast
  have row: "m0 \<in> set (w_matches w)" "mt_id m0 = m" using matches_findById_Some [OF m0(1)] by auto
  let ?st = "if reason = HpZero then MatchFinished else Forfeited"
  have ended: "endedRow win reason t = resultRow ?st win t" for t by (simp add: fun_eq_iff endedRow_def resultRow_def)
  have upd: "database (snd (matches_update m (endedRow win reason t) v)) =
      (map (\<lambda>x. if mt_id x = mt_id m0 then resultRow ?st win t x else x) (w_matches v), w_rounds v, w_users v)" for t v
    by (simp add: database_def matches_update_def ended row(2))
  have step: "db_step (database w) (map (\<lambda>x. if mt_id x = mt_id m0 then resultRow ?st win t x else x) (w_matches w), w_rounds w, us')"
    if "rating_move m0 win (w_users w) us'" for us' t
    unfolding database_def by (rule db_step.db_end [OF row(1) m0(2) _ that]) simp
  from m0 tx show ?thesis
  proof (cases rule: finalizeTx_live)
    case drawn
    show ?thesis unfolding drawn(3) upd by (rule step) (simp add: rating_move_def drawn(1))
  next
    case (won rc' w1)
    from db_ok_tables [OF ok] won(3) show ?thesis
    proof (cases rule: applyRatings_cases)
      case (rated u1 u2 d)
      have "{mt_player1Id m0, mt_player2Id m0} \<subseteq> us_id ` set (w_users w)"
        using users_findById_Some [OF rated(1)] users_findById_Some [OF rated(2)] by force
      with won(1) rated(3,6) eloDelta_move [OF rated(4) won(2)]
      have "rating_move m0 win (w_users w) (w_users w1)" by (auto simp: rating_move_def)
      moreover have "w_matches w1 = w_matches w" "w_rounds w1 = w_rounds w" using rated(6) by simp_all
      ultimately show ?thesis unfolding won(5) upd by (simp only: step)
    qed simp
  qed simp_all
qed

lemma persists_finalize [persist_intros]: "persists (finalize m win reason)"
  unfolding tables.moves_def
proof (intro allI impI)
  fix w assume ok: "db_ok (database w)"
  obtain res w1 where tx: "finalizeTx m win reason w = (res, w1)" by fastforce
  show "db_steps (database w) (database (snd (finalize m win reason w)))"
  proof (cases res)
    case (Inl e)
    with tx transaction_atomic [of "finalizeTx m win reason" w] show ?thesis
      unfolding finalize_database by (simp add: transaction_def database_def)
  next
    case (Inr out)
    have same: "database w1 = database w" if "out = NotFinalized b" for b
    proof (cases "matches_findById m w")
      case (Some m0)
      show ?thesis
      proof (cases "mt_status m0 = InProgress")
        case True
        from Some True tx [unfolded Inr that] show ?thesis by (cases rule: finalizeTx_live) simp_all
      qed (use tx Inr finalizeTx_terminal [OF Some] in simp)
    qed (use tx Inr finalizeTx_missing in simp)
    have "db_steps (database w) (database w1)"
    proof (cases out)
      case (Finalized mt rc)
      with end_step [OF ok] tx Inr show ?thesis by blast
    qed (use same in simp)
    with tx Inr show ?thesis unfolding finalize_database by (simp add: transaction_def)
  qed
qed

lemma persists_forfeit [persist_intros]: "persists (forfeitDisconnectedPlayer m u)"
  unfolding tables.moves_def
proof (intro allI impI)
  fix w assume "db_ok (database w)"
  moreover have "persists (finalize k win Disconnect)" for k win by (rule persists_finalize)
  ultimately show "db_steps (database w) (database (snd (forfeitDisconnectedPlayer m u w)))"
    unfolding tables.moves_def by (simp add: forfeitDisconnectedPlayer_def Let_def split: option.split)
qed

subsection \<open>The orchestrator\<close>

text \<open>What the other replicas do while a handler waits or simulates keeps to the steps too.\<close>

definition steady :: "ports \<Rightarrow> bool" where
  "steady pt \<longleftrightarrow> (\<forall>n. persists (\<lambda>w. ((), pt_env pt n w))) \<and> persists (\<lambda>w. ((), pt_during pt w))"

lemma steadyD:
  assumes "steady pt"
  shows "persists (\<lambda>w. ((), pt_env pt n w))" "persists (\<lambda>w. ((), pt_during pt w))"
  using assms by (simp_all add: steady_def)

lemma persists_combatBody:
  assumes "steady pt"
  shows "persists (combatBody pt m n)"
  unfolding tables.moves_def
proof (intro allI impI)
  fix w assume ok: "db_ok (database w)"
  let ?store = "\<lambda>rt events timeout.
     andThen (appendRoundEvents m (int (m_round rt)) events) (\<lambda>_.
     andThen (modify (writeCombatResult m events (combatResultTtlSeconds timeout))) (\<lambda>_.
     andThen (modify (onRedis (hset (runtimeKey m) ''combatRound'' (HStr (showNat (m_round rt)))))) (\<lambda>_.
     andThen (\<lambda>w. modify (publish m (CombatEvents
         \<lparr>cp_matchId = m, cp_round = m_round rt, cp_cycleCount = cycleCountOf events, cp_endedAt = w_now w,
          cp_events = events, cp_board1 = p_board (m_p1State rt), cp_board2 = p_board (m_p2State rt)\<rparr>)) w) (\<lambda>_.
     andThen (modify (scheduleCombatDoneTimeout m (m_round rt) timeout)) (\<lambda>_. ret True)))))"
  have note_: "persists (\<lambda>w. modify (publish m (c w)) w)" for c by (rule tables.quiet) simp
  have stored: "persists (?store rt events timeout)" for rt events timeout
    by (intro persist_intros note_)
  let ?w1 = "clearCombatResult m (onRedis (del (combatDoneKey m)) w)"
  have db1: "database ?w1 = database w" by simp
  have w2: "db_steps (database w) (database (pt_during pt ?w1))"
    using steadyD(2) [OF assms] ok unfolding tables.moves_def snd_conv by (metis db1)
  have last: "db_steps (database w) (database (snd (?store rt events timeout (pt_during pt ?w1))))" for rt events timeout
    using w2 ok stored by (rule tables.after)
  show "db_steps (database w) (database (snd (combatBody pt m n w)))"
    unfolding combatBody_def Let_def
    by (simp only: w2 db1 last snd_conv rtranclp.rtrancl_refl split: option.split sum.split if_split) blast
qed

lemma persists_runCombat:
  assumes "steady pt"
  shows "persists (runCombat pt m n)"
proof -
  let ?owner = "HStr (pt_instance pt @ '':'' @ pt_owner pt)"
  have body: "persists (finallyDo (combatBody pt m n) (onRedis (\<lambda>r. snd (releaseOwned (combatLockKey m) ?owner r))))"
    by (intro tables.cleanup persists_combatBody [OF assms]) simp
  show ?thesis
    unfolding tables.moves_def
  proof (intro allI impI)
    fix w assume ok: "db_ok (database w)"
    obtain b r where lock: "setNx (combatLockKey m) ?owner COMBAT_LOCK_TTL_SECONDS (w_redis w) = (b, r)" by fastforce
    have "db_steps (database w) (database (w\<lparr>w_redis := r\<rparr>))" by simp
    from tables.after [OF this ok body] show "db_steps (database w) (database (snd (runCombat pt m n w)))"
      unfolding runCombat_def Let_def lock prod.case by (cases b) simp_all
  qed
qed

lemma persists_preview [persist_intros]: "persists (publishDamagePreview rt n)"
  by (rule tables.quiet) (simp add: publishDamagePreview_def split: option.split sum.split)

lemma persists_start:
  assumes "steady pt"
  shows "persists (tryStartCombat pt m n)"
  unfolding tryStartCombat_def [abs_def] Let_def
  by (intro persist_intros persists_runCombat [OF assms])

lemma persists_advance [persist_intros]: "persists (advanceResolvedRound pt m n)"
  unfolding advanceResolvedRound_def [abs_def] Let_def
  by (intro persist_intros) (rule tables.quiet, simp)

lemma persists_finish [persist_intros]: "persists (finishMatch rt res win)"
  unfolding finishMatch_def Let_def by (intro persist_intros)

lemma persists_summarize [persist_intros]: "persists (summarizeRound rt res n)"
  unfolding summarizeRound_def Let_def by (intro persist_intros)

lemma persists_damage [persist_intros]: "persists (applyDamageAndAdvance pt m n)"
proof -
  have resolved: "persists (\<lambda>w. case flipPhase pt m v v' w of (flipped, w2) \<Rightarrow>
      if \<not> flipped then (Inr False, w2)
      else case rs_winnerId res of Some win \<Rightarrow> finishMatch rt res win w2 | None \<Rightarrow> summarizeRound rt res n w2)" for rt res v v'
  proof -
    have "persists (\<lambda>w2. case rs_winnerId res of Some win \<Rightarrow> finishMatch rt res win w2 | None \<Rightarrow> summarizeRound rt res n w2)"
      by (cases "rs_winnerId res") (simp_all add: persists_finish persists_summarize)
    then show ?thesis by (intro persist_intros)
  qed
  show ?thesis
    unfolding applyDamageAndAdvance_def [abs_def] Let_def
  proof (rule persists_found)
    fix rt
    show "persists (\<lambda>w1. if m_phase rt \<noteq> BattlePhase \<or> m_round rt \<noteq> n \<or> m_combatRound rt \<noteq> Some n then (Inr False, w1)
          else case getCombatResult m w1 of
                 None \<Rightarrow> (Inr False, w1)
               | Some events \<Rightarrow>
                   (case resolveRound rt n events of
                      Inl e \<Rightarrow> (Inl e, w1)
                    | Inr res \<Rightarrow>
                        (case flipPhase pt m (n, BattlePhase) (n, Resolved) w1 of (flipped, w2) \<Rightarrow>
                           if \<not> flipped then (Inr False, w2)
                           else case rs_winnerId res of
                                     Some winnerId \<Rightarrow> finishMatch (rt\<lparr>m_wipeIndexP1 := dm_wipeIndexP1 (rs_damage res),
                                                       m_wipeIndexP2 := dm_wipeIndexP2 (rs_damage res)\<rparr>) res winnerId w2
                                   | None \<Rightarrow> summarizeRound (rt\<lparr>m_wipeIndexP1 := dm_wipeIndexP1 (rs_damage res),
                                                       m_wipeIndexP2 := dm_wipeIndexP2 (rs_damage res)\<rparr>) res n w2)))"
      using resolved unfolding tables.moves_def
      by (simp only: rtranclp.rtrancl_refl snd_conv split: option.split sum.split if_split) blast
  qed (rule tables.basic)
qed

subsection \<open>Requests\<close>

lemma persists_markReady [persist_intros]: "steady pt \<Longrightarrow> persists (markReady pt u m n)"
  unfolding markReady_def Let_def by (intro persist_intros persists_start)

lemma persists_redis [persist_intros]: "persists (\<lambda>w. redisCall (c w) w)"
  by (rule tables.quiet) (simp add: redisCall_eq)

lemma persists_combatDone [persist_intros]: "persists (handleCombatDone pt u m n)"
  unfolding handleCombatDone_def Let_def by (intro persist_intros)

lemma persists_roundReady [persist_intros]: "persists (markRoundReady pt u m n)"
  unfolding markRoundReady_def Let_def by (intro persist_intros)

lemma persists_surrender [persist_intros]: "persists (surrender pt u m n)"
  unfolding surrender_def Let_def by (intro persist_intros)

lemma persists_disconnect [persist_intros]: "persists (handleDisconnect pt k u)"
proof -
  have on: "persists (\<lambda>w. case findRuntime m w of
       (None, w1) \<Rightarrow> forfeitDisconnectedPlayer m u w1
     | (Some rt, w1) \<Rightarrow>
         (case sideFor rt u of
            Inl e \<Rightarrow> (Inl e, w1)
          | Inr _ \<Rightarrow>
              if m_phase rt = Finished then (Inr False, w1)
              else case flipPhase pt m (m_round rt, m_phase rt) (m_round rt, Finished) w1 of (flipped, w2) \<Rightarrow>
                if \<not> flipped then (Inr False, w2) else forfeitDisconnectedPlayer m u w2))" for m
  proof (rule persists_found)
    fix rt :: MatchRuntimeState
    have "persists (\<lambda>w1. case flipPhase pt m (m_round rt, m_phase rt) (m_round rt, Finished) w1 of (flipped, w2) \<Rightarrow>
        if \<not> flipped then (Inr False, w2) else forfeitDisconnectedPlayer m u w2)" by (intro persist_intros)
    then show "persists (\<lambda>w1. case sideFor rt u of Inl e \<Rightarrow> (Inl e, w1)
        | Inr _ \<Rightarrow> if m_phase rt = Finished then (Inr False, w1)
            else case flipPhase pt m (m_round rt, m_phase rt) (m_round rt, Finished) w1 of (flipped, w2) \<Rightarrow>
              if \<not> flipped then (Inr False, w2) else forfeitDisconnectedPlayer m u w2)"
      by (cases "sideFor rt u"; cases "m_phase rt = Finished") (simp_all add: tables.basic)
  qed (rule persists_forfeit)
  show ?thesis
    unfolding tables.moves_def
  proof (intro allI impI)
    fix w assume "db_ok (database w)"
    with on show "db_steps (database w) (database (snd (handleDisconnect pt k u w)))"
      unfolding handleDisconnect_def Let_def tables.moves_def
      by (simp only: rtranclp.rtrancl_refl snd_conv split: option.split) blast
  qed
qed

lemma persists_commitRuntime [persist_intros]: "persists (commitRuntimeAction rt u f v a ph)"
  by (rule tables.quiet) (simp add: commitRuntimeAction_def Let_def split: prod.split)

lemma acquire_db:
  assumes "\<And>k. persists (\<lambda>w. ((), env k w))"
  shows "persists (acquireLock j env key owner ttl)"
  unfolding tables.moves_def
proof (intro allI impI)
  fix w assume "db_ok (database w)"
  then show "db_steps (database w) (database (snd (acquireLock j env key owner ttl w)))"
  proof (induction j arbitrary: w)
    case (Suc j)
    obtain ok r where set: "setNx key (HStr owner) ttl (w_redis w) = (ok, r)" by fastforce
    have one: "db_steps (database w) (database (env j (w\<lparr>w_redis := r\<rparr>)))"
      using assms [of j] Suc.prems unfolding tables.moves_def by (metis snd_conv with_redis_tables)
    from rtranclp_trans [OF one Suc.IH [OF tables.keeps_all [OF one Suc.prems]]] set show ?case
      by (simp add: Let_def)
  qed simp
qed

lemma persists_locked:
  assumes "\<And>k. persists (\<lambda>w. ((), env k w))" and "persists f"
  shows "persists (\<lambda>w. case acquireLock j env key owner ttl w of (ok, w1) \<Rightarrow>
           if \<not> ok then (Inl e, w1) else finallyDo f (releaseLock key owner) w1)"
proof (rule tables.branch [where P = "\<lambda>_. True"])
  show "persists (acquireLock j env key owner ttl)" using assms(1) by (rule acquire_db)
  have "persists (finallyDo f (releaseLock key owner))"
    by (rule tables.cleanup [OF assms(2)]) (simp add: releaseLock_def)
  then show "persists (\<lambda>w1. if \<not> ok then (Inl e, w1) else finallyDo f (releaseLock key owner) w1)" for ok
    by (intro persist_intros)
qed simp

lemma persists_persist [persist_intros]: "persists (persistAction ctx a)"
proof -
  let ?rt = "ac_runtime ctx" and ?st = "playerObj (ac_state ctx)"
  have "persists (andThen (updateState (m_matchId ?rt) (ac_side ctx) (playerJson ?st))
      (\<lambda>_. andThen (modify (publishState ?rt (ac_side ctx) ?st)) (\<lambda>_. ret True)))"
    by (intro persist_intros)
  then have body: "persists (\<lambda>w. if c = -2 then (Inl e1, w) else if c = -1 then (Inl e2, w) else if c \<noteq> 1 then (Inr False, w)
      else andThen (updateState (m_matchId ?rt) (ac_side ctx) (playerJson ?st))
        (\<lambda>_. andThen (modify (publishState ?rt (ac_side ctx) ?st)) (\<lambda>_. ret True)) w)" for c :: int and e1 e2
    by (intro persist_intros)
  show ?thesis
    unfolding tables.moves_def
  proof (intro allI impI)
    fix w assume ok: "db_ok (database w)"
    obtain c r where run: "commitAction ctx a (w_now w) (w_redis w) = (c, r)" by fastforce
    have "db_steps (database w) (database (w\<lparr>w_redis := r\<rparr>))" by simp
    from tables.after [OF this ok body] show "db_steps (database w) (database (snd (persistAction ctx a w)))"
      unfolding persistAction_def Let_def run prod.case .
  qed
qed

lemma persists_lockedAction: "persists (lockedAction u m n a f)"
proof -
  have on: "persists (andThen (persistAction ctx a) (\<lambda>recorded. if \<not> recorded then ret True
           else andThen (modify (if emit then publishOffers rt u os else id)) (\<lambda>_. ret False)))" for ctx rt os emit
    by (intro persist_intros persists_modify) simp
  show ?thesis
    using on unfolding tables.moves_def lockedAction_def
    by (simp add: split: sum.split prod.split del: method_simps)
qed

lemma persists_withAction [persist_intros]:
  "steady pt \<Longrightarrow> persists (withAction (pt_env pt) owner u m n a f)"
  unfolding withAction_def [abs_def] Let_def
  by (intro persist_intros persists_locked persists_lockedAction steadyD)

lemma persists_place [persist_intros]: "steady pt \<Longrightarrow> persists (place pt u m n i t k a)"
  unfolding place_def withPlayerActionLock_def [abs_def] Let_def placeBody_def [abs_def]
  by (intro persists_locked steadyD persist_intros)

lemma persists_readyAction [persist_intros]: "steady pt \<Longrightarrow> persists (markReadyAction pt u m n b a)"
  unfolding markReadyAction_def Let_def by (intro persist_intros persists_start)

lemma persists_shop [persist_intros]:
  assumes "steady pt"
  shows "persists (buy (pt_env pt) owner uuid u m n i a)" and "persists (sell (pt_env pt) owner u m n src k a)"
    and "persists (refresh sha (pt_env pt) owner u m n a)" and "persists (fuse (pt_env pt) owner u m n unit a x y)"
  unfolding buy_def sell_def refresh_def fuse_def by (rule persists_withAction [OF assms])+

lemma persists_handleAction:
  assumes "steady pt"
  shows "persists (handleAction pt u action n a pm)"
proof -
  let ?dup = "\<lambda>d. ret (duplicateResult d)"
  have "persists (case action of
                    ShopBuy i \<Rightarrow> andThen (buy (pt_env pt) (pt_owner pt) (pt_uuid pt) u m n i a) ?dup
                  | ShopSell src slot \<Rightarrow> andThen (sell (pt_env pt) (pt_owner pt) u m n src slot a) ?dup
                  | ShopRefresh \<Rightarrow> andThen (refresh (pt_sha pt) (pt_env pt) (pt_owner pt) u m n a) ?dup
                  | ShopFuse unit x y \<Rightarrow> andThen (fuse (pt_env pt) (pt_owner pt) u m n unit a x y) ?dup
                  | MatchPlace i target slot \<Rightarrow> place pt u m n i target slot a
                  | MatchReady ready \<Rightarrow> markReadyAction pt u m n (case ready of Some b \<Rightarrow> b | None \<Rightarrow> True) a
                  | MatchCombatDone \<Rightarrow> andThen (handleCombatDone pt u m n) (\<lambda>n. ret (noResult\<lparr>ra_ackCount := Some n\<rparr>))
                  | MatchRoundReady \<Rightarrow> markRoundReady pt u m n
                  | MatchSurrender \<Rightarrow> andThen (surrender pt u m n) (\<lambda>b. ret (noResult\<lparr>ra_forfeited := Some b\<rparr>)))" for m
    by (cases action) (simp_all add: persist_intros assms del: method_simps)
  then show ?thesis by (simp add: handleAction_def Let_def tables.moves_def del: method_simps)
qed

subsection \<open>Workers and the matchmaking queue\<close>

lemma cleanup_frames [simp]: "database (snd (cleanupMatch m w)) = database w"
  by (simp add: cleanupMatch_def unlinkPrefix_def Let_def database_def split: option.split)

lemma persists_runJob:
  assumes "steady pt"
  shows "persists (runJob pt job)"
proof -
  have "persists (cleanupMatch m)" for m by (rule tables.quiet) simp
  then have "persists (processPhaseTimer pt job)" "persists (processCombatDoneTimeout pt job)"
    "persists (processDisconnectDetect pt job)" "persists (processMatchCleanup job)"
    unfolding processPhaseTimer_def processCombatDoneTimeout_def processDisconnectDetect_def processMatchCleanup_def
    by (cases job; simp add: persist_intros persists_start [OF assms] del: method_simps)+
  then show ?thesis
    unfolding runJob_def by (intro tables.cleanup; cases job) (simp_all add: database_def)
qed

lemma persists_queue [persist_intros]: "persists (joinQueue u t)" "persists (leaveQueue u)"
  by (rule tables.quiet; simp add: joinQueue_def leaveQueue_def split: option.split prod.split)+

text \<open>The methods that insert a match, run with an id that no match has.\<close>

definition fresh :: "string \<Rightarrow> world \<Rightarrow> bool" where
  "fresh i w \<longleftrightarrow> i \<notin> mt_id ` set (w_matches w) \<and> i \<notin> us_id ` set (w_users w)"

definition saved :: "world \<Rightarrow> 'a \<times> world \<Rightarrow> bool" where
  "saved w res \<longleftrightarrow> db_steps (database w) (database (snd res))"

lemma saved_moves: "persists f \<Longrightarrow> db_ok (database w) \<Longrightarrow> saved w (f w)"
  by (simp add: saved_def tables.moves_def)

lemma saved_same: "database (snd res) = database w \<Longrightarrow> saved w res"
  by (simp add: saved_def)

lemma fresh_database: "database w' = database w \<Longrightarrow> fresh i w' = fresh i w"
  by (drule databaseD) (simp add: fresh_def)

lemma saved_database: "database v = database w \<Longrightarrow> saved v res = saved w res"
  by (simp add: saved_def)

lemma saved_createMatch:
  assumes "fresh i w" and "matches_findActiveByUserId p w = None" and "matches_findActiveByUserId q w = None"
  shows "saved w (createMatch i seed p q w)"
proof (cases "createMatch i seed p q w")
  case (Pair res w')
  show ?thesis
  proof (cases res)
    case (Inl e)
    with Pair createMatch_error have "w' = w" by blast
    with Pair show ?thesis by (simp add: saved_same)
  next
    case (Inr m)
    note run = Pair [unfolded Inr]
    have "mt_matchSeed m = seed" "seed \<notin> mt_matchSeed ` set (w_matches w)" "w_rounds w' = w_rounds w" "w_users w' = w_users w"
      using run by (auto simp: createMatch_def matches_create_def Let_def split: if_splits)
    moreover have "activeMatchQuery p (w_matches w) = []" "activeMatchQuery q (w_matches w) = []"
      using assms(2,3) by (auto simp: matches_findActiveByUserId_def split: list.splits)
    ultimately have "db_step (database w) (database w')"
      using createMatch_active [OF run] assms(1) by (simp add: database_def db_step.db_create fresh_def match_ok_def)
    with Pair show ?thesis by (simp add: saved_def r_into_rtranclp)
  qed
qed

lemma saved_create:
  assumes "fresh i w" and "db_ok (database w)"
    and none: "matches_findActiveByUserId p w = None" "matches_findActiveByUserId q w = None"
  shows "saved w (createMatchForPlayers pt i seed p q w)"
proof (cases "createMatch i seed p q w")
  case (Pair res w')
  with saved_createMatch [OF assms(1) none, of seed] have first: "db_steps (database w) (database w')" by (simp add: saved_def)
  show ?thesis
  proof (cases res)
    case (Inr m)
    have "persists (andThen (initializeMatch pt m) (\<lambda>_. ret \<lparr>mp_matchId = mt_id m, mp_player1Id = p, mp_player2Id = q\<rparr>))"
      by (intro persist_intros)
    from tables.after [OF first assms(2) this] Pair Inr show ?thesis
      by (simp add: saved_def createMatchForPlayers_def del: method_simps)
  qed (use first Pair in \<open>simp add: saved_def createMatchForPlayers_def\<close>)
qed

lemma saved_tryPair:
  assumes "fresh i w" and "db_ok (database w)"
  shows "saved w (tryPair pt i seed w)"
proof -
  obtain players r where took: "matchPair MATCHMAKING_QUEUE_KEY (w_redis w) = (players, r)" by fastforce
  let ?w1 = "w\<lparr>w_redis := r\<rparr>"
  have requeue: "database (requeueAfterFailure us v) = database v" for us v by (simp add: requeueAfterFailure_def)
  show ?thesis
  proof (cases "\<exists>p q. players = [p, q]")
    case False
    then have "snd (tryPair pt i seed w) = ?w1" by (auto simp: tryPair_def took Let_def split: list.split)
    then show ?thesis by (simp add: saved_def)
  next
    case True
    then obtain p q where pq: "players = [p, q]" by blast
    show ?thesis
    proof (cases "matches_findActiveByUserId p ?w1 \<noteq> None \<or> matches_findActiveByUserId q ?w1 \<noteq> None")
      case True
      then show ?thesis by (intro saved_same) (auto simp: tryPair_def took pq requeue Let_def)
    next
      case False
      obtain res w2 where run: "createMatch i seed p q ?w1 = (res, w2)" by fastforce
      have "fresh i ?w1" using assms(1) fresh_database [of ?w1 w] by simp
      from saved_createMatch [OF this, of p q seed] False run have first: "db_steps (database w) (database w2)" by (simp add: saved_def)
      show ?thesis
      proof (cases res)
        case (Inl e)
        with first False run show ?thesis by (simp add: saved_def tryPair_def took pq requeue Let_def)
      next
        case (Inr m)
        have "persists (andThen (initializeMatch pt m) (\<lambda>_. ret (Some \<lparr>mp_matchId = mt_id m, mp_player1Id = p, mp_player2Id = q\<rparr>)))"
          by (intro persist_intros)
        from tables.after [OF first assms(2) this] False run Inr show ?thesis
          by (simp add: saved_def tryPair_def took pq Let_def del: method_simps)
      qed
    qed
  qed
qed

lemma saved_matchPair: "fresh i w \<Longrightarrow> db_ok (database w) \<Longrightarrow> saved w (processMatchPair pt i seed job w)"
  using saved_tryPair [of i w pt seed]
  by (auto simp: saved_def processMatchPair_def andThen_def split: prod.split sum.split)

subsection \<open>Rooms\<close>

lemma finish_frames [simp]: "database (snd (finishRoomMatch v m w)) = database w"
  using finishRoom_ok [of v m w] by (cases "finishRoomMatch v m w") simp

lemma saved_createRoomMatch:
  assumes "fresh n w" and "db_ok (database w)"
  shows "saved w (createRoomMatch pt n seed i (own, g) token view w)"
proof (cases "orElse (matches_findActiveByUserId own w) (matches_findActiveByUserId g w)")
  case (Some m)
  then show ?thesis by (intro saved_same) (simp add: createRoomMatch_def Some [unfolded orElse_def] Let_def)
next
  case None
  obtain made w1 where made: "createMatchForPlayers pt n seed own g w = (made, w1)" by fastforce
  with saved_create [OF assms, of own g pt seed] None have "db_steps (database w) (database w1)"
    by (simp add: saved_def orElse_def split: option.splits)
  then show ?thesis
    by (cases made) (simp_all add: saved_def createRoomMatch_def None [unfolded orElse_def] made Let_def)
qed

lemma saved_startRoom:
  assumes "fresh n w" and "db_ok (database w)"
  shows "saved w (startRoomForOwner pt n seed token u w)"
proof -
  have "saved w (startRoomMatch pt n seed token i w)" for i
  proof -
    obtain claim r where claim: "roomStartMatch (roomKey i) (roomHandoffKey i) token ROOM_HANDOFF_TTL_SECONDS (w_redis w) = (claim, r)"
      by fastforce
    let ?w1 = "w\<lparr>w_redis := r\<rparr>"
    have "fresh n ?w1" "db_ok (database ?w1)" using assms fresh_database [of ?w1 w] by simp_all
    from saved_createRoomMatch [OF this, of pt seed i] have "saved w (createRoomMatch pt n seed i players token view ?w1)" for players view
      using saved_database [of ?w1 w "createRoomMatch pt n seed i players token view ?w1"] by (cases players) simp
    then show ?thesis
      by (cases claim) (auto simp: startRoomMatch_def claim Let_def saved_def split: option.split)
  qed
  then show ?thesis by (simp add: startRoomForOwner_def saved_def split: option.split)
qed

subsection \<open>The REST edge\<close>

lemma saved_register:
  assumes "us_id ` set (w_users w) \<subseteq> - {i}" and "db_ok (database w)" and "nameValid name"
  shows "saved w (register tk i email name pw w)"
proof -
  let ?u = "\<lparr>us_id = i, us_email = toLowerCase email, us_username = name, us_passwordHash = tk_hash tk pw,
    us_rating = 1000, us_createdAt = w_now w\<rparr>"
  obtain res w' where run: "register tk i email name pw w = (res, w')" by fastforce
  then have "w' = w \<or> (toLowerCase email \<notin> us_email ` set (w_users w) \<and> name \<notin> us_username ` set (w_users w)
      \<and> w' = w\<lparr>w_users := w_users w @ [?u]\<rparr>)"
    by (auto simp: register_def users_create_def Let_def split: if_splits)
  moreover have "db_step (database w) (database (w\<lparr>w_users := w_users w @ [?u]\<rparr>))"
    if "toLowerCase email \<notin> us_email ` set (w_users w)" "name \<notin> us_username ` set (w_users w)"
    unfolding database_def
    using db_step.db_register [of ?u "w_users w" "w_matches w" "w_rounds w"] that assms(1,3)
    by (auto simp: user_ok_def lower_lower)
  ultimately show ?thesis using run by (auto simp: saved_def)
qed

lemma saved_rename:
  assumes "nameValid name"
  shows "saved w (updateMe jwt name w)"
proof -
  let ?i = "jw_sub jwt"
  let ?f = "\<lambda>u. if us_id u = ?i then u\<lparr>us_username := name\<rparr> else u"
  obtain res w' where run: "updateMe jwt name w = (res, w')" by fastforce
  then consider "w' = w" | "w' = w\<lparr>w_users := map ?f (w_users w)\<rparr>"
    "\<not> (\<exists>u \<in> set (w_users w). us_username u = name \<and> us_id u \<noteq> ?i \<and> ?i \<in> us_id ` set (w_users w))"
    by (auto simp: updateMe_def updateUsername_def users_update_def Let_def split: if_splits option.splits)
  then show ?thesis
  proof cases
    case 2
    show ?thesis
    proof (cases "?i \<in> us_id ` set (w_users w)")
      case True
      with 2(2) have "us_id u = ?i" if "u \<in> set (w_users w)" "us_username u = name" for u using that by blast
      from db_step.db_rename [OF assms this, of "w_users w" "w_matches w" "w_rounds w"] run 2(1) show ?thesis
        by (simp add: saved_def database_def r_into_rtranclp)
    next
      case False
      then have "map ?f (w_users w) = w_users w" by (intro map_idI) (metis image_eqI)
      with run 2(1) show ?thesis by (simp add: saved_def)
    qed
  qed (use run in \<open>simp add: saved_def\<close>)
qed

lemma saved_answer: "saved w (res, v) \<Longrightarrow> saved w (answer env st exc body (res', v))"
  by (cases res') (simp_all add: saved_def answer_def refuse_def)

lemma saved_validated: "(\<And>d. dto = Some d \<Longrightarrow> saved w (f d w)) \<Longrightarrow> saved w (validated env input dto f w)"
  by (simp add: validated_def refuse_def saved_same split: option.split)

lemma saved_proper: "proper r c w res \<Longrightarrow> r \<notin> {PostRegister, PatchMe, PostStart} \<Longrightarrow> saved w res"
proof (rule saved_same)
  assume pr: "proper r c w res" and r: "r \<notin> {PostRegister, PatchMe, PostStart}"
  then have rights: "within_rights r c w (snd res)" by (simp add: proper_def)
  with r obtain f where f: "w_users (snd res) = map f (w_users w)" "\<And>u. f u = u" unfolding within_rights_def by auto
  from rights r have "w_matches (snd res) = w_matches w" "w_rounds (snd res) = w_rounds w" by (auto simp: within_rights_def)
  with f show "database (snd res) = database w" by (simp add: database_def map_idI)
qed

lemma saved_auth:
  assumes "fresh (rv_newId env) w" and "db_ok (database w)" and "\<not> guarded r"
  shows "saved w (authController env r rq w)"
proof (cases "r = PostRegister")
  case True
  have "saved w (answer env st exc SessionBody (register tk (rv_newId env) email name pw w))" if "nameValid name" for st exc tk email name pw
  proof -
    obtain res v where run: "register tk (rv_newId env) email name pw w = (res, v)" by fastforce
    have "us_id ` set (w_users w) \<subseteq> - {rv_newId env}" using assms(1) by (auto simp: fresh_def)
    from saved_register [OF this assms(2) that, of tk email pw] run show ?thesis by (simp add: saved_answer)
  qed
  with True show ?thesis
    by (auto simp: authController_def Let_def dest!: registerDto_valid intro!: saved_validated split: prod.split)
next
  case False
  with proper_auth [OF assms(3), of None w env rq] assms(3) show ?thesis
    by (intro saved_proper) (auto simp: guarded_def)
qed

lemma saved_user:
  assumes "r \<in> {GetMe, GetMyStats, PatchMe, GetLeaderboard}"
  shows "saved w (userController env r rq jwt w)"
proof (cases "r = PatchMe")
  case True
  have "saved w (answer env st exc AccountBody (updateMe jwt name w))" if "nameValid name" for st exc name
    using saved_rename [OF that, of w jwt] by (cases "updateMe jwt name w") (simp add: saved_answer)
  with True show ?thesis
    by (auto simp: userController_def dest!: updateUserDto_valid intro!: saved_validated split: prod.split)
next
  case False
  with proper_user [OF assms, of jwt w env rq] assms show ?thesis by (intro saved_proper) auto
qed

lemma saved_room:
  assumes "fresh (rv_newId env) w" and "db_ok (database w)"
  shows "saved w (roomController env r rq jwt w)"
proof -
  let ?u = "jw_sub jwt"
  have quiet: "saved w (answer env st exc body (case res of (x, w') \<Rightarrow> (k x w', w')))"
    if "database (snd res) = database w" for st exc body and res :: "'b result \<times> world" and k :: "'b result \<Rightarrow> world \<Rightarrow> 'c result"
    using that by (cases res) (simp add: saved_answer saved_same)
  have start: "saved w (answer env st exc RoomBody (startRoomForOwner pt (rv_newId env) seed token ?u w))" for st exc pt seed token
    using saved_startRoom [OF assms, of pt seed token ?u]
    by (cases "startRoomForOwner pt (rv_newId env) seed token ?u w") (simp add: saved_answer)
  have left: "saved w (answer env st exc LeftBody (leaveRoom ?u w))" for st exc
    using leaveRoom_tables [of ?u w] by (cases "leaveRoom ?u w") (simp add: saved_answer saved_same)
  show ?thesis
    unfolding roomController_def Let_def
    by (auto simp: start left intro!: quiet saved_validated)
qed

lemma saved_rest:
  assumes "fresh (rv_newId env) w" and "db_ok (database w)"
  shows "saved w (rest env r rq w)"
proof (cases "guarded r")
  case False
  with saved_auth [OF assms] show ?thesis by (simp add: rest_def)
next
  case True
  have "saved w (matchController env r jwt w)" if "r \<noteq> PostStart" "r \<noteq> PatchMe" for jwt
    using proper_match [of r jwt w env] that True by (intro saved_proper) (auto simp: guarded_def)
  moreover have "saved w (refuse env e w)" for e by (simp add: refuse_def saved_same)
  ultimately show ?thesis
    using True saved_user [of r w env rq] saved_room [OF assms, of r rq]
    by (auto simp: rest_def split: sum.split)
qed

end
