(* ===== verification/Gateway_Props.thy ===== *)
theory Gateway_Props
  imports Gateway Rounds
begin

text \<open>
  What the gateway of \<open>ws/ws.gateway.ts\<close> guarantees: one open socket per user and replica, routing tables
  that agree with it, reconnects that do not forfeit, disconnects that do, and the sliding window of the rate limit.
\<close>

subsection \<open>The books of a replica\<close>

text \<open>
  The sockets a replica has open are exactly those filed under a user, at most one per user, each under
  the user it authenticated as, and the routing tables of the bridge agree.
\<close>

definition gateway_ok :: "gateway \<Rightarrow> bool" where
  "gateway_ok g \<longleftrightarrow> routes_ok (gw_user g) (gw_bridge g) \<and> br_users (gw_bridge g) = gw_sockets g
     \<and> (\<forall>u s. s \<in> set (orEmpty (gw_sockets g u)) \<longrightarrow> gw_user g s = Some u)
     \<and> (\<forall>s. s \<in> set (gw_connected g) \<longleftrightarrow> (\<exists>u. s \<in> set (orEmpty (gw_sockets g u))))
     \<and> (\<forall>u. length (orEmpty (gw_sockets g u)) \<le> 1)"

lemma gateway_okD:
  assumes "gateway_ok g"
  shows "routes_ok (gw_user g) (gw_bridge g)" and "br_users (gw_bridge g) = gw_sockets g"
    and "s \<in> set (orEmpty (gw_sockets g u)) \<Longrightarrow> gw_user g s = Some u"
    and "s \<in> set (gw_connected g) \<longleftrightarrow> (\<exists>u. s \<in> set (orEmpty (gw_sockets g u)))"
    and "length (orEmpty (gw_sockets g u)) \<le> 1"
  using assms unfolding gateway_ok_def by blast+

lemma gateway_ok_frame:
  assumes "gateway_ok g" and "routes_ok (gw_user g') (gw_bridge g')" and "br_users (gw_bridge g') = br_users (gw_bridge g)"
    and "gw_sockets g' = gw_sockets g" and "gw_user g' = gw_user g" and "gw_connected g' = gw_connected g"
  shows "gateway_ok g'"
  using assms unfolding gateway_ok_def by simp

lemma emit_ok: "gateway_ok g \<Longrightarrow> gateway_ok (emit c d g)"
  by (rule gateway_ok_frame) (simp_all add: emit_def gateway_ok_def)

lemma emit_frames [simp]:
  "gw_user (emit c d g) = gw_user g" "gw_sockets (emit c d g) = gw_sockets g" "gw_connected (emit c d g) = gw_connected g"
  "gw_superseded (emit c d g) = gw_superseded g" "gw_bridge (emit c d g) = gw_bridge g" "gw_matches (emit c d g) = gw_matches g"
  by (simp_all add: emit_def)

lemma onBridge_frames [simp]:
  "gw_user (onBridge f g) = gw_user g" "gw_sockets (onBridge f g) = gw_sockets g" "gw_connected (onBridge f g) = gw_connected g"
  "gw_superseded (onBridge f g) = gw_superseded g" "gw_bridge (onBridge f g) = f (gw_bridge g)" "gw_matches (onBridge f g) = gw_matches g"
  by (simp_all add: onBridge_def)

lemma subscribeToMatch_frames [simp]:
  "gw_user (subscribeToMatch c m g) = gw_user g" "gw_sockets (subscribeToMatch c m g) = gw_sockets g"
  "gw_connected (subscribeToMatch c m g) = gw_connected g" "gw_superseded (subscribeToMatch c m g) = gw_superseded g"
  "gw_bridge (subscribeToMatch c m g) = subscribe m c (gw_user g c) (gw_bridge g)"
  by (simp_all add: subscribeToMatch_def Let_def)

lemma unsubscribe_users [simp]: "br_users (unsubscribe m c b) = br_users b"
  by (simp add: unsubscribe_def Let_def split: option.split)

lemma fold_unsubscribe_users [simp]: "br_users (fold (\<lambda>m. unsubscribe m c) ms b) = br_users b"
  by (induction ms arbitrary: b) simp_all

lemma routes_fold_unsubscribe [routes]: "routes_ok owner b \<Longrightarrow> routes_ok owner (fold (\<lambda>m. unsubscribe m c) ms b)"
  by (induction ms arbitrary: b) (simp_all add: routes)

lemma subscribeToMatch_ok: "gateway_ok g \<Longrightarrow> gateway_ok (subscribeToMatch c m g)"
  by (rule gateway_ok_frame) (simp_all add: gateway_ok_def routes)

lemma handle_users: "br_users (handleMessage ch e b) = br_users b"
  by (simp add: handleMessage_def deliverToUsers_def Let_def split: option.split)

lemma receive_ok: "gateway_ok g \<Longrightarrow> gateway_ok (onBridge (receive env) g)"
  by (rule gateway_ok_frame)
    (simp_all add: gateway_ok_def receive_def handle_users routes split: prod.split)

lemma forgetSocket_frames [simp]:
  "gw_user (forgetSocket u c g) = gw_user g" "gw_superseded (forgetSocket u c g) = gw_superseded g"
  "gw_connected (forgetSocket u c g) = filter (\<lambda>s. s \<noteq> c) (gw_connected g)"
  "orEmpty (gw_sockets (forgetSocket u c g) v) = (if v = u then filter (\<lambda>s. s \<noteq> c) (orEmpty (gw_sockets g u)) else orEmpty (gw_sockets g v))"
  by (simp_all add: forgetSocket_def Let_def)

lemma forgetSocket_ok:
  assumes "gateway_ok g" and "gw_user g c = Some u"
  shows "gateway_ok (forgetSocket u c g)"
proof -
  let ?g = "forgetSocket u c g"
  have routes: "routes_ok (gw_user ?g) (gw_bridge ?g)"
    using gateway_okD(1) [OF assms(1)] by (simp add: forgetSocket_def Let_def routes)
  have users: "br_users (gw_bridge ?g) = gw_sockets ?g"
    using gateway_okD(2) [OF assms(1)]
    by (auto simp: forgetSocket_def Let_def unregisterUserSocket_def fun_eq_iff split: option.split)
  have mem: "s \<in> set (orEmpty (gw_sockets ?g v)) \<longleftrightarrow> s \<in> set (orEmpty (gw_sockets g v)) \<and> s \<noteq> c" for s v
    using gateway_okD(3) [OF assms(1), of c v] assms(2) by auto
  have conn: "s \<in> set (gw_connected ?g) \<longleftrightarrow> (\<exists>v. s \<in> set (orEmpty (gw_sockets ?g v)))" for s
    unfolding mem using gateway_okD(4) [OF assms(1), of s] by simp
  have one: "length (orEmpty (gw_sockets ?g v)) \<le> 1" for v
    using gateway_okD(5) [OF assms(1), of v] le_trans [OF length_filter_le] by auto
  have own: "s \<in> set (orEmpty (gw_sockets ?g v)) \<Longrightarrow> gw_user ?g s = Some v" for s v
    unfolding mem using gateway_okD(3) [OF assms(1), of s v] by simp
  from routes users conn one own show ?thesis unfolding gateway_ok_def by blast
qed

lemma gwDisconnect_ok:
  assumes "gateway_ok g"
  shows "gateway_ok (fst (gwDisconnect pt c (g, w)))"
proof (cases "gw_user g c")
  case None
  have "c \<notin> set (gw_connected g)" using gateway_okD(3,4) [OF assms, of c] None by auto
  then have "filter (\<lambda>s. s \<noteq> c) (gw_connected g) = gw_connected g" by (simp add: filter_id_conv) blast
  with None assms show ?thesis by (simp add: gwDisconnect_def)
next
  case (Some u)
  with forgetSocket_ok [OF assms Some] show ?thesis by (simp add: gwDisconnect_def)
qed

text \<open>Opening a socket: a previous one of the user is closed, and the new one takes its place.\<close>

definition dropped :: "string \<Rightarrow> gateway \<Rightarrow> gateway" where
  "dropped u g = fold (\<lambda>old g. forgetSocket u old (g\<lparr>gw_superseded := old # gw_superseded g\<rparr>)) (orEmpty (gw_sockets g u)) g"

definition opened :: "string \<Rightarrow> string \<Rightarrow> gateway \<Rightarrow> gateway" where
  "opened u c g = onBridge (registerUserSocket u c)
     (g\<lparr>gw_user := (gw_user g)(c \<mapsto> u), gw_connected := c # gw_connected g, gw_sockets := (gw_sockets g)(u \<mapsto> [c])\<rparr>)"

lemma bucket_cases:
  assumes "gateway_ok g"
  obtains (none) "orEmpty (gw_sockets g u) = []" | (one) old where "orEmpty (gw_sockets g u) = [old]"
  using gateway_okD(5) [OF assms, of u] by (cases "orEmpty (gw_sockets g u)") auto

lemma dropped_all:
  assumes "gateway_ok g"
  shows "gateway_ok (dropped u g) \<and> orEmpty (gw_sockets (dropped u g) u) = [] \<and> gw_user (dropped u g) = gw_user g
    \<and> set (gw_connected (dropped u g)) \<subseteq> set (gw_connected g)
    \<and> set (orEmpty (gw_sockets g u)) \<union> set (gw_superseded g) \<subseteq> set (gw_superseded (dropped u g))"
proof (cases rule: bucket_cases [OF assms, of u, case_names none one])
  case none
  with assms show ?thesis by (simp add: dropped_def)
next
  case (one old)
  let ?g = "g\<lparr>gw_superseded := old # gw_superseded g\<rparr>"
  have ok: "gateway_ok ?g" by (rule gateway_ok_frame [OF assms]) (use assms in \<open>simp_all add: gateway_ok_def\<close>)
  have "gw_user ?g old = Some u" using gateway_okD(3) [OF assms, of old u] one by simp
  from forgetSocket_ok [OF ok this] one show ?thesis by (auto simp: dropped_def)
qed

lemmas dropped_props = dropped_all [THEN conjunct1] dropped_all [THEN conjunct2, THEN conjunct1]
  dropped_all [THEN conjunct2, THEN conjunct2, THEN conjunct1]

lemma registerUserSocket_new: "orEmpty (br_users b u) = [] \<Longrightarrow> br_users (registerUserSocket u c b) = (br_users b)(u \<mapsto> [c])"
  by (simp add: registerUserSocket_def)

lemma routes_owner: "routes_ok owner b \<Longrightarrow> owner c = None \<Longrightarrow> routes_ok (owner(c \<mapsto> u)) b"
  unfolding routes_ok_def by fastforce

lemma opened_ok:
  assumes "gateway_ok g" and "orEmpty (gw_sockets g u) = []" and "gw_user g c = None"
  shows "gateway_ok (opened u c g)"
proof -
  let ?g = "opened u c g"
  have users: "br_users (gw_bridge ?g) = gw_sockets ?g"
    using gateway_okD(2) [OF assms(1)] assms(2) by (simp add: opened_def registerUserSocket_new)
  have routes: "routes_ok (gw_user ?g) (gw_bridge ?g)"
    using routes_owner [OF gateway_okD(1) [OF assms(1)] assms(3)] by (simp add: opened_def routes)
  have own: "s \<in> set (orEmpty (gw_sockets ?g v)) \<Longrightarrow> gw_user ?g s = Some v" for s v
    using gateway_okD(3) [OF assms(1), of s v] assms(3) by (auto simp: opened_def split: if_splits)
  have conn: "s \<in> set (gw_connected ?g) \<longleftrightarrow> (\<exists>v. s \<in> set (orEmpty (gw_sockets ?g v)))" for s
  proof -
    have "s \<in> set (orEmpty (gw_sockets ?g v)) \<longleftrightarrow> (v = u \<and> s = c) \<or> s \<in> set (orEmpty (gw_sockets g v))" for v
      using assms(2) by (auto simp: opened_def)
    then show ?thesis using gateway_okD(4) [OF assms(1), of s] by (simp add: ex_disj_distrib) (simp add: opened_def)
  qed
  have one: "length (orEmpty (gw_sockets ?g v)) \<le> 1" for v
    using gateway_okD(5) [OF assms(1), of v] by (simp add: opened_def)
  from users routes own conn one show ?thesis unfolding gateway_ok_def by blast
qed

text \<open>An accepted connection is these two steps, and then the resumption of a running match.\<close>

lemma handleConnection_accepted:
  assumes "gateway_ok g" and "gw_user g c = None" and "authenticate tk token = Inr payload"
  shows "handleConnection pt tk token c (g, w) =
     resumeActiveMatch c (jw_sub payload) (opened (jw_sub payload) c (dropped (jw_sub payload) g), w)"
proof -
  let ?u = "jw_sub payload"
  let ?g0 = "g\<lparr>gw_user := (gw_user g)(c \<mapsto> ?u), gw_connected := c # gw_connected g\<rparr>"
  have ded: "dedupePreviousSockets pt ?u c (?g0, w) =
      ((dropped ?u g)\<lparr>gw_user := (gw_user g)(c \<mapsto> ?u), gw_connected := c # gw_connected (dropped ?u g)\<rparr>, w)"
  proof (cases rule: bucket_cases [OF assms(1), of ?u, case_names none one])
    case none
    then show ?thesis by (simp add: dedupePreviousSockets_def dropped_def)
  next
    case (one old)
    then have old: "gw_user g old = Some ?u" using gateway_okD(3) [OF assms(1), of old ?u] by simp
    with assms(2) have "old \<noteq> c" by auto
    with one old show ?thesis
      by (simp add: dedupePreviousSockets_def dropped_def gwDisconnect_def forgetSocket_def Let_def onBridge_def)
  qed
  have empty: "orEmpty (gw_sockets (dropped ?u g) ?u) = []" by (rule dropped_props(2) [OF assms(1)])
  show ?thesis
    unfolding handleConnection_def assms(3) sum.case prod.case Let_def ded
    by (simp add: empty opened_def dropped_props(3) [OF assms(1)])
qed

lemma resume_keeps:
  "gw_sockets (fst (resumeActiveMatch c u (g, w))) = gw_sockets g"
  "gw_connected (fst (resumeActiveMatch c u (g, w))) = gw_connected g"
  "gw_user (fst (resumeActiveMatch c u (g, w))) = gw_user g"
  "gw_superseded (fst (resumeActiveMatch c u (g, w))) = gw_superseded g"
  by (auto simp: resumeActiveMatch_def Let_def split: option.split sum.split prod.split)

lemma resume_ok:
  assumes "gateway_ok g"
  shows "gateway_ok (fst (resumeActiveMatch c u (g, w)))"
proof -
  have "routes_ok (gw_user g) (gw_bridge (fst (resumeActiveMatch c u (g, w))))
      \<and> br_users (gw_bridge (fst (resumeActiveMatch c u (g, w)))) = br_users (gw_bridge g)"
    using gateway_okD(1) [OF assms]
    by (auto simp: resumeActiveMatch_def Let_def routes split: option.split sum.split prod.split)
  then show ?thesis by (intro gateway_ok_frame [OF assms]) (simp_all add: resume_keeps)
qed

lemma handleConnection_ok:
  assumes "gateway_ok g" and "gw_user g c = None"
  shows "gateway_ok (fst (handleConnection pt tk token c (g, w)))"
proof (cases "authenticate tk token")
  case (Inl e)
  have "gateway_ok (emit c (GameError e None) g)" by (rule emit_ok [OF assms(1)])
  from gwDisconnect_ok [OF this] Inl show ?thesis by (simp add: handleConnection_def)
next
  case (Inr payload)
  let ?u = "jw_sub payload"
  have "gateway_ok (opened ?u c (dropped ?u g))"
    using dropped_props [OF assms(1), of ?u] assms(2) by (intro opened_ok) simp_all
  from resume_ok [OF this] handleConnection_accepted [OF assms Inr] show ?thesis by simp
qed

lemma onMessage_ok:
  assumes "gateway_ok g"
  shows "gateway_ok (fst (onMessage pt uuid limit c event payload (g, w)))"
proof -
  have run: "gateway_ok (fst (runHandler c a f (g, w')))" for a w' and f :: "world \<Rightarrow> 'a result \<times> world"
    using assms by (auto simp: runHandler_def emit_ok split: sum.split prod.split)
  show ?thesis
    using assms by (auto simp: onMessage_def Let_def run emit_ok split: option.split prod.split sum.split Incoming.split)
qed

subsection \<open>A replica in operation\<close>

text \<open>
  What may happen to a replica: a socket that is new to it connects, a socket goes away, a client sends a message,
  the bus hands over an event, and meanwhile the rest of the system changes the shared state.
\<close>

inductive replica_step ::
  "ports \<Rightarrow> tokens \<Rightarrow> (string \<Rightarrow> bool) \<Rightarrow> int \<Rightarrow> gateway \<times> world \<Rightarrow> gateway \<times> world \<Rightarrow> bool"
  for pt tk uuid limit where
  connect: "gw_user g c = None \<Longrightarrow> replica_step pt tk uuid limit (g, w) (handleConnection pt tk token c (g, w))"
| disconnect: "replica_step pt tk uuid limit (g, w) (gwDisconnect pt c (g, w))"
| message: "replica_step pt tk uuid limit (g, w) (onMessage pt uuid limit c event payload (g, w))"
| bus: "replica_step pt tk uuid limit (g, w) (onBridge (receive env) g, w)"
| elsewhere: "replica_step pt tk uuid limit (g, w) (g, w')"

definition emptyGateway :: gateway where
  "emptyGateway = \<lparr>gw_bridge = setServer emptyBridge, gw_sockets = Map.empty, gw_matches = Map.empty, gw_user = Map.empty,
     gw_superseded = [], gw_connected = [], gw_out = []\<rparr>"

lemma emptyGateway_ok: "gateway_ok emptyGateway"
  by (simp add: gateway_ok_def emptyGateway_def emptyBridge_def setServer_def routes_ok_def)

lemma replica_step_ok: "replica_step pt tk uuid limit s s' \<Longrightarrow> gateway_ok (fst s) \<Longrightarrow> gateway_ok (fst s')"
  by (induction rule: replica_step.induct)
    (simp_all add: handleConnection_ok gwDisconnect_ok onMessage_ok receive_ok del: onBridge_frames)

lemma replica_ok: "(replica_step pt tk uuid limit)\<^sup>*\<^sup>* s s' \<Longrightarrow> gateway_ok (fst s) \<Longrightarrow> gateway_ok (fst s')"
  by (induction rule: rtranclp_induct) (auto dest: replica_step_ok)

text \<open>
  C24: One open socket per user and replica. However clients connect, reconnect and go away, whatever they send
  and whatever arrives on the bus, the sockets a replica has open are exactly those filed under a user, each under
  the user whose token it presented, never two for one user; and a private event handed to the replica is emitted
  only to sockets of its addressee.
\<close>

theorem gateway_one_socket_per_user:
  assumes "(replica_step pt tk uuid limit)\<^sup>*\<^sup>* (emptyGateway, w0) (g, w)" and "CHR '':'' \<notin> set m" and "u \<noteq> []"
  shows "(\<forall>v. length (orEmpty (gw_sockets g v)) \<le> 1)
     \<and> (\<forall>s. s \<in> set (gw_connected g) \<longleftrightarrow> (\<exists>v. gw_user g s = Some v \<and> orEmpty (gw_sockets g v) = [s]))
     \<and> (\<exists>sent. br_sent (gw_bridge (onBridge (receive (ToUser m u p)) g)) = br_sent (gw_bridge g) @ sent
          \<and> list_all (\<lambda>(s, q). q = p \<and> gw_user g s = Some u) sent)"
proof -
  have ok: "gateway_ok g" using replica_ok [OF assms(1)] emptyGateway_ok by simp
  have "s \<in> set (gw_connected g) \<longleftrightarrow> (\<exists>v. gw_user g s = Some v \<and> orEmpty (gw_sockets g v) = [s])" for s
  proof -
    have "s \<in> set (orEmpty (gw_sockets g v)) \<longleftrightarrow> gw_user g s = Some v \<and> orEmpty (gw_sockets g v) = [s]" for v
      using gateway_okD(3) [OF ok, of s v] by (cases rule: bucket_cases [OF ok, of v]) auto
    then show ?thesis using gateway_okD(4) [OF ok, of s] by simp
  qed
  moreover obtain b1 where b1: "b1 = gw_bridge g \<or> b1 = attachPlayers m p (gw_bridge g)"
    and sent: "br_sent (receive (ToUser m u p) (gw_bridge g)) = br_sent (gw_bridge g) @ (if br_server (gw_bridge g) then
       map (\<lambda>(sid, _). (sid, p)) (filter (\<lambda>(_, v). v = Some u) (orEmpty (br_subs b1 m))) else [])"
    using receive_ToUser [OF assms(2,3)] by metis
  moreover from b1 gateway_okD(1) [OF ok] have "routes_ok (gw_user g) b1" by (auto simp: routes)
  then have "list_all (\<lambda>(s, q). q = p \<and> gw_user g s = Some u)
     (if br_server (gw_bridge g) then map (\<lambda>(sid, _). (sid, p)) (filter (\<lambda>(_, v). v = Some u) (orEmpty (br_subs b1 m))) else [])"
    by (auto simp: list_all_iff routes_ok_def)
  ultimately show ?thesis using gateway_okD(5) [OF ok] by simp
qed

subsection \<open>Reconnecting\<close>

text \<open>What a read may change: nothing but missing display names in a runtime hash.\<close>

definition calm :: "world \<Rightarrow> world \<Rightarrow> bool" where
  "calm w w' \<longleftrightarrow> database w' = database w \<and> w_jobs w' = w_jobs w \<and> w_pub w' = w_pub w
     \<and> (\<forall>k. phaseAt (runtimeKey k) (w_redis w') = phaseAt (runtimeKey k) (w_redis w))"

lemma calm_refl [simp]: "calm w w"
  by (simp add: calm_def)

lemma calm_trans: "calm w w' \<Longrightarrow> calm w' w'' \<Longrightarrow> calm w w''"
  by (simp add: calm_def)

lemma calm_names: "calm w (onRedis (hsets k [(''player1Name'', x), (''player2Name'', y)]) w)"
  by (simp add: calm_def phaseAt_def)

lemma calm_findRuntime: "calm w (snd (findRuntime m w))"
  by (simp add: findRuntime_def Let_def calm_names del: hsets_Cons split: option.split)

lemma calm_getRuntime: "calm w (snd (getRuntime m w))"
  using calm_findRuntime [of w m] by (cases "findRuntime m w") (auto simp: getRuntime_def split: option.split)

lemma calm_andThen: "(\<And>w. calm w (snd (f w))) \<Longrightarrow> (\<And>x w. calm w (snd (g x w))) \<Longrightarrow> calm w (snd (andThen f g w))"
  by (simp add: andThen_def split: prod.split sum.split) (metis calm_trans snd_conv)

lemma calm_statePayload: "calm w (snd (statePayloadForUser m u w))"
  unfolding statePayloadForUser_def by (intro calm_andThen calm_getRuntime) simp_all

lemma calm_combatResult: "calm w (snd (getCombatResultForReconnect m w))"
  using calm_findRuntime [of w m] by (cases "findRuntime m w") (auto simp: getCombatResultForReconnect_def split: option.split)

lemma calm_resume: "calm w (snd (resumeActiveMatch c u (g, w)))"
proof (cases "matches_findActiveByUserId u w")
  case (Some mt)
  obtain x w1 where s: "statePayloadForUser (mt_id mt) u w = (x, w1)" by fastforce
  obtain y w2 where c: "getCombatResultForReconnect (mt_id mt) w1 = (y, w2)" by fastforce
  have "calm w w1" "calm w1 w2"
    using calm_statePayload [of w "mt_id mt" u] calm_combatResult [of w1 "mt_id mt"] s c by simp_all
  moreover from this have "calm w w2" by (rule calm_trans)
  ultimately show ?thesis
    by (cases x; cases y) (auto simp: resumeActiveMatch_def Let_def Some s c)
qed (simp add: resumeActiveMatch_def)

text \<open>
  C25: A reconnect does not cost the match. When a user opens a new socket while an older one is still open, the
  replica closes the older one and keeps the new one, and nothing of this counts as leaving: no table changes, no
  timer is queued, no event is published, no match changes its phase; and a disconnect of the older socket that is
  reported later, whatever has happened since, is ignored.
\<close>

theorem reconnect_never_forfeits:
  assumes "gateway_ok g" and "gw_user g c = None" and "authenticate tk token = Inr payload"
    and "handleConnection pt tk token c (g, w) = (g', w')"
  shows "gw_sockets g' (jw_sub payload) = Some [c] \<and> calm w w'
     \<and> (\<forall>old w2. old \<in> set (orEmpty (gw_sockets g (jw_sub payload))) \<longrightarrow>
          old \<notin> set (gw_connected g') \<and> snd (gwDisconnect pt old (g', w2)) = w2)"
proof -
  let ?u = "jw_sub payload" and ?g = "opened (jw_sub payload) c (dropped (jw_sub payload) g)"
  have run: "resumeActiveMatch c ?u (?g, w) = (g', w')"
    using assms(4) handleConnection_accepted [OF assms(1-3)] by simp
  have g': "gw_sockets g' = gw_sockets ?g" "gw_connected g' = gw_connected ?g" "gw_user g' = gw_user ?g" "gw_superseded g' = gw_superseded ?g"
    using resume_keeps [of c ?u ?g w] run by simp_all
  have "calm w w'" using calm_resume [of w c ?u ?g] run by simp
  moreover have "gw_sockets g' ?u = Some [c]" by (simp add: g' opened_def)
  moreover have "old \<notin> set (gw_connected g') \<and> snd (gwDisconnect pt old (g', w2)) = w2"
    if "old \<in> set (orEmpty (gw_sockets g ?u))" for old w2
  proof -
    have user: "gw_user g old = Some ?u" using gateway_okD(3) [OF assms(1) that] .
    with assms(2) have "old \<noteq> c" by auto
    note ok = dropped_props(1) [OF assms(1), of ?u]
    have "old \<notin> set (orEmpty (gw_sockets (dropped ?u g) v))" for v
      using gateway_okD(3) [OF ok, of old v] dropped_props(2,3) [OF assms(1), of ?u] user by auto
    with gateway_okD(4) [OF ok, of old] have "old \<notin> set (gw_connected (dropped ?u g))" by simp
    moreover have "old \<in> set (gw_superseded g')"
      using dropped_all [OF assms(1), of ?u] that by (auto simp: g' opened_def)
    ultimately show ?thesis
      using \<open>old \<noteq> c\<close> user by (simp add: g' opened_def gwDisconnect_def dropped_props(3) [OF assms(1)])
  qed
  ultimately show ?thesis by blast
qed

subsection \<open>Leaving\<close>

lemma finalize_row:
  assumes "finalize m win reason w = (Inr True, w')"
  obtains row where "matches_findById m w = Some row" "matches_findById m w' = Some (endedRow win reason (w_now w) row)"
proof -
  obtain mt rc w1 where tx: "finalizeTx m win reason w = (Inr (Finalized mt rc), w1)" and db: "database w' = database w1"
    using finalize_won [OF assms] by blast
  from finalizeTx_Finalized [OF tx] findById_database [OF db] show ?thesis using that by metis
qed

definition opponentOf :: "string \<Rightarrow> MatchRuntimeState \<Rightarrow> string" where
  "opponentOf u rt = (if u = m_player1Id rt then m_player2Id rt else m_player1Id rt)"

lemma forfeit_backed:
  assumes "backed m rt w" and "u \<in> {m_player1Id rt, m_player2Id rt}"
  obtains r w' row where "forfeitDisconnectedPlayer m u w = (r, w')" "matches_findById m w' = Some row" "mt_status row = Forfeited"
    "mt_winnerId row = Some (opponentOf u rt)" "\<And>k. r_hash (w_redis w') (runtimeKey k) = r_hash (w_redis w) (runtimeKey k)"
proof -
  obtain row where row: "matches_findById m w = Some row" "mt_status row = InProgress"
    "mt_player1Id row = m_player1Id rt" "mt_player2Id row = m_player2Id rt"
    using assms(1) by (auto simp: backed_def)
  have id: "mt_id row = m" using matches_findById_Some [OF row(1)] by simp
  have "Some (opponentOf u rt) \<in> {None, Some (m_player1Id rt), Some (m_player2Id rt)}" by (simp add: opponentOf_def)
  then obtain w' where fin: "finalize m (Some (opponentOf u rt)) Disconnect w = (Inr True, w')"
    using finalize_backed [OF assms(1)] by metis
  have "forfeitDisconnectedPlayer m u w = (Inr True, w')"
    using assms(2) fin by (auto simp: forfeitDisconnectedPlayer_def row id opponentOf_def)
  moreover obtain row0 where "matches_findById m w' = Some (endedRow (Some (opponentOf u rt)) Disconnect (w_now w) row0)"
    using finalize_row [OF fin] by metis
  moreover have "r_hash (w_redis w') (runtimeKey k) = r_hash (w_redis w) (runtimeKey k)" for k
    using finalize_hash [of m "Some (opponentOf u rt)" Disconnect w k] fin by simp
  ultimately show ?thesis
    by (intro that [of _ w' "endedRow (Some (opponentOf u rt)) Disconnect (w_now w) row0"]) (simp_all add: endedRow_def)
qed

lemma handleDisconnect_live:
  assumes "live m rt (w_redis w)" and "backed m rt w" and "m_phase rt \<noteq> Finished" and "u \<in> {m_player1Id rt, m_player2Id rt}"
    and "matches_findActiveByUserId u w = Some mt" and "mt_id mt = m"
  obtains r w' row where "handleDisconnect pt None u w = (r, w')" "phaseAt (runtimeKey m) (w_redis w') = Some (m_round rt, Finished)"
    "matches_findById m w' = Some row" "mt_status row = Forfeited" "mt_winnerId row = Some (opponentOf u rt)"
proof -
  obtain side where side: "sideFor rt u = Inr side" using assms(4) by (cases "m_player1Id rt = u") (auto simp: sideFor_def)
  obtain r1 where flip: "flipTo (runtimeKey m) (pt_instance pt) (m_round rt, m_phase rt) (m_round rt, Finished) (w_redis w) = (True, r1)"
    and live1: "live m (rt\<lparr>m_phase := Finished, m_round := m_round rt\<rparr>) r1"
    using flip_live [OF assms(1) live_round_pos [OF assms(1)]] by metis
  define w1 where "w1 = w\<lparr>w_redis := r1\<rparr>"
  have fl: "flipPhase pt m (m_round rt, m_phase rt) (m_round rt, Finished) w = (True, w1)"
    using flip by (simp add: flipPhase_def w1_def)
  have "backed m rt w1" using assms(2) backed_frame [of w1 w rt rt m] by (simp add: w1_def)
  then obtain r w' row where run: "forfeitDisconnectedPlayer m u w1 = (r, w')" "matches_findById m w' = Some row"
    "mt_status row = Forfeited" "mt_winnerId row = Some (opponentOf u rt)"
    and hash: "\<And>k. r_hash (w_redis w') (runtimeKey k) = r_hash (w_redis w1) (runtimeKey k)"
    using forfeit_backed [OF _ assms(4)] by metis
  have "handleDisconnect pt None u w = (r, w')"
    unfolding handleDisconnect_def
    by (simp only: assms(5,6) option.case option.map findRuntime_live [OF assms(1)] prod.case side sum.case assms(3) if_False Let_def fl
        simp_thms run(1))
  moreover have "phaseAt (runtimeKey m) (w_redis w') = Some (m_round rt, Finished)"
    using live_phaseAt [OF live1] phaseAt_hash [OF hash] by (simp add: w1_def)
  ultimately show ?thesis using run(2-4) that by blast
qed

text \<open>
  C26: Leaving forfeits. When the socket of a player goes away during a live match, and not because the player
  opened another one, the match is over: its runtime is finished in the round it was in, its row is forfeited, and
  the winner is the opponent.
\<close>

theorem disconnect_forfeits:
  assumes "gw_user g c = Some u" and "c \<notin> set (gw_superseded g)"
    and "live m rt (w_redis w)" and "backed m rt w" and "m_phase rt \<noteq> Finished" and "u \<in> {m_player1Id rt, m_player2Id rt}"
    and "matches_findActiveByUserId u w = Some mt" and "mt_id mt = m"
  shows "phaseAt (runtimeKey m) (w_redis (snd (gwDisconnect pt c (g, w)))) = Some (m_round rt, Finished)
     \<and> (\<exists>row. matches_findById m (snd (gwDisconnect pt c (g, w))) = Some row \<and> mt_status row = Forfeited
          \<and> mt_winnerId row = Some (if u = m_player1Id rt then m_player2Id rt else m_player1Id rt))"
proof -
  define w1 where "w1 = w\<lparr>w_redis := snd (zrem MATCHMAKING_QUEUE_KEY u (w_redis w))\<rparr>"
  have leave: "\<exists>b. leaveQueue u w = (Inr b, w1)" by (simp add: leaveQueue_def w1_def case_prod_unfold Let_def)
  have "live m rt (w_redis w1)" using assms(3) by (subst live_frame) (simp_all add: w1_def zrem_def)
  moreover have "backed m rt w1" using assms(4) backed_frame [of w1 w rt rt m] by (simp add: w1_def)
  moreover have "matches_findActiveByUserId u w1 = Some mt" using assms(7) by (simp add: matches_findActiveByUserId_def w1_def)
  ultimately obtain r w' row where "handleDisconnect pt None u w1 = (r, w')"
    "phaseAt (runtimeKey m) (w_redis w') = Some (m_round rt, Finished)"
    "matches_findById m w' = Some row" "mt_status row = Forfeited" "mt_winnerId row = Some (opponentOf u rt)"
    using handleDisconnect_live [OF _ _ assms(5,6) _ assms(8)] by metis
  then show ?thesis
    using leave assms(1,2) by (auto simp: gwDisconnect_def handleClientDisconnect_def opponentOf_def)
qed

subsection \<open>The sliding window of the rate limit\<close>

text \<open>The verdicts on the messages of one user, which arrive at the times given.\<close>

fun verdicts :: "int \<Rightarrow> string \<Rightarrow> int list \<Rightarrow> redis \<Rightarrow> bool list" where
  "verdicts limit u [] r = []"
| "verdicts limit u (t # ts) r = (let (pass, r') = throttle limit u t r in pass # verdicts limit u ts r')"

text \<open>The hit that message number \<open>k\<close> at time \<open>t\<close> leaves; every hit of the log has its own number.\<close>

definition hit :: "int \<Rightarrow> nat \<Rightarrow> string" where
  "hit t k = showInt t @ '':'' @ showNat k"

definition logged :: "string \<Rightarrow> redis \<Rightarrow> bool" where
  "logged u r \<longleftrightarrow> (\<forall>x s. (x, s) \<in> set (r_zset r (hitsKey u)) \<longrightarrow> (\<exists>k \<le> seqOf (seqKey u) r. x = hit s k))"

definition times :: "string \<Rightarrow> redis \<Rightarrow> int multiset" where
  "times u r = mset (map snd (r_zset r (hitsKey u)))"

lemma colon_free: "CHR '':'' \<notin> set (showNat n)" "CHR '':'' \<notin> set (showInt i)"
proof -
  have nat: "CHR '':'' \<notin> set (showNat n)" for n
  proof
    assume "CHR '':'' \<in> set (showNat n)"
    with showNat_digits [of n] have "isDigit (CHR '':'')" by (auto simp: list_all_iff)
    then show False by (simp add: isDigit_def)
  qed
  then show "CHR '':'' \<notin> set (showNat n)" "CHR '':'' \<notin> set (showInt i)" by (simp_all add: showInt_def)
qed

lemma hit_inject: "hit s k = hit t n \<Longrightarrow> k = n"
proof -
  have word: "takeWhile (\<lambda>c. c \<noteq> CHR '':'') (xs @ CHR '':'' # ys) = xs" if "CHR '':'' \<notin> set xs" for xs ys
    using that by (induction xs) auto
  assume "hit s k = hit t n"
  then have "rev (hit s k) = rev (hit t n)" by simp
  then have "takeWhile (\<lambda>c. c \<noteq> CHR '':'') (rev (showNat k) @ CHR '':'' # rev (showInt s)) =
      takeWhile (\<lambda>c. c \<noteq> CHR '':'') (rev (showNat n) @ CHR '':'' # rev (showInt t))"
    by (simp add: hit_def)
  then show "k = n" by (simp add: word colon_free)
qed

lemma mset_zinsert: "mset (zinsert m s zs) = add_mset (m, s) (mset zs)"
  by (induction m s zs rule: zinsert.induct) auto

lemma seqOf_set: "seqOf k (r\<lparr>r_str := (r_str r)(k := Some (HStr (showNat n)))\<rparr>) = n"
  by (simp add: seqOf_def)

lemma throttle_step:
  assumes "logged u r" and "throttle limit u t r = (pass, r')"
  shows "logged u r'" and "times u r' = add_mset t (filter_mset (\<lambda>s. t - WINDOW_MS < s) (times u r))"
    and "pass \<longleftrightarrow> int (size (times u r')) \<le> limit"
proof -
  let ?zs = "filter (\<lambda>(_, s). s > t - WINDOW_MS) (r_zset r (hitsKey u))" and ?n = "seqOf (seqKey u) r + 1"
  have seq: "seqOf (seqKey u) (r\<lparr>r_zset := z\<rparr>) = seqOf (seqKey u) r" for z by (simp add: seqOf_def)
  have fresh: "hit t ?n \<notin> fst ` set ?zs"
    using assms(1) hit_inject by (fastforce simp: logged_def)
  have "x \<noteq> hit t ?n" if "(x, s) \<in> set ?zs" for x s
  proof
    assume "x = hit t ?n"
    with imageI [OF that, of fst] have "hit t ?n \<in> fst ` set ?zs" by simp
    with fresh show False by contradiction
  qed
  then have rem: "zremList (hit t ?n) ?zs = ?zs"
    unfolding zremList_def by (intro filter_True) fast
  have zs': "r_zset r' (hitsKey u) = zinsert (hit t ?n) t ?zs"
    and n': "seqOf (seqKey u) r' = ?n"
    and pass: "pass = (\<not> int (length (r_zset r' (hitsKey u))) > limit)"
    using assms(2) rem
    by (auto simp: throttle_def wsRateLimit_def Let_def zadd_def zcard_def hit_def seqOf_def)
  show "times u r' = add_mset t (filter_mset (\<lambda>s. t - WINDOW_MS < s) (times u r))"
    by (simp add: times_def zs' mset_zinsert image_mset_filter_mset_swap [symmetric] case_prod_unfold)
  show "pass \<longleftrightarrow> int (size (times u r')) \<le> limit"
    by (simp add: pass times_def not_less)
  show "logged u r'"
    using assms(1) unfolding logged_def zs' n' by (auto intro: le_SucI) (metis le_SucI)
qed


lemma verdicts_window:
  assumes "logged u r" and "times u r = filter_mset (\<lambda>s. c < s) (mset ps)"
    and "sorted ts" and "\<forall>t \<in> set ts. c \<le> t - WINDOW_MS"
  shows "verdicts limit u ts r =
     map (\<lambda>i. int (length (filter (\<lambda>s. ts ! i - WINDOW_MS < s) (ps @ take (Suc i) ts))) \<le> limit) [0..<length ts]"
  using assms
proof (induction ts arbitrary: r ps c)
  case (Cons t ts)
  obtain pass r' where step: "throttle limit u t r = (pass, r')" by fastforce
  note st = throttle_step [OF Cons.prems(1) step]
  have c: "c \<le> t - WINDOW_MS" using Cons.prems(4) by simp
  have "times u r' = add_mset t (filter_mset (\<lambda>s. t - WINDOW_MS < s) (mset ps))"
    unfolding st(2) Cons.prems(2) filter_filter_mset using c by (intro arg_cong [where f = "add_mset t"] filter_mset_cong) auto
  then have tm: "times u r' = filter_mset (\<lambda>s. t - WINDOW_MS < s) (mset (ps @ [t]))"
    by (simp add: WINDOW_MS_def)
  have pass: "pass \<longleftrightarrow> int (length (filter (\<lambda>s. t - WINDOW_MS < s) (ps @ [t]))) \<le> limit"
    unfolding st(3) tm by (metis mset_filter size_mset)
  have "verdicts limit u ts r' = map (\<lambda>i. int (length (filter (\<lambda>s. ts ! i - WINDOW_MS < s) ((ps @ [t]) @ take (Suc i) ts))) \<le> limit) [0..<length ts]"
    by (rule Cons.IH [OF st(1) tm]) (use Cons.prems(3) in auto)
  with step pass show ?case by (simp add: map_upt_Suc del: upt_Suc)
qed simp

text \<open>
  C27: The rate limit is an exact sliding window. For a user without recent messages, message \<open>i\<close> is let through
  exactly if at most \<open>limit\<close> of the messages up to it, rejected ones included, came within the last second; so in
  no window of one second more than \<open>limit\<close> messages of a user are let through.
\<close>

theorem rate_limit_sliding_window:
  assumes "r_zset r (hitsKey u) = []" and "sorted ts"
  shows "verdicts limit u ts r =
       map (\<lambda>i. int (length (filter (\<lambda>s. ts ! i - WINDOW_MS < s) (take (Suc i) ts))) \<le> limit) [0..<length ts]
     \<and> card {i. i < length ts \<and> verdicts limit u ts r ! i \<and> a < ts ! i \<and> ts ! i \<le> a + WINDOW_MS} \<le> nat limit"
proof -
  define c where "c = (if ts = [] then 0 else hd ts - WINDOW_MS)"
  have first: "c \<le> t - WINDOW_MS" if "t \<in> set ts" for t
    using that assms(2) by (cases ts) (auto simp: c_def)
  have log: "logged u r" "times u r = filter_mset (\<lambda>s. c < s) (mset [])" using assms(1) by (simp_all add: logged_def times_def)
  have eq: "verdicts limit u ts r =
       map (\<lambda>i. int (length (filter (\<lambda>s. ts ! i - WINDOW_MS < s) (take (Suc i) ts))) \<le> limit) [0..<length ts]"
    using verdicts_window [OF log assms(2), of limit] first by simp
  let ?I = "{i. i < length ts \<and> verdicts limit u ts r ! i \<and> a < ts ! i \<and> ts ! i \<le> a + WINDOW_MS}"
  have "card ?I \<le> nat limit"
  proof (cases "?I = {}")
    case False
    define j where "j = Max ?I"
    have fin: "finite ?I" by simp
    have j: "j \<in> ?I" unfolding j_def by (rule Max_in [OF fin False])
    have "?I \<subseteq> {i. i < length (take (Suc j) ts) \<and> ts ! j - WINDOW_MS < take (Suc j) ts ! i}"
    proof
      fix i assume i: "i \<in> ?I"
      then have "i \<le> j" unfolding j_def by (rule Max_ge [OF fin])
      with i j show "i \<in> {i. i < length (take (Suc j) ts) \<and> ts ! j - WINDOW_MS < take (Suc j) ts ! i}" by auto
    qed
    then have "card ?I \<le> length (filter (\<lambda>s. ts ! j - WINDOW_MS < s) (take (Suc j) ts))"
      unfolding length_filter_conv_card by (intro card_mono) auto
    moreover have "int (length (filter (\<lambda>s. ts ! j - WINDOW_MS < s) (take (Suc j) ts))) \<le> limit"
      using j unfolding eq by (auto simp: nth_map)
    ultimately show ?thesis by simp
  next
    case True
    then have "card ?I = 0" by (simp only: card.empty)
    then show ?thesis by (rule ord_eq_le_trans) (rule le0)
  qed
  with eq show ?thesis by blast
qed

subsection \<open>Examples\<close>

definition annToken :: "string option" where
  "annToken = Some (encodeToken \<lparr>jw_sub = ''ann'', jw_type = ''access''\<rparr>)"

lemma ann_authenticates: "authenticate demoTokens annToken = Inr \<lparr>jw_sub = ''ann'', jw_type = ''access''\<rparr>"
proof -
  have "encodeToken \<lparr>jw_sub = ''ann'', jw_type = ''access''\<rparr> \<noteq> []" by (simp add: encodeToken_def)
  then show ?thesis by (simp add: authenticate_def truthy_def annToken_def demoTokens_def decode_encode)
qed

text \<open>Ann has a socket, and opens another one.\<close>

definition annOnline :: gateway where
  "annOnline = fst (handleConnection demoPorts demoTokens annToken ''s1'' (emptyGateway, noUsers))"

lemma annOnline_reached:
  "(replica_step demoPorts demoTokens uuid limit)\<^sup>*\<^sup>* (emptyGateway, noUsers)
     (annOnline, snd (handleConnection demoPorts demoTokens annToken ''s1'' (emptyGateway, noUsers)))"
proof -
  have "gw_user emptyGateway ''s1'' = None" by (simp add: emptyGateway_def)
  from replica_step.connect [OF this] show ?thesis by (auto simp: annOnline_def)
qed

lemma annOnline_eq: "annOnline = opened ''ann'' ''s1'' emptyGateway"
proof -
  have "matches_findActiveByUserId ''ann'' noUsers = None" by code_simp
  moreover have "dropped ''ann'' emptyGateway = emptyGateway" by (simp add: dropped_def) (simp add: emptyGateway_def)
  moreover have "gw_user emptyGateway ''s1'' = None" by (simp add: emptyGateway_def)
  ultimately show ?thesis
    using handleConnection_accepted [OF emptyGateway_ok _ ann_authenticates, of "''s1''" demoPorts noUsers]
    by (simp add: annOnline_def resumeActiveMatch_def)
qed

lemma gateway_one_socket_per_user_witness:
  "''s1'' \<in> set (gw_connected annOnline) \<and> orEmpty (gw_sockets annOnline ''ann'') = [''s1'']
   \<and> (\<exists>sent. br_sent (gw_bridge (onBridge (receive (ToUser ''m'' ''ann'' (ShopOfferEvent ''m'' 1 []))) annOnline)) =
         br_sent (gw_bridge annOnline) @ sent \<and> list_all (\<lambda>(s, q). gw_user annOnline s = Some ''ann'') sent)"
proof -
  have "''s1'' \<in> set (gw_connected annOnline)" "gw_user annOnline ''s1'' = Some ''ann''" by (simp_all add: annOnline_eq opened_def)
  with gateway_one_socket_per_user [OF annOnline_reached, where m = "''m''" and u = "''ann''" and p = "ShopOfferEvent ''m'' 1 []"]
  show ?thesis by (auto simp: list_all_iff)
qed

lemma reconnect_never_forfeits_witness:
  "gw_sockets (fst (handleConnection demoPorts demoTokens annToken ''s2'' (annOnline, noUsers))) ''ann'' = Some [''s2'']
   \<and> calm noUsers (snd (handleConnection demoPorts demoTokens annToken ''s2'' (annOnline, noUsers)))"
proof -
  have ok: "gateway_ok annOnline" using replica_ok [OF annOnline_reached] emptyGateway_ok by simp
  have new: "gw_user annOnline ''s2'' = None"
    by (simp add: annOnline_eq opened_def) (simp add: emptyGateway_def)
  from reconnect_never_forfeits [OF ok new ann_authenticates, of demoPorts noUsers] show ?thesis
    by (cases "handleConnection demoPorts demoTokens annToken ''s2'' (annOnline, noUsers)") simp
qed

text \<open>Bob closes his only socket in the shop phase of his match with Alice.\<close>

definition bobOnline :: gateway where
  "bobOnline = opened ''bob'' ''s'' emptyGateway"

lemma disconnect_forfeits_witness:
  "\<exists>row. matches_findById ''m1'' (snd (gwDisconnect demoPorts ''s'' (bobOnline, snd (initializeMatch demoPorts freshMatch freshWorld)))) = Some row
     \<and> mt_status row = Forfeited \<and> mt_winnerId row = Some ''alice''"
proof -
  let ?w = "snd (initializeMatch demoPorts freshMatch freshWorld)"
  obtain rt where play: "playable ''m1'' rt ?w" and ids: "m_player1Id rt = ''alice''" "m_player2Id rt = ''bob''" and
    ph: "m_phase rt = ShopPlace" and rows: "w_matches ?w = [freshMatch]"
    by (rule fresh_runtime)
  have live: "live ''m1'' rt (w_redis ?w)" and bkd: "backed ''m1'' rt ?w" using play by (simp_all add: playable_def)
  have active: "matches_findActiveByUserId ''bob'' ?w = Some freshMatch"
    unfolding matches_findActiveByUserId_def rows by code_simp
  have sock: "gw_user bobOnline ''s'' = Some ''bob''" "''s'' \<notin> set (gw_superseded bobOnline)"
    by (simp_all add: bobOnline_def opened_def) (simp add: emptyGateway_def)
  have "mt_id freshMatch = ''m1''" by (simp add: freshMatch_def)
  from disconnect_forfeits [OF sock live bkd _ _ active this, of demoPorts] ph ids show ?thesis by auto
qed

lemma rate_limit_sliding_window_witness:
  "verdicts 2 ''u'' [0, 10, 20, 1005, 1500] emptyRedis = [True, True, False, False, True]"
proof -
  have "r_zset emptyRedis (hitsKey ''u'') = []" by (simp add: emptyRedis_def)
  moreover have "sorted [0, 10, 20, 1005, 1500 :: int]" by simp
  ultimately have "verdicts 2 ''u'' [0, 10, 20, 1005, 1500] emptyRedis =
     map (\<lambda>i. int (length (filter (\<lambda>s. [0, 10, 20, 1005, 1500] ! i - WINDOW_MS < s) (take (Suc i) [0, 10, 20, 1005, 1500]))) \<le> 2)
       [0..<length [0, 10, 20, 1005, 1500 :: int]]"
    by (rule rate_limit_sliding_window [THEN conjunct1])
  also have "\<dots> = [True, True, False, False, True]" by code_simp
  finally show ?thesis .
qed

end
