(* ===== verification/Retention.thy ===== *)
theory Retention
  imports Workers
begin

text \<open>
  \<open>match/match-retention.service.ts\<close>: the daily run that clears the event logs of old matches and deletes matches
  whose history has expired, in bounded batches, and the worker of \<open>queue/workers/queue.workers.ts\<close> that starts it.
  The rounds of the table stand in the order of \<open>createdAt\<close>; a day is 24 hours; \<open>pg_column_size\<close> is the argument
  \<open>rt_size\<close>. Rows that another transaction has locked are skipped (\<open>rt_lockedRound\<close>, \<open>rt_lockedMatch\<close>).

  \<open>rt_length\<close> is \<open>result.length\<close> of what the driver returns for \<open>UPDATE\<close> and \<open>DELETE .. RETURNING\<close> with this many
  rows. The service and its tests take the result for the list of rows; TypeORM 0.3, the version the lock file
  names, returns the pair of that list and the row count for these two commands.
\<close>

definition DEFAULT_EVENT_DAYS :: int where "DEFAULT_EVENT_DAYS = 90"

definition DEFAULT_HISTORY_DAYS :: int where "DEFAULT_HISTORY_DAYS = 365"

definition DEFAULT_BATCH_SIZE :: int where "DEFAULT_BATCH_SIZE = 500"

definition MAX_SAFE_INTEGER :: int where "MAX_SAFE_INTEGER = 2 ^ 53 - 1"

definition DAY_MS :: int where "DAY_MS = 24 * 60 * 60 * 1000"

record RetentionReport =
  rr_eventRowsEligible :: nat
  rr_eventBytesEligible :: nat
  rr_matchesEligible :: nat
  rr_batchSize :: nat
  rr_dryRun :: bool
  rr_eventsCleared :: nat
  rr_matchesDeleted :: nat

record retention_env =
  rt_env :: "string \<rightharpoonup> string"
  rt_size :: "SnapEvent list \<Rightarrow> nat"
  rt_lockedRound :: "MatchRound \<Rightarrow> bool"
  rt_lockedMatch :: "Match \<Rightarrow> bool"
  rt_length :: "nat \<Rightarrow> nat"

definition readPositiveInt :: "(string \<rightharpoonup> string) \<Rightarrow> string \<Rightarrow> int \<Rightarrow> int \<Rightarrow> int result" where
  "readPositiveInt env name fallback maximum =
     (case env name of
        None \<Rightarrow> Inr fallback
      | Some raw \<Rightarrow>
          if raw = [] then Inr fallback
          else case js_Number (js_trim raw) of
                 Some n \<Rightarrow> if n < 1 \<or> n > maximum
                            then Inl (name @ '' must be an integer between 1 and '' @ showInt maximum) else Inr n
               | None \<Rightarrow> Inl (name @ '' must be an integer between 1 and '' @ showInt maximum))"

subsection \<open>The four statements\<close>

definition olderThan :: "int \<Rightarrow> int \<Rightarrow> Match \<Rightarrow> bool" where
  "olderThan days now m \<longleftrightarrow> (case mt_finishedAt m of Some t \<Rightarrow> t < now - days * DAY_MS | None \<Rightarrow> False)"

definition expired :: "int \<Rightarrow> int \<Rightarrow> Match \<Rightarrow> bool" where
  "expired historyDays now m \<longleftrightarrow> mt_status m \<in> {MatchFinished, Forfeited} \<and> olderThan historyDays now m"

text \<open>The join of \<open>match_rounds\<close> and \<open>matches\<close>: an event log past its time, of a match that stays.\<close>

definition stale :: "int \<Rightarrow> int \<Rightarrow> world \<Rightarrow> MatchRound \<Rightarrow> bool" where
  "stale eventDays historyDays w r \<longleftrightarrow> mr_events r \<noteq> None
     \<and> list_ex (\<lambda>m. mt_id m = mr_matchId r \<and> mt_status m \<in> {MatchFinished, Forfeited}
          \<and> olderThan eventDays (w_now w) m \<and> \<not> olderThan historyDays (w_now w) m) (w_matches w)"

text \<open>\<open>LIMIT\<close> and \<open>SET events = NULL\<close> over the rows in their order.\<close>

fun clearFirst :: "(MatchRound \<Rightarrow> bool) \<Rightarrow> nat \<Rightarrow> MatchRound list \<Rightarrow> nat \<times> MatchRound list" where
  "clearFirst p n [] = (0, [])"
| "clearFirst p n (r # rs) =
     (if n > 0 \<and> p r then (let (k, rs') = clearFirst p (n - 1) rs in (Suc k, r\<lparr>mr_events := None\<rparr> # rs'))
      else (let (k, rs') = clearFirst p n rs in (k, r # rs')))"

definition clearBatch :: "retention_env \<Rightarrow> int \<Rightarrow> int \<Rightarrow> nat \<Rightarrow> world \<Rightarrow> nat \<times> world" where
  "clearBatch re eventDays historyDays batchSize w =
     (let (k, rounds) = clearFirst (\<lambda>r. stale eventDays historyDays w r \<and> \<not> rt_lockedRound re r) batchSize (w_rounds w)
      in (k, w\<lparr>w_rounds := rounds\<rparr>))"

definition byFinish :: "Match \<Rightarrow> Match \<Rightarrow> int" where
  "byFinish a b =
     (let fin = (\<lambda>m. case mt_finishedAt m of Some t \<Rightarrow> t | None \<Rightarrow> 0); d = fin a - fin b
      in if d \<noteq> 0 then d else if mt_id a < mt_id b then -1 else if mt_id a = mt_id b then 0 else 1)"

text \<open>\<open>DELETE\<close> with the cascade of the foreign key.\<close>

definition deleteBatch :: "retention_env \<Rightarrow> int \<Rightarrow> nat \<Rightarrow> world \<Rightarrow> nat \<times> world" where
  "deleteBatch re historyDays batchSize w =
     (let batch = take batchSize (js_sort byFinish
            (filter (\<lambda>m. expired historyDays (w_now w) m \<and> \<not> rt_lockedMatch re m) (w_matches w)));
          ids = map mt_id batch
      in (length batch, w\<lparr>w_matches := filter (\<lambda>m. mt_id m \<notin> set ids) (w_matches w),
                          w_rounds := filter (\<lambda>r. mr_matchId r \<notin> set ids) (w_rounds w)\<rparr>))"

subsection \<open>The run\<close>

text \<open>\<open>while (true)\<close>: a batch that is not full is the last one. \<open>None\<close>: the loop does not return.\<close>

partial_function (option) drain :: "('s \<Rightarrow> nat \<times> 's) \<Rightarrow> (nat \<Rightarrow> nat) \<Rightarrow> nat \<Rightarrow> nat \<Rightarrow> 's \<Rightarrow> (nat \<times> 's) option" where
  "drain query len batchSize acc s =
     (let (k, s') = query s; acc' = acc + len k
      in if len k < batchSize then Some (acc', s') else drain query len batchSize acc' s')"

definition preview :: "retention_env \<Rightarrow> int \<Rightarrow> int \<Rightarrow> nat \<Rightarrow> bool \<Rightarrow> world \<Rightarrow> RetentionReport" where
  "preview re eventDays historyDays batchSize dryRun w =
     (let old = filter (stale eventDays historyDays w) (w_rounds w)
      in \<lparr>rr_eventRowsEligible = length old,
          rr_eventBytesEligible = sum_list (map (\<lambda>r. case mr_events r of Some e \<Rightarrow> rt_size re e | None \<Rightarrow> 0) old),
          rr_matchesEligible = length (filter (expired historyDays (w_now w)) (w_matches w)),
          rr_batchSize = batchSize, rr_dryRun = dryRun, rr_eventsCleared = 0, rr_matchesDeleted = 0\<rparr>)"

definition applyRetention :: "retention_env \<Rightarrow> int \<Rightarrow> int \<Rightarrow> nat \<Rightarrow> RetentionReport \<Rightarrow> world \<Rightarrow> (RetentionReport \<times> world) option" where
  "applyRetention re eventDays historyDays batchSize report w =
     (case drain (clearBatch re eventDays historyDays batchSize) (rt_length re) batchSize 0 w of
        None \<Rightarrow> None
      | Some (cleared, w1) \<Rightarrow>
          (case drain (deleteBatch re historyDays batchSize) (rt_length re) batchSize 0 w1 of
             None \<Rightarrow> None
           | Some (deleted, w2) \<Rightarrow> Some (report\<lparr>rr_eventsCleared := cleared, rr_matchesDeleted := deleted\<rparr>, w2)))"

definition retentionRun :: "retention_env \<Rightarrow> bool \<Rightarrow> world \<Rightarrow> (RetentionReport result \<times> world) option" where
  "retentionRun re dryRun w =
     (case readPositiveInt (rt_env re) ''MATCH_EVENT_RETENTION_DAYS'' DEFAULT_EVENT_DAYS MAX_SAFE_INTEGER of
        Inl e \<Rightarrow> Some (Inl e, w)
      | Inr eventDays \<Rightarrow>
     (case readPositiveInt (rt_env re) ''MATCH_HISTORY_RETENTION_DAYS'' DEFAULT_HISTORY_DAYS MAX_SAFE_INTEGER of
        Inl e \<Rightarrow> Some (Inl e, w)
      | Inr historyDays \<Rightarrow>
     (case readPositiveInt (rt_env re) ''MATCH_RETENTION_BATCH_SIZE'' DEFAULT_BATCH_SIZE 10000 of
        Inl e \<Rightarrow> Some (Inl e, w)
      | Inr limit \<Rightarrow>
          if historyDays < eventDays
          then Some (Inl ''MATCH_HISTORY_RETENTION_DAYS must be greater than or equal to MATCH_EVENT_RETENTION_DAYS'', w)
          else let batchSize = nat limit; report = preview re eventDays historyDays batchSize dryRun w
               in if dryRun then Some (Inr report, w)
                  else map_option (\<lambda>(rep, w'). (Inr rep, w')) (applyRetention re eventDays historyDays batchSize report w))))"

text \<open>The cleanup queue has two kinds of jobs of its own; a job of another name is ignored.\<close>

datatype CleanupJob = RetentionJob | CleanupJob string | OtherJob string

definition processCleanupQueue :: "retention_env \<Rightarrow> CleanupJob \<Rightarrow> world \<Rightarrow> (unit result \<times> world) option" where
  "processCleanupQueue re job w =
     (case job of
        RetentionJob \<Rightarrow> map_option (\<lambda>(r, w'). (map_sum id (\<lambda>_. ()) r, w')) (retentionRun re False w)
      | CleanupJob matchId \<Rightarrow> Some (cleanupMatch matchId w)
      | OtherJob _ \<Rightarrow> Some (Inr (), w))"

subsection \<open>Interface: a statement that works off a batch\<close>

text \<open>
  What a loop over batches relies on: the statement takes rows while there are any, at most a batch of them,
  and what it has taken is no longer there to take. The relation \<open>reach\<close> is what the statement keeps.
\<close>

locale batch_statement =
  fixes query :: "'s \<Rightarrow> nat \<times> 's"
    and todo :: "'s \<Rightarrow> nat"
    and result :: "'s \<Rightarrow> 's"
    and inv :: "'s \<Rightarrow> bool"
    and batch :: nat
  assumes positive: "0 < batch"
    and takes: "inv s \<Longrightarrow> fst (query s) = min batch (todo s)"
    and leaves: "inv s \<Longrightarrow> todo (snd (query s)) = todo s - fst (query s)"
    and same_result: "inv s \<Longrightarrow> result (snd (query s)) = result s"
    and keeps: "inv s \<Longrightarrow> inv (snd (query s))"
    and done_result: "inv s \<Longrightarrow> todo s = 0 \<Longrightarrow> result s = s"
begin

lemma drains: "inv s \<Longrightarrow> drain query id batch acc s = Some (acc + todo s, result s)"
proof (induction "todo s" arbitrary: s acc rule: less_induct)
  case less
  obtain k s' where q: "query s = (k, s')" by fastforce
  have k: "k = min batch (todo s)" "todo s' = todo s - k" and r: "result s' = result s" "inv s'"
    using takes [OF less.prems] leaves [OF less.prems] same_result [OF less.prems] keeps [OF less.prems] q by auto
  show ?case
  proof (cases "k < batch")
    case True
    with k have "k = todo s" "todo s' = 0" by auto
    with True done_result [OF r(2)] r(1) q show ?thesis by (subst drain.simps) simp
  next
    case False
    with k positive have "todo s' < todo s" "k + todo s' = todo s" by auto
    from less.hyps [OF this(1) r(2), of "acc + k"] this(2) False q r(1) show ?thesis
      by (subst drain.simps) (simp add: add.assoc)
  qed
qed

end

subsection \<open>Clearing event logs\<close>

definition clearedRound :: "retention_env \<Rightarrow> int \<Rightarrow> int \<Rightarrow> world \<Rightarrow> MatchRound \<Rightarrow> MatchRound" where
  "clearedRound re ev hist w r = (if stale ev hist w r \<and> \<not> rt_lockedRound re r then r\<lparr>mr_events := None\<rparr> else r)"

definition clearedAll :: "retention_env \<Rightarrow> int \<Rightarrow> int \<Rightarrow> world \<Rightarrow> world" where
  "clearedAll re ev hist w = w\<lparr>w_rounds := map (clearedRound re ev hist w) (w_rounds w)\<rparr>"

definition clearable :: "retention_env \<Rightarrow> int \<Rightarrow> int \<Rightarrow> world \<Rightarrow> nat" where
  "clearable re ev hist w = length (filter (\<lambda>r. stale ev hist w r \<and> \<not> rt_lockedRound re r) (w_rounds w))"

lemma clearFirst_props:
  assumes "\<And>r. \<not> p (r\<lparr>mr_events := None\<rparr>)"
  shows "fst (clearFirst p n rs) = min n (length (filter p rs))"
    and "length (filter p (snd (clearFirst p n rs))) = length (filter p rs) - fst (clearFirst p n rs)"
    and "map (\<lambda>r. if p r then r\<lparr>mr_events := None\<rparr> else r) (snd (clearFirst p n rs)) =
         map (\<lambda>r. if p r then r\<lparr>mr_events := None\<rparr> else r) rs"
proof (induction rs arbitrary: n)
  case (Cons r rs)
  { case 1 show ?case using Cons(1) [of "n - 1"] Cons(1) [of n] by (cases "0 < n \<and> p r") (auto simp: case_prod_unfold Let_def min_def) }
  { case 2 show ?case using Cons(1,2) [of "n - 1"] Cons(1,2) [of n] by (cases "0 < n \<and> p r") (auto simp: case_prod_unfold Let_def assms) }
  { case 3 show ?case using Cons(3) [of "n - 1"] Cons(3) [of n] by (cases "0 < n \<and> p r") (auto simp: case_prod_unfold Let_def assms) }
qed simp_all

lemma clear_frames:
  "w_matches (snd (clearBatch re ev hist n w)) = w_matches w" "w_now (snd (clearBatch re ev hist n w)) = w_now w"
  "stale ev hist (snd (clearBatch re ev hist n w)) = stale ev hist w"
  by (simp_all add: clearBatch_def case_prod_unfold Let_def stale_def [abs_def])

lemma clearable_cleared: "\<not> (stale ev hist w (r\<lparr>mr_events := None\<rparr>) \<and> \<not> rt_lockedRound re (r\<lparr>mr_events := None\<rparr>))"
  by (simp add: stale_def)

interpretation clearing: batch_statement "clearBatch re ev hist (Suc n)" "clearable re ev hist" "clearedAll re ev hist" "\<lambda>_. True" "Suc n"
proof
  fix w
  note props = clearFirst_props [of "\<lambda>r. stale ev hist w r \<and> \<not> rt_lockedRound re r" "Suc n" "w_rounds w", OF clearable_cleared]
  show "fst (clearBatch re ev hist (Suc n) w) = min (Suc n) (clearable re ev hist w)"
    using props(1) by (simp add: clearBatch_def clearable_def case_prod_unfold Let_def)
  show "clearable re ev hist (snd (clearBatch re ev hist (Suc n) w)) = clearable re ev hist w - fst (clearBatch re ev hist (Suc n) w)"
    using props(2) unfolding clearable_def clear_frames by (simp add: clearBatch_def case_prod_unfold Let_def)
  show "clearedAll re ev hist (snd (clearBatch re ev hist (Suc n) w)) = clearedAll re ev hist w"
    using props(3) unfolding clearedAll_def clearedRound_def [abs_def] clear_frames
    by (simp add: clearBatch_def case_prod_unfold Let_def)
  show "clearedAll re ev hist w = w" if "clearable re ev hist w = 0"
  proof -
    have "map (clearedRound re ev hist w) (w_rounds w) = w_rounds w"
      using that by (intro map_idI) (auto simp: clearable_def clearedRound_def filter_empty_conv)
    then show ?thesis by (simp add: clearedAll_def)
  qed
qed simp_all

subsection \<open>Deleting matches\<close>

definition doomed :: "retention_env \<Rightarrow> int \<Rightarrow> world \<Rightarrow> Match \<Rightarrow> bool" where
  "doomed re hist w m \<longleftrightarrow> expired hist (w_now w) m \<and> \<not> rt_lockedMatch re m"

definition purgedAll :: "retention_env \<Rightarrow> int \<Rightarrow> world \<Rightarrow> world" where
  "purgedAll re hist w =
     w\<lparr>w_matches := filter (\<lambda>m. \<not> doomed re hist w m) (w_matches w),
       w_rounds := filter (\<lambda>r. mr_matchId r \<notin> mt_id ` {m \<in> set (w_matches w). doomed re hist w m}) (w_rounds w)\<rparr>"

definition deletable :: "retention_env \<Rightarrow> int \<Rightarrow> world \<Rightarrow> nat" where
  "deletable re hist w = length (filter (doomed re hist w) (w_matches w))"

definition distinctIds :: "world \<Rightarrow> bool" where
  "distinctIds w \<longleftrightarrow> distinct (map mt_id (w_matches w))"

lemma batch_props:
  fixes f :: "'a \<Rightarrow> 'b" and p :: "'a \<Rightarrow> bool" and c :: "'a \<Rightarrow> 'a \<Rightarrow> int" and n :: nat
  assumes "distinct (map f xs)"
  defines "ids \<equiv> f ` set (take n (js_sort c (filter p xs)))"
  shows "length (filter p (filter (\<lambda>x. f x \<notin> ids) xs)) = length (filter p xs) - length (take n (js_sort c (filter p xs)))"
    and "filter (\<lambda>x. \<not> p x) (filter (\<lambda>x. f x \<notin> ids) xs) = filter (\<lambda>x. \<not> p x) xs"
    and "ids \<union> f ` {x \<in> set xs. f x \<notin> ids \<and> p x} = f ` {x \<in> set xs. p x}"
proof -
  let ?b = "take n (js_sort c (filter p xs))"
  have sub: "set ?b \<subseteq> {x \<in> set xs. p x}" using set_take_subset [of n "js_sort c (filter p xs)"] by auto
  have dist: "distinct (map f (js_sort c (filter p xs)))"
    using assms(1) distinct_map_filter by (metis mset_eq_imp_distinct_iff mset_js_sort mset_map)
  then have card: "card ids = length ?b"
    unfolding ids_def by (metis distinct_card distinct_take length_map set_map take_map)
  have inj: "inj_on f (set xs)" and dx: "distinct xs" using assms(1) by (auto simp: distinct_map)
  have mem: "x \<in> set xs \<Longrightarrow> f x \<in> ids \<longleftrightarrow> x \<in> set ?b" for x
    using sub inj unfolding ids_def by (auto dest: inj_onD)
  show "filter (\<lambda>x. \<not> p x) (filter (\<lambda>x. f x \<notin> ids) xs) = filter (\<lambda>x. \<not> p x) xs"
    unfolding filter_filter using mem sub by (intro filter_cong) auto
  show "ids \<union> f ` {x \<in> set xs. f x \<notin> ids \<and> p x} = f ` {x \<in> set xs. p x}"
    using sub mem by (auto simp: ids_def)
  have "length (filter p (filter (\<lambda>x. f x \<notin> ids) xs)) = card ({x \<in> set xs. p x} - set ?b)"
  proof -
    have "length (filter p (filter (\<lambda>x. f x \<notin> ids) xs)) = card (set (filter p (filter (\<lambda>x. f x \<notin> ids) xs)))"
      using dx by (simp add: distinct_card [symmetric])
    also have "set (filter p (filter (\<lambda>x. f x \<notin> ids) xs)) = {x \<in> set xs. p x} - set ?b" using mem by auto
    finally show ?thesis .
  qed
  also have "\<dots> = card {x \<in> set xs. p x} - card (set ?b)" using sub by (intro card_Diff_subset) auto
  also have "card (set ?b) = length ?b" using dist by (simp add: distinct_card distinct_map)
  also have "card {x \<in> set xs. p x} = length (filter p xs)" using dx by (metis distinct_card distinct_filter set_filter)
  finally show "length (filter p (filter (\<lambda>x. f x \<notin> ids) xs)) = length (filter p xs) - length ?b" .
qed

lemma delete_frames:
  "w_now (snd (deleteBatch re hist n w)) = w_now w"
  "doomed re hist (snd (deleteBatch re hist n w)) = doomed re hist w"
  by (simp_all add: deleteBatch_def Let_def doomed_def [abs_def])

interpretation deleting: batch_statement "deleteBatch re hist (Suc n)" "deletable re hist" "purgedAll re hist" distinctIds "Suc n"
proof
  fix w
  assume inv: "distinctIds w"
  let ?b = "take (Suc n) (js_sort byFinish (filter (doomed re hist w) (w_matches w)))" and ?w = "snd (deleteBatch re hist (Suc n) w)"
  have p: "(\<lambda>m. expired hist (w_now w) m \<and> \<not> rt_lockedMatch re m) = doomed re hist w" by (simp add: doomed_def fun_eq_iff)
  note props = batch_props [where f = mt_id and xs = "w_matches w" and n = "Suc n" and c = byFinish and p = "doomed re hist w", OF inv [unfolded distinctIds_def]]
  have w: "fst (deleteBatch re hist (Suc n) w) = length ?b"
    "w_matches ?w = filter (\<lambda>m. mt_id m \<notin> mt_id ` set ?b) (w_matches w)"
    "w_rounds ?w = filter (\<lambda>r. mr_matchId r \<notin> mt_id ` set ?b) (w_rounds w)"
    unfolding deleteBatch_def p Let_def by simp_all
  show "fst (deleteBatch re hist (Suc n) w) = min (Suc n) (deletable re hist w)"
    unfolding w(1) deletable_def by simp
  show "deletable re hist ?w = deletable re hist w - fst (deleteBatch re hist (Suc n) w)"
    unfolding deletable_def delete_frames w(1,2) by (rule props(1))
  show "distinctIds ?w" using inv unfolding distinctIds_def w(2) by (rule distinct_map_filter)
  have "w_rounds (purgedAll re hist ?w) = w_rounds (purgedAll re hist w)"
  proof -
    have "mt_id ` set ?b \<union> mt_id ` {m \<in> set (w_matches ?w). doomed re hist w m} = mt_id ` {m \<in> set (w_matches w). doomed re hist w m}"
      unfolding w(2) using props(3) by (simp add: conj_assoc)
    then have "(x \<notin> mt_id ` set ?b \<and> x \<notin> mt_id ` {m \<in> set (w_matches ?w). doomed re hist w m})
        \<longleftrightarrow> x \<notin> mt_id ` {m \<in> set (w_matches w). doomed re hist w m}" for x by blast
    then show ?thesis unfolding purgedAll_def delete_frames by (simp add: w(3) filter_filter del: image_iff)
  qed
  moreover have "w_matches (purgedAll re hist ?w) = w_matches (purgedAll re hist w)"
    unfolding purgedAll_def delete_frames using props(2) by (simp add: w(2))
  moreover have "purgedAll re hist ?w = (purgedAll re hist w)\<lparr>w_matches := w_matches (purgedAll re hist ?w), w_rounds := w_rounds (purgedAll re hist ?w)\<rparr>"
    by (simp add: purgedAll_def deleteBatch_def Let_def)
  ultimately show "purgedAll re hist ?w = purgedAll re hist w" by (simp add: purgedAll_def)
  show "purgedAll re hist w = w" if "deletable re hist w = 0"
  proof -
    have "{m \<in> set (w_matches w). doomed re hist w m} = {}" "filter (\<lambda>m. \<not> doomed re hist w m) (w_matches w) = w_matches w"
      using that by (auto simp: deletable_def filter_empty_conv filter_id_conv)
    then show ?thesis unfolding purgedAll_def by (simp only: image_empty) simp
  qed
qed simp


subsection \<open>What a run achieves\<close>

text \<open>The configuration of a run.\<close>

definition policy :: "retention_env \<Rightarrow> int \<Rightarrow> int \<Rightarrow> int \<Rightarrow> bool" where
  "policy re eventDays historyDays batchSize \<longleftrightarrow>
     readPositiveInt (rt_env re) ''MATCH_EVENT_RETENTION_DAYS'' DEFAULT_EVENT_DAYS MAX_SAFE_INTEGER = Inr eventDays
     \<and> readPositiveInt (rt_env re) ''MATCH_HISTORY_RETENTION_DAYS'' DEFAULT_HISTORY_DAYS MAX_SAFE_INTEGER = Inr historyDays
     \<and> readPositiveInt (rt_env re) ''MATCH_RETENTION_BATCH_SIZE'' DEFAULT_BATCH_SIZE 10000 = Inr batchSize
     \<and> eventDays \<le> historyDays"

lemma readPositiveInt_range: "readPositiveInt env name fb mx = Inr n \<Longrightarrow> 1 \<le> fb \<Longrightarrow> 1 \<le> n"
  by (auto simp: readPositiveInt_def split: option.splits if_splits)

lemma retentionRun_policy:
  assumes "policy re ev hist b"
  obtains n where "nat b = Suc n" "retentionRun re False w =
     map_option (\<lambda>(rep, w'). (Inr rep, w')) (applyRetention re ev hist (Suc n) (preview re ev hist (Suc n) False w) w)"
proof -
  have "1 \<le> b" using assms readPositiveInt_range [of _ _ DEFAULT_BATCH_SIZE] by (fastforce simp: policy_def DEFAULT_BATCH_SIZE_def)
  then obtain n where n: "nat b = Suc n" by (metis not0_implies_Suc nat_0_iff not_one_le_zero order_trans zero_le_one linorder_not_le int_one_le_iff_zero_less)
  have "retentionRun re False w =
     map_option (\<lambda>(rep, w'). (Inr rep, w')) (applyRetention re ev hist (Suc n) (preview re ev hist (Suc n) False w) w)"
    using assms by (simp add: retentionRun_def policy_def n)
  with n that show ?thesis by blast
qed

text \<open>What a run leaves and reports.\<close>

lemma retention_result:
  assumes "policy re ev hist b" and "rt_length re = id" and "tables_ok w"
  shows "retentionRun re False w = Some
     (Inr ((preview re ev hist (nat b) False w)\<lparr>rr_eventsCleared := clearable re ev hist w, rr_matchesDeleted := deletable re hist w\<rparr>),
      purgedAll re hist (clearedAll re ev hist w))"
proof -
  obtain n where n: "nat b = Suc n" and run: "retentionRun re False w =
     map_option (\<lambda>(rep, w'). (Inr rep, w')) (applyRetention re ev hist (Suc n) (preview re ev hist (Suc n) False w) w)"
    using retentionRun_policy [OF assms(1)] by metis
  let ?w1 = "clearedAll re ev hist w"
  have ids: "distinctIds ?w1" using assms(3) by (simp add: distinctIds_def clearedAll_def tables_ok_def)
  have "deletable re hist ?w1 = deletable re hist w"
    unfolding deletable_def by (simp add: clearedAll_def doomed_def [abs_def])
  then show ?thesis
    unfolding run n by (simp add: applyRetention_def assms(2) clearing.drains deleting.drains [OF ids])
qed

lemma retention_tables:
  "w_matches (purgedAll re hist (clearedAll re ev hist w)) = filter (\<lambda>m. \<not> doomed re hist w m) (w_matches w)"
  "w_rounds (purgedAll re hist (clearedAll re ev hist w)) = filter (\<lambda>r. mr_matchId r \<notin> mt_id ` {m \<in> set (w_matches w). doomed re hist w m})
      (map (clearedRound re ev hist w) (w_rounds w))"
  "w_users (purgedAll re hist (clearedAll re ev hist w)) = w_users w"
  "w_redis (purgedAll re hist (clearedAll re ev hist w)) = w_redis w"
  "w_now (purgedAll re hist (clearedAll re ev hist w)) = w_now w"
  by (simp_all add: purgedAll_def clearedAll_def doomed_def [abs_def])


lemma drain_returns: "drain query len b acc s = Some x \<Longrightarrow> \<exists>k. len k < b"
  by (rule drain.raw_induct [where P = "\<lambda>query len b acc s x. \<exists>k. len k < b"])
    (auto simp: case_prod_unfold Let_def split: if_splits)

text \<open>
  C37: With the driver the lock file names, which returns the pair of the rows and their number for these two commands,
  every result has length 2. Then a run clears one batch and deletes one batch, whatever is left over, and reports
  2 and 2, whatever it did; and with a configured batch size of 1 or 2 it never returns.
\<close>

theorem retention_single_batch:
  assumes "policy re ev hist b" and "rt_length re = (\<lambda>_. 2)"
  shows "if b \<le> 2 then retentionRun re False w = None
     else \<exists>rep. retentionRun re False w =
         Some (Inr rep, snd (deleteBatch re hist (nat b) (snd (clearBatch re ev hist (nat b) w))))
       \<and> rr_eventsCleared rep = 2 \<and> rr_matchesDeleted rep = 2"
proof -
  obtain n where n: "nat b = Suc n" and run: "retentionRun re False w =
     map_option (\<lambda>(rep, w'). (Inr rep, w')) (applyRetention re ev hist (Suc n) (preview re ev hist (Suc n) False w) w)"
    using retentionRun_policy [OF assms(1)] by metis
  show ?thesis
  proof (cases "b \<le> 2")
    case True
    with n have "Suc n \<le> 2" by linarith
    then have "drain (clearBatch re ev hist (Suc n)) (\<lambda>_. 2) (Suc n) 0 w = None"
      using drain_returns [of "clearBatch re ev hist (Suc n)" "\<lambda>_. 2" "Suc n" 0 w]
      by (cases "drain (clearBatch re ev hist (Suc n)) (\<lambda>_. 2) (Suc n) 0 w") auto
    with True show ?thesis unfolding run by (simp add: applyRetention_def assms(2))
  next
    case False
    with n have big: "2 < Suc n" by linarith
    have once: "drain q (\<lambda>_. 2) (Suc n) 0 s = Some (2, snd (q s))" for q :: "world \<Rightarrow> nat \<times> world" and s
      using big by (subst drain.simps) (simp add: case_prod_unfold)
    from False show ?thesis unfolding run n by (simp add: applyRetention_def assms(2) once)
  qed
qed


subsection \<open>Example\<close>

text \<open>Three matches of one year and more ago, one of half a year ago and one that still runs.\<close>

definition pastMatch :: "string \<Rightarrow> int option \<Rightarrow> Match" where
  "pastMatch i days = \<lparr>mt_id = i, mt_player1Id = ''u1'', mt_player2Id = ''u2'', mt_winnerId = None,
     mt_status = (if days = None then InProgress else MatchFinished), mt_matchSeed = i, mt_wipeIndexP1 = 0, mt_wipeIndexP2 = 0,
     mt_p1State = JNull, mt_p2State = JNull, mt_createdAt = 0, mt_finishedAt = map_option (\<lambda>d. d * DAY_MS) days\<rparr>"

definition archive :: world where
  "archive = \<lparr>w_redis = emptyRedis,
     w_matches = [pastMatch ''a'' (Some 10), pastMatch ''b'' (Some 20), pastMatch ''c'' (Some 30), pastMatch ''d'' (Some 300), pastMatch ''e'' None],
     w_rounds = map (\<lambda>m. \<lparr>mr_matchId = m, mr_roundNumber = 1, mr_events = Some []\<rparr>) [''a'', ''b'', ''d'', ''e''],
     w_users = [], w_jobs = [], w_pub = [], w_combatResult = (\<lambda>_. None), w_cacheUp = True, w_now = 500 * DAY_MS\<rparr>"

definition quietEnv :: "string option \<Rightarrow> (nat \<Rightarrow> nat) \<Rightarrow> retention_env" where
  "quietEnv raw len = \<lparr>rt_env = (\<lambda>v. if v = ''MATCH_RETENTION_BATCH_SIZE'' then raw else None), rt_size = length,
     rt_lockedRound = (\<lambda>_. False), rt_lockedMatch = (\<lambda>_. False), rt_length = len\<rparr>"

lemma quiet_policy: "policy (quietEnv None len) 90 365 500" "policy (quietEnv (Some ''2'') len) 90 365 2"
  unfolding policy_def by (simp_all add: quietEnv_def readPositiveInt_def DEFAULT_EVENT_DAYS_def DEFAULT_HISTORY_DAYS_def DEFAULT_BATCH_SIZE_def)
    (simp add: js_trim_def isDigit_def readNat_def)


lemma retention_single_batch_witness:
  "retentionRun (quietEnv (Some ''2'') (\<lambda>_. 2)) False archive = None"
proof -
  have "rt_length (quietEnv (Some ''2'') (\<lambda>_. 2)) = (\<lambda>_. 2)" by (simp add: quietEnv_def)
  from retention_single_batch [OF quiet_policy(2) this, of archive] show ?thesis by simp
qed

end
