(* ===== verification/System.thy ===== *)
theory System
  imports Persistence Gateway_Props Retention
begin

text \<open>
  The whole backend in operation: any number of replicas, each with its gateway, on one shared world. A step is
  one thing that happens to it: a REST request, a socket that opens, closes or sends a message, a job
  of a queue, a tick of the matchmaking, an event handed to a replica by the bus, time, and anything Redis may do by
  itself (expiry, eviction, loss of all keys). Every step moves the tables along the abstract
  machine of \<open>Database_Steps\<close>; what that machine never undoes, the system never undoes.
\<close>

type_synonym system = "(string \<Rightarrow> gateway) \<times> world"

subsection \<open>Steps\<close>

inductive live_step :: "system \<Rightarrow> system \<Rightarrow> bool" where
  request: "steady (rv_ports env) \<Longrightarrow> fresh (rv_newId env) w \<Longrightarrow> live_step (gs, w) (gs, snd (rest env r rq w))"
| opens: "steady pt \<Longrightarrow> handleConnection pt tk token client (gs i, w) = (g', w') \<Longrightarrow> live_step (gs, w) (gs(i := g'), w')"
| closes: "steady pt \<Longrightarrow> gwDisconnect pt client (gs i, w) = (g', w') \<Longrightarrow> live_step (gs, w) (gs(i := g'), w')"
| says: "steady pt \<Longrightarrow> onMessage pt uuid limit client event payload (gs i, w) = (g', w') \<Longrightarrow>
    live_step (gs, w) (gs(i := g'), w')"
| timer: "steady pt \<Longrightarrow> job \<in> set (w_jobs w) \<Longrightarrow> live_step (gs, w) (gs, snd (runJob pt job w))"
| pairing: "steady pt \<Longrightarrow> fresh newId w \<Longrightarrow> live_step (gs, w) (gs, snd (processMatchPair pt newId seed MATCH_PAIR w))"
| delivery: "e \<in> set (w_pub w) \<Longrightarrow> live_step (gs, w) (gs(i := onBridge (receive e) (gs i)), w)"
| clock: "w_now w \<le> t \<Longrightarrow> live_step (gs, w) (gs, w\<lparr>w_now := t\<rparr>)"
| redis_drift: "live_step (gs, w) (gs, w\<lparr>w_redis := r, w_combatResult := c, w_cacheUp := up\<rparr>)"

inductive system_step :: "system \<Rightarrow> system \<Rightarrow> bool" where
  live: "live_step s s' \<Longrightarrow> system_step s s'"
| housekeeping: "processCleanupQueue re job w = Some (res, w') \<Longrightarrow> system_step (gs, w) (gs, w')"

subsection \<open>The gateway\<close>

lemma redis_same: "database (w\<lparr>w_redis := r, w_combatResult := c, w_cacheUp := up\<rparr>) = database w" "database (w\<lparr>w_now := t\<rparr>) = database w"
  by (simp_all add: database_def)

lemma saved_gwDisconnect:
  assumes "db_ok (database w)"
  shows "saved w (gwDisconnect pt c (g, w))"
proof -
  have "persists (andThen (leaveQueue u) (\<lambda>_. handleDisconnect pt None u))" for u by (intro persist_intros)
  from saved_moves [OF this assms] show ?thesis
    by (auto simp: saved_def gwDisconnect_def handleClientDisconnect_def split: option.split)
qed

lemma saved_dedupe:
  assumes "db_ok (database w)"
  shows "saved w (dedupePreviousSockets pt u c (g, w))"
proof -
  let ?f = "\<lambda>old (g, w). if old = c then (g, w) else gwDisconnect pt old (g\<lparr>gw_superseded := old # gw_superseded g\<rparr>, w)"
  have "db_steps (database w) (database (snd (fold ?f ss (g, w))))" for ss
    using assms
  proof (induction ss arbitrary: g w)
    case (Cons s ss)
    obtain g1 w1 where one: "?f s (g, w) = (g1, w1)" by fastforce
    have "db_steps (database w) (database w1)"
      using saved_gwDisconnect [OF Cons.prems, of pt s "g\<lparr>gw_superseded := s # gw_superseded g\<rparr>"] one
      by (auto simp: saved_def split: if_splits)
    from rtranclp_trans [OF this Cons.IH [OF tables.keeps_all [OF this Cons.prems]]] show ?case unfolding fold_simps one .
  qed simp
  then show ?thesis by (simp add: saved_def dedupePreviousSockets_def)
qed

lemma resume_frames [simp]: "database (snd (resumeActiveMatch c u (g, w))) = database w"
proof -
  have "database (snd (statePayloadForUser m u w)) = database w" for m w
    by (simp add: statePayloadForUser_def andThen_def case_prod_unfold split: sum.split)
  then have state: "statePayloadForUser m u w = (x, w') \<Longrightarrow> database w' = database w" for m w x w' by (metis snd_conv)
  have "database (snd (getCombatResultForReconnect m w)) = database w" for m w
    by (simp add: getCombatResultForReconnect_def case_prod_unfold split: option.split)
  then have combat: "getCombatResultForReconnect m w = (x, w') \<Longrightarrow> database w' = database w" for m w x w' by (metis snd_conv)
  show ?thesis
    by (auto simp: resumeActiveMatch_def Let_def split: option.split prod.split sum.split) (metis state combat)+
qed

lemma saved_connection:
  assumes "db_ok (database w)"
  shows "saved w (handleConnection pt tk token c (g, w))"
proof (cases "authenticate tk token")
  case (Inl code)
  with saved_gwDisconnect [OF assms] show ?thesis by (simp add: handleConnection_def)
next
  case (Inr jwt)
  let ?g0 = "g\<lparr>gw_user := (gw_user g)(c \<mapsto> jw_sub jwt), gw_connected := c # gw_connected g\<rparr>"
  obtain g1 w1 where d: "dedupePreviousSockets pt (jw_sub jwt) c (?g0, w) = (g1, w1)" by fastforce
  with saved_dedupe [OF assms, of pt "jw_sub jwt" c ?g0] have "db_steps (database w) (database w1)" by (simp add: saved_def)
  with d Inr show ?thesis by (simp add: handleConnection_def saved_def Let_def)
qed

lemma saved_handler:
  "persists f \<Longrightarrow> db_ok (database w) \<Longrightarrow> saved w (runHandler c a f (g, w))"
  using saved_moves [of f w] by (auto simp: saved_def runHandler_def split: prod.split sum.split)

lemma saved_message:
  assumes "steady pt" and "db_ok (database w)"
  shows "saved w (onMessage pt uuid limit c event payload (g, w))"
proof (cases "gw_user g c")
  case (Some u)
  obtain pass r where throttle: "throttle limit u (w_now w) (w_redis w) = (pass, r)" by fastforce
  let ?w = "w\<lparr>w_redis := r\<rparr>"
  have ok: "db_ok (database ?w)" using assms(2) by simp
  have run: "saved w (runHandler c a f (g, ?w))" if "persists f" for a and f :: "world \<Rightarrow> 'a result \<times> world"
    using saved_handler [OF that ok, of c a g] saved_database [of ?w w "runHandler c a f (g, ?w)"] by simp
  have go: "persists (joinQueue u t)" "persists (leaveQueue u)" "persists (handleAction pt u act n a m)" for t act n a m
    by (intro persist_intros persists_handleAction [OF assms(1)])+
  show ?thesis
    using run [OF go(1)] run [OF go(2)] run [OF go(3)]
    by (auto simp: onMessage_def Some throttle Let_def saved_same split: sum.split Incoming.split)
qed (simp add: onMessage_def saved_same)

subsection \<open>Housekeeping\<close>

lemma clear_retires: "db_retire (database w) (database (snd (clearBatch re ev hist n w)))"
proof -
  have "list_all2 (\<lambda>r r'. r' = r \<or> r' = r\<lparr>mr_events := None\<rparr>) rs (snd (clearFirst p n rs))" for p n rs
    by (induction p n rs rule: clearFirst.induct) (auto simp: case_prod_unfold Let_def list_all2_refl)
  then show ?thesis by (simp add: clearBatch_def database_def case_prod_unfold Let_def db_retire.db_clear)
qed

lemma delete_retires:
  assumes "db_ok (database w)"
  shows "db_retire (database w) (database (snd (deleteBatch re hist n w)))"
proof -
  let ?b = "take n (js_sort byFinish (filter (\<lambda>m. expired hist (w_now w) m \<and> \<not> rt_lockedMatch re m) (w_matches w)))"
  have sub: "m \<in> set (w_matches w) \<and> mt_status m \<noteq> InProgress" if "m \<in> set ?b" for m
  proof -
    from that have "m \<in> set (js_sort byFinish (filter (\<lambda>m. expired hist (w_now w) m \<and> \<not> rt_lockedMatch re m) (w_matches w)))"
      by (rule in_set_takeD)
    then show ?thesis by (auto simp: expired_def)
  qed
  have "mt_status m \<noteq> InProgress" if m: "m \<in> set (w_matches w)" "mt_id m \<in> mt_id ` set ?b" for m
  proof -
    from m(2) obtain m' where "m' \<in> set ?b" "mt_id m' = mt_id m" by auto
    with sub [of m'] m(1) assms have "m' = m" by (auto simp: db_ok_def database_def distinct_map dest: inj_onD)
    with sub \<open>m' \<in> set ?b\<close> show ?thesis by blast
  qed
  from db_retire.db_purge [of "w_matches w" "mt_id ` set ?b", OF this] show ?thesis
    by (simp add: deleteBatch_def Let_def database_def)
qed

lemma drain_steps:
  assumes "drain query len b acc s = Some x" and "good s"
    and "\<And>s. good s \<Longrightarrow> R s (snd (query s)) \<and> good (snd (query s))"
  shows "R\<^sup>*\<^sup>* s (snd x)"
proof -
  have "good s \<longrightarrow> (\<forall>s. good s \<longrightarrow> R s (snd (query s)) \<and> good (snd (query s))) \<longrightarrow> R\<^sup>*\<^sup>* s (snd x)"
  proof (rule drain.raw_induct [OF _ assms(1)])
    fix drain query len b acc s x
    assume IH: "\<And>query len b acc s x. drain query len b acc s = Some x \<Longrightarrow>
        good s \<longrightarrow> (\<forall>s. good s \<longrightarrow> R s (snd (query s)) \<and> good (snd (query s))) \<longrightarrow> R\<^sup>*\<^sup>* s (snd x)"
      and run: "(let (k, s') = query s; acc' = acc + len k in if len k < b then Some (acc', s') else drain query len b acc' s') = Some x"
    show "good s \<longrightarrow> (\<forall>s. good s \<longrightarrow> R s (snd (query s)) \<and> good (snd (query s))) \<longrightarrow> R\<^sup>*\<^sup>* s (snd x)"
    proof (intro impI)
      assume s: "good s" and all: "\<forall>s. good s \<longrightarrow> R s (snd (query s)) \<and> good (snd (query s))"
      obtain k s' where q: "query s = (k, s')" by fastforce
      from s all have "R s (snd (query s)) \<and> good (snd (query s))" by blast
      with q have first: "R s s'" "good s'" by simp_all
      show "R\<^sup>*\<^sup>* s (snd x)"
      proof (cases "len k < b")
        case False
        with run q have "drain query len b (acc + len k) s' = Some x" by (simp add: Let_def)
        with IH first(2) all have "R\<^sup>*\<^sup>* s' (snd x)" by blast
        with first(1) show ?thesis by (rule converse_rtranclp_into_rtranclp)
      qed (use run q first(1) in \<open>auto simp: Let_def\<close>)
    qed
  qed
  with assms(2,3) show ?thesis by blast
qed

lemma housekeeping_retires:
  assumes "processCleanupQueue re job w = Some (res, w')" and "db_ok (database w)"
  shows "db_retire\<^sup>*\<^sup>* (database w) (database w')"
proof -
  let ?R = "\<lambda>w w'. db_retire (database w) (database w')"
  have clear: "?R\<^sup>*\<^sup>* w v" if run: "drain (clearBatch re ev hist n) len n 0 w = Some (k, v)" and ok: "db_ok (database w)" for ev hist n len k w v
  proof -
    have "?R s (snd (clearBatch re ev hist n s)) \<and> db_ok (database (snd (clearBatch re ev hist n s)))" if "db_ok (database s)" for s
      using clear_retires [of s re ev hist n] retire_keeps_ok [OF _ that] by blast
    from drain_steps [where good = "\<lambda>w. db_ok (database w)" and R = ?R, OF run ok this] show ?thesis by simp
  qed
  have delete: "?R\<^sup>*\<^sup>* w v" if run: "drain (deleteBatch re hist n) len n 0 w = Some (k, v)" and ok: "db_ok (database w)" for hist n len k w v
  proof -
    have "?R s (snd (deleteBatch re hist n s)) \<and> db_ok (database (snd (deleteBatch re hist n s)))" if "db_ok (database s)" for s
      using delete_retires [OF that, of re hist n] retire_keeps_ok [OF _ that] by blast
    from drain_steps [where good = "\<lambda>w. db_ok (database w)" and R = ?R, OF run ok this] show ?thesis by simp
  qed
  have tables: "db_retire\<^sup>*\<^sup>* (database w) (database v)" if "?R\<^sup>*\<^sup>* w v" for w v
    using that by (induction rule: rtranclp_induct) (auto intro: rtranclp.rtrancl_into_rtrancl)
  have ok: "db_ok d'" if "db_retire\<^sup>*\<^sup>* d d'" "db_ok d" for d d'
    using that by (induction rule: rtranclp_induct) (auto intro: retire_keeps_ok)
  have applied: "db_retire\<^sup>*\<^sup>* (database w) (database v)" if "applyRetention re ev hist n rep w = Some (rep', v)" for ev hist n rep rep' v
  proof -
    from that obtain k w1 k' where run: "drain (clearBatch re ev hist n) (rt_length re) n 0 w = Some (k, w1)"
        "drain (deleteBatch re hist n) (rt_length re) n 0 w1 = Some (k', v)"
      by (auto simp: applyRetention_def split: option.splits)
    from tables [OF clear [OF run(1) assms(2)]] have first: "db_retire\<^sup>*\<^sup>* (database w) (database w1)" .
    from rtranclp_trans [OF this tables [OF delete [OF run(2) ok [OF first assms(2)]]]] show ?thesis .
  qed
  show ?thesis
  proof (cases job)
    case RetentionJob
    with assms(1) obtain rep where "retentionRun re False w = Some (rep, w')" by (auto simp: processCleanupQueue_def)
    then show ?thesis
      by (auto simp: retentionRun_def Let_def dest: applied split: sum.splits if_splits)
  next
    case (CleanupJob m)
    with assms(1) cleanup_frames [of m w] show ?thesis by (simp add: processCleanupQueue_def)
  next
    case (OtherJob k)
    with assms(1) show ?thesis by (simp add: processCleanupQueue_def)
  qed
qed

subsection \<open>The system\<close>

lemma live_step_saved:
  assumes "live_step s s'" and "db_ok (database (snd s))"
  shows "db_steps (database (snd s)) (database (snd s'))"
  using assms
proof cases
  case (request env w gs r rq)
  with saved_rest [OF request(4)] assms(2) show ?thesis by (simp add: saved_def)
next
  case (opens pt tk token client gs i w g' w')
  with saved_connection [of w pt tk token client "gs i"] assms(2) show ?thesis by (simp add: saved_def)
next
  case (closes pt client gs i w g' w')
  with saved_gwDisconnect [of w pt client "gs i"] assms(2) show ?thesis by (simp add: saved_def)
next
  case (says pt uuid limit client event payload gs i w g' w')
  with saved_message [OF says(3), of w uuid limit client event payload "gs i"] assms(2) show ?thesis by (simp add: saved_def)
next
  case (timer pt job w gs)
  with saved_moves [OF persists_runJob [OF timer(3)]] assms(2) show ?thesis by (simp add: saved_def)
next
  case (pairing pt newId w gs seed)
  with saved_matchPair [OF pairing(4)] assms(2) show ?thesis by (simp add: saved_def)
qed (simp_all add: redis_same)

lemma live_steps_saved:
  assumes "live_step\<^sup>*\<^sup>* s s'" and "db_ok (database (snd s))"
  shows "db_steps (database (snd s)) (database (snd s'))"
  using assms(1)
proof (induction rule: rtranclp_induct)
  case (step s1 s2)
  from live_step_saved [OF step.hyps(2) tables.keeps_all [OF step.IH assms(2)]] step.IH show ?case
    by (simp add: rtranclp_trans)
qed simp

text \<open>
  C1: The whole backend refines the abstract machine of its database. Whatever happens to the running system (a REST
  request, a socket that opens, closes or sends a message, a timer, a tick of the matchmaking, loss or expiry of
  anything in Redis), succeeding, rejected or failing halfway, its effect on the tables is a sequence
  of the seven steps: register, rename, create a match, snapshot a match, log a round, log it again, end a match with
  its rating move.
\<close>

theorem system_refines_database:
  assumes "live_step (gs, w) (gs', w')" and "db_ok (database w)"
  shows "db_step\<^sup>*\<^sup>* (database w) (database w')"
  using live_step_saved [OF assms(1)] assms(2) by simp

lemma system_step_ok: "system_step s s' \<Longrightarrow> db_ok (database (snd s)) \<Longrightarrow> db_ok (database (snd s'))"
proof (induction rule: system_step.induct)
  case (live s s')
  then show ?case using live_step_saved tables.keeps_all by blast
next
  case (housekeeping re job w res w' gs)
  have "db_ok d'" if "db_retire\<^sup>*\<^sup>* d d'" "db_ok d" for d d'
    using that by (induction rule: rtranclp_induct) (auto intro: retire_keeps_ok)
  with housekeeping_retires [OF housekeeping(1)] housekeeping(2) show ?case by simp
qed


text \<open>
  C3: History is final. A match row keeps its players, its seed and its creation time whatever the live system does,
  and once its status is no longer \<open>in_progress\<close> it keeps status, winner and end as well: no request, timer or replica
  can reopen a match or give it another result.
\<close>

theorem history_is_final:
  assumes "live_step\<^sup>*\<^sup>* (gs, w) (gs', w')" and "db_ok (database w)" and "m \<in> set (w_matches w)"
  shows "\<exists>m' \<in> set (w_matches w'). mt_id m' = mt_id m \<and> mt_player1Id m' = mt_player1Id m \<and> mt_player2Id m' = mt_player2Id m
     \<and> mt_matchSeed m' = mt_matchSeed m \<and> mt_createdAt m' = mt_createdAt m
     \<and> (mt_status m \<noteq> InProgress \<longrightarrow> mt_status m' = mt_status m \<and> mt_winnerId m' = mt_winnerId m
          \<and> mt_finishedAt m' = mt_finishedAt m)"
proof -
  have "m \<in> set (fst (database w))" using assms(3) by (simp add: database_def)
  with steps_match [OF live_steps_saved [OF assms(1)], of m] assms(2)
  obtain m' where "m' \<in> set (fst (database w'))" "keeps_match m m'" by auto
  then show ?thesis
    by (intro bexI [of _ m']) (auto simp: keeps_match_def same_result_def database_def)
qed

text \<open>
  C14: Ratings are earned. Between any two moments of the live system an account keeps its id, email address and password
  hash; its rating has risen by at most 32 points for each match it has won in between and has fallen by at most 32
  for each it has lost, so nothing but the recorded result of a match moves a rating.
\<close>

theorem ratings_are_earned:
  assumes "live_step\<^sup>*\<^sup>* (gs, w) (gs', w')" and "db_ok (database w)" and "u \<in> set (w_users w)"
  shows "\<exists>u' \<in> set (w_users w'). us_id u' = us_id u \<and> us_email u' = us_email u \<and> us_passwordHash u' = us_passwordHash u
     \<and> us_rating u' - us_rating u \<le> 32 * (wins (us_id u) (w_matches w') - wins (us_id u) (w_matches w))
     \<and> us_rating u - us_rating u' \<le> 32 * (losses (us_id u) (w_matches w') - losses (us_id u) (w_matches w))"
proof -
  have "u \<in> set (snd (snd (database w)))" using assms(3) by (simp add: database_def)
  with steps_user [OF live_steps_saved [OF assms(1)], of u] assms(2)
  obtain u' where "u' \<in> set (snd (snd (database w')))" "keeps_user u u'" "rating_earned (fst (database w)) (fst (database w')) u u'"
    by auto
  then show ?thesis by (intro bexI [of _ u']) (auto simp: keeps_user_def rating_earned_def database_def)
qed

text \<open>
  Why a step of the pairing and the start of a room must not overlap: between the check that a player is free and
  the insert nothing stops a second insert that was checked before the first, and the tables accept both.
\<close>

lemma overlapping_checks:
  assumes "seed \<notin> mt_matchSeed ` set (w_matches w)" and "seed' \<notin> mt_matchSeed ` set (w_matches w)" and "seed' \<noteq> seed"
  shows "\<exists>m m' w1 w2. createMatch i seed u v w = (Inr m, w1) \<and> createMatch i' seed' u x w1 = (Inr m', w2) \<and> \<not> one_live (w_matches w2)"
proof -
  obtain m w1 where first: "createMatch i seed u v w = (Inr m, w1)"
    using assms(1) by (simp add: createMatch_def matches_create_def Let_def)
  then have "mt_matchSeed m = seed" by (auto simp: createMatch_def matches_create_def Let_def split: if_splits)
  with assms(2,3) createMatch_active(1) [OF first] have "seed' \<notin> mt_matchSeed ` set (w_matches w1)" by auto
  then obtain m' w2 where second: "createMatch i' seed' u x w1 = (Inr m', w2)"
    by (simp add: createMatch_def matches_create_def Let_def)
  have "activeMatchQuery u (w_matches w2) = activeMatchQuery u (w_matches w) @ [m, m']"
    using createMatch_active [OF first] createMatch_active [OF second] by (simp add: activeMatchQuery_def involves_def)
  then have "\<not> length (activeMatchQuery u (w_matches w2)) \<le> 1" by simp
  then have "\<not> one_live (w_matches w2)" unfolding one_live_iff by blast
  with first second show ?thesis by blast
qed

subsection \<open>Example\<close>

text \<open>A replica alone, two accounts, a match that is over; the first user takes a new name.\<close>

lemma demo_steady: "steady demoPorts"
  by (simp add: steady_def demoPorts_def tables.moves_def)

definition archiveWorld :: world where
  "archiveWorld = twoUsers\<lparr>w_matches := [endedMatch]\<rparr>"

lemma archive_ok: "db_ok (database archiveWorld)"
  by code_simp

definition noReplicas :: "string \<Rightarrow> gateway" where
  "noReplicas = (\<lambda>_. emptyGateway)"

lemma archive_rename: "live_step (noReplicas, archiveWorld) (noReplicas, snd (rest demoEnv PatchMe renameRq archiveWorld))"
proof (rule live_step.request)
  show "steady (rv_ports demoEnv)" using demo_steady by (simp add: demoEnv_def)
  show "fresh (rv_newId demoEnv) archiveWorld" unfolding fresh_def by code_simp
qed

lemma archive_renames: "live_step\<^sup>*\<^sup>* (noReplicas, archiveWorld) (noReplicas, snd (rest demoEnv PatchMe renameRq archiveWorld))"
  by (rule r_into_rtranclp) (rule archive_rename)

lemma archive_names: "map us_username (w_users (snd (rest demoEnv PatchMe renameRq archiveWorld))) = [''zed_1'', ''bob'']"
  by code_simp

lemma history_is_final_witness:
  "\<exists>m' \<in> set (w_matches (snd (rest demoEnv PatchMe renameRq archiveWorld))). mt_id m' = demoId \<and> mt_winnerId m' = Some ''u1''"
proof -
  have "endedMatch \<in> set (w_matches archiveWorld)" by (simp add: archiveWorld_def)
  from history_is_final [OF archive_renames archive_ok this] show ?thesis
    by (auto simp: endedMatch_def)
qed

lemma ratings_are_earned_witness:
  "\<exists>u' \<in> set (w_users (snd (rest demoEnv PatchMe renameRq archiveWorld))). us_id u' = ''u1'' \<and> us_rating u' = 1000"
proof -
  have u: "fanUser \<in> set (w_users archiveWorld)" by (simp add: archiveWorld_def twoUsers_def)
  have same: "w_matches (snd (rest demoEnv PatchMe renameRq archiveWorld)) = w_matches archiveWorld" by code_simp
  from ratings_are_earned [OF archive_renames archive_ok u] same show ?thesis
    by (auto simp: fanUser_def)
qed


text \<open>A tick of the matchmaking pairs the two longest waiting players.\<close>

lemma system_refines_database_witness:
  "db_step\<^sup>*\<^sup>* (database queueWorld) (database (snd (processMatchPair demoPorts ''m1'' ''s1'' MATCH_PAIR queueWorld)))
   \<and> length (w_matches (snd (processMatchPair demoPorts ''m1'' ''s1'' MATCH_PAIR queueWorld))) = 1"
proof -
  have "fresh ''m1'' queueWorld" by (simp add: fresh_def queueWorld_def)
  from live_step.pairing [OF demo_steady this] have step:
    "live_step (noReplicas, queueWorld) (noReplicas, snd (processMatchPair demoPorts ''m1'' ''s1'' MATCH_PAIR queueWorld))" .
  have "db_ok (database queueWorld)" by code_simp
  note steps = system_refines_database [OF step this]
  have "fst (tryPair demoPorts ''m1'' ''s1'' queueWorld) = Inr (Some \<lparr>mp_matchId = ''m1'', mp_player1Id = ''u2'', mp_player2Id = ''u1''\<rparr>)"
    by (subst queueWorld_pair) simp
  then have "length (w_matches (snd (tryPair demoPorts ''m1'' ''s1'' queueWorld))) = 1"
    by (cases rule: tryPair_cases [of demoPorts "''m1''" "''s1''" queueWorld]) (simp_all, simp add: queueWorld_def)
  moreover have "snd (processMatchPair demoPorts ''m1'' ''s1'' MATCH_PAIR queueWorld) = snd (tryPair demoPorts ''m1'' ''s1'' queueWorld)"
    by (simp add: processMatchPair_def andThen_def case_prod_unfold split: sum.split)
  ultimately show ?thesis using steps by simp
qed

end
