(* ===== verification/Redis_Service.thy ===== *)
theory Redis_Service
  imports Rest
begin

text \<open>
  The Redis connection (\<open>redis/redis.service.ts\<close>): how a named Lua script reaches the server, by the SHA that the
  client keeps for it, with a reload when the server has forgotten the script. Then the probes of
  \<open>common/health.controller.ts\<close>.

  What the Lua interpreter makes of a source text is the argument \<open>run\<close>; \<open>Redis_Scripts\<close> has what the
  program's own scripts do. The digest is the argument \<open>sha\<close>.
\<close>

subsection \<open>The server's script cache\<close>

type_synonym 'r lua = "string \<Rightarrow> string list \<Rightarrow> string list \<Rightarrow> redis \<Rightarrow> 'r result \<times> redis"

record server =
  sv_scripts :: "string \<rightharpoonup> string"
  sv_data :: redis

text \<open>\<open>SCRIPT LOAD\<close> replies the digest; \<open>EVALSHA\<close> runs the script of a digest or refuses.\<close>

definition NOSCRIPT :: string where "NOSCRIPT = ''NOSCRIPT No matching script. Please use EVAL.''"

definition scriptLoad :: "(string \<Rightarrow> string) \<Rightarrow> string \<Rightarrow> server \<Rightarrow> string \<times> server" where
  "scriptLoad sha source sv = (sha source, sv\<lparr>sv_scripts := (sv_scripts sv)(sha source \<mapsto> source)\<rparr>)"

definition evalsha :: "'r lua \<Rightarrow> string option \<Rightarrow> string list \<Rightarrow> string list \<Rightarrow> server \<Rightarrow> 'r result \<times> server" where
  "evalsha run h keys args sv =
     (case Option.bind h (sv_scripts sv) of
        None \<Rightarrow> (Inl NOSCRIPT, sv)
      | Some source \<Rightarrow> (let (res, r) = run source keys args (sv_data sv) in (res, sv\<lparr>sv_data := r\<rparr>)))"

subsection \<open>The client\<close>

text \<open>A client is its map from script names to digests. \<open>LUA_SCRIPTS\<close> are the sources of \<open>redis/scripts/index.ts\<close>.\<close>

type_synonym shaCache = "string \<rightharpoonup> string"

definition SCRIPT_NAMES :: "string list" where
  "SCRIPT_NAMES = [''phase_flip'', ''combat_done'', ''action_log'', ''match_pair'', ''ws_rate_limit'', ''room_join'',
     ''room_leave'', ''room_start_match'', ''room_match_done'', ''room_match_abort'']"

definition LUA_SCRIPTS :: "(string \<Rightarrow> string) \<Rightarrow> string \<rightharpoonup> string" where
  "LUA_SCRIPTS readFile name = (if name \<in> set SCRIPT_NAMES then Some (readFile (name @ ''.lua'')) else None)"

text \<open>\<open>onModuleInit\<close> loads every script, in the order of the table.\<close>

fun loadAll :: "(string \<Rightarrow> string) \<Rightarrow> (string \<Rightarrow> string) \<Rightarrow> string list \<Rightarrow> shaCache \<times> server \<Rightarrow> shaCache \<times> server" where
  "loadAll sha readFile [] st = st"
| "loadAll sha readFile (name # names) (cache, sv) =
     (let (h, sv') = scriptLoad sha (readFile (name @ ''.lua'')) sv in loadAll sha readFile names (cache(name \<mapsto> h), sv'))"

definition loadScripts :: "(string \<Rightarrow> string) \<Rightarrow> (string \<Rightarrow> string) \<Rightarrow> shaCache \<times> server \<Rightarrow> shaCache \<times> server" where
  "loadScripts sha readFile = loadAll sha readFile SCRIPT_NAMES"

text \<open>
  \<open>RedisService.eval\<close>. An empty source is falsy too. \<open>env\<close> is what others do on the server between the reload
  and the second attempt; the arguments are strings already.
\<close>

definition evalScript ::
  "(string \<Rightarrow> string) \<Rightarrow> (string \<Rightarrow> string) \<Rightarrow> 'r lua \<Rightarrow> (server \<Rightarrow> server) \<Rightarrow> string \<Rightarrow> string list \<Rightarrow> string list \<Rightarrow>
   shaCache \<times> server \<Rightarrow> 'r result \<times> shaCache \<times> server" where
  "evalScript sha readFile run env scriptName keys args st =
     (let (cache, sv) = st; source = LUA_SCRIPTS readFile scriptName
      in if \<not> truthy source then (Inl (''Unknown Lua script: '' @ scriptName), cache, sv)
         else case evalsha run (cache scriptName) keys args sv of
                (Inr x, sv1) \<Rightarrow> (Inr x, cache, sv1)
              | (Inl e, sv1) \<Rightarrow>
                  if sublist ''NOSCRIPT'' e then
                    (let (newSha, sv2) = scriptLoad sha (the source) sv1;
                         (res, sv3) = evalsha run (Some newSha) keys args (env sv2)
                     in (res, cache(scriptName \<mapsto> newSha), sv3))
                  else (Inl e, cache, sv1))"

definition getScriptSha :: "string \<Rightarrow> shaCache \<Rightarrow> string option" where
  "getScriptSha scriptName cache = cache scriptName"

text \<open>Starting: the connection must answer, then every script is loaded.\<close>

definition redisModuleInit :: "(string \<Rightarrow> string) \<Rightarrow> (string \<Rightarrow> string) \<Rightarrow> string result \<Rightarrow> shaCache \<times> server \<Rightarrow>
    unit result \<times> shaCache \<times> server" where
  "redisModuleInit sha readFile ping st = (case ping of Inl e \<Rightarrow> (Inl e, st) | Inr _ \<Rightarrow> (Inr (), loadScripts sha readFile st))"

text \<open>The two connections: commands of the services give up after three attempts, the workers' blocking ones never.\<close>

record redisOptions =
  ro_enableReadyCheck :: bool
  ro_lazyConnect :: bool
  ro_maxRetriesPerRequest :: "nat option"

definition clientOptions :: redisOptions where
  "clientOptions = \<lparr>ro_enableReadyCheck = True, ro_lazyConnect = False, ro_maxRetriesPerRequest = Some 3\<rparr>"

definition bullClientOptions :: redisOptions where
  "bullClientOptions = \<lparr>ro_enableReadyCheck = True, ro_lazyConnect = False, ro_maxRetriesPerRequest = None\<rparr>"

text \<open>The delay in milliseconds before a reconnection attempt, which counts from 1.\<close>

definition retryStrategy :: "nat \<Rightarrow> nat" where
  "retryStrategy attempt = min (attempt * 200) 2000"

subsection \<open>A script runs once\<close>

text \<open>Digests name the scripts they were computed from, on both sides.\<close>

definition scripts_ok :: "(string \<Rightarrow> string) \<Rightarrow> server \<Rightarrow> bool" where
  "scripts_ok sha sv \<longleftrightarrow> (\<forall>h source. sv_scripts sv h = Some source \<longrightarrow> h = sha source)"

definition cache_ok :: "(string \<Rightarrow> string) \<Rightarrow> (string \<Rightarrow> string) \<Rightarrow> shaCache \<Rightarrow> bool" where
  "cache_ok sha readFile cache \<longleftrightarrow>
     (\<forall>name h. cache name = Some h \<longrightarrow> (\<exists>source. LUA_SCRIPTS readFile name = Some source \<and> h = sha source))"

lemma scripts_ok_load: "scripts_ok sha sv \<Longrightarrow> scripts_ok sha (snd (scriptLoad sha source sv))"
  by (simp add: scripts_ok_def scriptLoad_def)

lemma scripts_ok_evalsha: "evalsha run h keys args sv = (res, sv') \<Longrightarrow> scripts_ok sha sv \<Longrightarrow> scripts_ok sha sv'"
  by (auto simp: evalsha_def scripts_ok_def split: option.splits prod.splits)

text \<open>The digest of a source finds that source or nothing, unless another text has the same digest.\<close>

lemma evalsha_source:
  assumes "scripts_ok sha sv" and "\<forall>s'. sha s' = sha source \<longrightarrow> s' = source"
  shows "evalsha run (Some (sha source)) keys args sv =
     (if sv_scripts sv (sha source) = None then (Inl NOSCRIPT, sv)
      else (fst (run source keys args (sv_data sv)), sv\<lparr>sv_data := snd (run source keys args (sv_data sv))\<rparr>))"
proof (cases "sv_scripts sv (sha source)")
  case (Some s')
  with assms have "s' = source" by (metis scripts_ok_def)
  with Some show ?thesis by (simp add: evalsha_def split: prod.split)
qed (simp add: evalsha_def)

lemma loadAll_ok:
  assumes "set names \<subseteq> set SCRIPT_NAMES" and "scripts_ok sha sv" and "cache_ok sha readFile cache"
    and "loadAll sha readFile names (cache, sv) = (cache', sv')"
  shows "scripts_ok sha sv' \<and> cache_ok sha readFile cache' \<and> sv_data sv' = sv_data sv
     \<and> (\<forall>n \<in> set names. cache' n \<noteq> None) \<and> (\<forall>n. cache n \<noteq> None \<longrightarrow> cache' n \<noteq> None)"
  using assms
proof (induction names arbitrary: cache sv)
  case (Cons n names)
  let ?h = "sha (readFile (n @ ''.lua''))"
  let ?sv = "sv\<lparr>sv_scripts := (sv_scripts sv)(?h \<mapsto> readFile (n @ ''.lua''))\<rparr>"
  have "cache_ok sha readFile (cache(n \<mapsto> ?h))"
    using Cons.prems(1,3) by (simp add: cache_ok_def LUA_SCRIPTS_def)
  moreover have "scripts_ok sha ?sv" using Cons.prems(2) by (simp add: scripts_ok_def)
  moreover have "loadAll sha readFile names (cache(n \<mapsto> ?h), ?sv) = (cache', sv')"
    using Cons.prems(4) by (simp add: scriptLoad_def)
  moreover have "set names \<subseteq> set SCRIPT_NAMES" using Cons.prems(1) by simp
  ultimately have ih: "scripts_ok sha sv'" "cache_ok sha readFile cache'" "sv_data sv' = sv_data sv"
      "\<forall>m \<in> set names. cache' m \<noteq> None" "\<And>m. (cache(n \<mapsto> ?h)) m \<noteq> None \<Longrightarrow> cache' m \<noteq> None"
    using Cons.IH [of ?sv "cache(n \<mapsto> ?h)"] by (simp_all del: fun_upd_apply)
  have "cache' n \<noteq> None" "cache m \<noteq> None \<Longrightarrow> cache' m \<noteq> None" for m using ih(5) [of n] ih(5) [of m] by simp_all
  with ih(1-4) show ?case by auto
qed simp

text \<open>
  Calling a script by its name is the same as running its source. Whatever the server has forgotten
  (a restart, a fail-over, SCRIPT FLUSH) and whether or not the client has loaded its scripts, \<open>eval\<close> of
  a known script runs exactly that source exactly once on the keyspace and replies what it replies; the
  only exception is a server that drops the script again between the reload and the retry, and then the
  error says so and nothing has run. The bookkeeping of both sides stays sound.
\<close>

theorem eval_runs_script_once:
  assumes "LUA_SCRIPTS readFile name = Some source" and "source \<noteq> []"
    and "\<forall>s'. sha s' = sha source \<longrightarrow> s' = source"
    and "scripts_ok sha sv" and "cache_ok sha readFile cache" and "\<forall>s. scripts_ok sha s \<longrightarrow> scripts_ok sha (env s)"
    and "\<forall>r e. fst (run source keys args r) = Inl e \<longrightarrow> \<not> sublist ''NOSCRIPT'' e"
    and "evalScript sha readFile run env name keys args (cache, sv) = (res, cache', sv')"
  shows "scripts_ok sha sv' \<and> cache_ok sha readFile cache'
     \<and> ((res, sv_data sv') = run source keys args (sv_data sv)
        \<or> (let reloaded = env (snd (scriptLoad sha source sv)) in
             if sv_scripts reloaded (sha source) = None then res = Inl NOSCRIPT \<and> sv_data sv' = sv_data reloaded
             else (res, sv_data sv') = run source keys args (sv_data reloaded)))"
proof -
  let ?re = "env (snd (scriptLoad sha source sv))"
  have noscript: "sublist ''NOSCRIPT'' NOSCRIPT" by code_simp
  have re: "scripts_ok sha ?re" using assms(4,6) scripts_ok_load by blast
  have cached: "cache name = None \<or> cache name = Some (sha source)" 
    using assms(5) [unfolded cache_ok_def, rule_format, of name] assms(1) by (cases "cache name") auto
  show ?thesis
  proof (cases "cache name \<noteq> None \<and> sv_scripts sv (sha source) \<noteq> None")
    case True
    with cached have h: "cache name = Some (sha source)" by blast
    obtain x r where run: "run source keys args (sv_data sv) = (x, r)" by fastforce
    have "evalsha run (cache name) keys args sv = (x, sv\<lparr>sv_data := r\<rparr>)"
      using evalsha_source [OF assms(4,3), of run keys args] True by (simp add: h run)
    then have "res = x \<and> cache' = cache \<and> sv' = sv\<lparr>sv_data := r\<rparr>"
      using assms(1,2,8) assms(7) [rule_format, of "sv_data sv"] by (auto simp: evalScript_def run split: sum.splits)
    with assms(4,5) show ?thesis by (simp add: run scripts_ok_def)
  next
    case False
    have "evalsha run (cache name) keys args sv = (Inl NOSCRIPT, sv)"
      using False cached evalsha_source [OF assms(4,3), of run keys args] by (auto simp: evalsha_def)
    with assms(1,2,8) noscript have after: "evalsha run (Some (sha source)) keys args ?re = (res, sv')" "cache' = cache(name \<mapsto> sha source)"
      by (auto simp: evalScript_def scriptLoad_def split: prod.splits)
    from after(2) have "cache_ok sha readFile cache'" using assms(1,5) by (simp add: cache_ok_def)
    with after(1) scripts_ok_evalsha [OF after(1) re] show ?thesis
      using evalsha_source [OF re assms(3), of run keys args] by (auto simp: Let_def split: if_splits)
  qed
qed

text \<open>After the start of a replica every script has its digest, and the data is as it was.\<close>

lemma loadScripts_ready:
  assumes "scripts_ok sha sv" and "loadScripts sha readFile (Map.empty, sv) = (cache, sv')"
  shows "scripts_ok sha sv' \<and> cache_ok sha readFile cache \<and> sv_data sv' = sv_data sv
     \<and> (\<forall>name \<in> set SCRIPT_NAMES. getScriptSha name cache \<noteq> None)"
proof -
  have "cache_ok sha readFile Map.empty" by (simp add: cache_ok_def)
  with loadAll_ok [OF subset_refl assms(1) _ assms(2) [unfolded loadScripts_def]] show ?thesis
    unfolding getScriptSha_def by blast
qed

subsection \<open>Probes\<close>

text \<open>The reply to \<open>PING\<close> is \<open>Inl\<close> of the message when the command throws.\<close>

record deps =
  de_ok :: bool
  de_postgres :: bool
  de_redis :: bool
  de_redisError :: "string option"

definition checkDeps :: "bool \<Rightarrow> string result \<Rightarrow> deps" where
  "checkDeps isInitialized ping =
     (let redis = (ping = Inr ''PONG'')
      in \<lparr>de_ok = (isInitialized \<and> redis), de_postgres = isInitialized, de_redis = redis,
          de_redisError = (case ping of Inl e \<Rightarrow> Some e | Inr _ \<Rightarrow> None)\<rparr>)"

record HealthReport =
  he_status :: string
  he_postgres :: string
  he_redis :: string
  he_redisError :: "string option"
  he_instance :: string
  he_timestamp :: string

definition getHealth :: "bool \<Rightarrow> string result \<Rightarrow> string option \<Rightarrow> int \<Rightarrow> HealthReport" where
  "getHealth isInitialized ping hostname now =
     (let deps = checkDeps isInitialized ping
      in \<lparr>he_status = (if de_ok deps then ''ok'' else ''degraded''),
          he_postgres = (if de_postgres deps then ''up'' else ''down''),
          he_redis = (if de_redis deps then ''up'' else ''down''), he_redisError = de_redisError deps,
          he_instance = (case hostname of Some h \<Rightarrow> h | None \<Rightarrow> ''local''), he_timestamp = toISOString now\<rparr>)"

definition healthLive :: "string option \<Rightarrow> string \<times> string" where
  "healthLive hostname = (''live'', case hostname of Some h \<Rightarrow> h | None \<Rightarrow> ''local'')"

text \<open>\<open>Inr\<close> is the answer 200; \<open>m\<close> is the message NestJS gives an exception that has none.\<close>

definition ready :: "string \<Rightarrow> bool \<Rightarrow> string result \<Rightarrow> Exception + string" where
  "ready m isInitialized ping =
     (let deps = checkDeps isInitialized ping
      in if \<not> de_ok deps
         then Inl (HttpError 503 (JObj [(''status'', JStr ''not_ready''), (''postgres'', JBool (de_postgres deps)),
                (''redis'', JBool (de_redis deps))]) m)
         else Inr ''ready'')"

lemma ready_iff_healthy:
  "ready m pg ping = Inr ''ready'' \<longleftrightarrow> he_status (getHealth pg ping host now) = ''ok''"
  by (simp add: ready_def getHealth_def checkDeps_def Let_def)

text \<open>
  The exception filter keeps neither of the two fields of a failed readiness check: every failure is
  answered 503 with one and the same body.
\<close>

lemma ready_hides_dependencies:
  assumes "ready m pg ping = Inl e" and "m \<noteq> []"
  shows "restCatch env e = \<lparr>rp_status = 503,
     rp_body = \<lparr>re_code = ''internal'', re_message = m, re_details = None, re_retryAfter = None\<rparr>, rp_retryHeader = None\<rparr>"
  using assms by (auto simp: ready_def Let_def restCatch_def toEnvelope_def codeForStatus_def getProp_def split: if_splits)

record WhoAmI =
  wi_instance :: string
  wi_pid :: nat
  wi_uptime :: real
  wi_timestamp :: string

definition whoami :: "string option \<Rightarrow> nat \<Rightarrow> real \<Rightarrow> int \<Rightarrow> WhoAmI" where
  "whoami hostname pid uptime now =
     \<lparr>wi_instance = (case hostname of Some h \<Rightarrow> h | None \<Rightarrow> ''local''), wi_pid = pid, wi_uptime = uptime,
      wi_timestamp = toISOString now\<rparr>"

text \<open>After a start every script of the program is known on both sides, and the data is untouched.\<close>

lemma loadAll_loads:
  assumes "loadAll sha readFile names (cache, sv) = (cache', sv')"
  shows "(\<forall>n. cache' n = (if n \<in> set names then Some (sha (readFile (n @ ''.lua''))) else cache n))
     \<and> (\<forall>n \<in> set names. sv_scripts sv' (sha (readFile (n @ ''.lua''))) \<noteq> None)
     \<and> (\<forall>h. sv_scripts sv h \<noteq> None \<longrightarrow> sv_scripts sv' h \<noteq> None) \<and> sv_data sv' = sv_data sv"
  using assms
proof (induction names arbitrary: cache sv)
  case (Cons n ns)
  let ?h = "sha (readFile (n @ ''.lua''))"
  have "loadAll sha readFile ns (cache(n \<mapsto> ?h), sv\<lparr>sv_scripts := (sv_scripts sv)(?h \<mapsto> readFile (n @ ''.lua''))\<rparr>) = (cache', sv')"
    using Cons.prems by (simp add: scriptLoad_def)
  from Cons.IH [OF this] show ?case by auto
qed simp

lemma init_loads:
  assumes "redisModuleInit sha readFile ping (cache, sv) = (Inr (), cache', sv')" and "name \<in> set SCRIPT_NAMES"
  shows "getScriptSha name cache' = Some (sha (readFile (name @ ''.lua'')))"
    and "sv_scripts sv' (sha (readFile (name @ ''.lua''))) \<noteq> None" and "sv_data sv' = sv_data sv"
  using assms loadAll_loads [of sha readFile SCRIPT_NAMES cache sv cache' sv']
  by (auto simp: redisModuleInit_def loadScripts_def getScriptSha_def split: sum.splits)

subsection \<open>Examples\<close>

text \<open>
  A stand-in for the file system, the digest and the interpreter: a source is its file name, and the
  interpreter knows the acknowledgement script.
\<close>

definition demoSha :: "string \<Rightarrow> string" where "demoSha s = CHR ''#'' # s"

definition demoLua :: "nat lua" where
  "demoLua source keys args r =
     (if source = ''combat_done.lua''
      then (let (n, r') = combatDone (hd keys) (hd args) 60 r in (Inr n, r'))
      else (Inl ''ERR'', r))"

lemma eval_runs_script_once_witness:
  "\<exists>cache sv'. evalScript demoSha id demoLua id ''combat_done'' [''k''] [''u1'']
       (fst (loadScripts demoSha id (Map.empty, \<lparr>sv_scripts = Map.empty, sv_data = emptyRedis\<rparr>)),
        \<lparr>sv_scripts = Map.empty, sv_data = emptyRedis\<rparr>) = (Inr 1, cache, sv')
     \<and> sv_data sv' = snd (combatDone ''k'' ''u1'' 60 emptyRedis)"
proof -
  let ?sv = "\<lparr>sv_scripts = Map.empty, sv_data = emptyRedis\<rparr>"
  obtain c sv1 where "loadScripts demoSha id (Map.empty, ?sv) = (c, sv1)" by fastforce
  moreover have ok: "scripts_ok demoSha ?sv" by (simp add: scripts_ok_def)
  ultimately have c: "fst (loadScripts demoSha id (Map.empty, ?sv)) = c" "cache_ok demoSha id c"
    using loadScripts_ready by fastforce+
  have one: "demoLua ''combat_done.lua'' [''k''] [''u1''] emptyRedis = (Inr 1, snd (combatDone ''k'' ''u1'' 60 emptyRedis))"
    by (simp add: demoLua_def combatDone_def hexists_def hget_def hlen_def hset_def expire_def existsKey_def emptyRedis_def)
  obtain res cache sv' where run: "evalScript demoSha id demoLua id ''combat_done'' [''k''] [''u1''] (c, ?sv) = (res, cache, sv')"
    by (metis prod_cases3)
  have "(res, sv_data sv') = demoLua ''combat_done.lua'' [''k''] [''u1''] emptyRedis"
    using eval_runs_script_once [of id "''combat_done''" "''combat_done.lua''" demoSha ?sv c id demoLua "[''k'']" "[''u1'']", OF _ _ _ ok c(2) _ _ run]
    by (simp add: LUA_SCRIPTS_def SCRIPT_NAMES_def demoSha_def demoLua_def scriptLoad_def Let_def split: prod.splits)
  with run one c(1) show ?thesis by (auto simp del: One_nat_def)
qed

end
