(* ===== verification/Metrics.thy ===== *)
theory Metrics
  imports Workers Auth
begin

text \<open>
  \<open>monitoring/operational-metrics.controller.ts\<close>: the gauges of the database, of Redis and of the queues as
  one text. The replies of PostgreSQL, Redis and BullMQ are arguments; a reply to SCAN depends on the pattern
  and the cursor.
\<close>

definition REDIS_NAMESPACES :: "string list" where
  "REDIS_NAMESPACES = [''match:'', ''room:'', ''user:'', ''matchmaking:'', ''bull:'']"

record queueStats =
  qs_counts :: "string \<rightharpoonup> nat"
  qs_oldest :: "int option"

record gauges =
  ga_databaseBytes :: int
  ga_tables :: "(string \<times> int \<times> int) list"
  ga_info :: string
  ga_dbsize :: nat
  ga_scan :: "string \<Rightarrow> string \<Rightarrow> string \<times> string list"
  ga_queues :: "queueStats list"
  ga_now :: int

subsection \<open>Readings\<close>

text \<open>
  \<open>/^name:(\d+)/m\<close>: the digits behind the name on the first line that has the name, a colon and a digit.
\<close>

definition infoDigits :: "string \<Rightarrow> string \<Rightarrow> string" where
  "infoDigits name line =
     (if take (length name + 1) line = name @ '':'' then takeWhile isDigit (drop (length name + 1) line) else [])"

definition infoNumber :: "string \<Rightarrow> string \<Rightarrow> nat" where
  "infoNumber info name =
     (let ls = splitOn CHR 0x0A (map (\<lambda>c. if c = CHR 0x0D then CHR 0x0A else c) info)
      in case List.find (\<lambda>d. d \<noteq> []) (map (infoDigits name) ls) of None \<Rightarrow> 0 | Some d \<Rightarrow> readNat d)"

text \<open>The loop over the cursors of SCAN: it ends when the server says 0, which is up to the server.\<close>

partial_function (option) scanFrom :: "(string \<Rightarrow> string \<times> string list) \<Rightarrow> string \<Rightarrow> nat \<Rightarrow> nat option" where
  "scanFrom scan cursor acc =
     (case scan cursor of (nxt, ks) \<Rightarrow>
        if nxt \<noteq> ''0'' then scanFrom scan nxt (acc + length ks) else Some (acc + length ks))"

definition countKeys :: "(string \<Rightarrow> string \<Rightarrow> string \<times> string list) \<Rightarrow> string \<Rightarrow> nat option" where
  "countKeys scan pattern = scanFrom (scan pattern) ''0'' 0"

text \<open>\<open>String(ms / 1000)\<close> for a number of milliseconds.\<close>

definition showSeconds :: "nat \<Rightarrow> string" where
  "showSeconds ms =
     showNat (ms div 1000)
     @ (if ms mod 1000 = 0 then []
        else let d = showNat (ms mod 1000)
             in ''.'' @ rev (dropWhile (\<lambda>c. c = CHR ''0'') (rev (replicate (3 - length d) CHR ''0'' @ d))))"

subsection \<open>The text\<close>

definition gauge :: "string \<Rightarrow> string \<Rightarrow> string list" where
  "gauge name description = [''# HELP '' @ name @ '' '' @ description, ''# TYPE '' @ name @ '' gauge'']"

definition quoted :: "string \<Rightarrow> string" where
  "quoted s = [CHR 0x22] @ s @ [CHR 0x22]"

definition tableLines :: "string \<times> int \<times> int \<Rightarrow> string list" where
  "tableLines t =
     (let (name, bytes, rows) = t; labels = ''{table='' @ quoted name @ ''}''
      in [''app_table_size_bytes'' @ labels @ '' '' @ showInt bytes,
          ''app_table_rows_estimate'' @ labels @ '' '' @ showInt rows])"

definition keyLine :: "string \<Rightarrow> nat \<Rightarrow> string" where
  "keyLine namespace n = ''app_redis_keys{namespace='' @ quoted namespace @ ''} '' @ showNat n"

definition JOB_STATES :: "string list" where
  "JOB_STATES = [''waiting'', ''active'', ''completed'', ''failed'', ''delayed'']"

definition queueLines :: "int \<Rightarrow> string \<times> queueStats \<Rightarrow> string list" where
  "queueLines now nq =
     (let (name, q) = nq;
          ageMs = (case qs_oldest q of Some t \<Rightarrow> nat (max 0 (now - t)) | None \<Rightarrow> 0)
      in map (\<lambda>st. ''app_bullmq_jobs{queue='' @ quoted name @ '',state='' @ quoted st @ ''} ''
               @ showNat (case qs_counts q st of Some n \<Rightarrow> n | None \<Rightarrow> 0)) JOB_STATES
         @ [''app_bullmq_oldest_waiting_age_seconds{queue='' @ quoted name @ ''} '' @ showSeconds ageMs])"

text \<open>The counts of the namespaces, one after the other.\<close>

fun namespaceLines :: "(string \<Rightarrow> string \<Rightarrow> string \<times> string list) \<Rightarrow> string list \<Rightarrow> string list option" where
  "namespaceLines scan [] = Some []"
| "namespaceLines scan (n # ns) =
     (case countKeys scan (n @ ''*'') of
        None \<Rightarrow> None
      | Some k \<Rightarrow> map_option (\<lambda>ls. keyLine (butlast n) k # ls) (namespaceLines scan ns))"

definition metrics :: "gauges \<Rightarrow> string option" where
  "metrics g =
     map_option (\<lambda>keyLines.
       concat (map (\<lambda>l. l @ [CHR 0x0A])
         (gauge ''app_database_size_bytes'' ''PostgreSQL database size in bytes.''
          @ [''app_database_size_bytes '' @ showInt (ga_databaseBytes g)]
          @ gauge ''app_table_size_bytes'' ''Total table and index size in bytes.''
          @ gauge ''app_table_rows_estimate'' ''PostgreSQL planner row estimate.''
          @ concat (map tableLines (ga_tables g))
          @ gauge ''app_redis_used_memory_bytes'' ''Redis memory in use.''
          @ [''app_redis_used_memory_bytes '' @ showNat (infoNumber (ga_info g) ''used_memory'')]
          @ gauge ''app_redis_maxmemory_bytes'' ''Configured Redis memory limit; zero means unlimited.''
          @ [''app_redis_maxmemory_bytes '' @ showNat (infoNumber (ga_info g) ''maxmemory'')]
          @ gauge ''app_redis_keys'' ''Redis keys by top-level namespace.''
          @ [keyLine ''all'' (ga_dbsize g)] @ keyLines
          @ gauge ''app_bullmq_jobs'' ''BullMQ jobs by queue and state.''
          @ gauge ''app_bullmq_oldest_waiting_age_seconds'' ''Age of the oldest waiting job.''
          @ concat (map (queueLines (ga_now g)) (zip QUEUE_NAMES (ga_queues g))))))
     (namespaceLines (ga_scan g) REDIS_NAMESPACES)"

subsection \<open>The loop over the cursors\<close>

text \<open>
  A walk of the server: the cursors it hands out after the given one, with the keys of each page, until it
  says 0.
\<close>

fun walk :: "(string \<Rightarrow> string \<times> string list) \<Rightarrow> string \<Rightarrow> (string \<times> string list) list \<Rightarrow> bool" where
  "walk scan cursor [] \<longleftrightarrow> False"
| "walk scan cursor [(nxt, ks)] \<longleftrightarrow> scan cursor = (nxt, ks) \<and> nxt = ''0''"
| "walk scan cursor ((nxt, ks) # p # ps) \<longleftrightarrow> scan cursor = (nxt, ks) \<and> nxt \<noteq> ''0'' \<and> walk scan nxt (p # ps)"

lemma scanFrom_walk:
  "walk scan cursor pages \<Longrightarrow> scanFrom scan cursor acc = Some (acc + length (concat (map snd pages)))"
proof (induction scan cursor pages arbitrary: acc rule: walk.induct)
  case (2 scan cursor nxt ks)
  then show ?case by (subst scanFrom.simps) simp
next
  case (3 scan cursor nxt ks p ps)
  from "3.prems" have "scanFrom scan cursor acc = scanFrom scan nxt (acc + length ks)"
    by (subst scanFrom.simps) simp
  with 3 show ?case by simp
qed simp

text \<open>\<open>countKeys\<close> returns when the server's walk ends, with the number of keys on its pages.\<close>

lemma countKeys_complete:
  "walk (scan pattern) ''0'' pages \<Longrightarrow> countKeys scan pattern = Some (length (concat (map snd pages)))"
  by (simp add: countKeys_def scanFrom_walk)

text \<open>The text is produced as soon as every namespace can be walked to its end.\<close>

lemma namespaceLines_total:
  "(\<And>n. n \<in> set ns \<Longrightarrow> \<exists>pages. walk (scan (n @ ''*'')) ''0'' pages) \<Longrightarrow> namespaceLines scan ns \<noteq> None"
proof (induction ns)
  case (Cons n ns)
  then obtain pages where "walk (scan (n @ ''*'')) ''0'' pages" by (meson list.set_intros(1))
  with Cons show ?case by (simp add: countKeys_complete)
qed simp

lemma metrics_returns:
  "(\<And>n. n \<in> set REDIS_NAMESPACES \<Longrightarrow> \<exists>pages. walk (ga_scan g (n @ ''*'')) ''0'' pages) \<Longrightarrow> metrics g \<noteq> None"
  using namespaceLines_total [of REDIS_NAMESPACES "ga_scan g"] by (simp add: metrics_def)

lemma infoNumber_example:
  "infoNumber (''# Memory'' @ [CHR 0x0D, CHR 0x0A] @ ''used_memory:512'' @ [CHR 0x0D, CHR 0x0A] @ ''maxmemory_policy:x''
     @ [CHR 0x0D, CHR 0x0A] @ ''maxmemory:1024'') ''maxmemory'' = 1024"
  by code_simp

lemma showSeconds_example: "showSeconds 6000 = ''6''" "showSeconds 1050 = ''1.05''" "showSeconds 7 = ''0.007''"
  by code_simp+

end
