(* ===== verification/Schema.thy ===== *)
theory Schema
  imports Json
begin

text \<open>
  The database schema: the migrations of \<open>migrations/\<close> as the SQL statements they run, and the entities of
  \<open>user/user.entity.ts\<close>, \<open>match/match.entity.ts\<close>, \<open>match/match-round.entity.ts\<close> as the columns they declare. A
  table carries its rows, so that a statement can fail on the data. Errors are PostgreSQL's: 42P07 (the
  relation exists), 42P01 (it does not), 2BP01 (others depend on it), 23502 (a null in a NOT NULL column).
\<close>

subsection \<open>Tables\<close>

datatype SqlType = Uuid | Varchar nat | Integer4 | Jsonb | Timestamptz

record ColumnDef =
  cd_name :: string
  cd_type :: SqlType
  cd_notNull :: bool
  cd_default :: "string option"

datatype Constraint =
    PrimaryKey string "string list"
  | UniqueKey string "string list"
  | CascadingKey string string string string

text \<open>\<open>CascadingKey name column table key\<close> is \<open>FOREIGN KEY (column) REFERENCES table(key) ON DELETE CASCADE\<close>.\<close>

text \<open>A row: its columns with their values, where \<open>None\<close> is NULL.\<close>

type_synonym sqlRow = "(string \<times> json option) list"

record SqlTable =
  tb_name :: string
  tb_columns :: "ColumnDef list"
  tb_constraints :: "Constraint list"
  tb_rows :: "sqlRow list"

record SqlIndex =
  ix_name :: string
  ix_table :: string
  ix_columns :: "(string \<times> bool) list"

record Schema =
  sc_tables :: "SqlTable list"
  sc_indexes :: "SqlIndex list"

definition emptySchema :: Schema where
  "emptySchema = \<lparr>sc_tables = [], sc_indexes = []\<rparr>"

subsection \<open>Statements\<close>

datatype Statement =
    CreateTable string "ColumnDef list" "Constraint list"
  | DropTableIfExists string
  | CreateIndex SqlIndex
  | DropIndexIfExists string
  | AlterDropNotNull string string
  | AlterSetNotNull string string
  | UpdateNulls string string json

definition tableNames :: "Schema \<Rightarrow> string list" where
  "tableNames s = map tb_name (sc_tables s)"

fun refersTo :: "string \<Rightarrow> Constraint \<Rightarrow> bool" where
  "refersTo t (CascadingKey _ _ t' _) = (t' = t)"
| "refersTo t _ = False"

definition setNotNull :: "bool \<Rightarrow> string \<Rightarrow> ColumnDef \<Rightarrow> ColumnDef" where
  "setNotNull b c d = (if cd_name d = c then d\<lparr>cd_notNull := b\<rparr> else d)"

definition onTable :: "string \<Rightarrow> (SqlTable \<Rightarrow> SqlTable) \<Rightarrow> Schema \<Rightarrow> Schema" where
  "onTable t f s = s\<lparr>sc_tables := map (\<lambda>tb. if tb_name tb = t then f tb else tb) (sc_tables s)\<rparr>"

definition fillNull :: "string \<Rightarrow> json \<Rightarrow> sqlRow \<Rightarrow> sqlRow" where
  "fillNull c j row = map (\<lambda>(k, v). if k = c \<and> v = None then (k, Some j) else (k, v)) row"

definition nullIn :: "string \<Rightarrow> sqlRow \<Rightarrow> bool" where
  "nullIn c row \<longleftrightarrow> (c, None) \<in> set row"

fun exec :: "Statement \<Rightarrow> Schema \<Rightarrow> string + Schema" where
  "exec (CreateTable t cols cons) s =
     (if t \<in> set (tableNames s) \<union> ix_name ` set (sc_indexes s) then Inl ''42P07''
      else if list_ex (\<lambda>c. case c of CascadingKey _ _ t' _ \<Rightarrow> t' \<notin> set (tableNames s) | _ \<Rightarrow> False) cons then Inl ''42P01''
      else Inr (s\<lparr>sc_tables := sc_tables s @ [\<lparr>tb_name = t, tb_columns = cols, tb_constraints = cons, tb_rows = []\<rparr>]\<rparr>))"
| "exec (DropTableIfExists t) s =
     (if list_ex (\<lambda>tb. tb_name tb \<noteq> t \<and> list_ex (refersTo t) (tb_constraints tb)) (sc_tables s) then Inl ''2BP01''
      else Inr \<lparr>sc_tables = filter (\<lambda>tb. tb_name tb \<noteq> t) (sc_tables s),
                sc_indexes = filter (\<lambda>ix. ix_table ix \<noteq> t) (sc_indexes s)\<rparr>)"
| "exec (CreateIndex ix) s =
     (if ix_name ix \<in> set (tableNames s) \<union> ix_name ` set (sc_indexes s) then Inl ''42P07''
      else if ix_table ix \<notin> set (tableNames s) then Inl ''42P01''
      else Inr (s\<lparr>sc_indexes := sc_indexes s @ [ix]\<rparr>))"
| "exec (DropIndexIfExists i) s = Inr (s\<lparr>sc_indexes := filter (\<lambda>ix. ix_name ix \<noteq> i) (sc_indexes s)\<rparr>)"
| "exec (AlterDropNotNull t c) s =
     (if t \<notin> set (tableNames s) then Inl ''42P01''
      else Inr (onTable t (\<lambda>tb. tb\<lparr>tb_columns := map (setNotNull False c) (tb_columns tb)\<rparr>) s))"
| "exec (AlterSetNotNull t c) s =
     (if t \<notin> set (tableNames s) then Inl ''42P01''
      else if list_ex (\<lambda>tb. tb_name tb = t \<and> list_ex (nullIn c) (tb_rows tb)) (sc_tables s) then Inl ''23502''
      else Inr (onTable t (\<lambda>tb. tb\<lparr>tb_columns := map (setNotNull True c) (tb_columns tb)\<rparr>) s))"
| "exec (UpdateNulls t c j) s =
     (if t \<notin> set (tableNames s) then Inl ''42P01''
      else Inr (onTable t (\<lambda>tb. tb\<lparr>tb_rows := map (fillNull c j) (tb_rows tb)\<rparr>) s))"

fun run :: "Statement list \<Rightarrow> Schema \<Rightarrow> string + Schema" where
  "run [] s = Inr s"
| "run (st # sts) s = (case exec st s of Inl e \<Rightarrow> Inl e | Inr s' \<Rightarrow> run sts s')"

subsection \<open>The migrations\<close>

record Migration =
  mg_name :: string
  mg_up :: "Statement list"
  mg_down :: "Statement list"

definition notNull :: "string \<Rightarrow> SqlType \<Rightarrow> ColumnDef" where
  "notNull c t = \<lparr>cd_name = c, cd_type = t, cd_notNull = True, cd_default = None\<rparr>"

definition nullable :: "string \<Rightarrow> SqlType \<Rightarrow> ColumnDef" where
  "nullable c t = \<lparr>cd_name = c, cd_type = t, cd_notNull = False, cd_default = None\<rparr>"

definition withDefault :: "string \<Rightarrow> ColumnDef \<Rightarrow> ColumnDef" where
  "withDefault v d = d\<lparr>cd_default := Some v\<rparr>"

definition CreateUsers :: Migration where
  "CreateUsers = \<lparr>mg_name = ''CreateUsers1736000000000'',
     mg_up = [CreateTable ''users''
       [withDefault ''gen_random_uuid()'' (notNull ''id'' Uuid), notNull ''email'' (Varchar 254),
        notNull ''username'' (Varchar 20), notNull ''passwordHash'' (Varchar 60),
        withDefault ''1000'' (notNull ''rating'' Integer4), withDefault ''now()'' (notNull ''createdAt'' Timestamptz)]
       [PrimaryKey ''PK_users_id'' [''id''], UniqueKey ''UQ_users_email'' [''email''],
        UniqueKey ''UQ_users_username'' [''username'']]],
     mg_down = [DropTableIfExists ''users'']\<rparr>"

definition CreateMatches :: Migration where
  "CreateMatches = \<lparr>mg_name = ''CreateMatches1788862344349'',
     mg_up =
       [CreateTable ''matches''
          [withDefault ''gen_random_uuid()'' (notNull ''id'' Uuid), notNull ''player1Id'' Uuid, notNull ''player2Id'' Uuid,
           nullable ''winnerId'' Uuid, withDefault ''in_progress'' (notNull ''status'' (Varchar 16)),
           notNull ''matchSeed'' Uuid, withDefault ''0'' (notNull ''wipeIndexP1'' Integer4),
           withDefault ''0'' (notNull ''wipeIndexP2'' Integer4), notNull ''p1State'' Jsonb, notNull ''p2State'' Jsonb,
           withDefault ''now()'' (notNull ''createdAt'' Timestamptz), nullable ''finishedAt'' Timestamptz]
          [PrimaryKey ''PK_matches_id'' [''id''], UniqueKey ''UQ_matches_seed'' [''matchSeed'']],
        CreateTable ''match_rounds''
          [withDefault ''gen_random_uuid()'' (notNull ''id'' Uuid), notNull ''matchId'' Uuid, notNull ''roundNumber'' Integer4,
           notNull ''events'' Jsonb, withDefault ''now()'' (notNull ''createdAt'' Timestamptz)]
          [PrimaryKey ''PK_match_rounds_id'' [''id''], CascadingKey ''FK_match_rounds_matchId'' ''matchId'' ''matches'' ''id''],
        CreateIndex \<lparr>ix_name = ''IDX_match_rounds_matchId'', ix_table = ''match_rounds'', ix_columns = [(''matchId'', True)]\<rparr>],
     mg_down = [DropIndexIfExists ''IDX_match_rounds_matchId'', DropTableIfExists ''match_rounds'', DropTableIfExists ''matches'']\<rparr>"

definition LeaderboardRatingIndex :: Migration where
  "LeaderboardRatingIndex = \<lparr>mg_name = ''LeaderboardRatingIndex1788900000000'',
     mg_up = [CreateIndex \<lparr>ix_name = ''IDX_users_rating_id'', ix_table = ''users'', ix_columns = [(''rating'', False), (''id'', True)]\<rparr>],
     mg_down = [DropIndexIfExists ''IDX_users_rating_id'']\<rparr>"

definition MatchRetention :: Migration where
  "MatchRetention = \<lparr>mg_name = ''MatchRetention1789000000000'',
     mg_up = [AlterDropNotNull ''match_rounds'' ''events''],
     mg_down = [UpdateNulls ''match_rounds'' ''events'' (JArr []), AlterSetNotNull ''match_rounds'' ''events'']\<rparr>"

text \<open>In the order of their timestamps.\<close>

definition migrations :: "Migration list" where
  "migrations = [CreateUsers, CreateMatches, LeaderboardRatingIndex, MatchRetention]"

subsection \<open>The entities\<close>

text \<open>
  \<open>@PrimaryGeneratedColumn('uuid')\<close> and \<open>@CreateDateColumn\<close> stand for a NOT NULL column with a generated
  value; an index that is unique counts as a key, whether it is declared on the class or on the column.
\<close>

record Entity =
  en_table :: string
  en_columns :: "ColumnDef list"
  en_unique :: "(string \<times> string list) list"
  en_indexes :: "(string \<times> string list) list"

definition generated :: ColumnDef where
  "generated = withDefault ''gen_random_uuid()'' (notNull ''id'' Uuid)"

definition createDate :: ColumnDef where
  "createDate = withDefault ''now()'' (notNull ''createdAt'' Timestamptz)"

definition UserEntity :: Entity where
  "UserEntity = \<lparr>en_table = ''users'',
     en_columns = [generated, notNull ''email'' (Varchar 254), notNull ''username'' (Varchar 20),
       notNull ''passwordHash'' (Varchar 60), withDefault ''1000'' (notNull ''rating'' Integer4), createDate],
     en_unique = [(''UQ_users_email'', [''email'']), (''UQ_users_username'', [''username''])], en_indexes = []\<rparr>"

definition MatchEntity :: Entity where
  "MatchEntity = \<lparr>en_table = ''matches'',
     en_columns = [generated, notNull ''player1Id'' Uuid, notNull ''player2Id'' Uuid, nullable ''winnerId'' Uuid,
       withDefault ''in_progress'' (notNull ''status'' (Varchar 16)), notNull ''matchSeed'' Uuid,
       withDefault ''0'' (notNull ''wipeIndexP1'' Integer4), withDefault ''0'' (notNull ''wipeIndexP2'' Integer4),
       notNull ''p1State'' Jsonb, notNull ''p2State'' Jsonb, createDate, nullable ''finishedAt'' Timestamptz],
     en_unique = [(''UQ_matches_seed'', [''matchSeed''])], en_indexes = []\<rparr>"

definition MatchRoundEntity :: Entity where
  "MatchRoundEntity = \<lparr>en_table = ''match_rounds'',
     en_columns = [generated, notNull ''matchId'' Uuid, notNull ''roundNumber'' Integer4, nullable ''events'' Jsonb, createDate],
     en_unique = [], en_indexes = [(''IDX_match_rounds_matchId'', [''matchId''])]\<rparr>"

text \<open>\<open>database/entities.ts\<close>\<close>

definition ENTITIES :: "Entity list" where
  "ENTITIES = [UserEntity, MatchEntity, MatchRoundEntity]"

fun uniqueKey :: "Constraint \<Rightarrow> (string \<times> string list) list" where
  "uniqueKey (UniqueKey n cs) = [(n, cs)]"
| "uniqueKey _ = []"

text \<open>A table that has the columns, the unique keys and the indexes of an entity.\<close>

definition implements :: "Schema \<Rightarrow> Entity \<Rightarrow> bool" where
  "implements s en \<longleftrightarrow> list_ex (\<lambda>tb. tb_name tb = en_table en \<and> tb_columns tb = en_columns en
     \<and> concat (map uniqueKey (tb_constraints tb)) = en_unique en
     \<and> list_all (\<lambda>(n, cs). \<lparr>ix_name = n, ix_table = tb_name tb, ix_columns = map (\<lambda>c. (c, True)) cs\<rparr> \<in> set (sc_indexes s))
         (en_indexes en)) (sc_tables s)"

subsection \<open>Forward and back\<close>

text \<open>The schema without its rows, and the one after the first \<open>k\<close> migrations.\<close>

definition shape :: "Schema \<Rightarrow> Schema" where
  "shape s = s\<lparr>sc_tables := map (\<lambda>tb. tb\<lparr>tb_rows := []\<rparr>) (sc_tables s)\<rparr>"

definition migrated :: "nat \<Rightarrow> Schema" where
  "migrated k = (case run (concat (map mg_up (take k migrations))) emptySchema of Inr s \<Rightarrow> s | Inl _ \<Rightarrow> emptySchema)"

text \<open>No row has a null in a NOT NULL column.\<close>

definition conforms :: "Schema \<Rightarrow> bool" where
  "conforms s \<longleftrightarrow> list_all (\<lambda>tb. list_all (\<lambda>row. list_all (\<lambda>d. cd_notNull d \<longrightarrow> \<not> nullIn (cd_name d) row) (tb_columns tb))
     (tb_rows tb)) (sc_tables s)"

text \<open>
  The migrations build what the entities declare: run on an empty database they succeed, and each entity has
  its table with exactly its columns (type, nullability, default), its unique keys and its indexes.
\<close>

theorem schema_implements_entities:
  "run (concat (map mg_up migrations)) emptySchema = Inr (migrated 4) \<and> list_all (implements (migrated 4)) ENTITIES"
  by code_simp

text \<open>What going back may do to the rows that stay: a cleared event log reads as an empty one.\<close>

definition retains :: "Schema \<Rightarrow> Schema \<Rightarrow> bool" where
  "retains s s' \<longleftrightarrow> list_all (\<lambda>tb'. list_ex (\<lambda>tb. tb_name tb = tb_name tb'
     \<and> list_all2 (\<lambda>r r'. r' = r \<or> r' = fillNull ''events'' (JArr []) r) (tb_rows tb) (tb_rows tb')) (sc_tables s)) (sc_tables s')"

definition populate :: "Schema \<Rightarrow> sqlRow list list \<Rightarrow> Schema" where
  "populate s rss = s\<lparr>sc_tables := map2 (\<lambda>tb rs. tb\<lparr>tb_rows := rs\<rparr>) (sc_tables s) rss\<rparr>"

lemma shape_populate:
  assumes "shape s = t"
  obtains rss where "length rss = length (sc_tables t)" "s = populate t rss"
proof
  have rows: "map2 (\<lambda>tb rs. tb\<lparr>tb_rows := rs\<rparr>) (map (\<lambda>tb. tb\<lparr>tb_rows := []\<rparr>) tbs) (map tb_rows tbs) = tbs" for tbs :: "SqlTable list"
    by (induction tbs) simp_all
  show "length (map tb_rows (sc_tables s)) = length (sc_tables t)" using assms by (auto simp: shape_def)
  show "s = populate t (map tb_rows (sc_tables s))"
    using assms by (auto simp: shape_def populate_def rows)
qed

lemma one_list: "length xs = Suc 0 \<Longrightarrow> \<exists>x. xs = [x]"
  by (cases xs) simp_all

lemma three_list: "length xs = Suc (Suc (Suc 0)) \<Longrightarrow> \<exists>x y z. xs = [x, y, z]"
  by (auto simp: length_Suc_conv)

text \<open>The tables and indexes of the schema, and the statements in terms of them.\<close>

definition usersTable :: SqlTable where
  "usersTable = hd (sc_tables (migrated 1))"

definition matchesTable :: SqlTable where
  "matchesTable = sc_tables (migrated 2) ! 1"

definition roundsTable :: "bool \<Rightarrow> SqlTable" where
  "roundsTable b = (let tb = sc_tables (migrated 2) ! 2 in tb\<lparr>tb_columns := map (setNotNull b ''events'') (tb_columns tb)\<rparr>)"

definition roundsIndex :: SqlIndex where
  "roundsIndex = hd (sc_indexes (migrated 2))"

definition ratingIndex :: SqlIndex where
  "ratingIndex = sc_indexes (migrated 3) ! 1"

lemma migrated_shapes:
  "migrated 0 = emptySchema" "migrated (Suc 0) = \<lparr>sc_tables = [usersTable], sc_indexes = []\<rparr>"
  "migrated 2 = \<lparr>sc_tables = [usersTable, matchesTable, roundsTable True], sc_indexes = [roundsIndex]\<rparr>"
  "migrated 3 = \<lparr>sc_tables = [usersTable, matchesTable, roundsTable True], sc_indexes = [roundsIndex, ratingIndex]\<rparr>"
  "migrated 4 = \<lparr>sc_tables = [usersTable, matchesTable, roundsTable False], sc_indexes = [roundsIndex, ratingIndex]\<rparr>"
  by code_simp+

lemma schema_names [simp]:
  "tb_name usersTable = ''users''" "tb_name matchesTable = ''matches''" "tb_name (roundsTable b) = ''match_rounds''"
  "ix_name roundsIndex = ''IDX_match_rounds_matchId''" "ix_name ratingIndex = ''IDX_users_rating_id''"
  "ix_table roundsIndex = ''match_rounds''" "ix_table ratingIndex = ''users''"
  "tb_rows usersTable = []" "tb_rows matchesTable = []" "tb_rows (roundsTable b) = []"
  by (cases b, code_simp, code_simp)+

lemma schema_keys:
  "tb_constraints usersTable = [PrimaryKey ''PK_users_id'' [''id''], UniqueKey ''UQ_users_email'' [''email''],
     UniqueKey ''UQ_users_username'' [''username'']]"
  "tb_constraints matchesTable = [PrimaryKey ''PK_matches_id'' [''id''], UniqueKey ''UQ_matches_seed'' [''matchSeed'']]"
  "tb_constraints (roundsTable b) = [PrimaryKey ''PK_match_rounds_id'' [''id''],
     CascadingKey ''FK_match_rounds_matchId'' ''matchId'' ''matches'' ''id'']"
  by (code_simp, code_simp, cases b, code_simp, code_simp)

lemma schema_columns [simp]:
  "map (setNotNull b ''events'') (tb_columns (roundsTable b')) = tb_columns (roundsTable b)"
  by (cases b; cases b'; code_simp)

lemma schema_statements:
  "mg_up CreateUsers = [CreateTable ''users'' (tb_columns usersTable) (tb_constraints usersTable)]"
  "mg_up CreateMatches = [CreateTable ''matches'' (tb_columns matchesTable) (tb_constraints matchesTable),
     CreateTable ''match_rounds'' (tb_columns (roundsTable True)) (tb_constraints (roundsTable True)), CreateIndex roundsIndex]"
  "mg_up LeaderboardRatingIndex = [CreateIndex ratingIndex]"
  by code_simp+

text \<open>Names and key constraints decide whether a statement succeeds; rows matter for \<open>SET NOT NULL\<close> only.\<close>

lemma exec_on [simp]:
  "tableNames (populate (migrated (Suc 0)) [r]) = [''users'']"
  "tableNames \<lparr>sc_tables = tbs, sc_indexes = ixs\<rparr> = map tb_name tbs"
  by (simp_all add: tableNames_def populate_def migrated_shapes)

definition filled :: "sqlRow list \<Rightarrow> sqlRow list" where
  "filled rs = map (fillNull ''events'' (JArr [])) rs"

lemma filled_conforms: "\<not> list_ex (nullIn ''events'') (filled rs)"
  by (auto simp: filled_def fillNull_def nullIn_def list_ex_iff split: if_splits)

lemma fillNull_id: "\<not> nullIn c row \<Longrightarrow> fillNull c j row = row"
  unfolding fillNull_def nullIn_def by (intro map_idI) (auto, metis option.exhaust)

abbreviation (input) stocked :: "SqlTable \<Rightarrow> sqlRow list \<Rightarrow> SqlTable" where
  "stocked tb rs \<equiv> tb\<lparr>tb_rows := rs\<rparr>"

lemma up_matches: "run (mg_up CreateMatches) \<lparr>sc_tables = [stocked usersTable r], sc_indexes = []\<rparr>
    = Inr \<lparr>sc_tables = [stocked usersTable r, matchesTable, roundsTable True], sc_indexes = [roundsIndex]\<rparr>"
proof -
  have mk: "\<lparr>tb_name = ''matches'', tb_columns = tb_columns matchesTable, tb_constraints = tb_constraints matchesTable, tb_rows = []\<rparr> = matchesTable"
    "\<lparr>tb_name = ''match_rounds'', tb_columns = tb_columns (roundsTable True), tb_constraints = tb_constraints (roundsTable True), tb_rows = []\<rparr> = roundsTable True"
    by (rule SqlTable.equality; simp)+
  show ?thesis by (simp add: schema_statements schema_keys mk [unfolded schema_keys])
qed

lemma down_matches: "run (mg_down CreateMatches) \<lparr>sc_tables = [stocked usersTable r, stocked matchesTable r', stocked (roundsTable True) r''],
      sc_indexes = [roundsIndex]\<rparr> = Inr \<lparr>sc_tables = [stocked usersTable r], sc_indexes = []\<rparr>"
  by (simp add: CreateMatches_def schema_keys)

lemma rating_up: "run (mg_up LeaderboardRatingIndex) \<lparr>sc_tables = [stocked usersTable r, stocked matchesTable r', stocked (roundsTable True) r''],
      sc_indexes = [roundsIndex]\<rparr> = Inr \<lparr>sc_tables = [stocked usersTable r, stocked matchesTable r', stocked (roundsTable True) r''],
      sc_indexes = [roundsIndex, ratingIndex]\<rparr>"
  by (simp add: schema_statements)

lemma rating_down: "run (mg_down LeaderboardRatingIndex) \<lparr>sc_tables = tbs, sc_indexes = [roundsIndex, ratingIndex]\<rparr>
    = Inr \<lparr>sc_tables = tbs, sc_indexes = [roundsIndex]\<rparr>"
  by (simp add: LeaderboardRatingIndex_def)

lemma rounds_altered:
  "(roundsTable b)\<lparr>tb_rows := r, tb_columns := tb_columns (roundsTable b')\<rparr> = stocked (roundsTable b') r"
  by (rule SqlTable.equality) (simp_all add: schema_keys)

lemma retention_up: "run (mg_up MatchRetention) \<lparr>sc_tables = [stocked usersTable r, stocked matchesTable r', stocked (roundsTable True) r''],
      sc_indexes = ixs\<rparr> = Inr \<lparr>sc_tables = [stocked usersTable r, stocked matchesTable r', stocked (roundsTable False) r''], sc_indexes = ixs\<rparr>"
  by (simp add: MatchRetention_def onTable_def rounds_altered)

lemma retention_down: "run (mg_down MatchRetention) \<lparr>sc_tables = [stocked usersTable r, stocked matchesTable r', stocked (roundsTable False) r''],
      sc_indexes = ixs\<rparr> = Inr \<lparr>sc_tables = [stocked usersTable r, stocked matchesTable r', stocked (roundsTable True) (filled r'')], sc_indexes = ixs\<rparr>"
  by (simp add: MatchRetention_def onTable_def filled_conforms filled_def [symmetric] rounds_altered)

definition rows_ok :: "SqlTable \<Rightarrow> sqlRow list \<Rightarrow> bool" where
  "rows_ok tb rs \<longleftrightarrow> list_all (\<lambda>row. list_all (\<lambda>d. cd_notNull d \<longrightarrow> \<not> nullIn (cd_name d) row) (tb_columns tb)) rs"

lemma rounds_columns:
  "tb_columns (roundsTable True) = [generated, notNull ''matchId'' Uuid, notNull ''roundNumber'' Integer4,
     notNull ''events'' Jsonb, createDate]"
  "tb_columns (roundsTable False) = [generated, notNull ''matchId'' Uuid, notNull ''roundNumber'' Integer4,
     nullable ''events'' Jsonb, createDate]"
  by code_simp+

lemma rounds_ok: "rows_ok (roundsTable b) rs \<longleftrightarrow>
    list_all (\<lambda>row. \<not> nullIn ''id'' row \<and> \<not> nullIn ''matchId'' row \<and> \<not> nullIn ''roundNumber'' row
      \<and> (b \<longrightarrow> \<not> nullIn ''events'' row) \<and> \<not> nullIn ''createdAt'' row) rs"
  by (cases b) (simp_all add: rows_ok_def rounds_columns generated_def createDate_def notNull_def nullable_def withDefault_def)

lemma fillNull_other: "nullIn c' (fillNull c j row) \<longleftrightarrow> nullIn c' row \<and> c' \<noteq> c"
  by (induction row) (auto simp: nullIn_def fillNull_def split: if_splits)

lemma rounds_relax: "rows_ok (roundsTable True) rs \<Longrightarrow> rows_ok (roundsTable False) rs"
  and rounds_filled: "rows_ok (roundsTable False) rs \<Longrightarrow> rows_ok (roundsTable True) (filled rs)"
  and filled_id: "rows_ok (roundsTable True) rs \<Longrightarrow> filled rs = rs"
  by (auto simp: rounds_ok list_all_iff filled_def fillNull_other intro!: map_idI fillNull_id)

lemma conforms_one: "conforms \<lparr>sc_tables = [stocked usersTable r], sc_indexes = ixs\<rparr> \<longleftrightarrow> rows_ok usersTable r"
  by (simp add: conforms_def rows_ok_def)

lemma conforms_three: "conforms \<lparr>sc_tables = [stocked usersTable r, stocked matchesTable r', stocked (roundsTable b) r''], sc_indexes = ixs\<rparr>
    \<longleftrightarrow> rows_ok usersTable r \<and> rows_ok matchesTable r' \<and> rows_ok (roundsTable b) r''"
  by (simp add: conforms_def rows_ok_def)

lemma unstock: "tb_rows tb = [] \<Longrightarrow> tb\<lparr>tb_rows := []\<rparr> = tb"
  by simp

lemma unstocked [simp]:
  "stocked usersTable [] = usersTable" "stocked matchesTable [] = matchesTable" "stocked (roundsTable b) [] = roundsTable b"
  by (simp_all add: unstock)

lemma shape_zero: "shape s = migrated 0 \<longleftrightarrow> s = emptySchema"
  by (cases s) (auto simp: migrated_shapes shape_def emptySchema_def)

lemma shape_one: "shape s = migrated (Suc 0) \<longleftrightarrow> (\<exists>r. s = \<lparr>sc_tables = [stocked usersTable r], sc_indexes = []\<rparr>)"
proof
  assume "shape s = migrated (Suc 0)"
  then obtain rss where "length rss = Suc 0" "s = populate (migrated (Suc 0)) rss"
    by (elim shape_populate) (simp add: migrated_shapes)
  then show "\<exists>r. s = \<lparr>sc_tables = [stocked usersTable r], sc_indexes = []\<rparr>"
    using one_list [of rss] by (auto simp: populate_def migrated_shapes)
qed (auto simp: shape_def migrated_shapes)

lemma shape_three:
  assumes "t = \<lparr>sc_tables = [usersTable, matchesTable, roundsTable b], sc_indexes = ixs\<rparr>"
  shows "shape s = t \<longleftrightarrow> (\<exists>r r' r''. s = \<lparr>sc_tables = [stocked usersTable r, stocked matchesTable r', stocked (roundsTable b) r''],
    sc_indexes = ixs\<rparr>)"
proof
  assume "shape s = t"
  then obtain rss where "length rss = Suc (Suc (Suc 0))" "s = populate t rss"
    by (elim shape_populate) (simp add: assms)
  then show "\<exists>r r' r''. s = \<lparr>sc_tables = [stocked usersTable r, stocked matchesTable r', stocked (roundsTable b) r''], sc_indexes = ixs\<rparr>"
    using three_list [of rss] by (auto simp: populate_def assms)
qed (auto simp: shape_def assms)

lemmas shapes = shape_zero shape_one shape_three [OF migrated_shapes(3)] shape_three [OF migrated_shapes(4)]
  shape_three [OF migrated_shapes(5)]

text \<open>Migration \<open>k\<close> forth and back on the state \<open>s\<close>.\<close>

definition undoable :: "nat \<Rightarrow> Schema \<Rightarrow> bool" where
  "undoable k s \<longleftrightarrow>
     (shape s = migrated k \<and> conforms s \<longrightarrow>
       (\<exists>s1. run (mg_up (migrations ! k)) s = Inr s1 \<and> shape s1 = migrated (Suc k) \<and> conforms s1
          \<and> map tb_rows (sc_tables s) = take (length (sc_tables s)) (map tb_rows (sc_tables s1))
          \<and> run (mg_down (migrations ! k)) s1 = Inr s))
     \<and> (shape s = migrated (Suc k) \<and> conforms s \<longrightarrow>
       (\<exists>s0. run (mg_down (migrations ! k)) s = Inr s0 \<and> shape s0 = migrated k \<and> conforms s0 \<and> retains s s0))"

lemma undo_users: "undoable 0 s"
proof -
  have "run (mg_up CreateUsers) emptySchema = Inr (migrated (Suc 0))" "run (mg_down CreateUsers) (migrated (Suc 0)) = Inr emptySchema"
    "conforms emptySchema" "conforms (migrated (Suc 0))" "shape (migrated (Suc 0)) = migrated (Suc 0)" "sc_tables emptySchema = []"
    by code_simp+
  moreover have "run (mg_down CreateUsers) \<lparr>sc_tables = [stocked usersTable r], sc_indexes = []\<rparr> = Inr emptySchema" for r
    by (simp add: CreateUsers_def emptySchema_def)
  moreover have "retains s emptySchema" for s by (simp add: retains_def emptySchema_def)
  ultimately show ?thesis by (auto simp: undoable_def migrations_def shape_zero shape_one)
qed

lemma undo_matches: "undoable 1 s"
proof -
  have down: "run (mg_down CreateMatches) \<lparr>sc_tables = [stocked usersTable r, matchesTable, roundsTable True], sc_indexes = [roundsIndex]\<rparr>
      = Inr \<lparr>sc_tables = [stocked usersTable r], sc_indexes = []\<rparr>" for r
    using down_matches [of r "[]" "[]"] by simp
  have "rows_ok matchesTable []" "rows_ok (roundsTable True) []" by (simp_all add: rows_ok_def)
  with conforms_three [of _ "[]" "[]" True] have ok: "rows_ok usersTable r \<Longrightarrow>
      conforms \<lparr>sc_tables = [stocked usersTable r, matchesTable, roundsTable True], sc_indexes = [roundsIndex]\<rparr>" for r
    by simp
  have shape: "shape \<lparr>sc_tables = [stocked usersTable r, matchesTable, roundsTable True], sc_indexes = [roundsIndex]\<rparr> = migrated 2" for r
    by (simp add: shape_def migrated_shapes)
  have "retains \<lparr>sc_tables = [stocked usersTable r, stocked matchesTable r', stocked (roundsTable True) r''], sc_indexes = [roundsIndex]\<rparr>
      \<lparr>sc_tables = [stocked usersTable r], sc_indexes = []\<rparr>" for r r' r''
    by (simp add: retains_def list_all2_refl)
  with up_matches down ok shape down_matches show ?thesis
    by (auto simp: undoable_def migrations_def numeral_2_eq_2 [symmetric] shapes conforms_one conforms_three)
qed

lemma undo_index: "undoable 2 s"
proof -
  have "retains \<lparr>sc_tables = tbs, sc_indexes = ixs\<rparr> \<lparr>sc_tables = tbs, sc_indexes = ixs'\<rparr>" for tbs ixs ixs'
    by (auto simp: retains_def list_all_iff list_ex_iff list_all2_refl)
  with rating_up rating_down show ?thesis
    by (auto simp: undoable_def migrations_def numeral_3_eq_3 [symmetric] shapes conforms_three)
qed

lemma undo_retention: "undoable 3 s"
proof -
  have "retains \<lparr>sc_tables = [stocked usersTable r, stocked matchesTable r', stocked (roundsTable False) r''], sc_indexes = ixs\<rparr>
      \<lparr>sc_tables = [stocked usersTable r, stocked matchesTable r', stocked (roundsTable True) (filled r'')], sc_indexes = ixs\<rparr>" for r r' r'' ixs
    by (simp add: retains_def list_all2_refl filled_def list_all2_conv_all_nth)
  with retention_up retention_down show ?thesis
    by (auto simp: undoable_def migrations_def shapes conforms_three rounds_relax rounds_filled filled_id)
qed

text \<open>
  C39: Every migration can be taken back, whatever the tables hold. Running a migration on the schema before it succeeds,
  gives the schema after it and keeps all rows; reverting it at once restores the database exactly. And from any
  state of the later schema in which the NOT NULL columns hold no null (that is, any state PostgreSQL allows), with
  whatever rows were written since, the revert succeeds and gives the earlier schema; rows of tables that stay are kept,
  with a cleared event log read as an empty one.
\<close>

theorem migrations_reversible:
  assumes "k < 4"
  shows "(shape s = migrated k \<and> conforms s \<longrightarrow>
       (\<exists>s1. run (mg_up (migrations ! k)) s = Inr s1 \<and> shape s1 = migrated (Suc k) \<and> conforms s1
          \<and> map tb_rows (sc_tables s) = take (length (sc_tables s)) (map tb_rows (sc_tables s1))
          \<and> run (mg_down (migrations ! k)) s1 = Inr s))
     \<and> (shape s = migrated (Suc k) \<and> conforms s \<longrightarrow>
       (\<exists>s0. run (mg_down (migrations ! k)) s = Inr s0 \<and> shape s0 = migrated k \<and> conforms s0 \<and> retains s s0))"
proof -
  from assms have "k \<in> {0, 1, 2, 3}" by auto
  then have "undoable k s" using undo_users undo_matches undo_index undo_retention by blast
  then show ?thesis unfolding undoable_def .
qed

text \<open>One ended match with a cleared log: taking the last migration back reads the log as empty.\<close>

definition archived :: Schema where
  "archived = populate (migrated 4)
     [[], [], [[(''id'', Some (JStr ''r1'')), (''matchId'', Some (JStr ''m1'')), (''roundNumber'', Some (JNum 1)),
                (''events'', None), (''createdAt'', Some (JStr ''2026-01-01''))]]]"

lemma migrations_reversible_witness:
  "\<exists>s0. run (mg_down (migrations ! 3)) archived = Inr s0 \<and> shape s0 = migrated 3 \<and> conforms s0
     \<and> run [AlterSetNotNull ''match_rounds'' ''events''] archived = Inl ''23502''"
proof -
  have "shape archived = migrated (Suc 3)" "conforms archived" by code_simp+
  moreover have "run [AlterSetNotNull ''match_rounds'' ''events''] archived = Inl ''23502''" by code_simp
  ultimately show ?thesis using migrations_reversible [of 3 archived] by auto
qed

end
