(* ===== verification/Operations.thy ===== *)
theory Operations
  imports Retention
begin

text \<open>
  Running the backend: what a replica schedules when it starts, the two command line programs that clear old data
  (\<open>match/match-retention.cli.ts\<close>, \<open>queue/queue-retention.cli.ts\<close>), the query runners of
  \<open>database/postgres-replication.ts\<close>, and what the environment variables decide.
\<close>

subsection \<open>Query runners\<close>

datatype ReplicationMode = Master | Slave

text \<open>
  TypeORM's side of the contract: it makes a runner, runs SQL on one, and takes one back, each of which changes
  the state \<open>'s\<close> of its connection pools.
\<close>

record ('r, 's) DataSource =
  createQueryRunner :: "ReplicationMode \<Rightarrow> 's \<Rightarrow> 'r \<times> 's"
  runnerQuery :: "'r \<Rightarrow> string \<Rightarrow> json list \<Rightarrow> 's \<Rightarrow> json result \<times> 's"
  runnerRelease :: "'r \<Rightarrow> 's \<Rightarrow> unit result \<times> 's"

text \<open>\<open>try { return await fn(..) } finally { await release() }\<close>: a release that throws replaces the outcome.\<close>

definition releasing :: "('s \<Rightarrow> unit result \<times> 's) \<Rightarrow> 'a result \<times> 's \<Rightarrow> 'a result \<times> 's" where
  "releasing release outcome =
     (let (res, s) = outcome in case release s of (Inl e, s') \<Rightarrow> (Inl e, s') | (Inr _, s') \<Rightarrow> (res, s'))"

definition runOnMaster :: "('r, 's) DataSource \<Rightarrow> ('r \<Rightarrow> 's \<Rightarrow> 'a result \<times> 's) \<Rightarrow> 's \<Rightarrow> 'a result \<times> 's" where
  "runOnMaster ds fn s =
     (let (runner, s1) = createQueryRunner ds Master s in releasing (runnerRelease ds runner) (fn runner s1))"

definition queryOnSlave :: "('r, 's) DataSource \<Rightarrow> string \<Rightarrow> json list \<Rightarrow> 's \<Rightarrow> json result \<times> 's" where
  "queryOnSlave ds sql parameters s =
     (let (runner, s1) = createQueryRunner ds Slave s
      in releasing (runnerRelease ds runner) (runnerQuery ds runner sql parameters s1))"

text \<open>
  \<open>held s\<close> are the runners a pool has given out. A new runner is not one of them, and taking one back frees that
  one, whether or not the release reports an error.
\<close>

definition leases :: "('r, 's) DataSource \<Rightarrow> ('s \<Rightarrow> ('r \<times> ReplicationMode) set) \<Rightarrow> bool" where
  "leases ds held \<longleftrightarrow>
     (\<forall>mode s. fst (createQueryRunner ds mode s) \<notin> fst ` held s
        \<and> held (snd (createQueryRunner ds mode s)) = insert (fst (createQueryRunner ds mode s), mode) (held s))
     \<and> (\<forall>r s. held (snd (runnerRelease ds r s)) = {l \<in> held s. fst l \<noteq> r})"

lemma releasing_state: "snd (releasing release out) = snd (release (snd out))"
  by (simp add: releasing_def case_prod_unfold split: sum.split prod.split)

lemma lease_returned:
  assumes "leases ds held" and "createQueryRunner ds mode s = (r, s1)"
    and "held (snd out) = held s1"
  shows "held (snd (releasing (runnerRelease ds r) out)) = held s"
proof -
  have "r \<notin> fst ` held s" "held s1 = insert (r, mode) (held s)"
    using assms(1,2) unfolding leases_def by (metis fst_conv snd_conv)+
  then show ?thesis
    using assms(1,3) unfolding leases_def releasing_state by (auto simp: image_iff)
qed

text \<open>
  A connection taken for a piece of work is given back when the work is over, also when it failed. While the work
  runs its runner is held and belongs to the side asked for, the primary for \<open>runOnMaster\<close> and the replica for
  \<open>queryOnSlave\<close>; afterwards exactly the runners that were held before are held; and the caller gets the outcome of
  the work, its error included, unless giving the runner back fails.
\<close>

theorem runner_always_released:
  assumes "leases ds held" and "\<And>r s. held (snd (fn r s)) = held s" and "\<And>r q ps s. held (snd (runnerQuery ds r q ps s)) = held s"
  shows "(\<exists>r s1. createQueryRunner ds Master s = (r, s1) \<and> (r, Master) \<in> held s1
       \<and> held (snd (runOnMaster ds fn s)) = held s
       \<and> (fst (runOnMaster ds fn s) = fst (fn r s1) \<or> (\<exists>e. fst (runnerRelease ds r (snd (fn r s1))) = Inl e \<and> fst (runOnMaster ds fn s) = Inl e)))
     \<and> (\<exists>r s1. createQueryRunner ds Slave s = (r, s1) \<and> (r, Slave) \<in> held s1
       \<and> held (snd (queryOnSlave ds sql ps s)) = held s
       \<and> (fst (queryOnSlave ds sql ps s) = fst (runnerQuery ds r sql ps s1)
          \<or> (\<exists>e. fst (runnerRelease ds r (snd (runnerQuery ds r sql ps s1))) = Inl e \<and> fst (queryOnSlave ds sql ps s) = Inl e)))"
proof -
  have taken: "(r, mode) \<in> held s1" if "createQueryRunner ds mode s = (r, s1)" for mode r s1
    using assms(1) that unfolding leases_def by (metis fst_conv snd_conv insertI1)
  have outcome: "fst (releasing rel out) = fst out \<or> (\<exists>e. fst (rel (snd out)) = Inl e \<and> fst (releasing rel out) = Inl e)"
    for rel :: "'s \<Rightarrow> unit result \<times> 's" and out :: "'x result \<times> 's"
    by (auto simp: releasing_def case_prod_unfold split: sum.split prod.split)
  obtain r1 s1 where 1: "createQueryRunner ds Master s = (r1, s1)" by fastforce
  have master: "\<exists>r s1. createQueryRunner ds Master s = (r, s1) \<and> (r, Master) \<in> held s1
       \<and> held (snd (runOnMaster ds fn s)) = held s
       \<and> (fst (runOnMaster ds fn s) = fst (fn r s1) \<or> (\<exists>e. fst (runnerRelease ds r (snd (fn r s1))) = Inl e \<and> fst (runOnMaster ds fn s) = Inl e))"
    using taken [OF 1] lease_returned [OF assms(1) 1 assms(2)] outcome by (simp add: runOnMaster_def 1)
  obtain r2 s2 where 2: "createQueryRunner ds Slave s = (r2, s2)" by fastforce
  have slave: "\<exists>r s1. createQueryRunner ds Slave s = (r, s1) \<and> (r, Slave) \<in> held s1
       \<and> held (snd (queryOnSlave ds sql ps s)) = held s
       \<and> (fst (queryOnSlave ds sql ps s) = fst (runnerQuery ds r sql ps s1)
          \<or> (\<exists>e. fst (runnerRelease ds r (snd (runnerQuery ds r sql ps s1))) = Inl e \<and> fst (queryOnSlave ds sql ps s) = Inl e))"
    using taken [OF 2] lease_returned [OF assms(1) 2 assms(3)] outcome by (simp add: queryOnSlave_def 2)
  from master slave show ?thesis by (rule conjI)
qed

text \<open>A pool that numbers its runners, and work that fails on the primary.\<close>

definition demoPool :: "(nat, (nat \<times> ReplicationMode) list) DataSource" where
  "demoPool = \<lparr>createQueryRunner = (\<lambda>mode ls. (Suc (sum_list (map fst ls)), (Suc (sum_list (map fst ls)), mode) # ls)),
     runnerQuery = (\<lambda>r sql ps ls. (Inr JNull, ls)),
     runnerRelease = (\<lambda>r ls. (Inr (), filter (\<lambda>l. fst l \<noteq> r) ls))\<rparr>"

lemma runner_always_released_witness:
  "set (snd (runOnMaster demoPool (\<lambda>_ ls. (Inl ''57014'' :: unit result, ls)) [(1, Slave)])) = {(1, Slave)}
   \<and> fst (runOnMaster demoPool (\<lambda>_ ls. (Inl ''57014'' :: unit result, ls)) [(1, Slave)]) = Inl ''57014''"
proof -
  have "a \<le> sum_list (map fst ls)" if "(a, m) \<in> set ls" for a :: nat and m :: ReplicationMode and ls
    using member_le_sum_list [of a "map fst ls"] that by (force simp: image_iff)
  then have "leases demoPool set"
    by (fastforce simp: leases_def demoPool_def)
  moreover have "set (snd ((\<lambda>_ ls. (Inl ''57014'' :: unit result, ls)) r s)) = set s" for r :: nat and s :: "(nat \<times> ReplicationMode) list"
    by simp
  moreover have "set (snd (runnerQuery demoPool r q ps s)) = set s" for r q ps s by (simp add: demoPool_def)
  ultimately have "\<exists>r s1. createQueryRunner demoPool Master [(1, Slave)] = (r, s1) \<and> (r, Master) \<in> set s1
       \<and> set (snd (runOnMaster demoPool (\<lambda>_ ls. (Inl ''57014'' :: unit result, ls)) [(1, Slave)])) = set [(1, Slave)]
       \<and> (fst (runOnMaster demoPool (\<lambda>_ ls. (Inl ''57014'' :: unit result, ls)) [(1, Slave)]) = fst (Inl ''57014'' :: unit result, s1)
         \<or> (\<exists>e. fst (runnerRelease demoPool r (snd (Inl ''57014'' :: unit result, s1))) = Inl e
            \<and> fst (runOnMaster demoPool (\<lambda>_ ls. (Inl ''57014'' :: unit result, ls)) [(1, Slave)]) = Inl e))"
    by (rule runner_always_released [THEN conjunct1])
  then show ?thesis by (auto simp: demoPool_def)
qed

subsection \<open>Starting a replica\<close>

definition MATCHMAKING_POLL_INTERVAL_MS :: int where "MATCHMAKING_POLL_INTERVAL_MS = 1000"

definition onApplicationBootstrap :: "repeatable \<Rightarrow> repeatable" where
  "onApplicationBootstrap jobs = ensureMatchPairRepeating MATCHMAKING_POLL_INTERVAL_MS jobs"

definition queueServiceInit :: "repeatable \<Rightarrow> repeatable" where
  "queueServiceInit jobs = ensureMatchRetentionRepeating (24 * 60 * 60 * 1000) jobs"

text \<open>The hooks of one replica, in the order NestJS runs them.\<close>

definition startReplica :: "repeatable \<Rightarrow> repeatable" where
  "startReplica jobs = onApplicationBootstrap (queueServiceInit jobs)"

lemmas start_defs = startReplica_def onApplicationBootstrap_def queueServiceInit_def ensureMatchRetentionRepeating_def
  ensureMatchPairRepeating_def MATCHMAKING_POLL_INTERVAL_MS_def DAY_MS_def MATCH_RETENTION_RUN_def MATCH_PAIR_def

text \<open>However many replicas start, and however often, the poller and the daily run are scheduled once.\<close>

lemma replica_starts:
  "startReplica [] = [(MATCH_RETENTION_RUN, DAY_MS), (MATCH_PAIR, 1000)]"
  "startReplica [(MATCH_RETENTION_RUN, DAY_MS), (MATCH_PAIR, 1000)] = [(MATCH_RETENTION_RUN, DAY_MS), (MATCH_PAIR, 1000)]"
  by (simp_all add: start_defs)

lemma replicas_share_schedules: "(startReplica ^^ Suc n) [] = [(MATCH_RETENTION_RUN, DAY_MS), (MATCH_PAIR, 1000)]"
proof (induction n)
  case (Suc n)
  then show ?case unfolding funpow.simps(2) [of "Suc n"] comp_apply by (simp only: replica_starts)
qed (simp add: replica_starts)

subsection \<open>The environment\<close>

definition dataSourceUrl :: "(string \<rightharpoonup> string) \<Rightarrow> string option" where
  "dataSourceUrl env = orElse (env ''DATABASE_PRIMARY_URL'') (env ''DATABASE_URL'')"

text \<open>The command line works on the primary, whatever the application reads from.\<close>

lemma cli_on_primary: "dataSourceUrl env = primaryUrl (resolvePostgresUrls env)"
  by (simp add: dataSourceUrl_def resolvePostgresUrls_def Let_def)

definition migrationsRun :: "(string \<rightharpoonup> string) \<Rightarrow> bool" where
  "migrationsRun env \<longleftrightarrow> env ''RUN_MIGRATIONS'' = Some ''true''"

definition redisUrl :: "(string \<rightharpoonup> string) \<Rightarrow> string" where
  "redisUrl env = (case env ''REDIS_URL'' of Some u \<Rightarrow> u | None \<Rightarrow> ''redis://localhost:6379'')"

datatype LogLevel = LogError | LogWarn | LogInfo

definition minLogLevel :: "(string \<rightharpoonup> string) \<Rightarrow> string" where
  "minLogLevel env =
     (case env ''LOG_LEVEL'' of Some l \<Rightarrow> l
      | None \<Rightarrow> if env ''NODE_ENV'' = Some ''production'' then ''info'' else ''debug'')"

definition genReqId :: "string option \<Rightarrow> string \<Rightarrow> string" where
  "genReqId header uuid = (case header of Some i \<Rightarrow> i | None \<Rightarrow> uuid)"

definition customLogLevel :: "nat \<Rightarrow> bool \<Rightarrow> LogLevel" where
  "customLogLevel statusCode err =
     (if err \<or> statusCode \<ge> 500 then LogError else if statusCode \<ge> 400 then LogWarn else LogInfo)"

definition tracesUrl :: "(string \<rightharpoonup> string) \<Rightarrow> string option" where
  "tracesUrl env =
     (if truthy (env ''OTEL_EXPORTER_OTLP_ENDPOINT'')
      then Some (the (env ''OTEL_EXPORTER_OTLP_ENDPOINT'') @ ''/v1/traces'') else None)"

definition ignoreIncomingRequest :: "string option \<Rightarrow> bool" where
  "ignoreIncomingRequest url \<longleftrightarrow> prefix ''/health'' (case url of Some u \<Rightarrow> u | None \<Rightarrow> [])"

subsection \<open>Retention on the command line\<close>

datatype CliLine =
    MatchReport RetentionReport
  | QueueReport "CleanReport list"
  | DryRunNotice
  | ErrorLine string

record CliOutcome =
  cli_lines :: "CliLine list"
  cli_exitCode :: "int option"

text \<open>\<open>main().catch(..)\<close>: an error is printed and sets the exit code.\<close>

definition exitWith :: "CliLine list \<Rightarrow> 'a result \<Rightarrow> CliOutcome" where
  "exitWith lines outcome =
     (case outcome of
        Inl e \<Rightarrow> \<lparr>cli_lines = lines @ [ErrorLine e], cli_exitCode = Some 1\<rparr>
      | Inr _ \<Rightarrow> \<lparr>cli_lines = lines, cli_exitCode = None\<rparr>)"

text \<open>\<open>opening\<close> and \<open>closing\<close> are the results of connecting and disconnecting; \<open>None\<close> is a program that does not end.\<close>

definition matchRetentionMain ::
  "retention_env \<Rightarrow> unit result \<Rightarrow> unit result \<Rightarrow> string list \<Rightarrow> world \<Rightarrow> (CliOutcome \<times> world) option" where
  "matchRetentionMain re opening closing argv w =
     (let apply = (''--apply'' \<in> set argv)
      in case opening of
           Inl e \<Rightarrow> Some (exitWith [] (Inl e :: unit result), w)
         | Inr _ \<Rightarrow>
             (case retentionRun re (\<not> apply) w of
                None \<Rightarrow> None
              | Some (res, w') \<Rightarrow>
                  (let lines = (case res of
                         Inl _ \<Rightarrow> []
                       | Inr report \<Rightarrow> MatchReport report # (if apply then [] else [DryRunNotice]))
                   in Some (exitWith lines (case closing of Inl e \<Rightarrow> Inl e | Inr _ \<Rightarrow> res), w'))))"

definition USAGE :: string where "USAGE = ''Usage: node dist/queue/queue-retention.cli.js [--apply]''"

text \<open>The finished jobs of each queue of the server; the program opens the five queues of the backend.\<close>

definition queueRetentionMain ::
  "cleaner \<Rightarrow> unit result \<Rightarrow> string list \<Rightarrow> (string \<Rightarrow> RetainedQueue) \<Rightarrow> CliOutcome \<times> (string \<Rightarrow> RetainedQueue)" where
  "queueRetentionMain clean closing argv server =
     (let args = drop 2 argv
      in if list_ex (\<lambda>arg. arg \<noteq> ''--apply'') args then (exitWith [] (Inl USAGE :: unit result), server)
         else let queues = (\<lambda>name. if name \<in> set QUEUE_NAMES then Some (server name) else None);
                  (res, queues') = cleanRetainedJobs clean (''--apply'' \<in> set args) QUEUE_NAMES queues;
                  lines = (case res of Inl _ \<Rightarrow> [] | Inr report \<Rightarrow> [QueueReport report])
              in (exitWith lines (case closing of Inl e \<Rightarrow> Inl e | Inr _ \<Rightarrow> res),
                  \<lambda>name. case queues' name of Some q \<Rightarrow> q | None \<Rightarrow> server name))"

subsection \<open>What the command line programs promise\<close>

text \<open>Without removing, the loop over the queues only counts.\<close>

lemma counting_keeps:
  assumes "\<forall>n \<in> set names. queues n \<noteq> None"
  shows "\<exists>reports. cleanRetainedJobs clean False names queues = (Inr reports, queues)"
  using assms
proof (induction names)
  case (Cons n ns)
  then obtain q reports where "queues n = Some q" "cleanRetainedJobs clean False ns queues = (Inr reports, queues)" by auto
  moreover from this have "queues(n \<mapsto> \<lparr>rq_completed = rq_completed q, rq_failed = rq_failed q\<rparr>) = queues"
    by (cases q) (simp add: map_upd_triv)
  ultimately show ?case by simp
qed simp

lemma dry_run_keeps: "\<exists>res. retentionRun re True w = Some (res, w)"
  by (auto simp: retentionRun_def Let_def split: sum.split)

text \<open>
  Neither program changes anything unless it is told to. Without \<open>--apply\<close> both end, and leave the tables and
  the queues as they are, whatever the environment and the arguments say and whether or not the databases answer;
  and an argument that the queue program does not know is refused before a queue is looked at, even beside
  \<open>--apply\<close>.
\<close>

theorem cli_needs_apply:
  "(''--apply'' \<notin> set argv \<longrightarrow> (\<exists>out. matchRetentionMain re opening closing argv w = Some (out, w)))
   \<and> (''--apply'' \<notin> set (drop 2 argv) \<or> (\<exists>a \<in> set (drop 2 argv). a \<noteq> ''--apply'') \<longrightarrow>
        (\<exists>out. queueRetentionMain clean closing argv server = (out, server)))"
proof (intro conjI impI)
  assume "''--apply'' \<notin> set argv"
  then have no: "(''--apply'' \<in> set argv) = False" by simp
  obtain res where "retentionRun re True w = Some (res, w)" using dry_run_keeps by blast
  then show "\<exists>out. matchRetentionMain re opening closing argv w = Some (out, w)"
    unfolding matchRetentionMain_def no Let_def by (auto split: sum.split)
next
  assume no: "''--apply'' \<notin> set (drop 2 argv) \<or> (\<exists>a \<in> set (drop 2 argv). a \<noteq> ''--apply'')"
  show "\<exists>out. queueRetentionMain clean closing argv server = (out, server)"
  proof (cases "list_ex (\<lambda>arg. arg \<noteq> ''--apply'') (drop 2 argv)")
    case False
    with no have no: "(''--apply'' \<in> set (drop 2 argv)) = False" by (auto simp: list_ex_iff)
    let ?queues = "\<lambda>name. if name \<in> set QUEUE_NAMES then Some (server name) else None"
    obtain reports where "cleanRetainedJobs clean False QUEUE_NAMES ?queues = (Inr reports, ?queues)"
      using counting_keeps [of QUEUE_NAMES ?queues clean] by auto
    with False show ?thesis unfolding queueRetentionMain_def no Let_def by (auto simp: fun_eq_iff)
  qed (simp add: queueRetentionMain_def)
qed

lemma dry_run_report:
  assumes "policy re ev hist b"
  shows "retentionRun re True w = Some (Inr (preview re ev hist (nat b) True w), w)"
  using assms by (simp add: retentionRun_def policy_def Let_def)

text \<open>A run leaves nothing that it would take up.\<close>

lemma nothing_left:
  assumes "rt_lockedRound re = (\<lambda>_. False)" and "rt_lockedMatch re = (\<lambda>_. False)"
  shows "preview re ev hist n dry (purgedAll re hist (clearedAll re ev hist w)) =
     (preview re ev hist n dry w)\<lparr>rr_eventRowsEligible := 0, rr_eventBytesEligible := 0, rr_matchesEligible := 0\<rparr>"
proof -
  let ?w = "purgedAll re hist (clearedAll re ev hist w)"
  have fewer: "stale ev hist ?w r \<Longrightarrow> stale ev hist w r" for r
    by (auto simp: stale_def list_ex_iff retention_tables)
  have cleared: "\<not> stale ev hist w (clearedRound re ev hist w r)" for r
    by (simp add: clearedRound_def assms(1)) (simp add: stale_def)
  have "filter (stale ev hist ?w) (w_rounds ?w) = []"
    using fewer cleared by (fastforce simp: filter_empty_conv retention_tables(2))
  moreover have "filter (expired hist (w_now ?w)) (w_matches ?w) = []"
    by (simp add: filter_empty_conv retention_tables doomed_def assms(2))
  ultimately show ?thesis by (simp add: preview_def Let_def)
qed


subsection \<open>Example\<close>

lemma cli_needs_apply_witness:
  "(\<exists>out. matchRetentionMain (quietEnv (Some ''2'') id) (Inr ()) (Inr ()) [''node'', ''match-retention.cli.js''] archive = Some (out, archive))
   \<and> (\<exists>out. queueRetentionMain (\<lambda>_ _ jobs. (jobs, [])) (Inr ()) [''node'', ''queue-retention.cli.js'', ''--apply'', ''--force'']
        (\<lambda>_. \<lparr>rq_completed = [1], rq_failed = [2]\<rparr>) = (out, \<lambda>_. \<lparr>rq_completed = [1], rq_failed = [2]\<rparr>))"
  using cli_needs_apply [of "[''node'', ''match-retention.cli.js'']" "quietEnv (Some ''2'') id" "Inr ()" "Inr ()" archive]
    cli_needs_apply [of "[''node'', ''queue-retention.cli.js'', ''--apply'', ''--force'']" _ _ _ _ "\<lambda>_ _ jobs. (jobs, [])"
      "\<lambda>_. \<lparr>rq_completed = [1], rq_failed = [2]\<rparr>"]
  by simp


end
